(* ===== verification/VfsPrelude.thy ===== *)
theory VfsPrelude
  imports Main "HOL-Library.Word" "HOL-Library.Sublist"
begin

text \<open>
  Shared vocabulary of the development.

  \<^item> The C types the sources use: \<open>byte\<close> for \<^verbatim>\<open>unsigned char\<close>, \<open>uint32\<close>, \<open>uint64\<close>; a C
    \<^verbatim>\<open>char\<close> is HOL's eight bit \<open>char\<close>; a NUL terminated string is the list of the characters
    before the NUL.  A signed C \<^verbatim>\<open>int\<close> or \<^verbatim>\<open>off_t\<close> is an \<open>int\<close>; where a value is stored into a
    narrower object the truncation is written out with \<open>to_int32\<close>.
  \<^item> The functions of the C library that the sources call on strings: \<^verbatim>\<open>strstr\<close>, \<^verbatim>\<open>strchr\<close>,
    \<^verbatim>\<open>strrchr\<close>, \<^verbatim>\<open>strncmp\<close> against a whole needle, \<^verbatim>\<open>atoi\<close>, \<^verbatim>\<open>atol\<close>, and the decimal
    conversions of \<^verbatim>\<open>printf\<close>.  They return list positions in place of pointers.
  \<^item> The collections \<open>c_simps\<close> (evaluation of the above) and the generic list lemmas the
    components use.
\<close>

unbundle bit_operations_syntax

named_theorems c_simps \<open>evaluation rules for the C library functions\<close>

type_synonym byte = "8 word"
type_synonym uint16 = "16 word"
type_synonym uint32 = "32 word"
type_synonym uint64 = "64 word"

text \<open>Addresses of the nodes of the stores that the components keep.\<close>

type_synonym addr = nat

section \<open>Integers\<close>

definition to_int32 :: "int \<Rightarrow> int" where
  "to_int32 i = signed_take_bit 31 i"

lemma to_int32_id [c_simps]: "- (2 ^ 31) \<le> i \<Longrightarrow> i < 2 ^ 31 \<Longrightarrow> to_int32 i = i"
  by (simp add: to_int32_def signed_take_bit_int_eq_self)

definition to_int64 :: "int \<Rightarrow> int" where
  "to_int64 i = signed_take_bit 63 i"

lemma to_int64_id [c_simps]: "- (2 ^ 63) \<le> i \<Longrightarrow> i < 2 ^ 63 \<Longrightarrow> to_int64 i = i"
  by (simp add: to_int64_def signed_take_bit_int_eq_self)

text \<open>The value of a \<^verbatim>\<open>char\<close>, which is signed on the x86 targets of the makefiles.\<close>

definition schar :: "char \<Rightarrow> int" where
  "schar c = sint (of_char c :: byte)"

text \<open>The same value converted to \<^verbatim>\<open>unsigned int\<close>, as the C promotions do.\<close>

definition uint_of_char :: "char \<Rightarrow> uint32" where
  "uint_of_char c = word_of_int (schar c)"

section \<open>Strings\<close>

abbreviation NUL :: char where "NUL \<equiv> CHR 0x00"
abbreviation LF :: char where "LF \<equiv> CHR 0x0A"
abbreviation CR :: char where "CR \<equiv> CHR 0x0D"
abbreviation TAB :: char where "TAB \<equiv> CHR 0x09"
abbreviation SPACE :: char where "SPACE \<equiv> CHR 0x20"

text \<open>The C string held at the start of a character buffer.\<close>

definition cstr :: "string \<Rightarrow> string" where
  "cstr buf = takeWhile (\<lambda>c. c \<noteq> NUL) buf"

lemma cstr_append_NUL [simp]: "NUL \<notin> set s \<Longrightarrow> cstr (s @ NUL # r) = s"
  by (induction s) (auto simp: cstr_def)

lemma cstr_id [simp]: "NUL \<notin> set s \<Longrightarrow> cstr s = s"
  by (auto simp: cstr_def takeWhile_eq_all_conv)

lemma NUL_notin_cstr [simp]: "NUL \<notin> set (cstr s)"
  unfolding cstr_def by (auto dest: set_takeWhileD)

text \<open>What \<^verbatim>\<open>snprintf(buf, n, "%s", s)\<close> leaves in \<^verbatim>\<open>buf\<close>.\<close>

definition snprint :: "nat \<Rightarrow> string \<Rightarrow> string" where
  "snprint n s = take (n - 1) s"

lemma snprint_id [simp]: "length s < n \<Longrightarrow> snprint n s = s"
  by (simp add: snprint_def)

lemma length_snprint: "0 < n \<Longrightarrow> length (snprint n s) < n"
  by (simp add: snprint_def)

lemma set_snprint: "c \<in> set (snprint n s) \<Longrightarrow> c \<in> set s"
  by (auto simp: snprint_def dest: in_set_takeD)

text \<open>\<^verbatim>\<open>strncmp(p, s, strlen(p)) == 0\<close>.\<close>

definition starts_with :: "string \<Rightarrow> string \<Rightarrow> bool" where
  "starts_with p s \<longleftrightarrow> take (length p) s = p"

lemma starts_with_Nil [simp]: "starts_with [] s"
  by (simp add: starts_with_def)

lemma starts_with_Cons [simp]:
  "starts_with (c # p) s \<longleftrightarrow> (\<exists>t. s = c # t \<and> starts_with p t)"
  by (cases s) (auto simp: starts_with_def)

lemma starts_with_refl [simp]: "starts_with p p"
  by (simp add: starts_with_def)

lemma starts_with_append [simp]: "starts_with p (p @ s)"
  by (simp add: starts_with_def)

lemma starts_with_iff: "starts_with p s \<longleftrightarrow> (\<exists>t. s = p @ t)"
  by (induction p arbitrary: s) auto

text \<open>\<^verbatim>\<open>strstr\<close>: the position of the first occurrence of \<open>p\<close>, if any.\<close>

fun strstr :: "string \<Rightarrow> string \<Rightarrow> nat option" where
  "strstr [] p = (if p = [] then Some 0 else None)"
| "strstr (c # s) p = (if starts_with p (c # s) then Some 0 else map_option Suc (strstr s p))"

text \<open>\<^verbatim>\<open>strchr\<close> and \<^verbatim>\<open>strrchr\<close>.\<close>

fun strchr :: "string \<Rightarrow> char \<Rightarrow> nat option" where
  "strchr [] c = None"
| "strchr (d # s) c = (if d = c then Some 0 else map_option Suc (strchr s c))"

fun strrchr :: "string \<Rightarrow> char \<Rightarrow> nat option" where
  "strrchr [] c = None"
| "strrchr (d # s) c =
     (case strrchr s c of Some i \<Rightarrow> Some (Suc i) | None \<Rightarrow> if d = c then Some 0 else None)"

lemma strstr_at_start [simp]: "strstr (p @ s) p = Some 0"
  by (cases p; cases s) auto

lemma strstr_skip:
  "c \<notin> set a \<Longrightarrow> strstr (a @ s) (c # p) = map_option (\<lambda>i. length a + i) (strstr s (c # p))"
  by (induction a) (auto simp: map_option_case split: option.splits)

lemma strstr_found:
  "c \<notin> set a \<Longrightarrow> strstr (a @ (c # p) @ s) (c # p) = Some (length a)"
  by (subst strstr_skip, assumption, subst strstr_at_start) simp

lemma strstr_Some: "strstr s p = Some i \<Longrightarrow> i \<le> length s \<and> starts_with p (drop i s)"
  by (induction s arbitrary: i) (auto split: if_splits)

lemma strstr_Some_split: "strstr s p = Some i \<Longrightarrow> s = take i s @ p @ drop (i + length p) s"
proof -
  assume "strstr s p = Some i"
  then obtain t where "drop i s = p @ t"
    using strstr_Some starts_with_iff by blast
  then have "drop (i + length p) s = t"
    by (metis add.commute append_eq_conv_conj drop_drop)
  with \<open>drop i s = p @ t\<close> show ?thesis by (metis append_take_drop_id)
qed

lemma strstr_None: "strstr s p = None \<longleftrightarrow> (\<forall>a b. s \<noteq> a @ p @ b)"
proof (induction s)
  case Nil
  then show ?case by auto
next
  case (Cons c s)
  have "(\<exists>a b. c # s = a @ p @ b) \<longleftrightarrow> starts_with p (c # s) \<or> (\<exists>a b. s = a @ p @ b)"
    (is "?l \<longleftrightarrow> ?r")
  proof
    assume ?l
    then obtain a b where ab: "c # s = a @ p @ b" by blast
    show ?r
    proof (cases a)
      case Nil
      with ab show ?thesis by (auto simp: starts_with_iff)
    next
      case (Cons d a')
      with ab show ?thesis by auto
    qed
  next
    assume ?r
    then show ?l
      by (metis append_Cons append_Nil starts_with_iff)
  qed
  with Cons show ?case by auto
qed

lemma strchr_None [simp]: "strchr s c = None \<longleftrightarrow> c \<notin> set s"
  by (induction s) auto

lemma strchr_append [simp]: "c \<notin> set a \<Longrightarrow> strchr (a @ c # b) c = Some (length a)"
  by (induction a) auto

lemma strchr_Some_split:
  "strchr s c = Some i \<longleftrightarrow> i < length s \<and> s ! i = c \<and> c \<notin> set (take i s)"
proof (induction s arbitrary: i)
  case (Cons d s)
  then show ?case by (cases i) auto
qed simp

lemma strrchr_None [simp]: "strrchr s c = None \<longleftrightarrow> c \<notin> set s"
  by (induction s) (auto split: option.splits)

lemma strrchr_append [simp]: "c \<notin> set b \<Longrightarrow> strrchr (a @ c # b) c = Some (length a)"
proof (induction a)
  case Nil
  then show ?case using strrchr_None [of b c] by (simp split: option.split)
qed simp


definition to_lower :: "char \<Rightarrow> char" where
  "to_lower c = (if 65 \<le> (of_char c :: nat) \<and> (of_char c :: nat) \<le> 90 then char_of ((of_char c :: nat) + 32) else c)"

section \<open>Decimal numbers\<close>

definition isdigit :: "char \<Rightarrow> bool" where
  "isdigit c \<longleftrightarrow> 48 \<le> (of_char c :: nat) \<and> (of_char c :: nat) \<le> 57"

definition digit :: "nat \<Rightarrow> char" where
  "digit n = char_of (48 + n)"

definition digit_val :: "char \<Rightarrow> nat" where
  "digit_val c = of_char c - 48"

lemma isdigit_digit [simp]: "n < 10 \<Longrightarrow> isdigit (digit n)"
  by (simp add: isdigit_def digit_def)

lemma digit_val_digit [simp]: "n < 10 \<Longrightarrow> digit_val (digit n) = n"
  by (simp add: digit_val_def digit_def)

text \<open>\<^verbatim>\<open>printf\<close> with \<^verbatim>\<open>%lu\<close> and with \<^verbatim>\<open>%d\<close> or \<^verbatim>\<open>%ld\<close>.\<close>

fun dec_nat :: "nat \<Rightarrow> string" where
  "dec_nat n = (if n < 10 then [digit n] else dec_nat (n div 10) @ [digit (n mod 10)])"

declare dec_nat.simps [simp del, c_simps]

definition dec_int :: "int \<Rightarrow> string" where
  "dec_int i = (if i < 0 then CHR ''-'' # dec_nat (nat (- i)) else dec_nat (nat i))"

text \<open>The digits at the start of a string, read as a number on top of \<open>acc\<close>.\<close>

fun read_digits :: "nat \<Rightarrow> string \<Rightarrow> nat" where
  "read_digits acc [] = acc"
| "read_digits acc (c # s) = (if isdigit c then read_digits (10 * acc + digit_val c) s else acc)"

definition isspace :: "char \<Rightarrow> bool" where
  "isspace c \<longleftrightarrow> c \<in> {SPACE, TAB, LF, CHR 0x0B, CHR 0x0C, CR}"

text \<open>\<^verbatim>\<open>strtol\<close> in base ten, which saturates, and the two conversions built on it.\<close>

definition clamp64 :: "int \<Rightarrow> int" where
  "clamp64 i = max (- (2 ^ 63)) (min (2 ^ 63 - 1) i)"

definition atol :: "string \<Rightarrow> int" where
  "atol s =
     (case dropWhile isspace s of
        [] \<Rightarrow> 0
      | c # t \<Rightarrow>
          clamp64 (if c = CHR ''-'' then - int (read_digits 0 t)
                   else if c = CHR ''+'' then int (read_digits 0 t)
                   else int (read_digits 0 (c # t))))"

definition atoi :: "string \<Rightarrow> int" where
  "atoi s = to_int32 (atol s)"

lemma clamp64_id [simp]: "- (2 ^ 63) \<le> i \<Longrightarrow> i < 2 ^ 63 \<Longrightarrow> clamp64 i = i"
  by (simp add: clamp64_def)

lemma dec_nat_nonempty [simp]: "dec_nat n \<noteq> []"
  by (subst dec_nat.simps) simp

lemma dec_nat_digits: "c \<in> set (dec_nat n) \<Longrightarrow> isdigit c"
proof (induction n rule: dec_nat.induct)
  case (1 n)
  show ?case
  proof (cases "n < 10")
    case True
    with "1.prems" show ?thesis by (simp add: dec_nat.simps [of n])
  next
    case False
    with "1.prems" have "c \<in> set (dec_nat (n div 10)) \<or> c = digit (n mod 10)"
      by (auto simp: dec_nat.simps [of n])
    with False "1.IH" show ?thesis by auto
  qed
qed

lemma length_dec_nat: "n < 10 ^ Suc k \<Longrightarrow> length (dec_nat n) \<le> Suc k"
proof (induction k arbitrary: n)
  case 0
  then show ?case by (simp add: dec_nat.simps [of n])
next
  case (Suc k)
  then have "n div 10 < 10 ^ Suc k" by (simp add: less_mult_imp_div_less mult.commute)
  from Suc.IH [OF this] show ?case by (simp add: dec_nat.simps [of n])
qed

lemma read_digits_append:
  "(\<forall>c \<in> set s. isdigit c) \<Longrightarrow> read_digits acc (s @ t) = read_digits (read_digits acc s) t"
  by (induction s arbitrary: acc) auto

lemma read_dec_nat [simp]: "read_digits 0 (dec_nat n) = n"
proof (induction n rule: dec_nat.induct)
  case (1 n)
  show ?case
  proof (cases "n < 10")
    case True
    then show ?thesis by (simp add: dec_nat.simps [of n])
  next
    case False
    have "\<forall>c \<in> set (dec_nat (n div 10)). isdigit c" using dec_nat_digits by blast
    with False "1.IH" show ?thesis
      by (simp add: dec_nat.simps [of n] read_digits_append)
  qed
qed

lemma isdigit_not_sign:
  assumes "isdigit c"
  shows "\<not> isspace c" "c \<noteq> CHR ''-''" "c \<noteq> CHR ''+''"
  using assms by (auto simp: isdigit_def isspace_def)

lemma dec_nat_Cons: "\<exists>c t. dec_nat n = c # t \<and> isdigit c"
  by (metis dec_nat_digits dec_nat_nonempty list.exhaust list.set_intros(1))

lemma atol_dec_int:
  assumes "- (2 ^ 63) \<le> i" "i < 2 ^ 63"
  shows "atol (dec_int i) = i"
proof (cases "i < 0")
  case True
  have "\<not> isspace (CHR ''-'')" by (simp add: isspace_def)
  with True assms show ?thesis by (simp add: atol_def dec_int_def)
next
  case False
  obtain c t where ct: "dec_nat (nat i) = c # t" "isdigit c" using dec_nat_Cons by blast
  then have "read_digits 0 (c # t) = nat i" by (metis read_dec_nat)
  with False assms ct isdigit_not_sign [OF ct(2)] show ?thesis
    by (simp add: atol_def dec_int_def)
qed

lemma atoi_dec_int:
  assumes "- (2 ^ 31) \<le> i" "i < 2 ^ 31"
  shows "atoi (dec_int i) = i"
proof -
  have "atol (dec_int i) = i" using assms by (intro atol_dec_int) auto
  with assms show ?thesis by (simp add: atoi_def c_simps)
qed

lemma dec_int_chars: "c \<in> set (dec_int i) \<Longrightarrow> isdigit c \<or> c = CHR ''-''"
  by (auto simp: dec_int_def dest: dec_nat_digits split: if_splits)

lemma not_in_dec_int: "\<not> isdigit c \<Longrightarrow> c \<noteq> CHR ''-'' \<Longrightarrow> c \<notin> set (dec_int i)"
  using dec_int_chars by blast

section \<open>Lists\<close>

lemma removeAll_notin [simp]: "x \<notin> set xs \<Longrightarrow> removeAll x xs = xs"
  by (rule removeAll_id)

lemma distinct_removeAll_length:
  "distinct xs \<Longrightarrow> x \<in> set xs \<Longrightarrow> Suc (length (removeAll x xs)) = length xs"
  by (simp add: distinct_remove1_removeAll [symmetric] length_remove1)
     (use length_pos_if_in_set in fastforce)

lemma find_Some_in: "find P xs = Some x \<Longrightarrow> x \<in> set xs \<and> P x"
  by (induction xs) (auto split: if_splits)

text \<open>Two ways of cutting the same list.\<close>

lemma short_prefix:
  assumes "a @ x = h @ y" "length a < length h"
  shows "\<exists>r. h = a @ r \<and> r \<noteq> []"
proof -
  have "take (length a) h = a" using arg_cong [OF assms(1), of "take (length a)"] assms(2) by simp
  then show ?thesis using assms(2) by (intro exI [of _ "drop (length a) h"]) (metis append_take_drop_id drop_eq_Nil leD)
qed

lemma long_prefix:
  assumes "a @ x = h @ y" "length h \<le> length a"
  shows "\<exists>d. a = h @ d \<and> d @ x = y"
proof -
  have "take (length h) a = h" using arg_cong [OF assms(1), of "take (length h)"] assms(2) by simp
  then have "a = h @ drop (length h) a" by (metis append_take_drop_id)
  then show ?thesis using assms(1) by (metis append_assoc same_append_eq)
qed

end
