(* ===== verification/QueueFamily.thy ===== *)
theory QueueFamily
  imports VfsPrelude
begin

text \<open>
  The contract of a family of queues whose nodes are in at most one queue at a time: what
  \<^verbatim>\<open>list_add_head\<close>, \<^verbatim>\<open>list_add_tail\<close> and \<^verbatim>\<open>list_del_init\<close> promise the code that keeps its
  tasks, timers and connections on such queues.  It is interpreted on the pointer level lists of
  \<open>ListHead\<close> and on the queues of the components that use them.
\<close>

locale queue_family =
  fixes contents :: "'s \<Rightarrow> 'i \<Rightarrow> 'x list"
    and idx :: "'i \<Rightarrow> bool"
    and node :: "'s \<Rightarrow> 'x \<Rightarrow> bool"
    and add_tail :: "'x \<Rightarrow> 'i \<Rightarrow> 's \<Rightarrow> 's"
    and detach :: "'x \<Rightarrow> 's \<Rightarrow> 's"
    and valid :: "'s \<Rightarrow> bool"
  assumes detach_contents:
      "valid s \<Longrightarrow> node s x \<Longrightarrow> idx j \<Longrightarrow> contents (detach x s) j = removeAll x (contents s j)"
    and add_tail_contents:
      "valid s \<Longrightarrow> node s x \<Longrightarrow> idx i \<Longrightarrow> idx j \<Longrightarrow> (\<And>k. idx k \<Longrightarrow> x \<notin> set (contents s k)) \<Longrightarrow>
       contents (add_tail x i s) j = (if j = i then contents s i @ [x] else contents s j)"
    and valid_detach: "valid s \<Longrightarrow> node s x \<Longrightarrow> valid (detach x s)"
    and valid_add_tail:
      "valid s \<Longrightarrow> node s x \<Longrightarrow> idx i \<Longrightarrow> (\<And>k. idx k \<Longrightarrow> x \<notin> set (contents s k)) \<Longrightarrow>
       valid (add_tail x i s)"
    and node_detach: "valid s \<Longrightarrow> node s x \<Longrightarrow> node (detach x s) y = node s y"
    and node_add_tail: "valid s \<Longrightarrow> node s x \<Longrightarrow> idx i \<Longrightarrow> node (add_tail x i s) y = node s y"
    and valid_distinct: "valid s \<Longrightarrow> idx i \<Longrightarrow> distinct (contents s i)"
    and valid_disjoint:
      "valid s \<Longrightarrow> idx i \<Longrightarrow> idx j \<Longrightarrow> x \<in> set (contents s i) \<Longrightarrow> x \<in> set (contents s j) \<Longrightarrow> i = j"
    and valid_node: "valid s \<Longrightarrow> idx i \<Longrightarrow> x \<in> set (contents s i) \<Longrightarrow> node s x"
begin

text \<open>Taking the front of a queue, as every consumer of the program does.\<close>

lemma detach_front:
  assumes "valid s" "idx i" "contents s i = x # xs"
  shows "contents (detach x s) i = xs"
    and "\<And>j. idx j \<Longrightarrow> j \<noteq> i \<Longrightarrow> contents (detach x s) j = contents s j"
    and "\<And>j. idx j \<Longrightarrow> x \<notin> set (contents (detach x s) j)"
    and "valid (detach x s)"
proof -
  have n: "node s x" using assms valid_node [of s i x] by simp
  have "x \<notin> set xs" using valid_distinct [OF assms(1,2)] assms(3) by simp
  with n assms show "contents (detach x s) i = xs" by (simp add: detach_contents)
  show "contents (detach x s) j = contents s j" if "idx j" "j \<noteq> i" for j
  proof -
    have "x \<notin> set (contents s j)"
      using valid_disjoint [OF assms(1,2) that(1)] assms(3) that(2) by auto
    with n assms(1) that show ?thesis by (simp add: detach_contents)
  qed
  show "x \<notin> set (contents (detach x s) j)" if "idx j" for j
    using n assms that by (simp add: detach_contents)
  show "valid (detach x s)" by (rule valid_detach [OF assms(1) n])
qed

text \<open>Moving a node, wherever it is, to the end of a queue: \<^verbatim>\<open>list_del_init\<close>, then
  \<^verbatim>\<open>list_add_tail\<close>.\<close>

lemma requeue_contents:
  assumes "valid s" "node s x" "idx i" "idx j"
  shows "contents (add_tail x i (detach x s)) j =
           (if j = i then removeAll x (contents s j) @ [x] else removeAll x (contents s j))"
proof -
  have out: "x \<notin> set (contents (detach x s) k)" if "idx k" for k
    using assms that by (simp add: detach_contents)
  have "valid (detach x s)" "node (detach x s) x"
    using assms by (auto simp: valid_detach node_detach)
  then show ?thesis
    using assms out by (subst add_tail_contents) (auto simp: detach_contents)
qed

lemma valid_requeue:
  assumes "valid s" "node s x" "idx i"
  shows "valid (add_tail x i (detach x s))"
  using assms by (intro valid_add_tail valid_detach) (auto simp: node_detach detach_contents)

lemma requeue_linked:
  assumes "valid s" "node s x" "idx i"
  shows "(\<Union>j\<in>Collect idx. set (contents (add_tail x i (detach x s)) j)) =
         insert x (\<Union>j\<in>Collect idx. set (contents s j))"
  using assms by (auto simp: requeue_contents split: if_splits) metis

text \<open>First in, first out: what was appended is taken from the front in the same order.\<close>

lemma add_all_contents:
  assumes "valid s" "idx i" "distinct xs" "\<forall>x\<in>set xs. node s x"
    and "\<forall>x\<in>set xs. \<forall>k. idx k \<longrightarrow> x \<notin> set (contents s k)"
  shows "valid (fold (\<lambda>x. add_tail x i) xs s)
    \<and> contents (fold (\<lambda>x. add_tail x i) xs s) i = contents s i @ xs"
  using assms
proof (induction xs arbitrary: s)
  case (Cons x xs)
  let ?s = "add_tail x i s"
  have v: "valid ?s" using Cons.prems by (intro valid_add_tail) auto
  have c: "contents ?s k = (if k = i then contents s i @ [x] else contents s k)" if "idx k" for k
    using Cons.prems that by (intro add_tail_contents) auto
  have "valid (fold (\<lambda>x. add_tail x i) xs ?s)
    \<and> contents (fold (\<lambda>x. add_tail x i) xs ?s) i = contents ?s i @ xs"
    using Cons.prems v by (intro Cons.IH) (auto simp: node_add_tail c)
  with c Cons.prems(2) show ?case by simp
qed simp

lemma detach_prefix:
  assumes "valid s" "idx i" "contents s i = xs @ ys"
  shows "valid (fold detach xs s) \<and> contents (fold detach xs s) i = ys"
  using assms
proof (induction xs arbitrary: s)
  case (Cons x xs)
  then have "contents s i = x # (xs @ ys)" by simp
  from detach_front [OF Cons.prems(1,2) this] Cons.IH Cons.prems(2) show ?case by simp
qed simp

lemma fifo:
  assumes "valid s" "idx i" "contents s i = []" "distinct xs" "\<forall>x\<in>set xs. node s x"
    and "\<forall>x\<in>set xs. \<forall>k. idx k \<longrightarrow> x \<notin> set (contents s k)"
    and "xs = as @ b # bs"
  shows "\<exists>rest. contents (fold detach as (fold (\<lambda>x. add_tail x i) xs s)) i = b # rest"
proof -
  let ?s = "fold (\<lambda>x. add_tail x i) xs s"
  have "valid ?s" "contents ?s i = as @ b # bs"
    using add_all_contents [of s i xs] assms by auto
  with detach_prefix [OF _ assms(2)] show ?thesis by blast
qed

end

end
