(* ===== verification/ListHead.thy ===== *)
theory ListHead
  imports QueueFamily
begin

text \<open>
  The intrusive doubly linked lists of \<^verbatim>\<open>src/lib/list.h\<close>, at the level of the
  \<^verbatim>\<open>next\<close> and \<^verbatim>\<open>prev\<close> pointers.  Every queue, hash chain and pool of the program is
  such a list.  The store \<open>links\<close> maps the address of a \<^verbatim>\<open>list_head\<close> to its two pointers, and
  every operation writes them in the order of the C code.

  \<open>ring h p xs\<close> says that the list with head \<open>p\<close> links exactly the nodes \<open>xs\<close>, both ways round.
  \<open>rep\<close> lifts this to a family of lists with pairwise disjoint nodes and is the simulation
  relation to the functions \<open>q_add_head\<close>, \<open>q_add_tail\<close> and \<open>q_detach\<close> on lists, which the other
  theories use for their queues.
\<close>


record links =
  next_of :: "addr \<Rightarrow> addr"
  prev_of :: "addr \<Rightarrow> addr"

section \<open>The operations\<close>

definition set_next :: "addr \<Rightarrow> addr \<Rightarrow> links \<Rightarrow> links" where
  "set_next p v h = h\<lparr>next_of := (next_of h)(p := v)\<rparr>"

definition set_prev :: "addr \<Rightarrow> addr \<Rightarrow> links \<Rightarrow> links" where
  "set_prev p v h = h\<lparr>prev_of := (prev_of h)(p := v)\<rparr>"

definition INIT_LIST_HEAD :: "addr \<Rightarrow> links \<Rightarrow> links" where
  "INIT_LIST_HEAD p h = set_prev p p (set_next p p h)"

definition list_add_between :: "addr \<Rightarrow> addr \<Rightarrow> addr \<Rightarrow> links \<Rightarrow> links" where
  "list_add_between new1 prv nxt h =
     (let h = set_prev nxt new1 h;
          h = set_next new1 nxt h;
          h = set_prev new1 prv h
      in set_next prv new1 h)"

definition list_add_head :: "addr \<Rightarrow> addr \<Rightarrow> links \<Rightarrow> links" where
  "list_add_head new1 head h = list_add_between new1 head (next_of h head) h"

definition list_add_tail :: "addr \<Rightarrow> addr \<Rightarrow> links \<Rightarrow> links" where
  "list_add_tail new1 head h = list_add_between new1 (prev_of h head) head h"

definition list_del_between :: "addr \<Rightarrow> addr \<Rightarrow> links \<Rightarrow> links" where
  "list_del_between prv nxt h = set_next prv nxt (set_prev nxt prv h)"

text \<open>\<^verbatim>\<open>list_del\<close> leaves null pointers, here the address 0, in the entry.\<close>

definition list_del :: "addr \<Rightarrow> links \<Rightarrow> links" where
  "list_del entry h =
     (let h = list_del_between (prev_of h entry) (next_of h entry) h
      in set_prev entry 0 (set_next entry 0 h))"

definition list_del_init :: "addr \<Rightarrow> links \<Rightarrow> links" where
  "list_del_init entry h =
     INIT_LIST_HEAD entry (list_del_between (prev_of h entry) (next_of h entry) h)"

definition list_move :: "addr \<Rightarrow> addr \<Rightarrow> links \<Rightarrow> links" where
  "list_move entry head h =
     list_add_head entry head (list_del_between (prev_of h entry) (next_of h entry) h)"

definition list_move_tail :: "addr \<Rightarrow> addr \<Rightarrow> links \<Rightarrow> links" where
  "list_move_tail entry head h =
     list_add_tail entry head (list_del_between (prev_of h entry) (next_of h entry) h)"

definition list_empty :: "addr \<Rightarrow> links \<Rightarrow> bool" where
  "list_empty head h \<longleftrightarrow> next_of h head = head"

definition list_splice_raw :: "addr \<Rightarrow> addr \<Rightarrow> links \<Rightarrow> links" where
  "list_splice_raw l head h =
     (let first = next_of h l; last = prev_of h l; at = next_of h head;
          h = set_prev first head h;
          h = set_next head first h;
          h = set_next last at h
      in set_prev at last h)"

definition list_splice :: "addr \<Rightarrow> addr \<Rightarrow> links \<Rightarrow> links" where
  "list_splice l head h = (if \<not> list_empty l h then list_splice_raw l head h else h)"

definition list_splice_init :: "addr \<Rightarrow> addr \<Rightarrow> links \<Rightarrow> links" where
  "list_splice_init l head h =
     (if \<not> list_empty l h then INIT_LIST_HEAD l (list_splice_raw l head h) else h)"

text \<open>
  The loop macro \<^verbatim>\<open>list_for_each_entry_safe_l(pos, n, head, member)\<close>: \<open>n\<close> is read before the
  body runs, and again from the store the body left.  The body returns whether it breaks out of
  the loop.  The state holds the links, read with \<open>lk\<close>; fuel bounds the iterations.
\<close>

fun for_each_safe ::
  "nat \<Rightarrow> ('s \<Rightarrow> links) \<Rightarrow> addr \<Rightarrow> (addr \<Rightarrow> 's \<Rightarrow> bool \<times> 's) \<Rightarrow> addr \<Rightarrow> addr \<Rightarrow> 's \<Rightarrow> 's option" where
  "for_each_safe 0 lk head body pos n s = None"
| "for_each_safe (Suc fuel) lk head body pos n s =
     (if pos = head then Some s
      else case body pos s of
             (True, s') \<Rightarrow> Some s'
           | (False, s') \<Rightarrow> for_each_safe fuel lk head body n (next_of (lk s') n) s')"

definition list_for_each_entry_safe ::
  "nat \<Rightarrow> ('s \<Rightarrow> links) \<Rightarrow> addr \<Rightarrow> (addr \<Rightarrow> 's \<Rightarrow> bool \<times> 's) \<Rightarrow> 's \<Rightarrow> 's option" where
  "list_for_each_entry_safe fuel lk head body s =
     (let pos = next_of (lk s) head in for_each_safe fuel lk head body pos (next_of (lk s) pos) s)"

section \<open>Rings\<close>

fun linked :: "links \<Rightarrow> addr \<Rightarrow> addr list \<Rightarrow> addr \<Rightarrow> bool" where
  "linked h a [] z \<longleftrightarrow> next_of h a = z \<and> prev_of h z = a"
| "linked h a (x # xs) z \<longleftrightarrow> next_of h a = x \<and> prev_of h x = a \<and> linked h x xs z"

definition ring :: "links \<Rightarrow> addr \<Rightarrow> addr list \<Rightarrow> bool" where
  "ring h p xs \<longleftrightarrow> distinct (p # xs) \<and> linked h p xs p"

lemmas link_defs =
  set_next_def set_prev_def INIT_LIST_HEAD_def list_add_between_def list_del_between_def Let_def

lemma linked_append:
  "linked h a (xs @ x # ys) z \<longleftrightarrow> linked h a xs x \<and> linked h x ys z"
  by (induction xs arbitrary: a) auto

lemma linked_cong:
  assumes "\<And>n. n \<in> set (a # xs) \<Longrightarrow> next_of h' n = next_of h n"
    and "\<And>n. n \<in> set (xs @ [z]) \<Longrightarrow> prev_of h' n = prev_of h n"
  shows "linked h' a xs z = linked h a xs z"
  using assms by (induction xs arbitrary: a) auto

lemma ring_cong:
  assumes "\<And>n. n \<in> set (p # xs) \<Longrightarrow> next_of h' n = next_of h n \<and> prev_of h' n = prev_of h n"
  shows "ring h' p xs = ring h p xs"
  unfolding ring_def using assms by (subst linked_cong [of p xs h' h]) auto

lemma ring_keep:
  assumes "ring h p xs"
    and "\<And>n. n \<in> set (p # xs) \<Longrightarrow> next_of h' n = next_of h n \<and> prev_of h' n = prev_of h n"
  shows "ring h' p xs"
  using assms(1) ring_cong [OF assms(2)] by simp

lemma linked_ends:
  "linked h a xs z \<Longrightarrow> next_of h a = hd (xs @ [z]) \<and> prev_of h z = last (a # xs)"
  by (induction xs arbitrary: a) auto

lemma ring_next: "ring h p xs \<Longrightarrow> next_of h p = hd (xs @ [p])"
  by (auto simp: ring_def dest: linked_ends)

lemma ring_prev: "ring h p xs \<Longrightarrow> prev_of h p = last (p # xs)"
  by (auto simp: ring_def dest: linked_ends)

lemma list_empty_ring: "ring h p xs \<Longrightarrow> list_empty p h \<longleftrightarrow> xs = []"
  by (cases xs) (auto simp: list_empty_def ring_next ring_def)

lemma ring_INIT: "ring (INIT_LIST_HEAD p h) p []"
  by (simp add: ring_def link_defs)

text \<open>Inserting between two neighbours.\<close>

lemma linked_insert:
  assumes "linked h a (xs @ ys) z"
    and "distinct (a # xs)" "distinct (ys @ [z])" "set (a # xs) \<inter> set ys = {}" "z \<notin> set xs"
    and "new1 \<notin> set (a # xs @ ys @ [z])"
  shows "linked (list_add_between new1 (last (a # xs)) (hd (ys @ [z])) h) a (xs @ new1 # ys) z"
  using assms
proof (induction xs arbitrary: a)
  case Nil
  show ?case
  proof (cases ys)
    case Nil
    with Nil.prems show ?thesis by (auto simp: link_defs)
  next
    case (Cons y ys')
    let ?h = "list_add_between new1 a y h"
    have "linked ?h y ys' z = linked h y ys' z"
      by (rule linked_cong) (use Nil.prems Cons in \<open>auto simp: link_defs\<close>)
    with Nil.prems Cons show ?thesis by (auto simp: link_defs)
  qed
next
  case (Cons x xs)
  let ?h = "list_add_between new1 (last (x # xs)) (hd (ys @ [z])) h"
  have "linked ?h x (xs @ new1 # ys) z"
    by (rule Cons.IH) (use Cons.prems in auto)
  moreover have "next_of ?h a = x" "prev_of ?h x = a"
    using Cons.prems by (cases ys; auto simp: link_defs)+
  ultimately show ?case by simp
qed


lemma ring_add_head:
  assumes "ring h p xs" "x \<notin> set (p # xs)"
  shows "ring (list_add_head x p h) p (x # xs)"
  using assms linked_insert [of h p "[]" xs p x] ring_next [OF assms(1)]
  by (auto simp: ring_def list_add_head_def)

lemma ring_add_tail:
  assumes "ring h p xs" "x \<notin> set (p # xs)"
  shows "ring (list_add_tail x p h) p (xs @ [x])"
  using assms linked_insert [of h p xs "[]" p x] ring_prev [OF assms(1)]
  by (auto simp: ring_def list_add_tail_def)

text \<open>Unlinking a node that stands between \<open>xs\<close> and \<open>ys\<close>.\<close>

lemma linked_delete:
  assumes "linked h a (xs @ x # ys) z"
    and "distinct (a # xs @ x # ys)" "z \<notin> set (xs @ x # ys)"
  shows "linked (list_del_between (prev_of h x) (next_of h x) h) a (xs @ ys) z"
  using assms
proof (induction xs arbitrary: a)
  case Nil
  show ?case
  proof (cases ys)
    case Nil
    with Nil.prems show ?thesis by (auto simp: link_defs)
  next
    case (Cons y ys')
    let ?h = "list_del_between (prev_of h x) (next_of h x) h"
    have "linked ?h y ys' z = linked h y ys' z"
      by (rule linked_cong) (use Nil.prems Cons in \<open>auto simp: link_defs\<close>)
    with Nil.prems Cons show ?thesis by (auto simp: link_defs)
  qed
next
  case (Cons b xs)
  let ?h = "list_del_between (prev_of h x) (next_of h x) h"
  have "linked ?h b (xs @ ys) z"
    by (rule Cons.IH) (use Cons.prems in auto)
  moreover have "linked h b xs x" "linked h x ys z"
    using Cons.prems by (auto simp: linked_append)
  then have "prev_of h x = last (b # xs)" "next_of h x = hd (ys @ [z])"
    by (auto dest: linked_ends)
  then have "next_of ?h a = b" "prev_of ?h b = a"
    using Cons.prems by (cases ys; auto simp: link_defs)+
  ultimately show ?case by simp
qed

lemma linked_update_other:
  assumes "linked h a xs z" "x \<notin> set (a # xs)" "x \<noteq> z"
  shows "linked (INIT_LIST_HEAD x h) a xs z"
    and "linked (set_prev x v (set_next x w h)) a xs z"
  by (subst linked_cong [of a xs _ h z], use assms in \<open>auto simp: link_defs\<close>)+

lemma ring_del_init:
  assumes "ring h p xs" "x \<in> set xs"
  shows "ring (list_del_init x h) p (removeAll x xs)"
proof -
  from assms(2) obtain ys zs where xs: "xs = ys @ x # zs" by (meson split_list)
  with assms(1) have d: "distinct (p # ys @ x # zs)" and l: "linked h p (ys @ x # zs) p"
    by (auto simp: ring_def)
  have "linked (list_del_between (prev_of h x) (next_of h x) h) p (ys @ zs) p"
    by (rule linked_delete [OF l]) (use d in auto)
  moreover have "removeAll x xs = ys @ zs" using xs d by auto
  ultimately show ?thesis
    using d xs by (auto simp: ring_def list_del_init_def intro: linked_update_other)
qed

lemma ring_del_init_self: "ring (list_del_init x h) x []"
  by (simp add: list_del_init_def ring_INIT)

lemma ring_del_init_alone:
  assumes "ring h x []"
  shows "list_del_init x h = h"
  using assms by (auto simp: ring_def list_del_init_def link_defs intro!: links.equality)

text \<open>
  Which pointers an operation writes: those of the entry and of its neighbours, all of which
  lie in the list concerned.
\<close>

lemma ring_neighbours:
  assumes "ring h p xs" "x \<in> set (p # xs)"
  shows "next_of h x \<in> set (p # xs)" "prev_of h x \<in> set (p # xs)"
proof -
  have "next_of h x \<in> set (p # xs) \<and> prev_of h x \<in> set (p # xs)"
  proof (cases "x = p")
    case True
    with ring_next [OF assms(1)] ring_prev [OF assms(1)] show ?thesis by (cases xs) auto
  next
    case False
    with assms obtain ys zs where "xs = ys @ x # zs" by (meson set_ConsD split_list)
    with assms(1) have "linked h p ys x" "linked h x zs p" and xs: "xs = ys @ x # zs"
      by (auto simp: ring_def linked_append)
    then have "prev_of h x = last (p # ys)" "next_of h x = hd (zs @ [p])"
      by (auto dest: linked_ends)
    moreover have "last (p # ys) \<in> set (p # ys)" "hd (zs @ [p]) \<in> set (p # zs)"
      by (rule last_in_set, simp) (cases zs; simp)
    ultimately show ?thesis using xs by auto
  qed
  then show "next_of h x \<in> set (p # xs)" "prev_of h x \<in> set (p # xs)" by auto
qed

lemma list_add_head_frame:
  assumes "ring h p xs" "n \<notin> set (p # xs)" "n \<noteq> x"
  shows "next_of (list_add_head x p h) n = next_of h n \<and> prev_of (list_add_head x p h) n = prev_of h n"
  using assms ring_neighbours [OF assms(1), of p] by (auto simp: list_add_head_def link_defs)

lemma list_add_tail_frame:
  assumes "ring h p xs" "n \<notin> set (p # xs)" "n \<noteq> x"
  shows "next_of (list_add_tail x p h) n = next_of h n \<and> prev_of (list_add_tail x p h) n = prev_of h n"
  using assms ring_neighbours [OF assms(1), of p] by (auto simp: list_add_tail_def link_defs)

lemma list_del_init_frame:
  assumes "ring h p xs" "x \<in> set (p # xs)" "n \<notin> set (p # xs)"
  shows "next_of (list_del_init x h) n = next_of h n \<and> prev_of (list_del_init x h) n = prev_of h n"
  using assms ring_neighbours [OF assms(1,2)] by (auto simp: list_del_init_def link_defs)

lemmas ring_frame = list_add_head_frame list_add_tail_frame list_del_init_frame


text \<open>\<^verbatim>\<open>list_move\<close> and \<^verbatim>\<open>list_move_tail\<close> leave the entry's own pointers alone before they
  overwrite them, so they agree with unlinking and adding.\<close>

lemma list_move_tail_eq:
  "x \<noteq> p \<Longrightarrow> list_move_tail x p h = list_add_tail x p (list_del_init x h)"
  by (rule links.equality)
     (auto simp: list_move_tail_def list_add_tail_def list_del_init_def link_defs fun_eq_iff)

lemma list_move_eq:
  "x \<noteq> p \<Longrightarrow> list_move x p h = list_add_head x p (list_del_init x h)"
  by (rule links.equality)
     (auto simp: list_move_def list_add_head_def list_del_init_def link_defs fun_eq_iff)

text \<open>Splicing: the end of one chain is redirected to the start of the other.\<close>

lemma linked_retarget:
  assumes "linked h a xs z" "distinct (a # xs)" "z' \<notin> set xs"
  shows "linked (set_prev z' (last (a # xs)) (set_next (last (a # xs)) z' h)) a xs z'"
  using assms
proof (induction xs arbitrary: a)
  case Nil
  then show ?case by (simp add: link_defs)
next
  case (Cons x xs)
  let ?h = "set_prev z' (last (x # xs)) (set_next (last (x # xs)) z' h)"
  have "linked ?h x xs z'" by (rule Cons.IH) (use Cons.prems in auto)
  moreover have "a \<noteq> last (x # xs)" using Cons.prems(2) last_in_set [of "x # xs"] by auto
  then have "next_of ?h a = x" "prev_of ?h x = a" using Cons.prems by (auto simp: link_defs)
  ultimately show ?case by simp
qed

lemma ring_splice:
  assumes l: "ring h l ys" and p: "ring h p xs" and disj: "set (l # ys) \<inter> set (p # xs) = {}"
  shows "ring (list_splice l p h) p (ys @ xs)"
proof (cases ys)
  case Nil
  with l p show ?thesis by (simp add: list_splice_def list_empty_ring)
next
  case (Cons y ys')
  let ?t = "last ys" and ?at = "hd (xs @ [p])"
  let ?h1 = "set_next p y (set_prev y p h)"
  let ?h = "set_prev ?at ?t (set_next ?t ?at ?h1)"
  have lin: "linked h y ys' l" and d: "distinct (y # ys')" "distinct (p # xs)"
    using l p Cons by (auto simp: ring_def)
  have ends: "next_of h l = y" "prev_of h l = ?t" "next_of h p = ?at"
    using ring_next [OF l] ring_prev [OF l] ring_next [OF p] Cons by auto
  have eq: "list_splice l p h = ?h"
    using list_empty_ring [OF l] Cons ends
    by (simp add: list_splice_def list_splice_raw_def Let_def)
  have at: "?at \<in> set (p # xs)" by (cases xs) auto
  have t: "?t \<in> set ys" using Cons by simp
  have "linked ?h1 y ys' l"
    by (subst linked_cong [of y ys' _ h]) (use lin d disj Cons l in \<open>auto simp: link_defs ring_def\<close>)
  moreover have "?at \<notin> set ys'" using at disj Cons by auto
  ultimately have "linked ?h y ys' ?at"
    using linked_retarget [of ?h1 y ys' l ?at] d Cons by auto
  moreover have "next_of ?h p = y" "prev_of ?h y = p"
    using disj at t Cons by (auto simp: link_defs)
  ultimately have A: "linked ?h p ys ?at" using Cons by simp
  show ?thesis
  proof (cases xs)
    case Nil
    with A eq d disj p l Cons show ?thesis by (auto simp: ring_def)
  next
    case (Cons x xs')
    have "linked ?h x xs' p = linked h x xs' p"
      by (rule linked_cong) (use disj d t Cons \<open>ys = y # ys'\<close> in \<open>auto simp: link_defs\<close>)
    with p Cons have "linked ?h x xs' p" by (auto simp: ring_def)
    with A Cons have "linked ?h p (ys @ xs) p" by (simp add: linked_append)
    with eq d disj l Cons show ?thesis by (auto simp: ring_def)
  qed
qed

section \<open>Families of lists\<close>

text \<open>
  The lists of a component: \<open>H\<close> are the heads, \<open>N\<close> the nodes, and \<open>q\<close> gives the contents of
  each list.  A node is in at most one of the lists, and a node in none of them is linked to
  itself, as \<^verbatim>\<open>INIT_LIST_HEAD\<close> and \<^verbatim>\<open>list_del_init\<close> leave it.
\<close>

type_synonym queues = "addr \<Rightarrow> addr list"

definition q_add_head :: "addr \<Rightarrow> addr \<Rightarrow> queues \<Rightarrow> queues" where
  "q_add_head x i q = q(i := x # q i)"

definition q_add_tail :: "addr \<Rightarrow> addr \<Rightarrow> queues \<Rightarrow> queues" where
  "q_add_tail x i q = q(i := q i @ [x])"

definition q_detach :: "addr \<Rightarrow> queues \<Rightarrow> queues" where
  "q_detach x q = (\<lambda>i. removeAll x (q i))"

definition separate :: "addr set \<Rightarrow> addr set \<Rightarrow> queues \<Rightarrow> bool" where
  "separate H N q \<longleftrightarrow>
     H \<inter> N = {} \<and> (\<forall>i\<in>H. set (q i) \<subseteq> N) \<and> (\<forall>i\<in>H. \<forall>j\<in>H. i \<noteq> j \<longrightarrow> set (q i) \<inter> set (q j) = {})"

definition rep :: "addr set \<Rightarrow> addr set \<Rightarrow> links \<Rightarrow> queues \<Rightarrow> bool" where
  "rep H N h q \<longleftrightarrow>
     separate H N q \<and> (\<forall>i\<in>H. ring h i (q i))
     \<and> (\<forall>x\<in>N. (\<forall>i\<in>H. x \<notin> set (q i)) \<longrightarrow> ring h x [])"

lemmas q_defs = q_add_head_def q_add_tail_def q_detach_def

lemma q_detach_idle: "(\<forall>i. x \<notin> set (q i)) \<Longrightarrow> q_detach x q = q"
  by (auto simp: q_detach_def)

lemma rep_ring: "rep H N h q \<Longrightarrow> i \<in> H \<Longrightarrow> ring h i (q i)"
  by (simp add: rep_def)

lemma rep_alone: "rep H N h q \<Longrightarrow> x \<in> N \<Longrightarrow> (\<forall>i\<in>H. x \<notin> set (q i)) \<Longrightarrow> ring h x []"
  by (simp add: rep_def)

lemma rep_other_list:
  assumes "rep H N h q" "i \<in> H" "j \<in> H" "i \<noteq> j" "n \<in> set (j # q j)"
  shows "n \<notin> set (i # q i)"
  using assms unfolding rep_def separate_def by (metis IntI emptyE set_ConsD subsetD)

lemma separateI:
  assumes "H \<inter> N = {}" "\<And>i. i \<in> H \<Longrightarrow> set (q i) \<subseteq> N"
    and "\<And>i j y. i \<in> H \<Longrightarrow> j \<in> H \<Longrightarrow> y \<in> set (q i) \<Longrightarrow> y \<in> set (q j) \<Longrightarrow> i = j"
  shows "separate H N q"
  unfolding separate_def using assms by blast

lemma separateD:
  assumes "separate H N q"
  shows "H \<inter> N = {}" "i \<in> H \<Longrightarrow> y \<in> set (q i) \<Longrightarrow> y \<in> N"
    and "i \<in> H \<Longrightarrow> j \<in> H \<Longrightarrow> y \<in> set (q i) \<Longrightarrow> y \<in> set (q j) \<Longrightarrow> i = j"
  using assms unfolding separate_def by blast+

lemma separate_insert:
  assumes s: "separate H N q" and x: "x \<in> N" "\<forall>j\<in>H. x \<notin> set (q j)"
    and ys: "set ys = insert x (set (q i))"
  shows "separate H N (q(i := ys))"
proof (rule separateI)
  show "H \<inter> N = {}" by (rule separateD(1) [OF s])
  show "set ((q(i := ys)) j) \<subseteq> N" if "j \<in> H" for j
    using separateD(2) [OF s that] x ys by auto
  show "j = k" if "j \<in> H" "k \<in> H" "y \<in> set ((q(i := ys)) j)" "y \<in> set ((q(i := ys)) k)" for j k y
  proof (rule ccontr)
    assume "j \<noteq> k"
    with that x ys have "y \<in> set (q j)" "y \<in> set (q k)" by (auto split: if_splits)
    with separateD(3) [OF s] that \<open>j \<noteq> k\<close> show False by blast
  qed
qed

lemma separate_detach: "separate H N q \<Longrightarrow> separate H N (q_detach x q)"
  by (rule separateI) (auto simp: q_detach_def dest: separateD)

text \<open>Adding a detached node at either end.\<close>

lemma rep_add:
  assumes r: "rep H N h q" and i: "i \<in> H" and x: "x \<in> N" "\<forall>j\<in>H. x \<notin> set (q j)"
    and ring': "ring h' i ys" and ys: "set ys = insert x (set (q i))"
    and frame: "\<And>n. n \<notin> set (i # q i) \<Longrightarrow> n \<noteq> x \<Longrightarrow>
                  next_of h' n = next_of h n \<and> prev_of h' n = prev_of h n"
  shows "rep H N h' (q(i := ys))"
proof -
  have sep: "separate H N (q(i := ys))"
    using r i x ys by (intro separate_insert) (auto simp: rep_def)
  have "ring h' j ((q(i := ys)) j)" if "j \<in> H" for j
  proof (cases "j = i")
    case True
    with ring' show ?thesis by simp
  next
    case False
    have "next_of h' n = next_of h n \<and> prev_of h' n = prev_of h n" if "n \<in> set (j # q j)" for n
    proof (rule frame)
      show "n \<notin> set (i # q i)" using rep_other_list [OF r i \<open>j \<in> H\<close>] False that by metis
      show "n \<noteq> x" using that x r \<open>j \<in> H\<close> by (auto simp: rep_def separate_def)
    qed
    with ring_keep [OF rep_ring [OF r that]] have "ring h' j (q j)" by blast
    with False show ?thesis by simp
  qed
  moreover have "ring h' y []" if "y \<in> N" "\<forall>j\<in>H. y \<notin> set ((q(i := ys)) j)" for y
  proof -
    have ne: "y \<noteq> x" "y \<notin> set (i # q i)" and out: "\<forall>j\<in>H. y \<notin> set (q j)"
      using that i ys r by (auto simp: rep_def separate_def split: if_splits)
    show ?thesis
      by (rule ring_keep [OF rep_alone [OF r \<open>y \<in> N\<close> out]]) (use frame [of y] ne in simp)
  qed
  ultimately show ?thesis using sep by (simp add: rep_def)
qed

lemma rep_add_head:
  assumes "rep H N h q" "i \<in> H" "x \<in> N" "\<forall>j\<in>H. x \<notin> set (q j)"
  shows "rep H N (list_add_head x i h) (q_add_head x i q)"
  unfolding q_add_head_def
proof (rule rep_add [OF assms])
  have "x \<notin> set (i # q i)" using assms by (auto simp: rep_def separate_def)
  then show "ring (list_add_head x i h) i (x # q i)"
    by (rule ring_add_head [OF rep_ring [OF assms(1,2)]])
qed (use list_add_head_frame [OF rep_ring [OF assms(1,2)]] in auto)

lemma rep_add_tail:
  assumes "rep H N h q" "i \<in> H" "x \<in> N" "\<forall>j\<in>H. x \<notin> set (q j)"
  shows "rep H N (list_add_tail x i h) (q_add_tail x i q)"
  unfolding q_add_tail_def
proof (rule rep_add [OF assms])
  have "x \<notin> set (i # q i)" using assms by (auto simp: rep_def separate_def)
  then show "ring (list_add_tail x i h) i (q i @ [x])"
    by (rule ring_add_tail [OF rep_ring [OF assms(1,2)]])
qed (use list_add_tail_frame [OF rep_ring [OF assms(1,2)]] in auto)

text \<open>Unlinking a node, wherever it is.\<close>

lemma rep_del_init_member:
  assumes r: "rep H N h q" and i: "i \<in> H" and x: "x \<in> set (q i)"
  shows "rep H N (list_del_init x h) (q_detach x q)"
proof -
  let ?h = "list_del_init x h"
  note ri = rep_ring [OF r i]
  have frame: "next_of ?h n = next_of h n \<and> prev_of ?h n = prev_of h n" if "n \<notin> set (i # q i)" for n
    using list_del_init_frame [OF ri _ that] x by auto
  have sep: "separate H N (q_detach x q)"
    using r by (intro separate_detach) (simp add: rep_def)
  have "ring ?h j (q_detach x q j)" if j: "j \<in> H" for j
  proof (cases "j = i")
    case True
    with ring_del_init [OF ri x] show ?thesis by (simp add: q_detach_def)
  next
    case False
    then have "x \<notin> set (q j)" using rep_other_list [OF r j i _ ] x by fastforce
    then have "q_detach x q j = q j" by (simp add: q_detach_def)
    moreover have "n \<notin> set (i # q i)" if "n \<in> set (j # q j)" for n
      using rep_other_list [OF r i j] False that by metis
    then have "ring ?h j (q j)"
      using ring_keep [OF rep_ring [OF r j]] frame by blast
    ultimately show ?thesis by simp
  qed
  moreover have "ring ?h y []" if y: "y \<in> N" "\<forall>j\<in>H. y \<notin> set (q_detach x q j)" for y
  proof (cases "y = x")
    case True
    then show ?thesis by (simp add: ring_del_init_self)
  next
    case False
    with y have out: "\<forall>j\<in>H. y \<notin> set (q j)" by (auto simp: q_detach_def)
    with i y r have "y \<notin> set (i # q i)" by (auto simp: rep_def separate_def)
    show ?thesis
      by (rule ring_keep [OF rep_alone [OF r y(1) out]])
         (use frame [OF \<open>y \<notin> set (i # q i)\<close>] in simp)
  qed
  ultimately show ?thesis using sep by (simp add: rep_def)
qed

lemma rep_cong_on:
  assumes "rep H N h q" "\<And>i. i \<in> H \<Longrightarrow> q' i = q i"
  shows "rep H N h q'"
  using assms by (simp add: rep_def separate_def)

lemma rep_del_init:
  assumes r: "rep H N h q" and x: "x \<in> N"
  shows "rep H N (list_del_init x h) (q_detach x q)"
proof (cases "\<exists>i\<in>H. x \<in> set (q i)")
  case True
  then show ?thesis using rep_del_init_member [OF r] by blast
next
  case False
  then have "list_del_init x h = h"
    using rep_alone [OF r x] ring_del_init_alone by blast
  with False show ?thesis
    by (auto intro: rep_cong_on [OF r] simp: q_detach_def)
qed


section \<open>The loops\<close>

text \<open>
  A safe loop over a list.  \<open>I\<close> is the loop invariant, with the nodes still to visit; it has to
  give the successor of the current node and has to survive a body that may unlink that node
  and link it elsewhere.  The loop then ends, and has run the body once on each node, in order.
\<close>

lemma for_each_safe_fold:
  assumes nxt: "\<And>x bs s. I (x # bs) s \<Longrightarrow> x \<noteq> head \<and> next_of (lk s) x = hd (bs @ [head])"
    and body: "\<And>x bs s. I (x # bs) s \<Longrightarrow> body x s = (False, step x s) \<and> I bs (step x s)"
    and "I xs s" "length xs < fuel" "pos = hd (xs @ [head])" "xs \<noteq> [] \<longrightarrow> n = next_of (lk s) pos"
  shows "for_each_safe fuel lk head body pos n s = Some (fold step xs s) \<and> I [] (fold step xs s)"
  using assms(3-)
proof (induction xs arbitrary: fuel pos n s)
  case Nil
  then obtain k where "fuel = Suc k" by (cases fuel) auto
  with Nil show ?case by simp
next
  case (Cons x xs)
  then obtain k where k: "fuel = Suc k" "length xs < k" by (cases fuel) auto
  from Cons.prems have pos: "pos = x" and n: "n = hd (xs @ [head])" and "x \<noteq> head"
    using nxt [OF Cons.prems(1)] by auto
  from body [OF Cons.prems(1)] have b: "body x s = (False, step x s)" and I': "I xs (step x s)"
    by auto
  have "for_each_safe k lk head body n (next_of (lk (step x s)) n) (step x s)
          = Some (fold step xs (step x s)) \<and> I [] (fold step xs (step x s))"
    by (rule Cons.IH) (use I' k n in auto)
  with b pos k \<open>x \<noteq> head\<close> show ?case by simp
qed

lemma list_for_each_entry_safe_fold:
  assumes "\<And>x bs s. I (x # bs) s \<Longrightarrow> x \<noteq> head \<and> next_of (lk s) x = hd (bs @ [head])"
    and "\<And>x bs s. I (x # bs) s \<Longrightarrow> body x s = (False, step x s) \<and> I bs (step x s)"
    and "I xs s" "next_of (lk s) head = hd (xs @ [head])" "length xs < fuel"
  shows "list_for_each_entry_safe fuel lk head body s = Some (fold step xs s)
    \<and> I [] (fold step xs s)"
  unfolding list_for_each_entry_safe_def Let_def
  by (rule for_each_safe_fold [where I = I, OF assms(1,2) assms(3)]) (use assms(4,5) in auto)

text \<open>A loop that only reads: it sees the nodes of the ring in order.\<close>

definition collect_body :: "addr \<Rightarrow> links \<times> addr list \<Rightarrow> bool \<times> (links \<times> addr list)" where
  "collect_body x s = (False, (fst s, snd s @ [x]))"

lemma fold_collect: "fold (\<lambda>x s. (fst s, snd s @ [x])) xs (h, acc) = (h, acc @ xs)"
  by (induction xs arbitrary: acc) auto

lemma ring_visit:
  assumes r: "ring h p xs" and f: "length xs < fuel"
  shows "list_for_each_entry_safe fuel fst p collect_body (h, []) = Some (h, xs)"
proof -
  let ?I = "\<lambda>bs s. fst s = h \<and> (\<exists>as. xs = as @ bs)"
  have "list_for_each_entry_safe fuel fst p collect_body (h, [])
          = Some (fold (\<lambda>x s. (fst s, snd s @ [x])) xs (h, []))
        \<and> ?I [] (fold (\<lambda>x s. (fst s, snd s @ [x])) xs (h, []))"
  proof (rule list_for_each_entry_safe_fold [where I = ?I])
    fix x bs and s :: "links \<times> addr list"
    assume "?I (x # bs) s"
    then obtain as where "fst s = h" and xs: "xs = as @ x # bs" by auto
    moreover from r xs have "linked h x bs p" "x \<noteq> p" by (auto simp: ring_def linked_append)
    ultimately show "x \<noteq> p \<and> next_of (fst s) x = hd (bs @ [p])"
      by (auto dest: linked_ends)
  next
    fix x bs and s :: "links \<times> addr list"
    assume "?I (x # bs) s"
    then show "collect_body x s = (False, (fst s, snd s @ [x])) \<and> ?I bs (fst s, snd s @ [x])"
      by (auto simp: collect_body_def)
  qed (use ring_next [OF r] f in auto)
  then show ?thesis by (simp add: fold_collect)
qed

text \<open>
  The loop that takes each node of one list and appends it to another: \<^verbatim>\<open>list_del_init\<close> and
  \<^verbatim>\<open>list_add_tail\<close> on the current node, as in \<^verbatim>\<open>scan_pend_list\<close> of \<^verbatim>\<open>vfs_so.c\<close>.
\<close>

definition move_body :: "addr \<Rightarrow> addr \<Rightarrow> links \<Rightarrow> bool \<times> links" where
  "move_body dst x h = (False, list_add_tail x dst (list_del_init x h))"

lemma rep_requeue:
  assumes "rep H N h q" "x \<in> N" "i \<in> H"
  shows "rep H N (list_add_tail x i (list_del_init x h)) (q_add_tail x i (q_detach x q))"
  by (rule rep_add_tail [OF rep_del_init [OF assms(1,2)] assms(3,2)]) (simp add: q_detach_def)

lemma rep_move_all:
  assumes r: "rep H N h q" and ij: "src \<in> H" "dst \<in> H" "src \<noteq> dst" and f: "length (q src) < fuel"
  shows "\<exists>h'. list_for_each_entry_safe fuel id src (move_body dst) h = Some h'
           \<and> rep H N h' (q(src := [], dst := q dst @ q src))"
proof -
  let ?st = "\<lambda>x h. list_add_tail x dst (list_del_init x h)"
  let ?I = "\<lambda>bs h'. \<exists>as. q src = as @ bs \<and> rep H N h' (q(src := bs, dst := q dst @ as))"
  have "list_for_each_entry_safe fuel id src (move_body dst) h = Some (fold ?st (q src) h)
    \<and> ?I [] (fold ?st (q src) h)"
  proof (rule list_for_each_entry_safe_fold [where I = ?I])
    fix x bs h'
    assume "?I (x # bs) h'"
    then obtain as where "rep H N h' (q(src := x # bs, dst := q dst @ as))" by blast
    from rep_ring [OF this ij(1)] ij(3) have "ring h' src (x # bs)" by simp
    then show "x \<noteq> src \<and> next_of (id h') x = hd (bs @ [src])"
      by (auto simp: ring_def dest: linked_ends)
  next
    fix x bs h'
    assume "?I (x # bs) h'"
    then obtain as where as: "q src = as @ x # bs"
      and r': "rep H N h' (q(src := x # bs, dst := q dst @ as))" (is "rep _ _ _ ?q") by blast
    have sep: "separate H N ?q" using r' by (simp add: rep_def)
    have x: "x \<in> N" "x \<notin> set bs"
      using separateD(2) [OF sep ij(1), of x] rep_ring [OF r' ij(1)] ij(3) by (auto simp: ring_def)
    have "rep H N (?st x h') (q(src := bs, dst := q dst @ as @ [x]))"
    proof (rule rep_cong_on [OF rep_requeue [OF r' x(1) ij(2)]])
      fix i assume "i \<in> H"
      have "x \<notin> set (?q i)" if "i \<noteq> src"
        using separateD(3) [OF sep \<open>i \<in> H\<close> ij(1), of x] that ij(3) by auto
      then show "(q(src := bs, dst := q dst @ as @ [x])) i = q_add_tail x dst (q_detach x ?q) i"
        using x(2) ij(3) by (auto simp: q_defs split: if_splits)
    qed
    with as show "move_body dst x h' = (False, ?st x h') \<and> ?I bs (?st x h')"
      by (auto simp: move_body_def)
  qed (use r f ring_next [OF rep_ring [OF r ij(1)]] in \<open>auto simp: fun_upd_idem\<close>)
  then show ?thesis by auto
qed

text \<open>The pointer level lists keep the contract of \<open>queue_family\<close>: the state carries the contents
  beside the pointers, and \<open>rep\<close> ties the two together.\<close>

definition heap_add_tail :: "addr \<Rightarrow> addr \<Rightarrow> links \<times> queues \<Rightarrow> links \<times> queues" where
  "heap_add_tail x i s = (list_add_tail x i (fst s), q_add_tail x i (snd s))"

definition heap_detach :: "addr \<Rightarrow> links \<times> queues \<Rightarrow> links \<times> queues" where
  "heap_detach x s = (list_del_init x (fst s), q_detach x (snd s))"

interpretation ptr: queue_family "\<lambda>s. snd s" "\<lambda>i. i \<in> H" "\<lambda>_ x. x \<in> N" heap_add_tail heap_detach
    "\<lambda>s. rep H N (fst s) (snd s)" for H N
proof (unfold_locales, goal_cases)
  case (4 s x i)
  then show ?case by (simp add: heap_add_tail_def rep_add_tail)
next
  case (3 s x)
  then show ?case by (simp add: heap_detach_def rep_del_init)
next
  case (7 s i)
  then show ?case using rep_ring [of H N "fst s" "snd s" i] by (simp add: ring_def)
next
  case (8 s i j x)
  then show ?case using separateD(3) [of H N "snd s" i j x] by (simp add: rep_def)
next
  case (9 s i x)
  then show ?case using separateD(2) [of H N "snd s" i x] by (simp add: rep_def)
qed (auto simp: heap_add_tail_def heap_detach_def q_defs)

end
