(* ===== verification/TaskTypes.thy ===== *)
theory TaskTypes
  imports VfsPrelude
begin

text \<open>
  The data of \<^verbatim>\<open>src/network/vfs_task.h\<close>: a transfer task, made of what is transferred
  (\<open>t_task_base\<close>) and which part of it (\<open>t_task_sub\<close>), and the constants for the state a task is
  in.  The states index the queues of \<^verbatim>\<open>vfs_task.c\<close> and are compared with \<^verbatim>\<open>int\<close> arguments,
  so they are integers here too.  Character arrays are the strings they hold.
\<close>

section \<open>Task states and results\<close>

abbreviation TASK_DELAY :: int where "TASK_DELAY \<equiv> 0"
abbreviation TASK_WAIT :: int where "TASK_WAIT \<equiv> 1"
abbreviation TASK_WAIT_SYNC :: int where "TASK_WAIT_SYNC \<equiv> 2"
abbreviation TASK_WAIT_SYNC_IP :: int where "TASK_WAIT_SYNC_IP \<equiv> 3"
abbreviation TASK_WAIT_TMP :: int where "TASK_WAIT_TMP \<equiv> 4"
abbreviation TASK_Q_SYNC_DIR :: int where "TASK_Q_SYNC_DIR \<equiv> 5"
abbreviation TASK_Q_SYNC_DIR_TMP :: int where "TASK_Q_SYNC_DIR_TMP \<equiv> 6"
abbreviation TASK_RUN :: int where "TASK_RUN \<equiv> 7"
abbreviation TASK_FIN :: int where "TASK_FIN \<equiv> 8"
abbreviation TASK_CLEAN :: int where "TASK_CLEAN \<equiv> 9"
abbreviation TASK_HOME :: int where "TASK_HOME \<equiv> 10"
abbreviation TASK_SEND :: int where "TASK_SEND \<equiv> 11"
abbreviation TASK_RECV :: int where "TASK_RECV \<equiv> 12"
abbreviation TASK_SYNC_VOSS :: int where "TASK_SYNC_VOSS \<equiv> 13"
abbreviation TASK_Q_SYNC_DIR_REQ :: int where "TASK_Q_SYNC_DIR_REQ \<equiv> 14"
abbreviation TASK_Q_SYNC_DIR_RSP :: int where "TASK_Q_SYNC_DIR_RSP \<equiv> 15"
abbreviation TASK_UNKNOWN :: int where "TASK_UNKNOWN \<equiv> 16"

abbreviation GET_TASK_ERR :: int where "GET_TASK_ERR \<equiv> - 1"
abbreviation GET_TASK_OK :: int where "GET_TASK_OK \<equiv> 0"
abbreviation GET_TASK_NOTHING :: int where "GET_TASK_NOTHING \<equiv> 1"

abbreviation TASK_ADDFILE :: nat where "TASK_ADDFILE \<equiv> 0"
abbreviation TASK_DELFILE :: nat where "TASK_DELFILE \<equiv> 1"

datatype over_status =
    OVER_UNKNOWN | OVER_OK | OVER_E_MD5 | OVER_PEERERR | TASK_EXIST | OVER_PEERCLOSE | OVER_UNLINK
  | OVER_TIMEOUT | OVER_MALLOC | OVER_SRC_DOMAIN_ERR | OVER_SRC_IP_OFFLINE | OVER_E_OPEN_SRCFILE
  | OVER_E_OPEN_DSTFILE | OVER_E_IP | OVER_E_TYPE | OVER_SEND_LEN | OVER_TOO_MANY_TRY
  | OVER_DISK_ERR

section \<open>Tasks\<close>

record t_task_base =
  filename :: string
  tmpfile :: string
  task_data :: string
  hostname :: string
  filemd5 :: string
  srcip :: string
  usrcip :: uint32
  srcport :: int
  fsize :: int
  getlen :: int
  stime :: int
  file_ctime :: int
  overstatus :: over_status
  ftype :: nat
  retry :: nat
  expire :: nat

record t_task_sub =
  processlen :: int
  lastlen :: int
  lasttime :: int
  starttime :: int
  endtime :: int
  sub_start :: int
  sub_end :: int
  sub_idx :: int
  sub_count :: int

record t_vfs_taskinfo =
  base :: t_task_base
  sub :: t_task_sub

record t_vfs_tasklist =
  task :: t_vfs_taskinfo
  upip :: uint32
  status :: int

text \<open>What \<^verbatim>\<open>memset(..., 0, ...)\<close> leaves.\<close>

definition zero_base :: t_task_base where
  "zero_base =
     \<lparr>filename = [], tmpfile = [], task_data = [], hostname = [], filemd5 = [], srcip = [],
      usrcip = 0, srcport = 0, fsize = 0, getlen = 0, stime = 0, file_ctime = 0,
      overstatus = OVER_UNKNOWN, ftype = 0, retry = 0, expire = 0\<rparr>"

definition zero_sub :: t_task_sub where
  "zero_sub =
     \<lparr>processlen = 0, lastlen = 0, lasttime = 0, starttime = 0, endtime = 0,
      sub_start = 0, sub_end = 0, sub_idx = 0, sub_count = 0\<rparr>"

definition zero_task :: t_vfs_taskinfo where
  "zero_task = \<lparr>base = zero_base, sub = zero_sub\<rparr>"

section \<open>The configuration used by the tasks\<close>

text \<open>The fields of \<^verbatim>\<open>t_g_config\<close> (\<^verbatim>\<open>src/network/vfs_init.h\<close>) that the modelled code
  reads; the bounds are those of their C types.\<close>

record t_g_config =
  task_timeout :: int
  splic_min_size :: int
  cfg_retry :: nat
  cs_max_task_run_once :: nat
  sig_port :: nat
  conn_timeout :: nat
  cktimeout :: nat

end
