(* ===== verification/Locks.thy ===== *)
theory Locks
  imports VfsPrelude
begin

text \<open>
  The shared tables are guarded by \<^verbatim>\<open>pthread_mutex_timedlock\<close> or by a timed read-write lock.
  Every operation tries its lock once, and goes on when the call returned 0 or
  \<^verbatim>\<open>EDEADLK\<close>; any other code makes it give up.  The outcome of the call comes from the
  environment, so an operation takes it as its first argument \<open>lk\<close>.  Between lock and unlock an
  operation is atomic, and the model's operations are these atomic steps.
\<close>

definition EDEADLK :: int where "EDEADLK = 35"
definition ETIMEDOUT :: int where "ETIMEDOUT = 110"

definition lock_failed :: "int \<Rightarrow> bool" where
  "lock_failed lk \<longleftrightarrow> lk \<noteq> 0 \<and> lk \<noteq> EDEADLK"

lemma lock_ok [simp]: "\<not> lock_failed 0" "\<not> lock_failed EDEADLK"
  by (simp_all add: lock_failed_def)

lemma lock_timeout [simp]: "lock_failed ETIMEDOUT"
  by (simp add: lock_failed_def ETIMEDOUT_def EDEADLK_def)

end
