(* ===== verification/Timer.thy ===== *)
theory Timer
  imports QueueFamily Locks
begin

text \<open>
  The delayed tasks of \<^verbatim>\<open>src/network/vfs_timer.c\<close>: a pool of free nodes (\<open>delay_home\<close>) and
  the list of armed timers (\<open>delay_active\<close>).  A node is an address; \<open>delay_node\<close> gives its timer.
  The callback is an element of an arbitrary type \<open>'cb\<close>, and \<open>scan_delay_task\<close> returns the calls
  \<^verbatim>\<open>cb(args)\<close> it made, in order.  The clock is an argument.
\<close>


record 'cb t_vfs_timer =
  cb :: 'cb
  args :: string
  next_time :: int
  span_time :: int
  loop :: int

record 'cb delay_state =
  delay_node :: "addr \<Rightarrow> 'cb t_vfs_timer"
  delay_home :: "addr list"
  delay_active :: "addr list"
  delay_top :: addr

definition default_max :: nat where "default_max = 1024"

text \<open>
  \<^verbatim>\<open>delay_task_init\<close>: the nodes of one allocation are pushed on the pool one after the other.
  The allocation fills them with \<open>zero\<close>.
\<close>

definition delay_task_init ::
  "bool \<Rightarrow> 'cb t_vfs_timer \<Rightarrow> 'cb delay_state \<Rightarrow> int \<times> 'cb delay_state" where
  "delay_task_init malloc_ok zero s =
     (if \<not> malloc_ok then (-1, s\<lparr>delay_home := [], delay_active := []\<rparr>)
      else (0, s\<lparr>delay_node := (\<lambda>_. zero),
                 delay_home := rev [0..<default_max], delay_active := [],
                 delay_top := default_max\<rparr>))"

text \<open>
  \<^verbatim>\<open>add_to_delay_task\<close> takes a node from the pool, or allocates one when the pool is empty.  When
  that allocation fails it logs, and still returns 0.
\<close>

definition delay_insert :: "int \<Rightarrow> 'cb t_vfs_timer \<Rightarrow> addr \<Rightarrow> 'cb delay_state \<Rightarrow> 'cb delay_state" where
  "delay_insert cur timer x s =
     s\<lparr>delay_node := (delay_node s)(x := timer\<lparr>next_time := cur + span_time timer\<rparr>),
       delay_active := x # delay_active s\<rparr>"

definition add_to_delay_task ::
  "int \<Rightarrow> bool \<Rightarrow> int \<Rightarrow> 'cb t_vfs_timer \<Rightarrow> 'cb delay_state \<Rightarrow> int \<times> 'cb delay_state" where
  "add_to_delay_task lk malloc_ok cur timer s =
     (if lock_failed lk then (-1, s)
      else case delay_home s of
        x # home \<Rightarrow> (0, delay_insert cur timer x (s\<lparr>delay_home := home\<rparr>))
      | [] \<Rightarrow>
          if malloc_ok
          then (0, delay_insert cur timer (delay_top s) (s\<lparr>delay_top := Suc (delay_top s)\<rparr>))
          else (0, s))"

text \<open>One pass of the loop of \<^verbatim>\<open>scan_delay_task\<close>, with the calls made so far.\<close>

definition scan_timer ::
  "int \<Rightarrow> addr \<Rightarrow> 'cb delay_state \<times> ('cb \<times> string) list \<Rightarrow>
   'cb delay_state \<times> ('cb \<times> string) list" where
  "scan_timer cur x sc =
     (let s = fst sc; t = delay_node s x
      in if cur > next_time t
         then (let calls = snd sc @ [(cb t, args t)]
               in if loop t \<noteq> 0
                  then (s\<lparr>delay_node := (delay_node s)(x := t\<lparr>next_time := cur + span_time t\<rparr>)\<rparr>, calls)
                  else (s\<lparr>delay_active := removeAll x (delay_active s),
                          delay_home := x # delay_home s\<rparr>, calls))
         else sc)"

definition scan_delay_task ::
  "int \<Rightarrow> int \<Rightarrow> 'cb delay_state \<Rightarrow> 'cb delay_state \<times> ('cb \<times> string) list" where
  "scan_delay_task lk cur s =
     (if lock_failed lk then (s, []) else fold (scan_timer cur) (delay_active s) (s, []))"

section \<open>Well-formedness\<close>

text \<open>Pool and armed list share no node, repeat none, and hold allocated nodes only.\<close>

definition delay_ok :: "'cb delay_state \<Rightarrow> bool" where
  "delay_ok s \<longleftrightarrow>
     distinct (delay_home s @ delay_active s)
     \<and> set (delay_home s @ delay_active s) = {..<delay_top s}"

lemma delay_ok_init: "delay_ok (snd (delay_task_init True zero s))"
  by (simp add: delay_task_init_def delay_ok_def atLeast0LessThan)

lemma delay_ok_add:
  assumes "delay_ok s"
  shows "delay_ok (snd (add_to_delay_task lk mok cur t s))"
proof (cases "delay_home s")
  case Nil
  with assms show ?thesis
    by (simp add: add_to_delay_task_def delay_insert_def delay_ok_def lessThan_Suc)
next
  case (Cons x home)
  with assms show ?thesis
    by (simp add: add_to_delay_task_def delay_insert_def delay_ok_def)
qed

section \<open>What a scan does\<close>

definition due :: "int \<Rightarrow> 'cb delay_state \<Rightarrow> addr \<Rightarrow> bool" where
  "due cur s x \<longleftrightarrow> cur > next_time (delay_node s x)"

definition one_shot :: "'cb delay_state \<Rightarrow> addr \<Rightarrow> bool" where
  "one_shot s x \<longleftrightarrow> loop (delay_node s x) = 0"

definition call_of :: "'cb delay_state \<Rightarrow> addr \<Rightarrow> 'cb \<times> string" where
  "call_of s x = (cb (delay_node s x), args (delay_node s x))"

definition rearmed :: "int \<Rightarrow> 'cb delay_state \<Rightarrow> addr list \<Rightarrow> addr \<Rightarrow> 'cb t_vfs_timer" where
  "rearmed cur s xs x =
     (let t = delay_node s x
      in if x \<in> set xs \<and> due cur s x \<and> \<not> one_shot s x then t\<lparr>next_time := cur + span_time t\<rparr> else t)"

lemmas timer_view = due_def one_shot_def call_of_def rearmed_def

lemma scan_timer_fold:
  assumes "distinct xs"
  shows "fold (scan_timer cur) xs (s, cs) =
     (s\<lparr>delay_node := rearmed cur s xs,
        delay_active := filter (\<lambda>x. \<not> (x \<in> set xs \<and> due cur s x \<and> one_shot s x)) (delay_active s),
        delay_home := rev (filter (\<lambda>x. due cur s x \<and> one_shot s x) xs) @ delay_home s\<rparr>,
      cs @ map (call_of s) (filter (due cur s) xs))"
  using assms
proof (induction xs arbitrary: s cs)
  case Nil
  have "rearmed cur s [] = delay_node s" by (simp add: timer_view fun_eq_iff)
  then show ?case by simp
next
  case (Cons x xs)
  let ?s = "fst (scan_timer cur x (s, cs))"
  have node: "delay_node ?s y = delay_node s y" if "y \<noteq> x" for y
    using that by (auto simp: scan_timer_def Let_def)
  then have views: "due cur ?s y = due cur s y" "one_shot ?s y = one_shot s y"
    "call_of ?s y = call_of s y" if "y \<in> set xs" for y
  proof -
    have "y \<noteq> x" using that Cons.prems by auto
    from node [OF this] show "due cur ?s y = due cur s y" "one_shot ?s y = one_shot s y"
      "call_of ?s y = call_of s y" by (simp_all only: timer_view)
  qed
  have re: "rearmed cur ?s xs = rearmed cur s (x # xs)"
  proof
    fix y
    show "rearmed cur ?s xs y = rearmed cur s (x # xs) y"
    proof (cases "y = x")
      case True
      with Cons.prems show ?thesis by (auto simp: timer_view scan_timer_def Let_def)
    next
      case False
      with node show ?thesis by (auto simp: timer_view)
    qed
  qed
  have flt: "filter (due cur ?s) xs = filter (due cur s) xs"
    "filter (\<lambda>x. due cur ?s x \<and> one_shot ?s x) xs = filter (\<lambda>x. due cur s x \<and> one_shot s x) xs"
    "map (call_of ?s) (filter (due cur s) xs) = map (call_of s) (filter (due cur s) xs)"
    using views by (auto cong: filter_cong)
  have act: "filter (\<lambda>y. \<not> (y \<in> set xs \<and> due cur ?s y \<and> one_shot ?s y)) (delay_active ?s)
      = filter (\<lambda>y. \<not> (y \<in> set (x # xs) \<and> due cur s y \<and> one_shot s y)) (delay_active s)"
    using views Cons.prems
    by (auto simp: scan_timer_def Let_def removeAll_filter_not_eq due_def one_shot_def
        intro!: filter_cong)
  have IH: "fold (scan_timer cur) xs (?s, snd (scan_timer cur x (s, cs))) =
     (?s\<lparr>delay_node := rearmed cur ?s xs,
        delay_active := filter (\<lambda>x. \<not> (x \<in> set xs \<and> due cur ?s x \<and> one_shot ?s x)) (delay_active ?s),
        delay_home := rev (filter (\<lambda>x. due cur ?s x \<and> one_shot ?s x) xs) @ delay_home ?s\<rparr>,
      snd (scan_timer cur x (s, cs)) @ map (call_of ?s) (filter (due cur ?s) xs))"
    by (rule Cons.IH) (use Cons.prems in simp)
  have split: "fold (scan_timer cur) (x # xs) (s, cs) =
      fold (scan_timer cur) xs (?s, snd (scan_timer cur x (s, cs)))" by simp
  show ?case
    unfolding split IH re act flt
    by (auto simp: scan_timer_def Let_def due_def [of cur s x] one_shot_def [of s x]
        call_of_def [of s x])
qed


lemma filter_member_irrelevant:
  "filter (\<lambda>x. P x \<longrightarrow> x \<in> set xs \<longrightarrow> Q x) xs = filter (\<lambda>x. P x \<longrightarrow> Q x) xs"
  by (rule filter_cong) auto

text \<open>A scan under the lock, in closed form.\<close>

lemma scan_delay_task_eq:
  assumes "delay_ok s" "\<not> lock_failed lk"
  shows "scan_delay_task lk cur s =
     (s\<lparr>delay_node := rearmed cur s (delay_active s),
        delay_active := filter (\<lambda>x. \<not> (due cur s x \<and> one_shot s x)) (delay_active s),
        delay_home := rev (filter (\<lambda>x. due cur s x \<and> one_shot s x) (delay_active s)) @ delay_home s\<rparr>,
      map (call_of s) (filter (due cur s) (delay_active s)))"
proof -
  have "distinct (delay_active s)" using assms(1) by (simp add: delay_ok_def)
  from scan_timer_fold [OF this, of cur s "[]"] assms(2) show ?thesis
    by (simp add: scan_delay_task_def filter_member_irrelevant)
qed

lemma delay_ok_scan:
  assumes "delay_ok s"
  shows "delay_ok (fst (scan_delay_task lk cur s))"
proof (cases "lock_failed lk")
  case True
  with assms show ?thesis by (simp add: scan_delay_task_def)
next
  case False
  from scan_delay_task_eq [OF assms False] assms show ?thesis
    by (auto simp: delay_ok_def)
qed

end
