(* ===== verification/Hashes.thy ===== *)
theory Hashes
  imports VfsPrelude
begin

text \<open>
  The string hashes of \<^verbatim>\<open>src/lib/GeneralHashFunctions.c\<close> and \<^verbatim>\<open>r5hash\<close> of
  \<^verbatim>\<open>src/lib/common.c\<close>, on 32 bit words.  A C loop \<^verbatim>\<open>for (i = 0; i < len; str++, i++)\<close> is a
  recursion over the first \<open>len\<close> characters; each character is promoted as a signed
  \<^verbatim>\<open>char\<close> (\<open>uint_of_char\<close>).

  Three of the hashes multiply by a constant and add the character, two of them by shifts.
  Their contract is the locale \<open>poly_hash\<close>, interpreted on each.
\<close>

section \<open>The functions\<close>

fun RSHash_loop :: "uint32 \<Rightarrow> uint32 \<Rightarrow> uint32 \<Rightarrow> string \<Rightarrow> uint32" where
  "RSHash_loop b a hash [] = hash"
| "RSHash_loop b a hash (c # s) = RSHash_loop b (a * b) (hash * a + uint_of_char c) s"

definition RSHash :: "string \<Rightarrow> nat \<Rightarrow> uint32" where
  "RSHash str len = RSHash_loop 378551 63689 0 (take len str)"

fun JSHash_loop :: "uint32 \<Rightarrow> string \<Rightarrow> uint32" where
  "JSHash_loop hash [] = hash"
| "JSHash_loop hash (c # s) =
     JSHash_loop (hash XOR (push_bit 5 hash + uint_of_char c + drop_bit 2 hash)) s"

definition JSHash :: "string \<Rightarrow> nat \<Rightarrow> uint32" where
  "JSHash str len = JSHash_loop 1315423911 (take len str)"

text \<open>\<^verbatim>\<open>OneEighth\<close> is 4, \<^verbatim>\<open>ThreeQuarters\<close> is 24, and \<^verbatim>\<open>HighBits\<close> has the top four bits.\<close>

definition HighBits :: uint32 where "HighBits = push_bit (32 - 4) 0xFFFFFFFF"

fun PJWHash_loop :: "uint32 \<Rightarrow> string \<Rightarrow> uint32" where
  "PJWHash_loop hash [] = hash"
| "PJWHash_loop hash (c # s) =
     (let hash = push_bit 4 hash + uint_of_char c;
          test = hash AND HighBits
      in PJWHash_loop
           (if test \<noteq> 0 then (hash XOR drop_bit 24 test) AND (NOT HighBits) else hash) s)"

definition PJWHash :: "string \<Rightarrow> nat \<Rightarrow> uint32" where
  "PJWHash str len = PJWHash_loop 0 (take len str)"

fun ELFHash_loop :: "uint32 \<Rightarrow> string \<Rightarrow> uint32" where
  "ELFHash_loop hash [] = hash"
| "ELFHash_loop hash (c # s) =
     (let hash = push_bit 4 hash + uint_of_char c;
          x = hash AND 0xF0000000;
          hash = (if x \<noteq> 0 then hash XOR drop_bit 24 x else hash)
      in ELFHash_loop (hash AND NOT x) s)"

definition ELFHash :: "string \<Rightarrow> nat \<Rightarrow> uint32" where
  "ELFHash str len = ELFHash_loop 0 (take len str)"

fun BKDRHash_loop :: "uint32 \<Rightarrow> string \<Rightarrow> uint32" where
  "BKDRHash_loop hash [] = hash"
| "BKDRHash_loop hash (c # s) = BKDRHash_loop (hash * 131 + uint_of_char c) s"

definition BKDRHash :: "string \<Rightarrow> nat \<Rightarrow> uint32" where
  "BKDRHash str len = BKDRHash_loop 0 (take len str)"

fun SDBMHash_loop :: "uint32 \<Rightarrow> string \<Rightarrow> uint32" where
  "SDBMHash_loop hash [] = hash"
| "SDBMHash_loop hash (c # s) =
     SDBMHash_loop (uint_of_char c + push_bit 6 hash + push_bit 16 hash - hash) s"

definition SDBMHash :: "string \<Rightarrow> nat \<Rightarrow> uint32" where
  "SDBMHash str len = SDBMHash_loop 0 (take len str)"

fun DJBHash_loop :: "uint32 \<Rightarrow> string \<Rightarrow> uint32" where
  "DJBHash_loop hash [] = hash"
| "DJBHash_loop hash (c # s) = DJBHash_loop ((push_bit 5 hash + hash) + uint_of_char c) s"

definition DJBHash :: "string \<Rightarrow> nat \<Rightarrow> uint32" where
  "DJBHash str len = DJBHash_loop 5381 (take len str)"

fun DEKHash_loop :: "uint32 \<Rightarrow> string \<Rightarrow> uint32" where
  "DEKHash_loop hash [] = hash"
| "DEKHash_loop hash (c # s) =
     DEKHash_loop ((push_bit 5 hash XOR drop_bit 27 hash) XOR uint_of_char c) s"

definition DEKHash :: "string \<Rightarrow> nat \<Rightarrow> uint32" where
  "DEKHash str len = DEKHash_loop (of_nat len) (take len str)"

fun BPHash_loop :: "uint32 \<Rightarrow> string \<Rightarrow> uint32" where
  "BPHash_loop hash [] = hash"
| "BPHash_loop hash (c # s) = BPHash_loop (push_bit 7 hash XOR uint_of_char c) s"

definition BPHash :: "string \<Rightarrow> nat \<Rightarrow> uint32" where
  "BPHash str len = BPHash_loop 0 (take len str)"

fun FNVHash_loop :: "uint32 \<Rightarrow> string \<Rightarrow> uint32" where
  "FNVHash_loop hash [] = hash"
| "FNVHash_loop hash (c # s) = FNVHash_loop ((hash * 0x811C9DC5) XOR uint_of_char c) s"

definition FNVHash :: "string \<Rightarrow> nat \<Rightarrow> uint32" where
  "FNVHash str len = FNVHash_loop 0 (take len str)"

text \<open>\<open>i\<close> is the index of the current character.\<close>

fun APHash_loop :: "nat \<Rightarrow> uint32 \<Rightarrow> string \<Rightarrow> uint32" where
  "APHash_loop i hash [] = hash"
| "APHash_loop i hash (c # s) =
     APHash_loop (Suc i)
       (hash XOR
         (if even i then push_bit 7 hash XOR uint_of_char c * drop_bit 3 hash
          else NOT (push_bit 11 hash + (uint_of_char c XOR drop_bit 5 hash)))) s"

definition APHash :: "string \<Rightarrow> nat \<Rightarrow> uint32" where
  "APHash str len = APHash_loop 0 0xAAAAAAAA (take len str)"

definition get_3_hash :: "string \<Rightarrow> uint32 \<times> uint32 \<times> uint32" where
  "get_3_hash s = (let l = length s in (SDBMHash s l, DJBHash s l, DEKHash s l))"

text \<open>
  \<^verbatim>\<open>r5hash\<close>: the shifts are on the promoted, signed character; the right shift is arithmetic.
\<close>

fun r5hash_loop :: "uint32 \<Rightarrow> string \<Rightarrow> uint32" where
  "r5hash_loop h [] = h"
| "r5hash_loop h (c # p) =
     r5hash_loop (h * 11 + word_of_int (schar c * 16) + word_of_int (schar c div 16)) p"

definition r5hash :: "string \<Rightarrow> uint32" where
  "r5hash p = r5hash_loop 0 p"

section \<open>Hashes that are polynomials in the characters\<close>

locale poly_hash =
  fixes loop :: "uint32 \<Rightarrow> string \<Rightarrow> uint32"
    and m :: uint32
  assumes loop_Nil: "loop h [] = h"
    and loop_Cons: "loop h (c # s) = loop (h * m + uint_of_char c) s"
begin

lemma loop_append: "loop h (s @ t) = loop (loop h s) t"
  by (induction s arbitrary: h) (simp_all add: loop_Nil loop_Cons)

lemma loop_shift: "loop h s = h * m ^ length s + loop 0 s"
proof (induction s arbitrary: h)
  case Nil
  show ?case by (simp add: loop_Nil)
next
  case (Cons c s)
  have "loop h (c # s) = (h * m + uint_of_char c) * m ^ length s + loop 0 s"
    by (simp only: loop_Cons Cons.IH [of "h * m + uint_of_char c"])
  moreover have "loop 0 (c # s) = uint_of_char c * m ^ length s + loop 0 s"
    using Cons.IH [of "uint_of_char c"] by (simp add: loop_Cons)
  ultimately show ?case by (simp add: algebra_simps)
qed

text \<open>The hash of a concatenation is computed from the hashes of the parts.\<close>

lemma loop_concat: "loop h (s @ t) = loop h s * m ^ length t + loop 0 t"
  by (simp add: loop_append loop_shift [of "loop h s" t])

text \<open>Strings of one length that differ in one character have hashes that differ by the
  difference of the characters times a power of the multiplier.\<close>

lemma loop_one_char:
  "loop h (s @ c # t) - loop h (s @ d # t)
     = (uint_of_char c - uint_of_char d) * m ^ length t"
proof -
  have "loop h (s @ x # t) = (loop h s * m + uint_of_char x) * m ^ length t + loop 0 t" for x
    by (simp add: loop_append loop_Cons loop_shift [of "loop h s * m + uint_of_char x" t])
  then show ?thesis by (simp add: algebra_simps)
qed

end

lemma push_bit_mult_word: "push_bit n (h :: uint32) = h * 2 ^ n"
  by (simp add: push_bit_eq_mult)

interpretation BKDR: poly_hash BKDRHash_loop 131
  by unfold_locales auto

interpretation SDBM: poly_hash SDBMHash_loop 65599
  by unfold_locales (auto simp: push_bit_mult_word algebra_simps)

interpretation DJB: poly_hash DJBHash_loop 33
  by unfold_locales (auto simp: push_bit_mult_word algebra_simps)


section \<open>PJW and ELF\<close>

lemma HighBits_eq: "HighBits = 0xF0000000"
  by (simp add: HighBits_def)

lemma bit_HighBits: "bit HighBits i \<longleftrightarrow> 28 \<le> i \<and> i < 32"
proof -
  have eq: "HighBits = NOT (mask 28)" by (simp add: HighBits_def mask_eq_exp_minus_1)
  show ?thesis unfolding eq by (auto simp: bit_not_iff bit_mask_iff)
qed

lemma PJW_ELF_step:
  "(if h AND HighBits \<noteq> 0 then (h XOR drop_bit 24 (h AND HighBits)) AND NOT HighBits else h)
   = (if h AND HighBits \<noteq> 0 then h XOR drop_bit 24 (h AND HighBits) else h) AND NOT (h AND HighBits)"
proof (cases "h AND HighBits = 0")
  case False
  have "(h XOR drop_bit 24 (h AND HighBits)) AND NOT HighBits
      = (h XOR drop_bit 24 (h AND HighBits)) AND NOT (h AND HighBits)"
    by (rule bit_word_eqI) (auto simp: bit_and_iff bit_xor_iff bit_or_iff bit_not_iff
        bit_drop_bit_eq bit_HighBits)
  with False show ?thesis by simp
qed simp

lemma PJW_ELF_loop: "PJWHash_loop h s = ELFHash_loop h s"
proof (induction s arbitrary: h)
  case (Cons c s)
  then show ?case
    by (simp only: PJWHash_loop.simps ELFHash_loop.simps Let_def PJW_ELF_step HighBits_eq [symmetric])
qed simp

lemma PJW_loop_low: "h AND HighBits = 0 \<Longrightarrow> PJWHash_loop h s AND HighBits = 0"
proof (induction s arbitrary: h)
  case (Cons c s)
  let ?g = "push_bit 4 h + uint_of_char c"
  have "((?g XOR drop_bit 24 (?g AND HighBits)) AND NOT HighBits) AND HighBits = 0"
    by (simp add: and.assoc)
  then show ?case
    by (simp add: Let_def Cons.IH)
qed simp

end
