(* ===== verification/TaskQueue.thy ===== *)
theory TaskQueue
  imports TaskTypes Timer Hashes
begin

text \<open>
  The task queues of \<^verbatim>\<open>src/network/vfs_task.c\<close>.  Tasks are nodes of a store; a node is on at
  most one of the state queues \<open>vfstask\<close> (through its \<^verbatim>\<open>llist\<close>) and on at most one chain of the
  hash table \<open>alltask\<close> (through its \<^verbatim>\<open>hlist\<close>).  The third link, \<^verbatim>\<open>userlist\<close>, is initialised and
  unlinked but never put on a list, so it has no counterpart.  \<open>taskcount\<close> holds the counters
  that the program reports.  The queues are lists of node addresses; \<open>ListHead\<close> shows
  that the pointer operations of \<^verbatim>\<open>list.h\<close> compute the list functions used here.

  The operations take the outcome of the lock (\<open>lk\<close>) and of \<^verbatim>\<open>malloc\<close>, and the clock, as
  arguments, and return the C result with the new state.
\<close>

record task_state =
  node :: "addr \<Rightarrow> t_vfs_tasklist"
  vfstask :: "int \<Rightarrow> addr list"
  alltask :: "int \<Rightarrow> addr list"
  taskcount :: "int \<Rightarrow> int"
  top :: addr

section \<open>List operations on the two families of queues\<close>

definition llist_del :: "addr \<Rightarrow> task_state \<Rightarrow> task_state" where
  "llist_del x s = s\<lparr>vfstask := (\<lambda>i. removeAll x (vfstask s i))\<rparr>"

definition llist_add_tail :: "addr \<Rightarrow> int \<Rightarrow> task_state \<Rightarrow> task_state" where
  "llist_add_tail x i s = s\<lparr>vfstask := (vfstask s)(i := vfstask s i @ [x])\<rparr>"

definition hlist_del :: "addr \<Rightarrow> task_state \<Rightarrow> task_state" where
  "hlist_del x s = s\<lparr>alltask := (\<lambda>i. removeAll x (alltask s i))\<rparr>"

definition hlist_add_head :: "addr \<Rightarrow> int \<Rightarrow> task_state \<Rightarrow> task_state" where
  "hlist_add_head x i s = s\<lparr>alltask := (alltask s)(i := x # alltask s i)\<rparr>"

definition set_node :: "addr \<Rightarrow> (t_vfs_tasklist \<Rightarrow> t_vfs_tasklist) \<Rightarrow> task_state \<Rightarrow> task_state" where
  "set_node x f s = s\<lparr>node := (node s)(x := f (node s x))\<rparr>"

definition atomic_add :: "int \<Rightarrow> int \<Rightarrow> task_state \<Rightarrow> task_state" where
  "atomic_add n i s = s\<lparr>taskcount := (taskcount s)(i := taskcount s i + n)\<rparr>"

lemmas tq_ops = llist_del_def llist_add_tail_def hlist_del_def hlist_add_head_def set_node_def
  atomic_add_def

definition bad_status :: "int \<Rightarrow> bool" where
  "bad_status st \<longleftrightarrow> st < 0 \<or> st \<ge> TASK_UNKNOWN"

section \<open>The operations\<close>

text \<open>
  \<^verbatim>\<open>vfs_get_task\<close>.  The second component is what was stored through the argument
  \<^verbatim>\<open>task\<close>, if a task was.
\<close>

definition vfs_get_task :: "int \<Rightarrow> bool \<Rightarrow> int \<Rightarrow> task_state \<Rightarrow> int \<times> addr option \<times> task_state" where
  "vfs_get_task lk malloc_ok st s =
     (if bad_status st then (GET_TASK_ERR, None, s)
      else if lock_failed lk then (lk, None, s)
      else case vfstask s st of
        x # _ \<Rightarrow>
          (GET_TASK_OK, Some x,
           llist_del x (set_node x (\<lambda>t. t\<lparr>status := TASK_UNKNOWN\<rparr>) (atomic_add (-1) st s)))
      | [] \<Rightarrow>
          if st = TASK_HOME \<and> malloc_ok
          then (GET_TASK_OK, Some (top s),
                set_node (top s) (\<lambda>_. \<lparr>task = zero_task, upip = 0, status = TASK_UNKNOWN\<rparr>)
                  (s\<lparr>top := Suc (top s)\<rparr>))
          else (GET_TASK_NOTHING, None, s))"

definition vfs_set_task :: "int \<Rightarrow> addr \<Rightarrow> int \<Rightarrow> task_state \<Rightarrow> int \<times> task_state" where
  "vfs_set_task lk x st s =
     (if bad_status st then (-1, s)
      else if lock_failed lk then (-1, s)
      else (lk, atomic_add 1 st (set_node x (\<lambda>t. t\<lparr>status := st\<rparr>) (llist_add_tail x st (llist_del x s)))))"

text \<open>
  \<^verbatim>\<open>init_task_info\<close>: 2048 nodes are pushed on the queue \<open>TASK_HOME\<close>, and the counters are cleared
  afterwards; \<open>mutex_err\<close> is the first queue whose \<^verbatim>\<open>pthread_mutex_init\<close> fails, if any.  It also arms the periodic report, in the timers of \<open>Timer\<close>.
\<close>

datatype timer_cb = report_2_nm_cb

definition pool_size :: nat where "pool_size = 2048"

definition init_queues :: "task_state \<Rightarrow> task_state" where
  "init_queues s =
     s\<lparr>node := (\<lambda>_. \<lparr>task = zero_task, upip = 0, status = TASK_HOME\<rparr>),
       vfstask := (\<lambda>_. [])(TASK_HOME := rev [0..<pool_size]),
       alltask := (\<lambda>_. []),
       taskcount := (\<lambda>_. 0),
       top := pool_size\<rparr>"

definition init_task_info ::
  "int option \<Rightarrow> bool \<Rightarrow> int \<Rightarrow> bool \<Rightarrow> int \<Rightarrow> task_state \<Rightarrow> timer_cb delay_state \<Rightarrow>
   int \<times> task_state \<times> timer_cb delay_state" where
  "init_task_info mutex_err malloc_ok lk tmalloc_ok cur s d =
     (case mutex_err of
        Some i \<Rightarrow> (-1, s\<lparr>vfstask := (\<lambda>j. if 0 \<le> j \<and> j \<le> i then [] else vfstask s j)\<rparr>, d)
      | None \<Rightarrow>
      if \<not> malloc_ok then (-1, s\<lparr>vfstask := (\<lambda>_. [])\<rparr>, d)
      else (0, init_queues s,
            snd (add_to_delay_task lk tmalloc_ok cur
              \<lparr>cb = report_2_nm_cb, args = [], next_time = 0, span_time = 60, loop = 1\<rparr> d)))"

definition TASK_MOD :: uint32 where "TASK_MOD = 0x0F"

definition get_vfs_task_hash :: "string \<Rightarrow> int \<Rightarrow> int \<Rightarrow> uint32" where
  "get_vfs_task_hash fname idx count =
     r5hash (snprint 1024 (fname @ ''_'' @ dec_int idx @ ''_'' @ dec_int count))"

definition task_bucket :: "string \<Rightarrow> int \<Rightarrow> int \<Rightarrow> int" where
  "task_bucket fname idx count = uint (get_vfs_task_hash fname idx count AND TASK_MOD)"

definition add_task_to_alltask :: "int \<Rightarrow> addr \<Rightarrow> task_state \<Rightarrow> int \<times> task_state" where
  "add_task_to_alltask lk x s =
     (let t = task (node s x);
          index = task_bucket (filename (base t)) (sub_idx (sub t)) (sub_count (sub t))
      in if lock_failed lk then (-1, s)
         else (0, hlist_add_head x index (hlist_del x s)))"

text \<open>The three comparisons that every search of the hash table makes.\<close>

definition same_task :: "string \<Rightarrow> int \<Rightarrow> int \<Rightarrow> t_vfs_tasklist \<Rightarrow> bool" where
  "same_task fname idx count t \<longleftrightarrow>
     fname = filename (base (task t)) \<and> idx = sub_idx (sub (task t)) \<and> count = sub_count (sub (task t))"

definition check_task_from_alltask :: "int \<Rightarrow> string \<Rightarrow> int \<Rightarrow> int \<Rightarrow> nat \<Rightarrow> task_state \<Rightarrow> int" where
  "check_task_from_alltask lk fname idx count exp s =
     (if lock_failed lk then -1
      else case find (\<lambda>x. same_task fname idx count (node s x) \<and> expire (base (task (node s x))) = exp)
                  (alltask s (task_bucket fname idx count)) of
        Some _ \<Rightarrow> 0
      | None \<Rightarrow> -1)"

definition set_task_from_alltask ::
  "int \<Rightarrow> string \<Rightarrow> int \<Rightarrow> int \<Rightarrow> nat \<Rightarrow> task_state \<Rightarrow> int \<times> task_state" where
  "set_task_from_alltask lk fname idx count exp s =
     (if lock_failed lk then (-1, s)
      else case find (\<lambda>x. same_task fname idx count (node s x))
                  (alltask s (task_bucket fname idx count)) of
        Some x \<Rightarrow>
          (0, set_node x (\<lambda>t. t\<lparr>task := (task t)\<lparr>base := (base (task t))\<lparr>expire := exp\<rparr>\<rparr>\<rparr>) s)
      | None \<Rightarrow> (-1, s))"

definition get_task_from_alltask ::
  "int \<Rightarrow> string \<Rightarrow> int \<Rightarrow> int \<Rightarrow> task_state \<Rightarrow> int \<times> addr option \<times> task_state" where
  "get_task_from_alltask lk fname idx count s =
     (if lock_failed lk then (-1, None, s)
      else case find (\<lambda>x. same_task fname idx count (node s x))
                  (alltask s (task_bucket fname idx count)) of
        Some x \<Rightarrow> (0, Some x, hlist_del x s)
      | None \<Rightarrow> (-1, None, s))"

text \<open>
  The two traversals with a callback.  The callback of the program may unlink the node it is
  given and put it on another queue, so it runs once on each node that the list held at the start.
\<close>

definition get_timeout_task_from_alltask ::
  "int \<Rightarrow> int \<Rightarrow> int \<Rightarrow> (addr \<Rightarrow> task_state \<Rightarrow> task_state) \<Rightarrow> task_state \<Rightarrow> int \<times> task_state" where
  "get_timeout_task_from_alltask lk now timeout cbk s =
     (if lock_failed lk then (-1, s)
      else (lk, fold (\<lambda>index s.
                  fold (\<lambda>x s. if now - stime (base (task (node s x))) < timeout then s
                              else cbk x (hlist_del x s))
                    (alltask s index) s)
                  [0..15] s))"

definition scan_some_status_task ::
  "int \<Rightarrow> int \<Rightarrow> (addr \<Rightarrow> task_state \<Rightarrow> task_state) \<Rightarrow> task_state \<Rightarrow> int \<times> task_state" where
  "scan_some_status_task lk st cbk s =
     (if bad_status st then (-1, s)
      else if lock_failed lk then (-1, s)
      else (lk, fold cbk (vfstask s st) s))"

definition get_task_count :: "int \<Rightarrow> task_state \<Rightarrow> int" where
  "get_task_count st s = (if bad_status st then -1 else taskcount s st)"

text \<open>
  \<^verbatim>\<open>report_2_nm\<close>: the pairs of counter index and value it publishes, \<open>None\<close> being the
  index of the total.
\<close>

definition report_2_nm :: "task_state \<Rightarrow> (int option \<times> int) list" where
  "report_2_nm s =
     (let depths = map (\<lambda>i. get_task_count i s) [TASK_DELAY..TASK_HOME - 1]
      in map (\<lambda>i. (Some i, get_task_count i s)) [TASK_DELAY..TASK_HOME - 1]
         @ [(None, sum_list depths)])"

text \<open>
  \<^verbatim>\<open>check_task_timeout\<close> and \<^verbatim>\<open>do_timeout_task\<close>.  \<open>lkh\<close> is the outcome of the lock of
  \<open>TASK_HOME\<close> taken inside the callback, \<open>lk i\<close> that of the lock of queue \<open>i\<close>.
\<close>

definition check_task_timeout :: "int \<Rightarrow> int \<Rightarrow> t_g_config \<Rightarrow> addr \<Rightarrow> task_state \<Rightarrow> task_state" where
  "check_task_timeout lkh cur cfg x s =
     (if cur - stime (base (task (node s x))) > task_timeout cfg
      then let s = hlist_del x (llist_del x s);
               s = atomic_add (-1) (status (node s x)) s;
               s = set_node x (\<lambda>t. t\<lparr>task := zero_task\<rparr>) s
           in snd (vfs_set_task lkh x TASK_HOME s)
      else s)"

definition do_timeout_task :: "(int \<Rightarrow> int) \<Rightarrow> int \<Rightarrow> int \<Rightarrow> t_g_config \<Rightarrow> task_state \<Rightarrow> task_state" where
  "do_timeout_task lk lkh cur cfg s =
     fold (\<lambda>i s. snd (scan_some_status_task (lk i) i (check_task_timeout lkh cur cfg) s))
       [TASK_DELAY..TASK_CLEAN - 1] s"

end
