(* ===== verification/TaskQueueInv.thy ===== *)
theory TaskQueueInv
  imports TaskQueue QueueFamily
begin

text \<open>
  The invariant of the task queues of \<open>TaskQueue\<close>, its preservation by every operation, and the
  reachable states of a program that uses the queues only through these operations.

  \<open>queues_ok\<close> is the shape: each node is on one queue at most, and there is no queue outside the
  range of \<^verbatim>\<open>vfstask\<close>.  \<open>tq_inv\<close> adds that the status field names the queue, that the counters
  count (up to the 2048 nodes that \<^verbatim>\<open>init_task_info\<close> forgets), and that the hash table is
  well formed.  The laws of \<open>queue_family\<close> hold of the queues, so its client lemmas do too.
\<close>

section \<open>The invariant\<close>

definition queues_ok :: "task_state \<Rightarrow> bool" where
  "queues_ok s \<longleftrightarrow>
     (\<forall>i. distinct (vfstask s i)) \<and>
     (\<forall>i j x. x \<in> set (vfstask s i) \<longrightarrow> x \<in> set (vfstask s j) \<longrightarrow> i = j) \<and>
     (\<forall>i x. x \<in> set (vfstask s i) \<longrightarrow> x < top s \<and> \<not> bad_status i)"

definition status_ok :: "task_state \<Rightarrow> bool" where
  "status_ok s \<longleftrightarrow> (\<forall>i x. x \<in> set (vfstask s i) \<longrightarrow> status (node s x) = i)"

definition uncounted :: "int \<Rightarrow> int" where
  "uncounted i = (if i = TASK_HOME then int pool_size else 0)"

definition count_ok :: "task_state \<Rightarrow> bool" where
  "count_ok s \<longleftrightarrow>
     (\<forall>i. \<not> bad_status i \<longrightarrow> taskcount s i = int (length (vfstask s i)) - uncounted i)"

definition key_bucket :: "t_vfs_tasklist \<Rightarrow> int" where
  "key_bucket t =
     task_bucket (filename (base (task t))) (sub_idx (sub (task t))) (sub_count (sub (task t)))"

definition alltask_ok :: "task_state \<Rightarrow> bool" where
  "alltask_ok s \<longleftrightarrow>
     (\<forall>i. distinct (alltask s i)) \<and>
     (\<forall>i x. x \<in> set (alltask s i) \<longrightarrow> x < top s \<and> i = key_bucket (node s x))"

definition tq_inv :: "task_state \<Rightarrow> bool" where
  "tq_inv s \<longleftrightarrow> queues_ok s \<and> status_ok s \<and> count_ok s \<and> alltask_ok s"

text \<open>A node that its holder may put on a queue: allocated, and on no queue now.\<close>

definition detached :: "task_state \<Rightarrow> addr \<Rightarrow> bool" where
  "detached s x \<longleftrightarrow> x < top s \<and> (\<forall>i. x \<notin> set (vfstask s i))"

lemmas inv_defs = queues_ok_def status_ok_def count_ok_def alltask_ok_def

lemma queues_okD:
  assumes "queues_ok s"
  shows "distinct (vfstask s i)"
    and "x \<in> set (vfstask s i) \<Longrightarrow> x \<in> set (vfstask s j) \<Longrightarrow> i = j"
    and "x \<in> set (vfstask s i) \<Longrightarrow> x < top s"
    and "x \<in> set (vfstask s i) \<Longrightarrow> \<not> bad_status i"
  using assms unfolding queues_ok_def by blast+

lemma tq_invD:
  assumes "tq_inv s"
  shows "queues_ok s" "status_ok s" "count_ok s" "alltask_ok s"
  using assms by (auto simp: tq_inv_def)

lemma task_bucket_range: "0 \<le> task_bucket f i c" "task_bucket f i c \<le> 15"
proof -
  have "uint (get_vfs_task_hash f i c AND TASK_MOD) \<le> uint TASK_MOD"
    by (metis uint_and word_and_le1 word_le_def)
  then show "task_bucket f i c \<le> 15" by (simp add: task_bucket_def TASK_MOD_def)
  show "0 \<le> task_bucket f i c" by (simp add: task_bucket_def)
qed

section \<open>The queues form a queue family\<close>

lemma queues_ok_removeAll: "queues_ok s \<Longrightarrow> queues_ok (llist_del x s)"
  by (auto simp: queues_ok_def llist_del_def distinct_removeAll)

lemma queues_ok_snoc:
  assumes "queues_ok s" "x < top s" "\<not> bad_status i" "\<And>k. \<not> bad_status k \<Longrightarrow> x \<notin> set (vfstask s k)"
  shows "queues_ok (llist_add_tail x i s)"
proof -
  have "x \<notin> set (vfstask s k)" for k using assms unfolding queues_ok_def by blast
  with assms show ?thesis by (auto simp: queues_ok_def llist_add_tail_def)
qed

interpretation tq: queue_family vfstask "\<lambda>i. \<not> bad_status i" "\<lambda>s x. x < top s"
    llist_add_tail llist_del queues_ok
proof unfold_locales
  fix s x i assume "queues_ok s" "x < top s" "\<not> bad_status i"
    "\<And>k. \<not> bad_status k \<Longrightarrow> x \<notin> set (vfstask s k)"
  then show "queues_ok (llist_add_tail x i s)" by (rule queues_ok_snoc)
next
  fix s i j x assume "queues_ok s" "x \<in> set (vfstask s i)" "x \<in> set (vfstask s j)"
  then show "i = j" by (rule queues_okD)
qed (simp_all add: tq_ops queues_ok_removeAll [unfolded tq_ops] queues_okD)

lemma queues_ok_simps [simp]:
  "queues_ok (hlist_del x s) = queues_ok s"
  "queues_ok (hlist_add_head x i s) = queues_ok s"
  "queues_ok (set_node x f s) = queues_ok s"
  "queues_ok (atomic_add n i s) = queues_ok s"
  unfolding queues_ok_def by (simp_all add: tq_ops)

lemma queues_ok_append:
  "queues_ok s \<Longrightarrow> detached s x \<Longrightarrow> \<not> bad_status i \<Longrightarrow> queues_ok (llist_add_tail x i s)"
  by (rule tq.valid_add_tail) (auto simp: detached_def)

section \<open>Preservation\<close>

lemma bad_HOME [simp]: "\<not> bad_status TASK_HOME"
  by (simp add: bad_status_def)

lemma tq_inv_atomic_del:
  assumes "tq_inv s" "x \<in> set (vfstask s i)"
  shows "tq_inv (llist_del x (atomic_add (-1) i s))"
proof -
  have q: "queues_ok s" "status_ok s" "count_ok s" "alltask_ok s"
    using assms(1) by (auto simp: tq_inv_def)
  have d: "distinct (vfstask s i)" using q(1) by (simp add: queues_ok_def)
  have other: "x \<notin> set (vfstask s j)" if "j \<noteq> i" for j
    using q(1) assms(2) that by (auto simp: queues_ok_def)
  have "count_ok (llist_del x (atomic_add (-1) i s))"
    using q(3) arg_cong [OF distinct_removeAll_length [OF d assms(2)], of int] other
    unfolding count_ok_def by (simp add: tq_ops)
  moreover have "queues_ok (llist_del x (atomic_add (-1) i s))"
    using q(1) by (auto simp: queues_ok_def tq_ops distinct_removeAll)
  moreover have "status_ok (llist_del x (atomic_add (-1) i s))"
    using q(2) by (auto simp: status_ok_def tq_ops)
  moreover have "alltask_ok (llist_del x (atomic_add (-1) i s))"
    using q(4) by (auto simp: alltask_ok_def tq_ops)
  ultimately show ?thesis by (simp add: tq_inv_def)
qed

text \<open>Writing to a node: its queue needs the status, its hash chain the key.\<close>

lemma tq_inv_write:
  assumes "tq_inv s"
    and "\<And>i. x \<in> set (vfstask s i) \<Longrightarrow> status (f (node s x)) = i"
    and "\<And>i. x \<in> set (alltask s i) \<Longrightarrow> key_bucket (f (node s x)) = key_bucket (node s x)"
  shows "tq_inv (set_node x f s)"
  using assms by (auto simp: tq_inv_def inv_defs set_node_def)

lemma tq_inv_hlist_del: "tq_inv s \<Longrightarrow> tq_inv (hlist_del x s)"
  by (auto simp: tq_inv_def inv_defs hlist_del_def distinct_removeAll)

lemma tq_inv_hlist_add:
  assumes "tq_inv s" "x < top s"
  shows "tq_inv (hlist_add_head x (key_bucket (node s x)) (hlist_del x s))"
  using assms by (auto simp: tq_inv_def inv_defs hlist_del_def hlist_add_head_def distinct_removeAll)

lemma detached_simps [simp]:
  "detached (hlist_del x s) y = detached s y"
  "detached (hlist_add_head x i s) y = detached s y"
  "detached (set_node x f s) y = detached s y"
  "detached (atomic_add n i s) y = detached s y"
  by (simp_all add: detached_def tq_ops)

lemma detached_llist_del [simp]: "detached (llist_del x s) x \<longleftrightarrow> x < top s"
  by (simp add: detached_def llist_del_def)

lemma top_simps [simp]:
  "top (hlist_del x s) = top s" "top (llist_del x s) = top s" "top (atomic_add n i s) = top s"
  "top (set_node x f s) = top s" "top (hlist_add_head x i s) = top s"
  "top (llist_add_tail x i s) = top s"
  by (simp_all add: tq_ops)

lemma llist_del_detached: "detached s x \<Longrightarrow> llist_del x s = s"
  by (simp add: detached_def llist_del_def)

lemma key_bucket_status [simp]: "key_bucket (t\<lparr>status := i\<rparr>) = key_bucket t"
  by (simp add: key_bucket_def)

lemma set_vfs_set_task:
  assumes "\<not> bad_status st" "\<not> lock_failed lk" "detached s x"
  shows "vfs_set_task lk x st s =
     (lk, atomic_add 1 st (set_node x (\<lambda>t. t\<lparr>status := st\<rparr>) (llist_add_tail x st s)))"
  using assms by (simp add: vfs_set_task_def llist_del_detached)

lemma tq_inv_set:
  assumes "tq_inv s" "detached s x"
  shows "tq_inv (snd (vfs_set_task lk x st s))"
proof (cases "bad_status st \<or> lock_failed lk")
  case True
  with assms(1) show ?thesis by (auto simp: vfs_set_task_def)
next
  case False
  then have eq: "snd (vfs_set_task lk x st s) =
      atomic_add 1 st (set_node x (\<lambda>t. t\<lparr>status := st\<rparr>) (llist_add_tail x st s))" (is "_ = ?s")
    using assms(2) by (simp add: set_vfs_set_task)
  have q: "queues_ok s" "status_ok s" "count_ok s" "alltask_ok s"
    using assms(1) by (auto simp: tq_inv_def)
  have "queues_ok (llist_add_tail x st s)"
    using q(1) assms(2) False by (simp add: queues_ok_append)
  then have "queues_ok ?s" by simp
  moreover have "status_ok ?s"
    using q(2) assms(2) unfolding status_ok_def by (simp add: tq_ops detached_def)
  moreover have "count_ok ?s" using q(3) by (auto simp: count_ok_def tq_ops)
  moreover have "alltask_ok ?s" using q(4) unfolding alltask_ok_def by (simp add: tq_ops)
  ultimately show ?thesis unfolding eq by (simp add: tq_inv_def)
qed

text \<open>Allocating a node outside the pool.\<close>

lemma tq_inv_alloc:
  assumes "tq_inv s"
  shows "tq_inv (set_node (top s) f (s\<lparr>top := Suc (top s)\<rparr>))"
proof -
  have "top s \<notin> set (vfstask s i)" "top s \<notin> set (alltask s i)" for i
    using assms by (auto simp: tq_inv_def inv_defs)
  with assms show ?thesis
    by (auto simp: tq_inv_def inv_defs set_node_def less_Suc_eq)
qed

lemma set_node_llist_del_commute:
  "llist_del x (set_node x f s) = set_node x f (llist_del x s)"
  by (simp add: tq_ops)

lemma tq_inv_get:
  assumes "tq_inv s"
  shows "tq_inv (snd (snd (vfs_get_task lk m st s)))"
proof (cases "vfstask s st")
  case Nil
  with assms show ?thesis by (auto simp: vfs_get_task_def tq_inv_alloc)
next
  case (Cons x xs)
  then have x: "x \<in> set (vfstask s st)" by simp
  let ?s = "llist_del x (atomic_add (-1) st s)"
  have inv: "tq_inv ?s" by (rule tq_inv_atomic_del [OF assms x])
  have "x < top s" using assms x by (auto simp: tq_inv_def queues_ok_def)
  then have "x \<notin> set (vfstask ?s i)" for i by (simp add: tq_ops)
  then have "tq_inv (set_node x (\<lambda>t. t\<lparr>status := TASK_UNKNOWN\<rparr>) ?s)"
    by (intro tq_inv_write [OF inv]) auto
  with Cons assms show ?thesis
    by (auto simp: vfs_get_task_def set_node_llist_del_commute)
qed

lemma get_detached:
  assumes "tq_inv s" "vfs_get_task lk m st s = (r, Some x, s')"
  shows "r = GET_TASK_OK \<and> detached s' x \<and> status (node s' x) = TASK_UNKNOWN"
proof (cases "vfstask s st")
  case Nil
  have "top s \<notin> set (vfstask s i)" for i
    using queues_okD(3) [OF tq_invD(1) [OF assms(1)]] by blast
  with Nil assms show ?thesis
    by (auto simp: vfs_get_task_def detached_def set_node_def split: if_splits)
next
  case (Cons y xs)
  then have "y < top s" using queues_okD(3) [OF tq_invD(1) [OF assms(1)], of y st] by simp
  with Cons assms(2) show ?thesis
    by (auto simp: vfs_get_task_def detached_def tq_ops split: if_splits)
qed

lemma tq_inv_init: "tq_inv (init_queues s)"
  by (auto simp: tq_inv_def inv_defs init_queues_def uncounted_def pool_size_def bad_status_def)

lemma tq_inv_add_all:
  "tq_inv s \<Longrightarrow> x < top s \<Longrightarrow> tq_inv (snd (add_task_to_alltask lk x s))"
  using tq_inv_hlist_add [of s x] by (simp add: add_task_to_alltask_def key_bucket_def Let_def)

lemma tq_inv_get_all: "tq_inv s \<Longrightarrow> tq_inv (snd (snd (get_task_from_alltask lk f i c s)))"
  by (auto simp: get_task_from_alltask_def tq_inv_hlist_del split: option.split)

lemma tq_inv_set_all:
  assumes "tq_inv s"
  shows "tq_inv (snd (set_task_from_alltask lk f i c e s))"
proof -
  have "tq_inv (set_node x (\<lambda>t. t\<lparr>task := (task t)\<lparr>base := (base (task t))\<lparr>expire := e\<rparr>\<rparr>\<rparr>) s)" for x
    using assms by (intro tq_inv_write) (auto simp: key_bucket_def tq_inv_def status_ok_def)
  with assms show ?thesis by (auto simp: set_task_from_alltask_def split: option.split)
qed

text \<open>The timeout callback on a node of a queue.\<close>

lemma check_task_timeout_late:
  assumes "task_timeout cfg < cur - stime (base (task (node s x)))"
  shows "check_task_timeout lkh cur cfg x s =
     snd (vfs_set_task lkh x TASK_HOME
       (set_node x (\<lambda>t. t\<lparr>task := zero_task\<rparr>)
         (hlist_del x (llist_del x (atomic_add (-1) (status (node s x)) s)))))"
proof -
  have "atomic_add n i (hlist_del x (llist_del x s)) = hlist_del x (llist_del x (atomic_add n i s))"
    for n i by (simp add: tq_ops)
  moreover have "node (hlist_del x (llist_del x s)) = node s" by (simp add: tq_ops)
  ultimately show ?thesis using assms by (simp add: check_task_timeout_def Let_def)
qed

lemma tq_inv_check_task_timeout:
  assumes "tq_inv s" "x \<in> set (vfstask s i)"
  shows "tq_inv (check_task_timeout lkh cur cfg x s)"
proof (cases "task_timeout cfg < cur - stime (base (task (node s x)))")
  case True
  have st: "status (node s x) = i" "x < top s"
    using assms by (auto simp: tq_inv_def inv_defs)
  let ?s = "hlist_del x (llist_del x (atomic_add (-1) i s))"
  have "tq_inv ?s" by (intro tq_inv_hlist_del tq_inv_atomic_del assms)
  moreover have d: "detached ?s x" using st(2) by (simp add: detached_def tq_ops)
  ultimately have "tq_inv (set_node x (\<lambda>t. t\<lparr>task := zero_task\<rparr>) ?s)"
    by (intro tq_inv_write) (auto simp: detached_def hlist_del_def)
  then show ?thesis
    unfolding check_task_timeout_late [OF True] st by (intro tq_inv_set) (simp_all add: st)
next
  case False
  with assms(1) show ?thesis by (simp add: check_task_timeout_def)
qed

section \<open>The timeout scan\<close>

definition late :: "int \<Rightarrow> t_g_config \<Rightarrow> task_state \<Rightarrow> addr \<Rightarrow> bool" where
  "late cur cfg s x \<longleftrightarrow> cur - stime (base (task (node s x))) > task_timeout cfg"

text \<open>The effect of the callback on a late node, when the lock of \<open>TASK_HOME\<close> is had.\<close>

definition home_node :: "t_vfs_tasklist \<Rightarrow> t_vfs_tasklist" where
  "home_node t = t\<lparr>task := zero_task, status := TASK_HOME\<rparr>"

lemma check_task_timeout_effect:
  assumes "tq_inv s" "x \<in> set (vfstask s i)" "i \<noteq> TASK_HOME" "late cur cfg s x" "\<not> lock_failed lkh"
  shows "vfstask (check_task_timeout lkh cur cfg x s) =
      (vfstask s)(i := removeAll x (vfstask s i), TASK_HOME := vfstask s TASK_HOME @ [x])"
    and "node (check_task_timeout lkh cur cfg x s) = (node s)(x := home_node (node s x))"
proof -
  have q: "queues_ok s" using assms(1) by (rule tq_invD)
  have other: "x \<notin> set (vfstask s j)" if "j \<noteq> i" for j
    using queues_okD(2) [OF q assms(2)] that by blast
  have x: "status (node s x) = i" "x < top s"
    using assms(1,2) queues_okD(3) [OF q] by (auto simp: tq_inv_def status_ok_def)
  let ?t = "set_node x (\<lambda>t. t\<lparr>task := zero_task\<rparr>) (hlist_del x (llist_del x (atomic_add (-1) i s)))"
  have "check_task_timeout lkh cur cfg x s =
      atomic_add 1 TASK_HOME (set_node x (\<lambda>t. t\<lparr>status := TASK_HOME\<rparr>) (llist_add_tail x TASK_HOME ?t))"
    using check_task_timeout_late assms(4,5) x
    by (simp add: late_def set_vfs_set_task)
  then show "vfstask (check_task_timeout lkh cur cfg x s) =
      (vfstask s)(i := removeAll x (vfstask s i), TASK_HOME := vfstask s TASK_HOME @ [x])"
    and "node (check_task_timeout lkh cur cfg x s) = (node s)(x := home_node (node s x))"
    using other assms(3) by (auto simp: tq_ops home_node_def fun_eq_iff)
qed

lemma check_task_timeout_in_time:
  "\<not> late cur cfg s x \<Longrightarrow> check_task_timeout lkh cur cfg x s = s"
  by (simp add: check_task_timeout_def late_def)

definition swept :: "int \<Rightarrow> t_g_config \<Rightarrow> task_state \<Rightarrow> addr list \<Rightarrow> addr \<Rightarrow> t_vfs_tasklist" where
  "swept cur cfg s xs = (\<lambda>x. if x \<in> set xs \<and> late cur cfg s x then home_node (node s x) else node s x)"

lemma timeout_fold:
  assumes "tq_inv s" "distinct xs" "set xs \<subseteq> set (vfstask s i)" "i \<noteq> TASK_HOME" "\<not> lock_failed lkh"
  shows "vfstask (fold (check_task_timeout lkh cur cfg) xs s) =
      (vfstask s)(i := filter (\<lambda>x. \<not> (x \<in> set xs \<and> late cur cfg s x)) (vfstask s i),
                  TASK_HOME := vfstask s TASK_HOME @ filter (late cur cfg s) xs) \<and>
    node (fold (check_task_timeout lkh cur cfg) xs s) = swept cur cfg s xs \<and>
    tq_inv (fold (check_task_timeout lkh cur cfg) xs s)"
  using assms
proof (induction xs arbitrary: s)
  case Nil
  then show ?case by (auto simp: swept_def fun_eq_iff)
next
  case (Cons x xs)
  let ?s = "check_task_timeout lkh cur cfg x s"
  show ?case
  proof (cases "late cur cfg s x")
    case False
    with Cons show ?thesis
      by (simp add: check_task_timeout_in_time swept_def fun_eq_iff) (auto intro: filter_cong)
  next
    case True
    have x: "x \<in> set (vfstask s i)" using Cons.prems(3) by simp
    note eff = check_task_timeout_effect [OF Cons.prems(1) x Cons.prems(4) True Cons.prems(5)]
    have "tq_inv ?s" by (rule tq_inv_check_task_timeout [OF Cons.prems(1) x])
    moreover have "set xs \<subseteq> set (vfstask ?s i)"
      using Cons.prems(2-4) by (auto simp: eff)
    moreover have l: "late cur cfg ?s y = late cur cfg s y" if "y \<noteq> x" for y
      using that by (simp add: late_def eff)
    moreover have "filter (late cur cfg ?s) xs = filter (late cur cfg s) xs"
      using Cons.prems(2) l by (intro filter_cong refl) (metis distinct.simps(2))
    moreover have "filter (\<lambda>y. \<not> (y \<in> set xs \<and> late cur cfg ?s y)) (removeAll x (vfstask s i)) =
        filter (\<lambda>y. \<not> (y \<in> set (x # xs) \<and> late cur cfg s y)) (vfstask s i)"
    proof -
      have "(y \<noteq> x \<and> \<not> (y \<in> set xs \<and> late cur cfg ?s y)) \<longleftrightarrow>
          \<not> (y \<in> set (x # xs) \<and> late cur cfg s y)" for y
        using True l [of y] by (cases "y = x") auto
      then show ?thesis by (simp only: removeAll_filter_not_eq filter_filter eq_commute [of x])
    qed
    moreover have "swept cur cfg ?s xs = swept cur cfg s (x # xs)"
      using True Cons.prems(2) l by (auto simp: swept_def fun_eq_iff eff)
    ultimately show ?thesis
      using Cons.IH [of ?s] Cons.prems(2,4,5) True by (simp add: eff fun_eq_iff)
  qed
qed

text \<open>One queue, then the queues below \<open>TASK_CLEAN\<close>.\<close>

lemma scan_timeout:
  assumes "tq_inv s" "\<not> bad_status i" "i \<noteq> TASK_HOME" "\<not> lock_failed lk" "\<not> lock_failed lkh"
    and "s' = snd (scan_some_status_task lk i (check_task_timeout lkh cur cfg) s)"
  shows "vfstask s' = (vfstask s)(i := filter (\<lambda>x. \<not> late cur cfg s x) (vfstask s i),
                  TASK_HOME := vfstask s TASK_HOME @ filter (late cur cfg s) (vfstask s i))"
    and "node s' = swept cur cfg s (vfstask s i)"
    and "tq_inv s'"
proof -
  have "s' = fold (check_task_timeout lkh cur cfg) (vfstask s i) s"
    using assms(2,4,6) by (simp add: scan_some_status_task_def)
  moreover have "filter (\<lambda>x. \<not> (x \<in> set (vfstask s i) \<and> late cur cfg s x)) (vfstask s i) =
      filter (\<lambda>x. \<not> late cur cfg s x) (vfstask s i)" by (rule filter_cong) auto
  ultimately show "vfstask s' = (vfstask s)(i := filter (\<lambda>x. \<not> late cur cfg s x) (vfstask s i),
        TASK_HOME := vfstask s TASK_HOME @ filter (late cur cfg s) (vfstask s i))"
    and "node s' = swept cur cfg s (vfstask s i)" and "tq_inv s'"
    using timeout_fold [OF assms(1) queues_okD(1) [OF tq_invD(1) [OF assms(1)]] order_refl
        assms(3,5)] by simp_all
qed

lemma late_swept:
  assumes "node s' = swept cur cfg s xs" "x \<notin> set xs"
  shows "late cur cfg s' x = late cur cfg s x"
  using assms by (simp add: late_def swept_def)

lemma do_timeout_fold:
  assumes "tq_inv s" "distinct is" "\<forall>i\<in>set is. \<not> bad_status i \<and> i \<noteq> TASK_HOME \<and> \<not> lock_failed (lk i)"
    and "\<not> lock_failed lkh"
  shows "vfstask (fold (\<lambda>i s. snd (scan_some_status_task (lk i) i (check_task_timeout lkh cur cfg) s)) is s) =
      (\<lambda>j. if j \<in> set is then filter (\<lambda>x. \<not> late cur cfg s x) (vfstask s j)
           else if j = TASK_HOME
             then vfstask s j @ concat (map (\<lambda>i. filter (late cur cfg s) (vfstask s i)) is)
           else vfstask s j) \<and>
    tq_inv (fold (\<lambda>i s. snd (scan_some_status_task (lk i) i (check_task_timeout lkh cur cfg) s)) is s)"
  using assms
proof (induction "is" arbitrary: s)
  case Nil
  then show ?case by auto
next
  case (Cons i "is")
  let ?s = "snd (scan_some_status_task (lk i) i (check_task_timeout lkh cur cfg) s)"
  have i: "\<not> bad_status i" "i \<noteq> TASK_HOME" "\<not> lock_failed (lk i)" using Cons.prems(3) by auto
  note step = scan_timeout [OF Cons.prems(1) i Cons.prems(4) refl, of cur cfg]
  have same: "filter (late cur cfg ?s) (vfstask s j) = filter (late cur cfg s) (vfstask s j)"
      "filter (\<lambda>x. \<not> late cur cfg ?s x) (vfstask s j) = filter (\<lambda>x. \<not> late cur cfg s x) (vfstask s j)"
    if "j \<in> set is" for j
  proof -
    have "x \<notin> set (vfstask s i)" if "x \<in> set (vfstask s j)" for x
      using queues_okD(2) [OF tq_invD(1) [OF Cons.prems(1)], of x i j] that Cons.prems(2)
        \<open>j \<in> set is\<close> by auto
    then show "filter (late cur cfg ?s) (vfstask s j) = filter (late cur cfg s) (vfstask s j)"
      "filter (\<lambda>x. \<not> late cur cfg ?s x) (vfstask s j) = filter (\<lambda>x. \<not> late cur cfg s x) (vfstask s j)"
      using late_swept [OF step(2)] by (auto intro!: filter_cong)
  qed
  have j: "j \<noteq> TASK_HOME \<and> j \<noteq> i" if "j \<in> set is" for j using Cons.prems(2,3) that by auto
  have "concat (map (\<lambda>i. filter (late cur cfg ?s) (vfstask ?s i)) is) =
      concat (map (\<lambda>i. filter (late cur cfg s) (vfstask s i)) is)"
    using j same by (intro arg_cong [where f = concat] map_cong) (auto simp: step(1))
  moreover have "filter (\<lambda>x. \<not> late cur cfg ?s x) (vfstask ?s k) =
      filter (\<lambda>x. \<not> late cur cfg s x) (vfstask s k)" if "k \<in> set is" for k
    using j [OF that] same(2) [OF that] by (simp add: step(1))
  ultimately show ?case
    using Cons.IH [of ?s] Cons.prems(2-4) step(3) i j by (auto simp: step(1) fun_eq_iff)
qed

lemma do_timeout_task_eq:
  assumes "tq_inv s" "\<forall>i\<in>{0..8}. \<not> lock_failed (lk i)" "\<not> lock_failed lkh"
  shows "vfstask (do_timeout_task lk lkh cur cfg s) =
      (\<lambda>j. if 0 \<le> j \<and> j \<le> 8 then filter (\<lambda>x. \<not> late cur cfg s x) (vfstask s j)
           else if j = TASK_HOME
             then vfstask s j @ concat (map (\<lambda>i. filter (late cur cfg s) (vfstask s i)) [0..8])
           else vfstask s j)"
  using do_timeout_fold [OF assms(1), of "[0..8]" lk lkh cur cfg] assms(2,3)
  by (simp add: do_timeout_task_def bad_status_def)

text \<open>The invariant, whatever the locks return.\<close>

lemma tq_inv_timeout_fold:
  assumes "tq_inv s" "distinct xs" "set xs \<subseteq> set (vfstask s i)"
  shows "tq_inv (fold (check_task_timeout lkh cur cfg) xs s)"
  using assms
proof (induction xs arbitrary: s)
  case (Cons x xs)
  have x: "x \<in> set (vfstask s i)" using Cons.prems(3) by simp
  have keep: "y \<in> set (vfstask (check_task_timeout lkh cur cfg x s) i)" if "y \<in> set xs" for y
    using that Cons.prems(2,3)
    by (auto simp: check_task_timeout_def vfs_set_task_def Let_def tq_ops)
  from tq_inv_check_task_timeout [OF Cons.prems(1) x] keep Cons.IH Cons.prems(2)
  show ?case by (simp add: subset_iff)
qed simp

lemma tq_inv_do_timeout:
  assumes "tq_inv s"
  shows "tq_inv (do_timeout_task lk lkh cur cfg s)"
proof -
  have "tq_inv (snd (scan_some_status_task l i (check_task_timeout lkh cur cfg) t))" if "tq_inv t" for l i t
    using that tq_inv_timeout_fold [OF that queues_okD(1) [OF tq_invD(1) [OF that]] order_refl]
    by (simp add: scan_some_status_task_def)
  then have "tq_inv (fold (\<lambda>i s. snd (scan_some_status_task (lk i) i (check_task_timeout lkh cur cfg) s)) is s)"
    for "is" using assms by (induction "is" arbitrary: s) simp_all
  then show ?thesis by (simp add: do_timeout_task_def)
qed

end
