(* ===== verification/TaskQueueProps.thy ===== *)
theory TaskQueueProps
  imports TaskQueueInv
begin

text \<open>
  What the task queues promise their callers: the reachable states and the invariant there, the
  counters, the order of the queues, the hand-over of a node by \<open>vfs_get_task\<close>, the hash table of
  running tasks, and the timeout scan.
\<close>

section \<open>Reachable states\<close>

text \<open>
  The callers' discipline is in the guards: only the holder of a detached node puts it on a queue
  or writes to it, and the holder leaves the key of a hashed node alone.
\<close>

inductive task_step :: "task_state \<Rightarrow> task_state \<Rightarrow> bool" where
  step_get: "task_step s (snd (snd (vfs_get_task lk m st s)))"
| step_set: "detached s x \<Longrightarrow> task_step s (snd (vfs_set_task lk x st s))"
| step_hash: "x < top s \<Longrightarrow> task_step s (snd (add_task_to_alltask lk x s))"
| step_unhash: "task_step s (snd (snd (get_task_from_alltask lk f i c s)))"
| step_expire: "task_step s (snd (set_task_from_alltask lk f i c e s))"
| step_timeout: "task_step s (do_timeout_task lks lkh cur cfg s)"
| step_write:
    "detached s x \<Longrightarrow> (\<And>i. x \<in> set (alltask s i) \<Longrightarrow> key_bucket (f (node s x)) = key_bucket (node s x)) \<Longrightarrow>
     task_step s (set_node x f s)"

inductive reachable :: "task_state \<Rightarrow> bool" where
  reach_init: "reachable (init_queues s)"
| reach_step: "reachable s \<Longrightarrow> task_step s s' \<Longrightarrow> reachable s'"

inductive_cases task_stepE: "task_step s s'"

lemma tq_inv_step: "task_step s s' \<Longrightarrow> tq_inv s \<Longrightarrow> tq_inv s'"
proof (induction rule: task_step.induct)
  case (step_write s x f)
  then show ?case by (intro tq_inv_write) (auto simp: detached_def)
qed (simp_all add: tq_inv_get tq_inv_set tq_inv_add_all tq_inv_get_all tq_inv_set_all
       tq_inv_do_timeout)

lemma reachable_inv: "reachable s \<Longrightarrow> tq_inv s"
  by (induction rule: reachable.induct) (auto intro: tq_inv_init tq_inv_step)

text \<open>The globals before \<^verbatim>\<open>main\<close>, and a state with a task waiting, used as concrete inputs.\<close>

definition task_globals :: task_state where
  "task_globals = \<lparr>node = (\<lambda>_. \<lparr>task = zero_task, upip = 0, status = 0\<rparr>), vfstask = (\<lambda>_. []),
     alltask = (\<lambda>_. []), taskcount = (\<lambda>_. 0), top = 0\<rparr>"

definition one_waiting :: task_state where
  "one_waiting = snd (vfs_set_task 0 2047 TASK_WAIT
                   (snd (snd (vfs_get_task 0 True TASK_HOME (init_queues task_globals)))))"

lemma init_home: "vfstask (init_queues s) TASK_HOME = 2047 # rev [0..<2047]"
proof -
  have "[0..<pool_size] = [0..<2047] @ [2047]"
    using upt_Suc [of 0 2047] by (simp add: pool_size_def)
  then show ?thesis by (simp add: init_queues_def)
qed

lemma taken_detached:
  "detached (snd (snd (vfs_get_task 0 True TASK_HOME (init_queues s)))) 2047"
proof -
  have "vfs_get_task 0 True TASK_HOME (init_queues s) =
      (GET_TASK_OK, Some 2047, snd (snd (vfs_get_task 0 True TASK_HOME (init_queues s))))"
    by (simp add: vfs_get_task_def init_home lock_failed_def)
  from get_detached [OF tq_inv_init this] show ?thesis by simp
qed

lemma reachable_one_waiting: "reachable one_waiting"
  unfolding one_waiting_def
  by (rule reach_step [OF reach_step [OF reach_init step_get] step_set [OF taken_detached]])

text \<open>C13: In every state the program can reach through the operations of \<^verbatim>\<open>vfs_task.c\<close>, each task is
  on at most one state queue, its status field names that queue, the counters agree with the queues,
  and the hash table holds each hashed task in the bucket of its key.\<close>

theorem reachable_tq_inv:
  assumes "reachable s"
  shows "tq_inv s"
  by (rule reachable_inv [OF assms])

theorem reachable_tq_inv_witness: "tq_inv one_waiting"
  by (rule reachable_tq_inv [OF reachable_one_waiting])

text \<open>The number that \<^verbatim>\<open>get_task_count\<close> reports is the length of the queue, except for
  \<^verbatim>\<open>TASK_HOME\<close>, where it is 2048 too small because \<^verbatim>\<open>init_task_info\<close> clears the counters after it
  has filled the pool.\<close>

theorem get_task_count_length:
  assumes "reachable s" "0 \<le> st" "st < TASK_UNKNOWN"
  shows "get_task_count st s =
           int (length (vfstask s st)) - (if st = TASK_HOME then 2048 else 0)"
  using reachable_inv [OF assms(1)] assms(2,3)
  by (auto simp: get_task_count_def tq_inv_def count_ok_def bad_status_def uncounted_def pool_size_def)

theorem get_task_count_length_witness:
  "get_task_count TASK_HOME one_waiting = int (length (vfstask one_waiting TASK_HOME)) - 2048"
  using get_task_count_length [OF reachable_one_waiting, of TASK_HOME] by simp

section \<open>Taking tasks\<close>

text \<open>C14: \<^verbatim>\<open>vfs_get_task\<close> hands a task over exactly when it returns \<^verbatim>\<open>GET_TASK_OK\<close>; that task is then
  on no queue and has status \<^verbatim>\<open>TASK_UNKNOWN\<close>, and every other task is where it was; on any other
  result nothing has changed.\<close>

theorem vfs_get_task_hands_over:
  assumes "tq_inv s" "vfs_get_task lk m st s = (r, x, s')"
  shows "(r = GET_TASK_OK \<longleftrightarrow> x \<noteq> None) \<and>
    (case x of
       None \<Rightarrow> s' = s
     | Some y \<Rightarrow> detached s' y \<and> status (node s' y) = TASK_UNKNOWN \<and>
         (\<forall>i. vfstask s' i = removeAll y (vfstask s i)) \<and>
         (\<forall>z. z \<noteq> y \<longrightarrow> node s' z = node s z))"
proof (cases x)
  case None
  with assms(2) show ?thesis
    by (auto simp: vfs_get_task_def lock_failed_def split: if_splits list.splits)
next
  case (Some y)
  have "top s \<notin> set (vfstask s i)" for i
    using queues_okD(3) [OF tq_invD(1) [OF assms(1)]] by blast
  then have "(\<forall>i. vfstask s' i = removeAll y (vfstask s i)) \<and> (\<forall>z. z \<noteq> y \<longrightarrow> node s' z = node s z)"
    using assms(2) Some unfolding vfs_get_task_def
    by (cases "vfstask s st") (auto simp: tq_ops split: if_splits)
  with get_detached [OF assms(1)] assms(2) Some show ?thesis by simp
qed

lemma get_front:
  assumes "vfstask s st = x # xs" "\<not> bad_status st"
  shows "vfs_get_task 0 m st s = (GET_TASK_OK, Some x, snd (snd (vfs_get_task 0 m st s)))"
    and "vfstask (snd (snd (vfs_get_task 0 m st s))) = (\<lambda>i. removeAll x (vfstask s i))"
    and "top (snd (snd (vfs_get_task 0 m st s))) = top s"
  using assms by (simp_all add: vfs_get_task_def lock_failed_def tq_ops)

theorem vfs_get_task_hands_over_witness:
  "detached (snd (snd (vfs_get_task 0 True TASK_HOME (init_queues task_globals)))) 2047"
  using vfs_get_task_hands_over [OF tq_inv_init get_front(1) [OF init_home bad_HOME]] by simp

text \<open>Taking \<open>n\<close> tasks, as the consumers' loops do.\<close>

fun take_tasks :: "nat \<Rightarrow> int \<Rightarrow> task_state \<Rightarrow> addr option list \<times> task_state" where
  "take_tasks 0 st s = ([], s)"
| "take_tasks (Suc n) st s =
     (let (_, x, s') = vfs_get_task 0 True st s; (xs, s'') = take_tasks n st s' in (x # xs, s''))"

fun put_tasks :: "addr list \<Rightarrow> int \<Rightarrow> task_state \<Rightarrow> task_state" where
  "put_tasks [] st s = s"
| "put_tasks (x # xs) st s = put_tasks xs st (snd (vfs_set_task 0 x st s))"

lemma put_tasks_queue:
  assumes "\<not> bad_status st" "distinct xs" "\<forall>x\<in>set xs. detached s x"
  shows "vfstask (put_tasks xs st s) = (vfstask s)(st := vfstask s st @ xs)"
  using assms
proof (induction xs arbitrary: s)
  case (Cons x xs)
  have "vfstask (snd (vfs_set_task 0 x st s)) = (vfstask s)(st := vfstask s st @ [x])"
    using Cons.prems by (simp add: set_vfs_set_task lock_failed_def tq_ops)
  moreover have "top (snd (vfs_set_task 0 x st s)) = top s"
    using Cons.prems by (simp add: set_vfs_set_task lock_failed_def)
  ultimately have "vfstask (snd (vfs_set_task 0 x st s)) = (vfstask s)(st := vfstask s st @ [x])"
    and "\<forall>y\<in>set xs. detached (snd (vfs_set_task 0 x st s)) y"
    using Cons.prems(2,3) by (auto simp: detached_def)
  with Cons show ?case by (auto simp: fun_eq_iff)
qed simp

lemma take_tasks_queue:
  assumes "tq_inv s" "\<not> bad_status st" "vfstask s st = xs @ ys"
  shows "fst (take_tasks (length xs) st s) = map Some xs"
  using assms
proof (induction xs arbitrary: s)
  case (Cons x xs)
  obtain s' where s': "vfs_get_task 0 True st s = (GET_TASK_OK, Some x, s')"
    using Cons.prems by (auto simp: vfs_get_task_def lock_failed_def)
  have "tq_inv s'" using tq_inv_get [OF Cons.prems(1), of 0 True st] s' by simp
  moreover have "x \<notin> set (xs @ ys)"
    using queues_okD(1) [OF tq_invD(1) [OF Cons.prems(1)], of st] Cons.prems(3) by auto
  then have "vfstask s' st = xs @ ys"
    using s' Cons.prems by (auto simp: vfs_get_task_def lock_failed_def tq_ops)
  ultimately show ?case using Cons.IH [of s'] Cons.prems(2) s' by (simp add: split_beta)
qed simp

lemma tq_inv_put_tasks:
  assumes "tq_inv s" "\<not> bad_status st" "distinct xs" "\<forall>x\<in>set xs. detached s x"
  shows "tq_inv (put_tasks xs st s)"
  using assms
proof (induction xs arbitrary: s)
  case (Cons x xs)
  have "\<forall>y\<in>set xs. detached (snd (vfs_set_task 0 x st s)) y"
    using Cons.prems by (auto simp: set_vfs_set_task lock_failed_def detached_def tq_ops)
  with Cons show ?case by (simp add: tq_inv_set)
qed simp

text \<open>C15: The state queues are first in, first out: tasks put on an empty queue by \<^verbatim>\<open>vfs_set_task\<close> come
  back from \<^verbatim>\<open>vfs_get_task\<close> in the order in which they were put.\<close>

theorem task_queue_fifo:
  assumes "tq_inv s" "0 \<le> st" "st < TASK_UNKNOWN" "vfstask s st = []"
    and "distinct xs" "\<forall>x\<in>set xs. detached s x"
  shows "fst (take_tasks (length xs) st (put_tasks xs st s)) = map Some xs"
proof -
  have st: "\<not> bad_status st" using assms(2,3) by (simp add: bad_status_def)
  have "vfstask (put_tasks xs st s) st = xs @ []"
    using put_tasks_queue [OF st assms(5,6)] assms(4) by simp
  then show ?thesis
    by (rule take_tasks_queue [OF tq_inv_put_tasks [OF assms(1) st assms(5,6)] st])
qed

text \<open>Two tasks taken from the pool.\<close>

definition two_held :: task_state where
  "two_held = snd (take_tasks 2 TASK_HOME (init_queues task_globals))"

lemma two_held:
  shows "tq_inv two_held" "vfstask two_held TASK_WAIT = []"
    and "detached two_held 2047" "detached two_held 2046"
proof -
  let ?s = "init_queues task_globals"
  let ?t = "snd (snd (vfs_get_task 0 True TASK_HOME ?s))"
  note get1 = get_front [OF init_home bad_HOME, of True task_globals]
  have h: "rev [0..<2047] = 2046 # rev [0..<2046]" using upt_Suc [of 0 2046] by simp
  have "vfstask ?t TASK_HOME = 2046 # rev [0..<2046]"
    unfolding get1(2) init_home h by simp
  note get2 = get_front [OF this bad_HOME, of True]
  have eq: "two_held = snd (snd (vfs_get_task 0 True TASK_HOME ?t))"
    by (simp add: two_held_def numeral_2_eq_2 split_beta)
  show "tq_inv two_held" unfolding eq by (intro tq_inv_get tq_inv_init)
  have w: "vfstask two_held = (\<lambda>i. removeAll 2046 (removeAll 2047 (vfstask ?s i)))"
    "top two_held = pool_size"
    unfolding eq get1(2,3) get2(2,3) by (simp_all add: init_queues_def)
  show "vfstask two_held TASK_WAIT = []" by (simp add: w init_queues_def)
  show "detached two_held 2047" "detached two_held 2046"
    by (auto simp: detached_def w pool_size_def)
qed

theorem task_queue_fifo_witness:
  "fst (take_tasks (length [2046, 2047 :: addr]) TASK_WAIT (put_tasks [2046, 2047] TASK_WAIT two_held)) =
     [Some 2046, Some 2047]"
proof -
  have "\<forall>x\<in>set [2046, 2047 :: addr]. detached two_held x" using two_held by simp
  from task_queue_fifo [OF two_held(1) _ _ two_held(2) _ this] show ?thesis by simp
qed

section \<open>The hash table of running tasks\<close>

text \<open>A task with the key, and with the expiry mark, wherever it is in the table.\<close>

definition hashed :: "task_state \<Rightarrow> (t_vfs_tasklist \<Rightarrow> bool) \<Rightarrow> bool" where
  "hashed s P \<longleftrightarrow> (\<exists>i x. x \<in> set (alltask s i) \<and> P (node s x))"

lemma same_task_bucket:
  "alltask_ok s \<Longrightarrow> x \<in> set (alltask s i) \<Longrightarrow> same_task f k c (node s x) \<Longrightarrow> i = task_bucket f k c"
  by (auto simp: alltask_ok_def same_task_def key_bucket_def)

lemma find_bucket:
  assumes "alltask_ok s" "\<And>t. P t \<Longrightarrow> same_task f k c t"
  shows "find (\<lambda>x. P (node s x)) (alltask s (task_bucket f k c)) \<noteq> None \<longleftrightarrow> hashed s P"
proof
  assume "find (\<lambda>x. P (node s x)) (alltask s (task_bucket f k c)) \<noteq> None"
  then obtain x where "find (\<lambda>x. P (node s x)) (alltask s (task_bucket f k c)) = Some x" by auto
  from find_Some_in [OF this] show "hashed s P" by (auto simp: hashed_def)
next
  assume "hashed s P"
  then obtain i x where ix: "x \<in> set (alltask s i)" "P (node s x)" by (auto simp: hashed_def)
  from same_task_bucket [OF assms(1) ix(1) assms(2) [OF ix(2)]] ix
  show "find (\<lambda>x. P (node s x)) (alltask s (task_bucket f k c)) \<noteq> None"
    by (auto simp: find_None_iff)
qed

text \<open>C17: The search of one hash bucket is a search of the whole table: \<^verbatim>\<open>check_task_from_alltask\<close>
  succeeds exactly when some hashed task has the given file name, part, number of parts and
  expiry mark.\<close>

theorem check_alltask_complete:
  assumes "tq_inv s" "\<not> lock_failed lk"
  shows "check_task_from_alltask lk f k c e s = 0 \<longleftrightarrow>
     hashed s (\<lambda>t. same_task f k c t \<and> expire (base (task t)) = e)"
  using find_bucket [OF tq_invD(4) [OF assms(1)], of "\<lambda>t. same_task f k c t \<and> expire (base (task t)) = e" f k c]
    assms(2)
  by (auto simp: check_task_from_alltask_def split: option.splits)

definition one_hashed :: task_state where
  "one_hashed = snd (add_task_to_alltask 0 2047 (init_queues task_globals))"

lemma tq_inv_one_hashed: "tq_inv one_hashed"
  unfolding one_hashed_def
  by (intro tq_inv_add_all tq_inv_init) (simp add: init_queues_def pool_size_def)

theorem check_alltask_complete_witness:
  "check_task_from_alltask 0 [] 0 0 0 one_hashed = 0 \<longleftrightarrow>
     hashed one_hashed (\<lambda>t. same_task [] 0 0 t \<and> expire (base (task t)) = 0)"
  by (rule check_alltask_complete [OF tq_inv_one_hashed]) (simp add: lock_failed_def)

text \<open>C18: A task that \<^verbatim>\<open>add_task_to_alltask\<close> put into the table is what \<^verbatim>\<open>get_task_from_alltask\<close>
  returns for its key, and is then in no bucket.\<close>

theorem alltask_add_get:
  assumes "tq_inv s" "x < top s" "\<not> lock_failed lk"
    and "t = task (node s x)"
    and "get_task_from_alltask lk (filename (base t)) (sub_idx (sub t)) (sub_count (sub t))
           (snd (add_task_to_alltask lk x s)) = (r, y, s')"
  shows "r = 0 \<and> y = Some x \<and> (\<forall>i. alltask s' i = removeAll x (alltask s i))"
  using assms(3-)
  by (auto simp: add_task_to_alltask_def get_task_from_alltask_def Let_def tq_ops same_task_def)

theorem alltask_add_get_witness:
  "fst (snd (get_task_from_alltask 0 [] 0 0 one_hashed)) = Some 2047"
proof -
  let ?s = "init_queues task_globals"
  have n: "task (node ?s 2047) = zero_task" by (simp add: init_queues_def)
  have "2047 < top ?s" by (simp add: init_queues_def pool_size_def)
  from alltask_add_get [OF tq_inv_init this, of 0 zero_task] n show ?thesis
    by (cases "get_task_from_alltask 0 [] 0 0 one_hashed")
      (auto simp: one_hashed_def zero_task_def zero_base_def zero_sub_def lock_failed_def)
qed

section \<open>The timeout scan\<close>

text \<open>C16: \<^verbatim>\<open>do_timeout_task\<close> takes from each queue below \<^verbatim>\<open>TASK_CLEAN\<close> exactly the tasks older than the
  configured timeout, keeps the others in order, appends the old ones to \<^verbatim>\<open>TASK_HOME\<close> in the order
  in which they are met, and touches no other queue.\<close>

theorem do_timeout_task_moves_late:
  assumes "tq_inv s" "\<forall>i\<in>{0..8}. \<not> lock_failed (lk i)" "\<not> lock_failed lkh"
  shows "vfstask (do_timeout_task lk lkh cur cfg s) i =
     (if 0 \<le> i \<and> i \<le> 8 then filter (\<lambda>x. \<not> late cur cfg s x) (vfstask s i)
      else if i = TASK_HOME
        then vfstask s i @ concat (map (\<lambda>j. filter (late cur cfg s) (vfstask s j)) [0..8])
      else vfstask s i)"
  by (simp add: do_timeout_task_eq [OF assms])

definition example_config :: t_g_config where
  "example_config = \<lparr>task_timeout = 3600, splic_min_size = 1048576, cfg_retry = 3,
     cs_max_task_run_once = 16, sig_port = 49710, conn_timeout = 5, cktimeout = 10\<rparr>"

theorem do_timeout_task_moves_late_witness:
  "vfstask (do_timeout_task (\<lambda>_. 0) 0 5000 example_config one_waiting) TASK_WAIT =
     filter (\<lambda>x. \<not> late 5000 example_config one_waiting x) (vfstask one_waiting TASK_WAIT)"
  using do_timeout_task_moves_late [OF reachable_inv [OF reachable_one_waiting], of "\<lambda>_. 0" 0 5000
      example_config TASK_WAIT]
  by (simp add: lock_failed_def)

end
