(* ===== verification/Framing.thy ===== *)
theory Framing
  imports VfsPrelude
begin

text \<open>
  Byte level helpers of the message formats (\<^verbatim>\<open>memcpy\<close> into a buffer, integers in network byte
  order) and the contract of a message format on a byte stream: \<open>framing\<close>.  A receiver that
  holds some bytes asks a parser for the first message and skips the bytes of it; the contract says
  that the parser finds an encoded message whatever follows it, and finds none in a part of one.
\<close>

section \<open>Buffers and byte order\<close>

text \<open>\<^verbatim>\<open>memcpy(dst, src, n)\<close>, and with an offset into the destination.\<close>

definition memcpy :: "'a list \<Rightarrow> 'a list \<Rightarrow> nat \<Rightarrow> 'a list" where
  "memcpy dst src n = take n src @ drop n dst"

lemma take_memcpy [simp]: "n \<le> length src \<Longrightarrow> take n (memcpy dst src n) = take n src"
  by (simp add: memcpy_def)

lemma length_memcpy [simp]: "n \<le> length src \<Longrightarrow> n \<le> length dst \<Longrightarrow> length (memcpy dst src n) = length dst"
  by (simp add: memcpy_def)

text \<open>\<^verbatim>\<open>memcpy(buf + off, src, n)\<close>.\<close>

definition write_at :: "'a list \<Rightarrow> nat \<Rightarrow> 'a list \<Rightarrow> 'a list" where
  "write_at buf off src = take off buf @ src @ drop (off + length src) buf"

lemma length_write_at: "off + length src \<le> length buf \<Longrightarrow> length (write_at buf off src) = length buf"
  by (simp add: write_at_def)

lemma take_write_at:
  "off + length src \<le> length buf \<Longrightarrow> take (off + length src) (write_at buf off src) = take off buf @ src"
  by (simp add: write_at_def)

text \<open>\<^verbatim>\<open>htons\<close>, \<^verbatim>\<open>htonl\<close> followed by a copy to the wire, and the way back.\<close>

definition put_be16 :: "uint16 \<Rightarrow> string" where
  "put_be16 w = [char_of (unat w div 256), char_of (unat w)]"

definition get_be16 :: "string \<Rightarrow> uint16" where
  "get_be16 s = word_of_nat (256 * of_char (s ! 0) + of_char (s ! 1))"

definition put_be32 :: "uint32 \<Rightarrow> string" where
  "put_be32 w = [char_of (unat w div 2 ^ 24), char_of (unat w div 2 ^ 16), char_of (unat w div 2 ^ 8),
                 char_of (unat w)]"

definition get_be32 :: "string \<Rightarrow> uint32" where
  "get_be32 s = word_of_nat (2 ^ 24 * of_char (s ! 0) + 2 ^ 16 * of_char (s ! 1)
                   + 2 ^ 8 * of_char (s ! 2) + of_char (s ! 3))"

lemma length_put_be16 [simp]: "length (put_be16 w) = 2"
  by (simp add: put_be16_def)

lemma length_put_be32 [simp]: "length (put_be32 w) = 4"
  by (simp add: put_be32_def)

lemma of_char_of_mod: "(of_char (char_of (n :: nat)) :: nat) = n mod 256"
  by simp

lemma unat_back: "word_of_nat (unat w) = w"
  by simp

lemma get_put_be16 [simp]: "get_be16 (put_be16 w @ r) = w"
proof -
  have "unat w < 65536" using unsigned_less [of w, where ?'a = nat] by simp
  then have "unat w div 256 mod 256 = unat w div 256" by simp
  then have "256 * (unat w div 256 mod 256) + unat w mod 256 = unat w" by simp
  then show ?thesis by (simp only: get_be16_def put_be16_def of_char_of_mod append_Cons nth_Cons_0
        One_nat_def nth_Cons_Suc unat_back)
qed

lemma be32_digits:
  fixes n :: nat
  assumes "n < 2 ^ 32"
  shows "2 ^ 24 * (n div 2 ^ 24 mod 256) + 2 ^ 16 * (n div 2 ^ 16 mod 256)
      + 2 ^ 8 * (n div 2 ^ 8 mod 256) + n mod 256 = n"
proof -
  define a where "a = n div 256"
  define b where "b = a div 256"
  define c where "c = b div 256"
  have e: "n div 2 ^ 8 = a" "n div 2 ^ 16 = b" "n div 2 ^ 24 = c"
    by (simp_all add: a_def b_def c_def div_mult2_eq [symmetric])
  have "c < 256" using assms by (simp add: a_def b_def c_def div_mult2_eq [symmetric])
  then have "c mod 256 = c" by simp
  moreover have "b = 256 * c + b mod 256" "a = 256 * b + a mod 256" "n = 256 * a + n mod 256"
    by (simp_all add: a_def b_def c_def)
  ultimately have "16777216 * (c mod 256) + 65536 * (b mod 256) + 256 * (a mod 256) + n mod 256 = n"
    by linarith
  then show ?thesis unfolding e by simp
qed

lemma get_put_be32 [simp]: "get_be32 (put_be32 w @ r) = w"
proof -
  have "unat w < 2 ^ 32" using unsigned_less [of w, where ?'a = nat] by simp
  note be32_digits [OF this]
  then show ?thesis
    by (simp only: get_be32_def put_be32_def of_char_of_mod append_Cons nth_Cons_0
        One_nat_def numeral_2_eq_2 numeral_3_eq_3 nth_Cons_Suc unat_back)
qed

section \<open>The contract of a message format\<close>

text \<open>A parser returns the first message and the number of bytes it takes.\<close>

function decode_stream :: "(string \<Rightarrow> ('m \<times> nat) option) \<Rightarrow> string \<Rightarrow> 'm list \<times> string" where
  "decode_stream dec s =
     (case dec s of
        None \<Rightarrow> ([], s)
      | Some (m, n) \<Rightarrow>
          if 0 < n \<and> n \<le> length s
          then let (ms, r) = decode_stream dec (drop n s) in (m # ms, r)
          else ([], s))"
  by pat_completeness auto
termination by (relation "measure (\<lambda>(_, s). length s)") auto

declare decode_stream.simps [simp del]

locale framing =
  fixes enc :: "'m \<Rightarrow> string"
    and dec :: "string \<Rightarrow> ('m \<times> nat) option"
    and ok :: "'m \<Rightarrow> bool"
  assumes dec_enc: "ok m \<Longrightarrow> dec (enc m @ r) = Some (m, length (enc m))"
    and enc_nonempty: "ok m \<Longrightarrow> enc m \<noteq> []"
    and dec_short: "ok m \<Longrightarrow> n < length (enc m) \<Longrightarrow> dec (take n (enc m)) = None"
begin

lemma enc_inj: "ok m \<Longrightarrow> ok m' \<Longrightarrow> enc m = enc m' \<Longrightarrow> m = m'"
  by (metis dec_enc option.inject prod.inject)

lemma prefix_free: "ok m \<Longrightarrow> ok m' \<Longrightarrow> enc m' = enc m @ r \<Longrightarrow> m = m' \<and> r = []"
  by (metis append_Nil2 append_self_conv dec_enc length_append option.inject prod.inject
      self_append_conv append_eq_append_conv)

lemma decode_one: "ok m \<Longrightarrow> decode_stream dec (enc m @ r) =
    (let (ms, r') = decode_stream dec r in (m # ms, r'))"
  by (subst decode_stream.simps) (simp add: dec_enc enc_nonempty)

text \<open>A stream of whole messages, ending in the middle of one.\<close>

lemma decode_stream_complete:
  "\<forall>m\<in>set ms. ok m \<Longrightarrow> dec r = None \<Longrightarrow>
   decode_stream dec (concat (map enc ms) @ r) = (ms, r)"
proof (induction ms)
  case Nil
  then show ?case by (subst decode_stream.simps) simp
next
  case (Cons m ms)
  then show ?case by (simp add: decode_one)
qed

lemma decode_stream_split:
  assumes "\<forall>m\<in>set ms. ok m" "ok m" "n < length (enc m)"
  shows "decode_stream dec (concat (map enc ms) @ take n (enc m)) = (ms, take n (enc m))"
  using decode_stream_complete [OF assms(1) dec_short [OF assms(2,3)]] .

end

end
