(* ===== verification/Protocol.thy ===== *)
theory Protocol
  imports Framing
begin

text \<open>
  The two binary message formats: signalling between the nodes (\<^verbatim>\<open>src/lib/protocol.c\<close>, header of
  four bytes) and the VOSS link (\<^verbatim>\<open>src/lib/pro_voss.c\<close>, header of twelve bytes with a sequence
  number).  A buffer is the list of the bytes in it, \<^verbatim>\<open>slen\<close> its length; a body is an array
  of \<^verbatim>\<open>MAX_SIG_BODY\<close> bytes whose tail \<^verbatim>\<open>parse_sig_msg\<close> leaves alone.
\<close>

section \<open>Signalling\<close>

abbreviation E_PACKET_ERR_CLOSE :: int where "E_PACKET_ERR_CLOSE \<equiv> - 100"
abbreviation E_PRO_OK :: int where "E_PRO_OK \<equiv> 0"
abbreviation E_PRO_HEAD_LEN :: int where "E_PRO_HEAD_LEN \<equiv> 1"
abbreviation E_PRO_TOTAL_LEN :: int where "E_PRO_TOTAL_LEN \<equiv> 2"

abbreviation SIG_HEADSIZE :: nat where "SIG_HEADSIZE \<equiv> 4"
definition MAX_SIG_BODY :: nat where "MAX_SIG_BODY = 4096"

record t_vfs_sig_head =
  bodylen :: uint16
  cmdid :: byte
  sig_status :: byte

definition sig_head_bytes :: "t_vfs_sig_head \<Rightarrow> string" where
  "sig_head_bytes h = put_be16 (bodylen h) @ [char_of (unat (cmdid h)), char_of (unat (sig_status h))]"

definition parse_sig_msg :: "t_vfs_sig_head \<Rightarrow> string \<Rightarrow> string \<Rightarrow> int \<times> t_vfs_sig_head \<times> string" where
  "parse_sig_msg h b s =
     (if length s < SIG_HEADSIZE then (E_PRO_HEAD_LEN, h, b)
      else let h = \<lparr>bodylen = get_be16 s, cmdid = of_char (s ! 2), sig_status = of_char (s ! 3)\<rparr>
           in if unat (bodylen h) \<ge> MAX_SIG_BODY then (E_PACKET_ERR_CLOSE, h, b)
              else if length s < SIG_HEADSIZE + unat (bodylen h) then (E_PRO_TOTAL_LEN, h, b)
              else if length s = SIG_HEADSIZE then (0, h, b)
              else (0, h, memcpy b (drop SIG_HEADSIZE s) (unat (bodylen h))))"

definition create_sig_msg :: "byte \<Rightarrow> byte \<Rightarrow> string \<Rightarrow> uint16 \<Rightarrow> string" where
  "create_sig_msg cmd st b len =
     (let p = sig_head_bytes \<lparr>bodylen = len, cmdid = cmd, sig_status = st\<rparr>
      in if len = 0 then p else p @ take (unat len) b)"

text \<open>A message as the receivers see it: command, status and the bytes of the body.\<close>

record sig_msg =
  sm_cmd :: byte
  sm_status :: byte
  sm_body :: string

definition sig_ok :: "sig_msg \<Rightarrow> bool" where
  "sig_ok m \<longleftrightarrow> length (sm_body m) < MAX_SIG_BODY"

definition sig_enc :: "sig_msg \<Rightarrow> string" where
  "sig_enc m = create_sig_msg (sm_cmd m) (sm_status m) (sm_body m) (word_of_nat (length (sm_body m)))"

definition sig_dec :: "string \<Rightarrow> (sig_msg \<times> nat) option" where
  "sig_dec s =
     (case parse_sig_msg \<lparr>bodylen = 0, cmdid = 0, sig_status = 0\<rparr> (replicate MAX_SIG_BODY NUL) s of
        (r, h, b) \<Rightarrow>
          if r = E_PRO_OK
          then Some (\<lparr>sm_cmd = cmdid h, sm_status = sig_status h, sm_body = take (unat (bodylen h)) b\<rparr>,
                     SIG_HEADSIZE + unat (bodylen h))
          else None)"

lemma length_sig_head [simp]: "length (sig_head_bytes h) = 4"
  by (simp add: sig_head_bytes_def)

lemma sig_head_nth [simp]:
  "(sig_head_bytes h @ r) ! 2 = char_of (unat (cmdid h))" "(sig_head_bytes h @ r) ! 3 = char_of (unat (sig_status h))"
  by (simp_all add: sig_head_bytes_def put_be16_def)

lemma get_sig_head [simp]: "get_be16 (sig_head_bytes h @ r) = bodylen h"
  by (simp add: sig_head_bytes_def)

lemma of_char_char_of_byte [simp]: "of_char (char_of (unat (b :: byte))) = b"
proof -
  have "(of_char (char_of (unat b)) :: byte) = word_of_nat (of_char (char_of (unat b)))"
    by (simp only: of_nat_of_char)
  also have "\<dots> = word_of_nat (unat b mod 256)" by simp
  also have "\<dots> = b" using unsigned_less [of b, where ?'a = nat] by simp
  finally show ?thesis .
qed

lemma parse_create_sig_msg:
  assumes "unat len < MAX_SIG_BODY" "unat len \<le> length b"
  shows "parse_sig_msg h0 b0 (create_sig_msg cmd st b len @ r) =
    (0, \<lparr>bodylen = len, cmdid = cmd, sig_status = st\<rparr>, memcpy b0 b (unat len))"
proof (cases "len = 0")
  case True
  with assms show ?thesis
    by (auto simp: parse_sig_msg_def create_sig_msg_def Let_def memcpy_def)
next
  case False
  with assms show ?thesis
    by (simp add: parse_sig_msg_def create_sig_msg_def Let_def memcpy_def)
qed

lemma parse_sig_msg_short:
  assumes "n < length (create_sig_msg cmd st b len)" "unat len < MAX_SIG_BODY" "unat len \<le> length b"
  shows "fst (parse_sig_msg h0 b0 (take n (create_sig_msg cmd st b len))) =
    (if n < SIG_HEADSIZE then E_PRO_HEAD_LEN else E_PRO_TOTAL_LEN)"
proof -
  let ?m = "create_sig_msg cmd st b len"
  have l: "length ?m = 4 + unat len" using assms(3) by (auto simp: create_sig_msg_def Let_def)
  show ?thesis
  proof (cases "n < 4")
    case True
    with l show ?thesis by (simp add: parse_sig_msg_def)
  next
    case False
    then have "\<exists>r. take n ?m = sig_head_bytes \<lparr>bodylen = len, cmdid = cmd, sig_status = st\<rparr> @ r"
      by (auto simp: create_sig_msg_def Let_def)
    then obtain r where r: "take n ?m = sig_head_bytes \<lparr>bodylen = len, cmdid = cmd, sig_status = st\<rparr> @ r" ..
    moreover have "length (take n ?m) = n" using assms(1) by simp
    ultimately show ?thesis
      using False assms l by (auto simp: parse_sig_msg_def Let_def)
  qed
qed

lemma sig_len: "sig_ok m \<Longrightarrow> unat (word_of_nat (length (sm_body m)) :: uint16) = length (sm_body m)"
  by (simp add: sig_ok_def MAX_SIG_BODY_def unat_of_nat)

lemma length_sig_enc: "sig_ok m \<Longrightarrow> length (sig_enc m) = 4 + length (sm_body m)"
  using sig_len [of m]
  by (cases "sm_body m = []") (auto simp: sig_enc_def create_sig_msg_def Let_def unat_eq_0)

interpretation sig: framing sig_enc sig_dec sig_ok
proof unfold_locales
  fix m r assume ok: "sig_ok m"
  then have b: "length (sm_body m) < MAX_SIG_BODY" by (simp add: sig_ok_def)
  have "parse_sig_msg \<lparr>bodylen = 0, cmdid = 0, sig_status = 0\<rparr> (replicate MAX_SIG_BODY NUL) (sig_enc m @ r) =
      (0, \<lparr>bodylen = word_of_nat (length (sm_body m)), cmdid = sm_cmd m, sig_status = sm_status m\<rparr>,
       memcpy (replicate MAX_SIG_BODY NUL) (sm_body m) (length (sm_body m)))"
    unfolding sig_enc_def
    using b sig_len [OF ok] by (subst parse_create_sig_msg) auto
  then show "sig_dec (sig_enc m @ r) = Some (m, length (sig_enc m))"
    using sig_len [OF ok] by (simp add: sig_dec_def length_sig_enc [OF ok])
next
  fix m assume "sig_ok m"
  from length_sig_enc [OF this] show "sig_enc m \<noteq> []" by auto
next
  fix m n assume ok: "sig_ok m" and n: "n < length (sig_enc m)"
  have "fst (parse_sig_msg \<lparr>bodylen = 0, cmdid = 0, sig_status = 0\<rparr> (replicate MAX_SIG_BODY NUL)
      (take n (sig_enc m))) \<noteq> E_PRO_OK"
    using n sig_len [OF ok] ok unfolding sig_enc_def
    by (subst parse_sig_msg_short) (auto simp: sig_ok_def)
  then show "sig_dec (take n (sig_enc m)) = None"
    by (auto simp: sig_dec_def split: prod.split)
qed

section \<open>VOSS messages\<close>

abbreviation E_NOT_SUFFIC :: int where "E_NOT_SUFFIC \<equiv> 1"
abbreviation HEADSIZE :: nat where "HEADSIZE \<equiv> 12"

record t_head_info =
  totallen :: uint32
  vcmdid :: uint32
  seq :: uint32

text \<open>\<^verbatim>\<open>getseq\<close> returns its static counter and increments it.\<close>

definition getseq :: "uint32 \<Rightarrow> uint32 \<times> uint32" where
  "getseq sq = (sq, sq + 1)"

definition voss_head_bytes :: "t_head_info \<Rightarrow> string" where
  "voss_head_bytes h = put_be32 (totallen h) @ put_be32 (vcmdid h) @ put_be32 (seq h)"

text \<open>\<^verbatim>\<open>create_msg\<close>: the bytes written (\<^verbatim>\<open>*outlen\<close> is their number) and the new counter.\<close>

definition create_msg :: "uint32 \<Rightarrow> string \<Rightarrow> uint32 \<Rightarrow> string \<times> uint32" where
  "create_msg cmd inbuf sq =
     (let (sq0, sq') = getseq sq;
          p = voss_head_bytes \<lparr>totallen = of_nat HEADSIZE + word_of_nat (length inbuf), vcmdid = cmd, seq = sq0\<rparr>
      in if length inbuf = 0 then (p, sq') else (p @ inbuf, sq'))"

definition parse_msg :: "string \<Rightarrow> int \<times> t_head_info option" where
  "parse_msg inbuf =
     (if length inbuf < HEADSIZE then (E_NOT_SUFFIC, None)
      else (0, Some \<lparr>totallen = get_be32 inbuf, vcmdid = get_be32 (drop 4 inbuf),
                     seq = get_be32 (drop 8 inbuf)\<rparr>))"

definition create_voss_head :: "uint32 \<Rightarrow> int \<Rightarrow> uint32 \<Rightarrow> string \<times> uint32" where
  "create_voss_head cmd datalen sq =
     (let (sq0, sq') = getseq sq
      in (voss_head_bytes \<lparr>totallen = of_nat HEADSIZE + word_of_int datalen, vcmdid = cmd, seq = sq0\<rparr>, sq'))"

lemma length_voss_head [simp]: "length (voss_head_bytes h) = 12"
  by (simp add: voss_head_bytes_def)

lemma parse_voss_head: "parse_msg (voss_head_bytes h @ r) = (0, Some h)"
proof -
  have "drop 4 (voss_head_bytes h @ r) = put_be32 (vcmdid h) @ put_be32 (seq h) @ r"
    "drop 8 (voss_head_bytes h @ r) = put_be32 (seq h) @ r"
    "get_be32 (voss_head_bytes h @ r) = totallen h"
    by (simp_all add: voss_head_bytes_def)
  then show ?thesis by (simp add: parse_msg_def)
qed

text \<open>The two ways of writing a message agree: head and body at once, or the head alone.\<close>

lemma create_msg_head:
  "create_msg cmd inbuf sq =
     (fst (create_voss_head cmd (int (length inbuf)) sq) @ inbuf, snd (create_voss_head cmd (int (length inbuf)) sq))"
  by (auto simp: create_msg_def create_voss_head_def getseq_def Let_def)

text \<open>A run of messages, as a connection sends them.\<close>

fun create_msgs :: "(uint32 \<times> string) list \<Rightarrow> uint32 \<Rightarrow> string list \<times> uint32" where
  "create_msgs [] sq = ([], sq)"
| "create_msgs ((cmd, b) # ms) sq =
     (let (o1, sq1) = create_msg cmd b sq; (os, sq2) = create_msgs ms sq1 in (o1 # os, sq2))"

lemma create_msgs_seq:
  "create_msgs ms sq = (os, sq') \<Longrightarrow> i < length ms \<Longrightarrow>
   length os = length ms \<and> (\<exists>h. parse_msg (os ! i @ r) = (0, Some h) \<and> seq h = sq + word_of_nat i \<and>
     vcmdid h = fst (ms ! i) \<and> drop HEADSIZE (os ! i) = snd (ms ! i))"
proof (induction ms arbitrary: sq os i)
  case (Cons cb ms)
  obtain cmd b where cb: "cb = (cmd, b)" by fastforce
  from Cons.prems obtain os' where os: "create_msgs ms (sq + 1) = (os', sq')"
      "os = (voss_head_bytes \<lparr>totallen = 12 + word_of_nat (length b), vcmdid = cmd, seq = sq\<rparr> @ b) # os'"
    by (auto simp: cb create_msg_def getseq_def Let_def split: prod.splits if_splits)
  show ?case
  proof (cases i)
    case 0
    moreover have "length os' = length ms"
    proof (cases ms)
      case Nil
      with os(1) show ?thesis by simp
    next
      case (Cons a list)
      with Cons.IH [OF os(1), of 0] show ?thesis by simp
    qed
    ultimately show ?thesis by (simp add: os cb parse_voss_head)
  next
    case (Suc j)
    with Cons.IH [OF os(1), of j] Cons.prems(2) show ?thesis
      by (auto simp: os(2) cb algebra_simps)
  qed
qed simp

section \<open>Properties\<close>

text \<open>A signalling message that \<^verbatim>\<open>create_sig_msg\<close> built is what \<^verbatim>\<open>parse_sig_msg\<close> reads back, whatever
  bytes follow it: command, status, length and body are the ones given, and only the first
  \<^verbatim>\<open>bodylen\<close> bytes of the receiving body are written.\<close>

theorem sig_msg_roundtrip:
  assumes "unat len < MAX_SIG_BODY" "unat len \<le> length b"
  shows "parse_sig_msg h0 b0 (create_sig_msg cmd st b len @ r) =
    (E_PRO_OK, \<lparr>bodylen = len, cmdid = cmd, sig_status = st\<rparr>, take (unat len) b @ drop (unat len) b0)"
  using parse_create_sig_msg [OF assms] by (simp add: memcpy_def)

theorem sig_msg_roundtrip_witness:
  "parse_sig_msg \<lparr>bodylen = 0, cmdid = 0, sig_status = 0\<rparr> ''xxxxx'' (create_sig_msg 13 2 ''abc'' 3 @ ''zz'') =
    (E_PRO_OK, \<lparr>bodylen = 3, cmdid = 13, sig_status = 2\<rparr>, ''abcxx'')"
  using sig_msg_roundtrip [of 3 "''abc''" _ "''xxxxx''"] by (simp add: MAX_SIG_BODY_def)

text \<open>C22: A receiver that parses its buffer and skips what it parsed gets back the signalling messages
  that were sent, in order, when the stream ends between two messages or in the middle of one.\<close>

theorem sig_stream_decodes:
  assumes "\<forall>m\<in>set ms. sig_ok m" "sig_ok m" "n < length (sig_enc m)"
  shows "decode_stream sig_dec (concat (map sig_enc ms) @ take n (sig_enc m)) = (ms, take n (sig_enc m))"
  by (rule sig.decode_stream_split [OF assms])

theorem sig_stream_decodes_witness:
  "decode_stream sig_dec (concat (map sig_enc [\<lparr>sm_cmd = 1, sm_status = 3, sm_body = ''ab''\<rparr>]) @
      take 2 (sig_enc \<lparr>sm_cmd = 2, sm_status = 3, sm_body = []\<rparr>)) =
    ([\<lparr>sm_cmd = 1, sm_status = 3, sm_body = ''ab''\<rparr>], take 2 (sig_enc \<lparr>sm_cmd = 2, sm_status = 3, sm_body = []\<rparr>))"
proof (rule sig_stream_decodes)
  have "sig_ok \<lparr>sm_cmd = 2, sm_status = 3, sm_body = []\<rparr>" by (simp add: sig_ok_def MAX_SIG_BODY_def)
  from length_sig_enc [OF this] show "2 < length (sig_enc \<lparr>sm_cmd = 2, sm_status = 3, sm_body = []\<rparr>)" by simp
qed (simp_all add: sig_ok_def MAX_SIG_BODY_def)

text \<open>The error codes of \<^verbatim>\<open>parse_sig_msg\<close>: too few bytes for a header, a declared body of
  \<^verbatim>\<open>MAX_SIG_BODY\<close> bytes or more (the connection is closed), or fewer bytes than declared; in every
  other case the parse succeeds, and on an error the body is left alone.\<close>

theorem parse_sig_msg_errors:
  "\<exists>h'. parse_sig_msg h b s =
     (if length s < 4 then (E_PRO_HEAD_LEN, h, b)
      else if unat (get_be16 s) \<ge> 4096 then (E_PACKET_ERR_CLOSE, h', b)
      else if length s < 4 + unat (get_be16 s) then (E_PRO_TOTAL_LEN, h', b)
      else (E_PRO_OK, h', take (unat (get_be16 s)) (drop 4 s) @ drop (unat (get_be16 s)) b))
    \<and> bodylen h' = get_be16 s"
  by (rule exI [of _ "\<lparr>bodylen = get_be16 s, cmdid = of_char (s ! 2), sig_status = of_char (s ! 3)\<rparr>"])
    (auto simp: parse_sig_msg_def Let_def MAX_SIG_BODY_def memcpy_def)

text \<open>The VOSS messages of a connection carry consecutive sequence numbers, and each of them is
  parsed back to its command and body.\<close>

theorem voss_messages_numbered:
  assumes "create_msgs ms sq = (os, sq')" "i < length ms"
  shows "\<exists>h. parse_msg (os ! i @ r) = (0, Some h) \<and> seq h = sq + word_of_nat i \<and>
     vcmdid h = fst (ms ! i) \<and> drop HEADSIZE (os ! i) = snd (ms ! i)"
  using create_msgs_seq [OF assms] by blast

theorem voss_messages_numbered_witness:
  "\<exists>h. parse_msg (fst (create_msgs [(1, ''a''), (5, ''b'')] 1) ! 1 @ []) = (0, Some h) \<and> seq h = 2 \<and> vcmdid h = 5 \<and>
     drop HEADSIZE (fst (create_msgs [(1, ''a''), (5, ''b'')] 1) ! 1) = ''b''"
  using voss_messages_numbered [of "[(1, ''a''), (5, ''b'')]" 1 _ _ 1 "[]"]
  by (metis (no_types, lifting) One_nat_def fst_conv length_Cons lessI list.size(3) nth_Cons_0 nth_Cons_Suc
      numeral_One of_nat_1 one_add_one snd_conv surj_pair)

end
