(* ===== verification/Codecs.thy ===== *)
theory Codecs
  imports VfsPrelude
begin

text \<open>
  The text encodings of \<^verbatim>\<open>src/lib\<close>: hexadecimal (\<^verbatim>\<open>util_hex.c\<close>), base64 and blank trimming
  (\<^verbatim>\<open>common.c\<close>), decimal numbers (\<^verbatim>\<open>util.h\<close>), dotted IPv4 addresses (\<^verbatim>\<open>util_ip.c\<close>) and the field
  splitter (\<^verbatim>\<open>util_str.c\<close>).  Writers return the characters they store through their pointer, without
  the terminating NUL; readers take a C string, so its end reads as NUL.
\<close>

section \<open>Hexadecimal\<close>

text \<open>The value of one digit after \<^verbatim>\<open>0x20 | c\<close>, by the two range tests on a signed \<^verbatim>\<open>char\<close>.\<close>

definition hex_digit :: "char \<Rightarrow> int option" where
  "hex_digit c =
     (let s = sint ((of_char c :: byte) OR 0x20)
      in if 48 \<le> s \<and> s \<le> 57 then Some (s - 48)
         else if 97 \<le> s \<and> s \<le> 102 then Some (s - 97 + 10)
         else None)"

text \<open>\<^verbatim>\<open>decode_hex\<close>: the bytes stored in \<^verbatim>\<open>bin\<close>; the result of the C function is their number.\<close>

fun decode_hex :: "nat \<Rightarrow> string \<Rightarrow> string" where
  "decode_hex 0 hex = []"
| "decode_hex (Suc n) [] = []"
| "decode_hex (Suc n) (a # hex) =
     (case hex_digit a of
        None \<Rightarrow> []
      | Some c \<Rightarrow>
          (case hex of
             [] \<Rightarrow> []
           | b # hex' \<Rightarrow>
               (case hex_digit b of
                  None \<Rightarrow> []
                | Some d \<Rightarrow> char_of (push_bit 4 c + d) # decode_hex n hex')))"

definition hex_chars :: string where "hex_chars = ''0123456789abcdef''"

fun encode_hex :: "string \<Rightarrow> string" where
  "encode_hex [] = []"
| "encode_hex (b # bin) =
     hex_chars ! unat (drop_bit 4 (of_char b :: byte)) # hex_chars ! unat ((of_char b :: byte) AND 15)
       # encode_hex bin"

lemma hex_char_digit:
  assumes "n < 16"
  shows "hex_digit (hex_chars ! n) = Some (int n)"
proof -
  have "\<forall>k\<in>set [0..<16]. hex_digit (hex_chars ! k) = Some (int k)"
    by (simp add: upt_rec hex_chars_def hex_digit_def Let_def)
  then show ?thesis using assms by simp
qed

lemma nibbles:
  fixes b :: char
  shows "unat (drop_bit 4 (of_char b :: byte)) < 16" "unat ((of_char b :: byte) AND 15) < 16"
    and "char_of (push_bit 4 (int (unat (drop_bit 4 (of_char b :: byte)))) + int (unat ((of_char b :: byte) AND 15))) = b"
proof -
  let ?n = "of_char b :: nat"
  have u: "unat (of_char b :: byte) = ?n"
  proof -
    have "(of_char b :: byte) = word_of_nat (of_char b)" by (simp only: of_nat_of_char)
    then show ?thesis using nat_of_char_less_256 [of b] by (simp only: unat_of_nat) simp
  qed
  have d: "unat (drop_bit 4 (of_char b :: byte)) = ?n div 16"
    by (simp add: drop_bit_eq_div unat_div_distrib u)
  have m: "unat ((of_char b :: byte) AND 15) = ?n mod 16"
  proof -
    have "(of_char b :: byte) AND 15 = take_bit 4 (of_char b)"
      by (simp add: take_bit_eq_mask mask_eq_exp_minus_1)
    then show ?thesis by (simp only: unsigned_take_bit_eq u) (simp add: take_bit_eq_mod u)
  qed
  have "?n < 16 * 16" using nat_of_char_less_256 [of b] by simp
  then have "?n div 16 < 16" by (rule less_mult_imp_div_less)
  then show "unat (drop_bit 4 (of_char b :: byte)) < 16" by (simp add: d)
  show "unat ((of_char b :: byte) AND 15) < 16" by (simp add: m)
  have "push_bit 4 (int (?n div 16)) + int (?n mod 16) = int ?n"
    by (simp add: push_bit_eq_mult zdiv_int zmod_int)
  then show "char_of (push_bit 4 (int (unat (drop_bit 4 (of_char b :: byte)))) + int (unat ((of_char b :: byte) AND 15))) = b"
    by (simp add: d m)
qed

lemma decode_encode_hex: "length s \<le> n \<Longrightarrow> decode_hex n (encode_hex s) = s"
proof (induction s arbitrary: n)
  case Nil
  then show ?case by (cases n) auto
next
  case (Cons b s)
  then obtain k where "n = Suc k" "length s \<le> k" by (cases n) auto
  with Cons.IH [of k] nibbles [of b] show ?case by (simp add: hex_char_digit)
qed

lemma length_decode_hex: "length (decode_hex n s) \<le> n"
  by (induction n s rule: decode_hex.induct) (auto split: option.split list.split)

section \<open>Decimal numbers\<close>

text \<open>
  \<^verbatim>\<open>uint2str\<close>: the number of digits by comparison with the powers of ten, and the digits from
  the last one backwards.  The labels \<^verbatim>\<open>len9\<close> \<dots> \<^verbatim>\<open>len2\<close> are entry points into the same sequence of
  steps, so the number of steps is the only thing they decide.
\<close>

definition digits_count :: "uint32 \<Rightarrow> nat" where
  "digits_count n =
     (if n < 10 then 1 else if n < 100 then 2 else if n < 1000 then 3 else if n < 10000 then 4
      else if n < 100000 then 5 else if n < 1000000 then 6 else if n < 10000000 then 7
      else if n < 100000000 then 8 else if n < 1000000000 then 9 else 10)"

definition ascii_digit :: "uint32 \<Rightarrow> char" where
  "ascii_digit d = char_of (unat (0x30 OR d))"

fun put_digits :: "nat \<Rightarrow> uint32 \<Rightarrow> string" where
  "put_digits 0 n = [ascii_digit n]"
| "put_digits (Suc c) n = put_digits c (n div 10) @ [ascii_digit (n mod 10)]"

definition uint2str :: "uint32 \<Rightarrow> string" where
  "uint2str n = put_digits (digits_count n - 1) n"

text \<open>\<^verbatim>\<open>int2str\<close> on a 32 bit integer.\<close>

definition int2str :: "int \<Rightarrow> string" where
  "int2str n = (if n < 0 then CHR ''-'' # uint2str (word_of_int (- n)) else uint2str (word_of_int n))"

lemma ascii_digit: "n < 10 \<Longrightarrow> ascii_digit (word_of_nat n) = digit n"
proof -
  have "\<forall>k\<in>set [0..<10]. ascii_digit (word_of_nat k) = digit k"
    by (simp add: upt_rec ascii_digit_def digit_def)
  then show "n < 10 \<Longrightarrow> ?thesis" by simp
qed

lemma put_digits:
  assumes "m < 10 ^ Suc c" "10 ^ c \<le> m \<or> c = 0" "m < 2 ^ 32"
  shows "put_digits c (word_of_nat m) = dec_nat m"
  using assms
proof (induction c arbitrary: m)
  case 0
  then show ?case by (simp add: ascii_digit dec_nat.simps [of m])
next
  case (Suc c)
  have "(word_of_nat m :: uint32) div 10 = word_of_nat (m div 10)"
    "(word_of_nat m :: uint32) mod 10 = word_of_nat (m mod 10)"
    using Suc.prems(3) by (simp_all add: word_arith_nat_div word_arith_nat_mod unat_of_nat take_bit_nat_eq_self)
  moreover have "10 ^ c \<le> m div 10" using Suc.prems(2) by (simp add: less_eq_div_iff_mult_less_eq)
  moreover have "m \<ge> 10" using Suc.prems(2) by (metis dual_order.trans one_le_power numeral_One
        numeral_le_iff one_le_numeral power_Suc mult_le_mono2 mult.right_neutral nat.distinct(1))
  ultimately show ?case
    using Suc.IH [of "m div 10"] Suc.prems(1,3)
    by (simp add: ascii_digit dec_nat.simps [of m] less_mult_imp_div_less mult.commute)
qed

lemma uint2str_dec: "uint2str n = dec_nat (unat n)"
proof -
  let ?m = "unat n"
  have b: "?m < 2 ^ 32" using unsigned_less [of n, where ?'a = nat] by simp
  have "\<exists>c. digits_count n - 1 = c \<and> ?m < 10 ^ Suc c \<and> (10 ^ c \<le> ?m \<or> c = 0)"
    using b by (auto simp: digits_count_def word_less_nat_alt)
  then show ?thesis
    using put_digits [of ?m "digits_count n - 1"] b by (auto simp: uint2str_def)
qed

end
