(* ===== verification/TextUtils.thy ===== *)
theory TextUtils
  imports Codecs
begin

text \<open>
  More of \<^verbatim>\<open>src/lib\<close>: base64, blank trimming and time stamps (\<^verbatim>\<open>common.c\<close>), dotted IPv4 addresses
  (\<^verbatim>\<open>util_ip.c\<close>, little endian branch) and the field splitter (\<^verbatim>\<open>util_str.c\<close>).
\<close>

section \<open>Base64\<close>

definition b64_chars :: string where
  "b64_chars = ''ABCDEFGHIJKLMNOPQRSTUVWXYZabcdefghijklmnopqrstuvwxyz0123456789+/''"

definition b64_index :: "byte list \<Rightarrow> nat \<Rightarrow> nat" where
  "b64_index d i =
     (let byte_offset = (i * 6) div 8;
          bit_offset = (i * 6) mod 8
      in if bit_offset < 3
         then drop_bit (2 - bit_offset) (unat (d ! byte_offset)) AND 0x3F
         else let idx = push_bit (bit_offset - 2) (unat (d ! byte_offset)) AND 0x3F
              in if byte_offset + 1 < length d
                 then idx OR drop_bit (8 - (bit_offset - 2)) (unat (d ! (byte_offset + 1)))
                 else idx)"

function pad_loop :: "nat \<Rightarrow> string" where
  "pad_loop i = (if i mod 4 = 0 then [] else CHR ''='' # pad_loop (Suc i))"
  by pat_completeness auto
termination by (relation "measure (\<lambda>i. if i mod 4 = 0 then 0 else 4 - i mod 4)") (auto simp: mod_Suc)

declare pad_loop.simps [simp del]

definition base64_encode :: "byte list \<Rightarrow> bool \<Rightarrow> string" where
  "base64_encode d pad =
     (let bytes = (length d * 8 + 5) div 6
      in map (\<lambda>i. b64_chars ! b64_index d i) [0..<bytes] @ (if pad then pad_loop bytes else []))"

lemma bit_63: "bit (63 :: nat) n \<longleftrightarrow> n < 6"
proof -
  have "(63 :: nat) = mask 6" by (simp add: mask_eq_exp_minus_1)
  then show ?thesis by (simp only: bit_mask_iff) simp
qed

lemma byte_high: "8 \<le> n \<Longrightarrow> \<not> bit (unat (b :: byte)) n"
  using bit_imp_le_length [of b n] by (auto simp: bit_unsigned_iff)

text \<open>The \<open>k\<close>th bit of the \<open>i\<close>th group of six is bit \<open>6 i + k\<close> of the message, most significant first,
  and zero behind its end.\<close>

lemma b64_index_bit:
  assumes "k < 6" "i < (length d * 8 + 5) div 6"
  shows "bit (b64_index d i) (5 - k) \<longleftrightarrow>
    (let p = 6 * i + k in p div 8 < length d \<and> bit (d ! (p div 8)) (7 - p mod 8))"
proof -
  define B where "B = i * 6 div 8"
  define z where "z = i * 6 mod 8"
  have p: "6 * i = 8 * B + z" "z < 8"
    unfolding B_def z_def using mult_div_mod_eq [of 8 "i * 6"] by linarith+
  have eq: "6 * i + k = (z + k) + 8 * B" and eight: "(8 :: nat) \<noteq> 0" using p(1) by simp_all
  have even: "z \<le> 2 \<or> 4 \<le> z" "z \<noteq> 7" using p by presburger+
  have lim: "B < length d" using assms(2) unfolding B_def by linarith
  have ix: "b64_index d i =
     (if z < 3 then drop_bit (2 - z) (unat (d ! B)) AND 63
      else if B + 1 < length d
        then (push_bit (z - 2) (unat (d ! B)) AND 63) OR drop_bit (8 - (z - 2)) (unat (d ! (B + 1)))
      else push_bit (z - 2) (unat (d ! B)) AND 63)"
    by (simp add: b64_index_def Let_def flip: B_def z_def)
  have b: "bit (unat (w :: byte)) n = bit w n" for w n by (simp add: bit_unsigned_iff)
  show ?thesis
  proof (cases "z + k < 8")
    case True
    then have "(6 * i + k) div 8 = B" "(6 * i + k) mod 8 = z + k"
      unfolding eq div_mult_self2 [OF eight] mod_mult_self2 by simp_all
    then have goal: "(let p = 6 * i + k in p div 8 < length d \<and> bit (d ! (p div 8)) (7 - p mod 8))
        \<longleftrightarrow> bit (d ! B) (7 - (z + k))" using lim by (simp add: Let_def)
    show ?thesis
    proof (cases "z < 3")
      case True
      then have "2 - z + (5 - k) = 7 - (z + k)" using assms(1) even by simp
      moreover have "5 - k < 6" by simp
      ultimately show ?thesis using True goal
        by (simp del: One_nat_def add: ix b bit_and_iff bit_drop_bit_eq bit_63)
    next
      case False
      then have "5 - k - (z - 2) = 7 - (z + k)" "z - 2 \<le> 5 - k" using True assms(1) by simp_all
      moreover have "5 - k < 6" by simp
      moreover have "\<not> bit (unat (d ! (B + 1))) (8 - (z - 2) + (5 - k))"
        using True assms(1) False by (intro byte_high) simp
      ultimately have "bit (b64_index d i) (5 - k) \<longleftrightarrow> bit (d ! B) (7 - (z + k))"
        using False unfolding ix
        by (simp del: One_nat_def add: b bit_and_iff bit_or_iff bit_drop_bit_eq bit_push_bit_iff bit_63)
      with goal show ?thesis by simp
    qed
  next
    case False
    have "(6 * i + k) div 8 = B + 1" "(6 * i + k) mod 8 = z + k - 8"
    proof -
      have "6 * i + k = (z + k - 8) + 8 * (B + 1)" "z + k - 8 < 8"
        using p False assms(1) by simp_all
      then show "(6 * i + k) div 8 = B + 1" "(6 * i + k) mod 8 = z + k - 8"
        using div_mult_self2 [OF eight, of "z + k - 8" "B + 1"] mod_mult_self2 [of "z + k - 8" 8 "B + 1"]
        by (simp_all only: div_less mod_less add_0_right)
    qed
    moreover have "8 - (z - 2) + (5 - k) = 7 - (z + k - 8)" "\<not> z - 2 \<le> 5 - k" "\<not> z < 3"
      using False assms(1) p(2) by simp_all
    ultimately have "bit (b64_index d i) (5 - k) \<longleftrightarrow> B + 1 < length d \<and> bit (d ! (B + 1)) (7 - (z + k - 8))"
        and "(let p = 6 * i + k in p div 8 < length d \<and> bit (d ! (p div 8)) (7 - p mod 8))
          \<longleftrightarrow> B + 1 < length d \<and> bit (d ! (B + 1)) (7 - (z + k - 8))"
      unfolding ix Let_def
      by (simp_all del: One_nat_def add: b bit_and_iff bit_or_iff bit_drop_bit_eq bit_push_bit_iff bit_63)
    then show ?thesis by simp
  qed
qed

section \<open>Blanks\<close>

fun trim_loop :: "nat \<Rightarrow> string \<Rightarrow> string" where
  "trim_loop c [] = []"
| "trim_loop c (x # s) =
     (if x = SPACE then (if c + 1 = 1 then x # trim_loop (c + 1) s else trim_loop (c + 1) s)
      else x # trim_loop 0 s)"

definition trim_in :: "string \<Rightarrow> string" where
  "trim_in s = trim_loop 0 (dropWhile (\<lambda>c. c = SPACE) s)"

lemma trim_loop_filter: "filter (\<lambda>c. c \<noteq> SPACE) (trim_loop c s) = filter (\<lambda>c. c \<noteq> SPACE) s"
  by (induction c s rule: trim_loop.induct) auto

lemma trim_loop_not_space: "0 < c \<Longrightarrow> trim_loop c s \<noteq> SPACE # b"
  by (induction c s rule: trim_loop.induct) auto

lemma trim_loop_no_double: "trim_loop c s \<noteq> a @ SPACE # SPACE # b"
proof (induction c s arbitrary: a rule: trim_loop.induct)
  case (2 c x s)
  show ?case
  proof (cases "x = SPACE")
    case True
    have IH: "trim_loop (c + 1) s \<noteq> a @ SPACE # SPACE # b" for a using 2 True by blast
    have "SPACE # trim_loop (c + 1) s \<noteq> a @ SPACE # SPACE # b"
      using IH trim_loop_not_space [of "c + 1" s b] by (cases a) simp_all
    with IH [of a] True show ?thesis by (cases "c = 0") simp_all
  next
    case False
    have IH: "trim_loop 0 s \<noteq> a @ SPACE # SPACE # b" for a using 2 False by blast
    with False show ?thesis by (cases a) simp_all
  qed
qed simp

section \<open>Time stamps\<close>

text \<open>\<^verbatim>\<open>struct tm\<close>, with the fields as they are printed; \<^verbatim>\<open>mktime\<close> and \<^verbatim>\<open>localtime_r\<close> are arguments.\<close>

record tm =
  tm_year :: int
  tm_mon :: int
  tm_mday :: int
  tm_hour :: int
  tm_min :: int
  tm_sec :: int

text \<open>\<^verbatim>\<open>%0wd\<close> of a number that is not negative.\<close>

definition pad_dec :: "nat \<Rightarrow> int \<Rightarrow> string" where
  "pad_dec w n = replicate (w - length (dec_int n)) (digit 0) @ dec_int n"

definition get_strtime_by_t :: "(int \<Rightarrow> tm) \<Rightarrow> int \<Rightarrow> string" where
  "get_strtime_by_t localtime_r now =
     (let t = localtime_r now
      in pad_dec 4 (tm_year t + 1900) @ pad_dec 2 (tm_mon t + 1) @ pad_dec 2 (tm_mday t)
         @ pad_dec 2 (tm_hour t) @ pad_dec 2 (tm_min t) @ pad_dec 2 (tm_sec t))"

definition get_time_t :: "(tm \<Rightarrow> int) \<Rightarrow> string \<Rightarrow> int" where
  "get_time_t mktime p =
     (if length p \<noteq> 14 then 0
      else mktime \<lparr>tm_year = atoi (take 4 p) - 1900, tm_mon = atoi (take 2 (drop 4 p)) - 1,
                   tm_mday = atoi (take 2 (drop 6 p)), tm_hour = atoi (take 2 (drop 8 p)),
                   tm_min = atoi (take 2 (drop 10 p)), tm_sec = atoi (take 2 (drop 12 p))\<rparr>)"

lemma length_pad_dec: "0 \<le> n \<Longrightarrow> n < 10 ^ Suc k \<Longrightarrow> length (pad_dec (Suc k) n) = Suc k"
  using length_dec_nat [of "nat n" k] by (simp add: pad_dec_def dec_int_def nat_less_iff)

lemma read_zeros: "read_digits 0 (replicate k (digit 0) @ s) = read_digits 0 s"
  by (induction k) simp_all

lemma atoi_digits:
  assumes "s \<noteq> []" "\<forall>c\<in>set s. isdigit c" "read_digits 0 s < 2 ^ 31"
  shows "atoi s = int (read_digits 0 s)"
proof -
  obtain c t where s: "s = c # t" using assms(1) by (cases s) auto
  then have "isdigit c" using assms(2) by simp
  from isdigit_not_sign [OF this] have "atol s = clamp64 (int (read_digits 0 s))"
    by (simp add: atol_def s)
  also have "\<dots> = int (read_digits 0 s)" using assms(3) by (intro clamp64_id) auto
  finally show ?thesis using assms(3) by (simp add: atoi_def c_simps)
qed

lemma atoi_pad_dec:
  assumes "0 \<le> n" "n < 2 ^ 31"
  shows "atoi (pad_dec w n) = n"
proof -
  have d: "dec_int n = dec_nat (nat n)" using assms(1) by (simp add: dec_int_def)
  have "\<forall>c\<in>set (pad_dec w n). isdigit c" using dec_nat_digits by (auto simp: pad_dec_def d)
  moreover have "read_digits 0 (pad_dec w n) = nat n"
    by (simp only: pad_dec_def d read_zeros read_dec_nat)
  moreover have "pad_dec w n \<noteq> []" by (simp add: pad_dec_def d)
  ultimately show ?thesis using atoi_digits [of "pad_dec w n"] assms by simp
qed

definition tm_printable :: "tm \<Rightarrow> bool" where
  "tm_printable t \<longleftrightarrow> 0 \<le> tm_year t + 1900 \<and> tm_year t + 1900 < 10000 \<and> 0 \<le> tm_mon t \<and> tm_mon t < 12 \<and>
     1 \<le> tm_mday t \<and> tm_mday t \<le> 31 \<and> 0 \<le> tm_hour t \<and> tm_hour t < 24 \<and> 0 \<le> tm_min t \<and> tm_min t < 60 \<and>
     0 \<le> tm_sec t \<and> tm_sec t \<le> 60"

section \<open>IPv4 addresses\<close>

text \<open>Byte \<open>k\<close> of the address as it lies in memory, and \<^verbatim>\<open>htonl\<close>.\<close>

definition ip_byte :: "uint32 \<Rightarrow> nat \<Rightarrow> nat" where
  "ip_byte ip k = unat (drop_bit (8 * k) ip AND 0xFF)"

definition htonl :: "uint32 \<Rightarrow> uint32" where
  "htonl w = push_bit 24 (w AND 0xFF) OR push_bit 16 (drop_bit 8 w AND 0xFF)
             OR push_bit 8 (drop_bit 16 w AND 0xFF) OR (drop_bit 24 w AND 0xFF)"

definition INADDR_NONE :: uint32 where "INADDR_NONE = 0xFFFFFFFF"

definition put_byte :: "nat \<Rightarrow> string" where
  "put_byte c =
     (if c \<ge> 100 then [digit (c div 100), digit (c div 10 mod 10), digit (c mod 10)]
      else if c \<ge> 10 then [digit (c div 10), digit (c mod 10)]
      else [digit c])"

definition ip2str :: "uint32 \<Rightarrow> string" where
  "ip2str ip = put_byte (ip_byte ip 0) @ ''.'' @ put_byte (ip_byte ip 1) @ ''.'' @
     put_byte (ip_byte ip 2) @ ''.'' @ put_byte (ip_byte ip 3)"

text \<open>
  \<^verbatim>\<open>strtoul(s, &end, 0)\<close> on a string that starts with a digit, which the callers check: prefix
  \<^verbatim>\<open>0x\<close> for base 16, \<^verbatim>\<open>0\<close> for base 8, saturating at 64 bits; the rest of the string is \<^verbatim>\<open>end\<close>.
\<close>

definition digit_of :: "char \<Rightarrow> nat option" where
  "digit_of c =
     (let n = of_char c :: nat
      in if 48 \<le> n \<and> n \<le> 57 then Some (n - 48)
         else if 97 \<le> n \<and> n \<le> 122 then Some (n - 87)
         else if 65 \<le> n \<and> n \<le> 90 then Some (n - 55)
         else None)"

fun read_base :: "nat \<Rightarrow> nat \<Rightarrow> string \<Rightarrow> nat \<times> string" where
  "read_base b acc [] = (acc, [])"
| "read_base b acc (c # s) =
     (case digit_of c of
        Some d \<Rightarrow> if d < b then read_base b (b * acc + d) s else (acc, c # s)
      | None \<Rightarrow> (acc, c # s))"

definition strtoul :: "string \<Rightarrow> nat \<times> string" where
  "strtoul s =
     (let (v, r) =
        (case s of
           z # x # h # t \<Rightarrow>
             if z = CHR ''0'' \<and> (x = CHR ''x'' \<or> x = CHR ''X'') \<and> (\<exists>d\<in>set_option (digit_of h). d < 16)
             then read_base 16 0 (h # t)
             else if z = CHR ''0'' then read_base 8 0 s else read_base 10 0 s
         | z # _ \<Rightarrow> if z = CHR ''0'' then read_base 8 0 s else read_base 10 0 s
         | [] \<Rightarrow> (0, []))
      in (min v (2 ^ 64 - 1), r))"

definition next_isdigit :: "string \<Rightarrow> bool" where
  "next_isdigit s = (case s of c # _ \<Rightarrow> isdigit c | [] \<Rightarrow> False)"

definition at_dot :: "string \<Rightarrow> bool" where
  "at_dot s = (case s of c # _ \<Rightarrow> c = CHR ''.'' | [] \<Rightarrow> False)"

definition str2ip :: "string \<Rightarrow> uint32" where
  "str2ip str =
     (if \<not> next_isdigit str then INADDR_NONE
      else let (v, str) = strtoul str; addr = (word_of_nat v :: uint32)
        in if \<not> at_dot str
           then let temp = drop_bit 24 addr
                in if temp = 0 \<or> temp \<ge> 224 then INADDR_NONE else htonl addr
           else if \<not> next_isdigit (tl str) then INADDR_NONE
           else if addr = 0 \<or> addr \<ge> 224 then INADDR_NONE
           else let (v, str) = strtoul (tl str); temp = (word_of_nat v :: uint32)
             in if \<not> at_dot str
                then if temp \<ge> push_bit 24 1 then INADDR_NONE else addr + htonl temp
                else if \<not> next_isdigit (tl str) then INADDR_NONE
                else if temp \<ge> 256 then INADDR_NONE
                else let addr = addr + push_bit 8 temp;
                         (v, str) = strtoul (tl str); temp = (word_of_nat v :: uint32)
                  in if \<not> at_dot str
                     then if temp \<ge> push_bit 16 1 then INADDR_NONE else addr + htonl temp
                     else if \<not> next_isdigit (tl str) then INADDR_NONE
                     else let addr = addr + push_bit 16 temp;
                              (v, str) = strtoul (tl str); temp = (word_of_nat v :: uint32)
                       in if temp \<ge> 256 then INADDR_NONE else addr + push_bit 24 temp)"

text \<open>
  \<^verbatim>\<open>get_uint32_ip\<close>: the address, and the text stored in \<^verbatim>\<open>s_ip\<close> if any.  \<open>resolve\<close> is
  \<^verbatim>\<open>get_ip_by_domain\<close>, which asks the resolver.
\<close>

definition get_uint32_ip :: "(string \<Rightarrow> string option) \<Rightarrow> string \<Rightarrow> uint32 \<times> string option" where
  "get_uint32_ip resolve sip =
     (let ip = str2ip sip
      in if ip = INADDR_NONE
         then (case resolve sip of
                 None \<Rightarrow> (INADDR_NONE, None)
               | Some tmpip \<Rightarrow> (str2ip tmpip, Some (snprint 16 tmpip)))
         else (ip, Some (snprint 16 sip)))"

text \<open>Reading back one printed byte.\<close>

lemma digit_of_digit: "n < 10 \<Longrightarrow> digit_of (digit n) = Some n"
  by (simp add: digit_of_def digit_def Let_def)

definition stops :: "string \<Rightarrow> bool" where
  "stops r \<longleftrightarrow> (case r of [] \<Rightarrow> True | c # _ \<Rightarrow> c = CHR ''.'')"

lemma read_base_stops: "stops r \<Longrightarrow> read_base b n r = (n, r)"
  by (cases r) (auto simp: stops_def digit_of_def)

lemma digit_zero: "n < 10 \<Longrightarrow> digit n = CHR ''0'' \<longleftrightarrow> n = 0"
proof -
  assume n: "n < 10"
  have "digit n = CHR ''0'' \<longleftrightarrow> (of_char (digit n) :: nat) = of_char (CHR ''0'')"
    by (rule of_char_eq_iff [symmetric])
  also have "\<dots> \<longleftrightarrow> n = 0" using n by (simp add: digit_def)
  finally show "digit n = CHR ''0'' \<longleftrightarrow> n = 0" .
qed

lemma read_base_10: "n < 10 \<Longrightarrow> read_base 10 acc (digit n # s) = read_base 10 (10 * acc + n) s"
  by (simp add: digit_of_digit)

lemma strtoul_nonzero:
  assumes "0 < n" "n < 10" "read_base 10 n s = (v, r)" "v < 2 ^ 64"
  shows "strtoul (digit n # s) = (v, r)"
  using assms digit_zero [of n] read_base_10 [of n 0 s]
  by (cases s; cases "tl s") (auto simp: strtoul_def digit_of_digit)

lemma strtoul_put_byte:
  assumes "n < 256" "stops r"
  shows "strtoul (put_byte n @ r) = (n, r)"
proof -
  have e: "10 * (n div 10) + n mod 10 = n" "10 * (n div 100) + n div 10 mod 10 = n div 10"
    using div_mult2_eq [of n 10 10] mult_div_mod_eq [of 10 "n div 10"] by simp_all
  have ten: "(0 :: nat) < 10" by simp
  consider "n = 0" | "0 < n" "n < 10" | "10 \<le> n" "n < 100" | "100 \<le> n" by linarith
  then show ?thesis
  proof cases
    case 1
    have "digit 0 = CHR ''0''" using digit_zero [of 0] by simp
    moreover have "hd r = CHR ''.''" if "r \<noteq> []"
      using that assms(2) by (cases r) (auto simp: stops_def)
    ultimately show ?thesis
      using read_base_stops [OF assms(2), of 8 0]
      by (cases r; cases "tl r") (auto simp: strtoul_def 1 put_byte_def digit_of_def)
  next
    case 2
    then show ?thesis using strtoul_nonzero [OF 2 read_base_stops [OF assms(2)]] assms(1)
      by (simp add: put_byte_def)
  next
    case 3
    have "read_base 10 (n div 10) (digit (n mod 10) # r) = (n, r)"
      using read_base_stops [OF assms(2), of 10 n] by (simp only: read_base_10 e mod_less_divisor ten)
    then show ?thesis using strtoul_nonzero [of "n div 10"] 3 assms(1)
      by (simp add: put_byte_def div_greater_zero_iff less_mult_imp_div_less)
  next
    case 4
    have "read_base 10 (n div 100) (digit (n div 10 mod 10) # digit (n mod 10) # r) = (n, r)"
      using read_base_stops [OF assms(2), of 10 n] by (simp only: read_base_10 e mod_less_divisor ten)
    then show ?thesis using strtoul_nonzero [of "n div 100"] 4 assms(1)
      by (simp add: put_byte_def div_greater_zero_iff less_mult_imp_div_less)
  qed
qed

lemma strtoul_put_byte_end: "n < 256 \<Longrightarrow> strtoul (put_byte n) = (n, [])"
  using strtoul_put_byte [of n "[]"] by (simp add: stops_def)

lemma isdigit_put_byte: "n < 256 \<Longrightarrow> next_isdigit (put_byte n @ r)"
  by (simp add: put_byte_def next_isdigit_def less_mult_imp_div_less)

text \<open>An address is the sum of its bytes.\<close>

lemma ip_byte_div: "ip_byte ip k = unat ip div 2 ^ (8 * k) mod 256"
proof -
  have "(drop_bit (8 * k) ip AND 0xFF) = take_bit 8 (drop_bit (8 * k) ip)"
    by (simp add: take_bit_eq_mask mask_eq_exp_minus_1)
  then have "ip_byte ip k = take_bit 8 (drop_bit (8 * k) (unat ip))"
    by (simp only: ip_byte_def unsigned_take_bit_eq unat_drop_bit_eq)
  then show ?thesis by (simp add: take_bit_eq_mod drop_bit_eq_div)
qed

lemma ip_byte_less: "ip_byte ip k < 256"
  by (simp add: ip_byte_div)

lemma ip_bytes_sum:
  "ip = word_of_nat (ip_byte ip 0) + push_bit 8 (word_of_nat (ip_byte ip 1))
     + push_bit 16 (word_of_nat (ip_byte ip 2)) + push_bit 24 (word_of_nat (ip_byte ip 3))"
proof -
  define n where "n = unat ip"
  define a where "a = n div 256"
  define b where "b = a div 256"
  define c where "c = b div 256"
  have e: "n div 2 ^ 8 = a" "n div 2 ^ 16 = b" "n div 2 ^ 24 = c"
    by (simp_all add: a_def b_def c_def div_mult2_eq [symmetric])
  have "n < 2 ^ 32" unfolding n_def using unsigned_less [of ip, where ?'a = nat] by simp
  then have "c < 256" by (simp add: a_def b_def c_def div_mult2_eq [symmetric])
  then have "c mod 256 = c" by simp
  moreover have "b = 256 * c + b mod 256" "a = 256 * b + a mod 256" "n = 256 * a + n mod 256"
    by (simp_all add: a_def b_def c_def)
  ultimately have "n mod 256 + 256 * (a mod 256) + 65536 * (b mod 256) + 16777216 * (c mod 256) = n"
    by linarith
  then have "ip = word_of_nat (n mod 256 + 256 * (a mod 256) + 65536 * (b mod 256) + 16777216 * (c mod 256))"
    by (simp add: n_def)
  moreover have "ip_byte ip 0 = n mod 256" "ip_byte ip 1 = a mod 256" "ip_byte ip 2 = b mod 256"
    "ip_byte ip 3 = c mod 256"
    by (simp_all add: ip_byte_div flip: n_def e)
  ultimately show ?thesis by (simp add: push_bit_eq_mult ac_simps)
qed

lemma word_byte_less: "n < 256 \<Longrightarrow> (word_of_nat n :: uint32) < 256"
  by (simp add: word_less_nat_alt unat_of_nat take_bit_nat_eq_self)

lemma str2ip_ip2str:
  assumes "1 \<le> ip_byte ip 0" "ip_byte ip 0 < 224"
  shows "str2ip (ip2str ip) = ip"
proof -
  let ?b = "ip_byte ip"
  note st = strtoul_put_byte [OF ip_byte_less]
  have stops: "stops (CHR ''.'' # r)" "stops []" for r by (simp_all add: stops_def)
  have w: "(word_of_nat (?b 0) :: uint32) \<noteq> 0" "(word_of_nat (?b 0) :: uint32) < 224"
    using assms by (simp_all add: word_less_nat_alt unat_of_nat take_bit_nat_eq_self unat_eq_0 [symmetric]
        del: unat_eq_0)
  have lt: "(word_of_nat (?b k) :: uint32) < 256" for k by (rule word_byte_less [OF ip_byte_less])
  have f: "(224 \<le> (word_of_nat (?b 0) :: uint32)) = False"
    "(256 \<le> (word_of_nat (?b k) :: uint32)) = False" for k
    using w(2) lt [of k] by (simp_all add: not_le)
  have "str2ip (ip2str ip) = word_of_nat (?b 0) + push_bit 8 (word_of_nat (?b 1))
     + push_bit 16 (word_of_nat (?b 2)) + push_bit 24 (word_of_nat (?b 3))"
    using w(1) isdigit_put_byte [OF ip_byte_less, of ip 3 "[]"]
    by (simp add: str2ip_def ip2str_def st stops isdigit_put_byte ip_byte_less at_dot_def f Let_def
        strtoul_put_byte_end)
  then show ?thesis using ip_bytes_sum [of ip] by simp
qed

section \<open>Splitting a line into fields\<close>

text \<open>
  \<^verbatim>\<open>str_explode\<close>: \<open>ifs\<close> are the separators, \<open>n\<close> the number of fields there is room for, \<open>i\<close> the fields so far.
  The fields are the C strings that the pointers of \<^verbatim>\<open>field\<close> hold at the end.
\<close>

definition default_ifs :: "char \<Rightarrow> bool" where
  "default_ifs c \<longleftrightarrow> c \<in> {TAB, LF, CR, SPACE}"

definition rtrim :: "(char \<Rightarrow> bool) \<Rightarrow> string \<Rightarrow> string" where
  "rtrim ifs s = rev (dropWhile ifs (rev s))"

function explode_loop :: "(char \<Rightarrow> bool) \<Rightarrow> nat \<Rightarrow> nat \<Rightarrow> string \<Rightarrow> string list" where
  "explode_loop ifs n i line =
     (case dropWhile ifs line of
        [] \<Rightarrow> []
      | c # s \<Rightarrow>
          if c = CHR ''\"'' \<or> c = CHR 0x27
          then (case strchr s c of
                  None \<Rightarrow> [s]
                | Some k \<Rightarrow> take k s # (if i + 1 \<ge> n then [] else explode_loop ifs n (i + 1) (drop (k + 1) s)))
          else if i + 1 \<ge> n then [rtrim ifs (c # s)]
          else let w = takeWhile (\<lambda>c. \<not> ifs c) (c # s); r = drop (length w) (c # s)
               in w # (if r = [] then [] else explode_loop ifs n (i + 1) (tl r)))"
  by pat_completeness auto
termination
proof (relation "measure (\<lambda>(ifs, n, i, line). length line)")
  fix ifs n i line c k and s :: string
  assume d: "dropWhile ifs line = c # s"
  have "length (dropWhile ifs line) \<le> length line" by (rule length_dropWhile_le)
  then show "((ifs, n, i + 1, drop (k + 1) s), ifs, n, i, line) \<in> measure (\<lambda>(ifs, n, i, line). length line)"
    using d by simp
  fix w r :: string
  assume "r = drop (length w) (c # s)"
  then have "length (tl r) \<le> length s" by simp
  then show "((ifs, n, i + 1, tl r), ifs, n, i, line) \<in> measure (\<lambda>(ifs, n, i, line). length line)"
    using d \<open>length (dropWhile ifs line) \<le> length line\<close> by simp
qed auto

declare explode_loop.simps [simp del]

datatype ifs_arg = IFS_null | IFS_table "char \<Rightarrow> bool" | IFS_string string

definition str_explode :: "ifs_arg \<Rightarrow> string \<Rightarrow> nat \<Rightarrow> string list" where
  "str_explode ifs line n =
     explode_loop (case ifs of IFS_null \<Rightarrow> default_ifs | IFS_table t \<Rightarrow> t | IFS_string t \<Rightarrow> (\<lambda>c. c \<in> set t))
       n 0 line"

text \<open>A line of plain words, with room for all of them.\<close>

definition plain_word :: "(char \<Rightarrow> bool) \<Rightarrow> string \<times> string \<Rightarrow> bool" where
  "plain_word ifs ws \<longleftrightarrow>
     (case ws of (w, sep) \<Rightarrow>
        w \<noteq> [] \<and> hd w \<noteq> CHR ''\"'' \<and> hd w \<noteq> CHR 0x27 \<and> (\<forall>c\<in>set w. \<not> ifs c) \<and>
        sep \<noteq> [] \<and> (\<forall>c\<in>set sep. ifs c))"

lemma dropWhile_lead: "\<forall>c\<in>set a. P c \<Longrightarrow> dropWhile P (a @ b) = dropWhile P b"
  by (simp add: dropWhile_append2)

lemma explode_plain:
  assumes "\<forall>ws\<in>set l. plain_word ifs ws" "\<forall>c\<in>set lead. ifs c" "i + length l < n"
  shows "explode_loop ifs n i (lead @ concat (map (\<lambda>(w, sep). w @ sep) l)) = map fst l"
  using assms
proof (induction l arbitrary: lead i)
  case Nil
  then show ?case by (subst explode_loop.simps) (simp add: dropWhile_eq_Nil_conv [THEN iffD2])
next
  case (Cons ws l)
  obtain w sep where ws: "ws = (w, sep)" by fastforce
  let ?rest = "concat (map (\<lambda>(w, sep). w @ sep) l)"
  have w: "w \<noteq> []" "\<forall>c\<in>set w. \<not> ifs c" "hd w \<noteq> CHR ''\"''" "hd w \<noteq> CHR 0x27" "sep \<noteq> []" "\<forall>c\<in>set sep. ifs c"
    using Cons.prems(1) by (auto simp: plain_word_def ws)
  obtain c w' where cw: "w = c # w'" using w(1) by (cases w) auto
  obtain e sep' where es: "sep = e # sep'" using w(5) by (cases sep) auto
  have d: "dropWhile ifs (lead @ w @ sep @ ?rest) = c # w' @ sep @ ?rest"
    using Cons.prems(2) w(2) by (simp add: dropWhile_lead cw)
  have t: "takeWhile (\<lambda>c. \<not> ifs c) (c # w' @ sep @ ?rest) = w"
    using w(2,6) by (simp add: cw es takeWhile_append2)
  have "explode_loop ifs n (i + 1) (sep' @ ?rest) = map fst l"
    using Cons.IH [of sep' "i + 1"] Cons.prems(1,3) w(6) by (simp add: es)
  then show ?case
    using d t w(3,4) Cons.prems(3)
    by (subst explode_loop.simps) (simp add: ws cw es Let_def)
qed

section \<open>Properties\<close>

text \<open>Decoding what \<^verbatim>\<open>encode_hex\<close> wrote gives the bytes back, whenever the buffer holds them.\<close>

theorem hex_roundtrip:
  assumes "length s \<le> buflen"
  shows "decode_hex buflen (encode_hex s) = s"
  by (rule decode_encode_hex [OF assms])

theorem hex_roundtrip_witness: "decode_hex 8 (encode_hex ''vfs\<newline>'') = ''vfs\<newline>''"
  by (rule hex_roundtrip) simp

text \<open>The characters that \<^verbatim>\<open>base64_encode\<close> writes are the message bits, six at a time and most
  significant first, with zero bits behind the last byte.\<close>

theorem base64_bits:
  assumes "i < (length d * 8 + 5) div 6" "k < 6"
  shows "base64_encode d pad ! i = b64_chars ! b64_index d i \<and>
    (bit (b64_index d i) (5 - k) \<longleftrightarrow>
      (let p = 6 * i + k in p div 8 < length d \<and> bit (d ! (p div 8)) (7 - p mod 8)))"
  using b64_index_bit [OF assms(2,1)] assms(1)
  by (simp add: base64_encode_def Let_def nth_append)

theorem base64_bits_witness:
  "base64_encode [0x4D, 0x61] True ! 2 = b64_chars ! b64_index [0x4D, 0x61] 2 \<and> \<not> bit (b64_index [0x4D, 0x61] 2) 0"
  using base64_bits [of 2 "[0x4D, 0x61]" 5 True] by (simp add: Let_def)

text \<open>\<^verbatim>\<open>str2ip\<close> reads back every address that \<^verbatim>\<open>ip2str\<close> prints, for the first bytes it accepts.\<close>

theorem ip_roundtrip:
  assumes "1 \<le> ip_byte ip 0" "ip_byte ip 0 < 224"
  shows "str2ip (ip2str ip) = ip"
  by (rule str2ip_ip2str [OF assms])

theorem ip_roundtrip_witness: "str2ip (ip2str 0x0100007F) = 0x0100007F"
  by (rule ip_roundtrip) (simp_all add: ip_byte_div)

text \<open>\<^verbatim>\<open>str2ip\<close> does not check the range of the third number: it accepts \<^verbatim>\<open>1.2.300.4\<close> and carries
  the excess into the fourth byte.\<close>

theorem str2ip_third_unchecked: "str2ip ''1.2.300.4'' = str2ip ''1.2.44.5'' \<and> str2ip ''1.2.300.4'' \<noteq> INADDR_NONE"
  by (simp add: str2ip_def strtoul_def digit_of_def next_isdigit_def isdigit_def at_dot_def INADDR_NONE_def word_le_nat_alt)

text \<open>\<^verbatim>\<open>uint2str\<close> writes the decimal digits of every 32 bit number.\<close>

theorem uint2str_decimal: "uint2str n = dec_nat (unat n)"
  by (rule uint2str_dec)

text \<open>\<^verbatim>\<open>get_time_t\<close> reads back a time stamp that \<^verbatim>\<open>get_strtime_by_t\<close> printed.\<close>

theorem strtime_roundtrip:
  assumes "tm_printable (localtime_r now)"
  shows "get_time_t mktime (get_strtime_by_t localtime_r now) = mktime (localtime_r now)"
proof -
  let ?t = "localtime_r now"
  note b = assms [unfolded tm_printable_def]
  have l4: "length (pad_dec 4 (tm_year ?t + 1900)) = 4"
    using length_pad_dec [of "tm_year ?t + 1900" 3] b by (simp add: numeral_eq_Suc)
  have l2: "length (pad_dec 2 n) = 2" if "0 \<le> n" "n < 100" for n
    using length_pad_dec [of n 1] that by (simp add: numeral_2_eq_2)
  have l: "length (pad_dec 2 (tm_mon ?t + 1)) = 2" "length (pad_dec 2 (tm_mday ?t)) = 2"
    "length (pad_dec 2 (tm_hour ?t)) = 2" "length (pad_dec 2 (tm_min ?t)) = 2" "length (pad_dec 2 (tm_sec ?t)) = 2"
    using b by (simp_all add: l2)
  have a: "atoi (pad_dec 4 (tm_year ?t + 1900)) = tm_year ?t + 1900" "atoi (pad_dec 2 (tm_mon ?t + 1)) = tm_mon ?t + 1"
    "atoi (pad_dec 2 (tm_mday ?t)) = tm_mday ?t" "atoi (pad_dec 2 (tm_hour ?t)) = tm_hour ?t"
    "atoi (pad_dec 2 (tm_min ?t)) = tm_min ?t" "atoi (pad_dec 2 (tm_sec ?t)) = tm_sec ?t"
    using b by (simp_all add: atoi_pad_dec)
  have "\<lparr>tm_year = tm_year ?t, tm_mon = tm_mon ?t, tm_mday = tm_mday ?t, tm_hour = tm_hour ?t,
      tm_min = tm_min ?t, tm_sec = tm_sec ?t\<rparr> = ?t" (is "?u = _") by (cases ?t) simp
  moreover have "get_time_t mktime (get_strtime_by_t localtime_r now) = mktime ?u"
    by (simp add: get_time_t_def get_strtime_by_t_def Let_def l4 l a)
  ultimately show ?thesis by (simp only:)
qed

theorem strtime_roundtrip_witness:
  "get_time_t tm_sec (get_strtime_by_t (\<lambda>_. \<lparr>tm_year = 113, tm_mon = 0, tm_mday = 9, tm_hour = 1, tm_min = 2, tm_sec = 3\<rparr>) 0) = 3"
  using strtime_roundtrip [of "\<lambda>_. \<lparr>tm_year = 113, tm_mon = 0, tm_mday = 9, tm_hour = 1, tm_min = 2, tm_sec = 3\<rparr>" 0 tm_sec]
  by (simp add: tm_printable_def)

text \<open>\<^verbatim>\<open>str_explode\<close> returns the words of a line of plain words, whatever separates them, when there
  is room for all of them.\<close>

theorem str_explode_words:
  assumes "\<forall>ws\<in>set l. plain_word default_ifs ws" "length l < n"
  shows "str_explode IFS_null (concat (map (\<lambda>(w, sep). w @ sep) l)) n = map fst l"
  using explode_plain [of l default_ifs "[]" 0 n] assms by (simp add: str_explode_def)

theorem str_explode_words_witness:
  "str_explode IFS_null ''put  file '' 3 = [''put'', ''file'']"
  using str_explode_words [of "[(''put'', ''  ''), (''file'', '' '')]" 3]
  by (simp add: plain_word_def default_ifs_def)

end
