(* ===== verification/Md5.thy ===== *)
theory Md5
  imports Framing
begin

text \<open>
  MD5 (\<^verbatim>\<open>src/lib/md5.c\<close>, little endian branch) and its users in \<^verbatim>\<open>src/lib/util_misc.c\<close>.  \<open>md5_ref\<close>
  is the reference: pad the whole message and run the compression over its blocks.  The context
  that \<open>MD5Update\<close> keeps represents the bytes it has seen (\<open>md5_repr\<close>), however they were cut into pieces.
\<close>

section \<open>The code\<close>

type_synonym md5_state = "uint32 \<times> uint32 \<times> uint32 \<times> uint32"

record MD5Context =
  md5_buf :: md5_state
  bits0 :: uint32
  bits1 :: uint32
  md5_in :: "byte list"

definition md5_init_state :: md5_state where
  "md5_init_state = (0x67452301, 0xefcdab89, 0x98badcfe, 0x10325476)"

text \<open>\<open>garbage\<close> is what the array holds before \<^verbatim>\<open>MD5Init\<close>, which does not clear it.\<close>

definition MD5Init :: "byte list \<Rightarrow> MD5Context" where
  "MD5Init garbage = \<lparr>md5_buf = md5_init_state, bits0 = 0, bits1 = 0, md5_in = garbage\<rparr>"

definition F1 :: "uint32 \<Rightarrow> uint32 \<Rightarrow> uint32 \<Rightarrow> uint32" where "F1 x y z = z XOR (x AND (y XOR z))"
definition F2 :: "uint32 \<Rightarrow> uint32 \<Rightarrow> uint32 \<Rightarrow> uint32" where "F2 x y z = F1 z x y"
definition F3 :: "uint32 \<Rightarrow> uint32 \<Rightarrow> uint32 \<Rightarrow> uint32" where "F3 x y z = x XOR y XOR z"
definition F4 :: "uint32 \<Rightarrow> uint32 \<Rightarrow> uint32 \<Rightarrow> uint32" where "F4 x y z = y XOR (x OR NOT z)"

text \<open>\<^verbatim>\<open>MD5STEP\<close>: the new value of \<^verbatim>\<open>w\<close>.\<close>

definition MD5STEP ::
  "(uint32 \<Rightarrow> uint32 \<Rightarrow> uint32 \<Rightarrow> uint32) \<Rightarrow> md5_state \<Rightarrow> uint32 \<Rightarrow> nat \<Rightarrow> uint32" where
  "MD5STEP f = (\<lambda>(w, x, y, z) data s.
     let w = w + f x y z + data; w = push_bit s w OR drop_bit (32 - s) w in w + x)"

text \<open>The 64 steps: function, input word, constant, rotation.\<close>

definition md5_steps :: "((uint32 \<Rightarrow> uint32 \<Rightarrow> uint32 \<Rightarrow> uint32) \<times> nat \<times> uint32 \<times> nat) list" where
  "md5_steps =
  [(F1, 0, 0xd76aa478, 7), (F1, 1, 0xe8c7b756, 12),
   (F1, 2, 0x242070db, 17), (F1, 3, 0xc1bdceee, 22),
   (F1, 4, 0xf57c0faf, 7), (F1, 5, 0x4787c62a, 12),
   (F1, 6, 0xa8304613, 17), (F1, 7, 0xfd469501, 22),
   (F1, 8, 0x698098d8, 7), (F1, 9, 0x8b44f7af, 12),
   (F1, 10, 0xffff5bb1, 17), (F1, 11, 0x895cd7be, 22),
   (F1, 12, 0x6b901122, 7), (F1, 13, 0xfd987193, 12),
   (F1, 14, 0xa679438e, 17), (F1, 15, 0x49b40821, 22),
   (F2, 1, 0xf61e2562, 5), (F2, 6, 0xc040b340, 9),
   (F2, 11, 0x265e5a51, 14), (F2, 0, 0xe9b6c7aa, 20),
   (F2, 5, 0xd62f105d, 5), (F2, 10, 0x02441453, 9),
   (F2, 15, 0xd8a1e681, 14), (F2, 4, 0xe7d3fbc8, 20),
   (F2, 9, 0x21e1cde6, 5), (F2, 14, 0xc33707d6, 9),
   (F2, 3, 0xf4d50d87, 14), (F2, 8, 0x455a14ed, 20),
   (F2, 13, 0xa9e3e905, 5), (F2, 2, 0xfcefa3f8, 9),
   (F2, 7, 0x676f02d9, 14), (F2, 12, 0x8d2a4c8a, 20),
   (F3, 5, 0xfffa3942, 4), (F3, 8, 0x8771f681, 11),
   (F3, 11, 0x6d9d6122, 16), (F3, 14, 0xfde5380c, 23),
   (F3, 1, 0xa4beea44, 4), (F3, 4, 0x4bdecfa9, 11),
   (F3, 7, 0xf6bb4b60, 16), (F3, 10, 0xbebfbc70, 23),
   (F3, 13, 0x289b7ec6, 4), (F3, 0, 0xeaa127fa, 11),
   (F3, 3, 0xd4ef3085, 16), (F3, 6, 0x04881d05, 23),
   (F3, 9, 0xd9d4d039, 4), (F3, 12, 0xe6db99e5, 11),
   (F3, 15, 0x1fa27cf8, 16), (F3, 2, 0xc4ac5665, 23),
   (F4, 0, 0xf4292244, 6), (F4, 7, 0x432aff97, 10),
   (F4, 14, 0xab9423a7, 15), (F4, 5, 0xfc93a039, 21),
   (F4, 12, 0x655b59c3, 6), (F4, 3, 0x8f0ccc92, 10),
   (F4, 10, 0xffeff47d, 15), (F4, 1, 0x85845dd1, 21),
   (F4, 8, 0x6fa87e4f, 6), (F4, 15, 0xfe2ce6e0, 10),
   (F4, 6, 0xa3014314, 15), (F4, 13, 0x4e0811a1, 21),
   (F4, 4, 0xf7537e82, 6), (F4, 11, 0xbd3af235, 10),
   (F4, 2, 0x2ad7d2bb, 15), (F4, 9, 0xeb86d391, 21)]"

text \<open>
  The registers change roles from step to step: after a step on \<^verbatim>\<open>(w, x, y, z)\<close> the next one is
  on \<^verbatim>\<open>(z, w, x, y)\<close>.  After four steps each is back in its place.
\<close>

fun run_steps ::
  "((uint32 \<Rightarrow> uint32 \<Rightarrow> uint32 \<Rightarrow> uint32) \<times> nat \<times> uint32 \<times> nat) list \<Rightarrow> uint32 list \<Rightarrow> md5_state \<Rightarrow> md5_state" where
  "run_steps [] inp st = st"
| "run_steps ((f, k, c, s) # rest) inp (w, x, y, z) =
     run_steps rest inp (z, MD5STEP f (w, x, y, z) (inp ! k + c) s, x, y)"

definition MD5Transform :: "md5_state \<Rightarrow> uint32 list \<Rightarrow> md5_state" where
  "MD5Transform st inp =
     (case st of (b0, b1, b2, b3) \<Rightarrow> case run_steps md5_steps inp st of (a, b, c, d) \<Rightarrow>
        (b0 + a, b1 + b, b2 + c, b3 + d))"

text \<open>The cast of the byte array to words, on a little endian machine.\<close>

fun le_words :: "byte list \<Rightarrow> uint32 list" where
  "le_words (a # b # c # d # bs) =
     (ucast a OR push_bit 8 (ucast b) OR push_bit 16 (ucast c) OR push_bit 24 (ucast d)) # le_words bs"
| "le_words _ = []"

definition le_bytes :: "uint32 \<Rightarrow> byte list" where
  "le_bytes w = [ucast w, ucast (drop_bit 8 w), ucast (drop_bit 16 w), ucast (drop_bit 24 w)]"

definition transform_bytes :: "md5_state \<Rightarrow> byte list \<Rightarrow> md5_state" where
  "transform_bytes st blk = MD5Transform st (le_words blk)"

text \<open>The loop over whole blocks, which ends by storing the rest.\<close>

function md5_blocks :: "MD5Context \<Rightarrow> byte list \<Rightarrow> MD5Context" where
  "md5_blocks ctx b =
     (if length b \<ge> 64
      then md5_blocks (ctx\<lparr>md5_in := memcpy (md5_in ctx) b 64,
                           md5_buf := transform_bytes (md5_buf ctx) (memcpy (md5_in ctx) b 64)\<rparr>) (drop 64 b)
      else ctx\<lparr>md5_in := memcpy (md5_in ctx) b (length b)\<rparr>)"
  by pat_completeness auto
termination by (relation "measure (\<lambda>(ctx, b). length b)") auto

declare md5_blocks.simps [simp del]

definition MD5Update :: "MD5Context \<Rightarrow> byte list \<Rightarrow> MD5Context" where
  "MD5Update ctx b =
     (let len = word_of_nat (length b) :: uint32;
          t = bits0 ctx;
          ctx = ctx\<lparr>bits0 := t + push_bit 3 len\<rparr>;
          ctx = (if bits0 ctx < t then ctx\<lparr>bits1 := bits1 ctx + 1\<rparr> else ctx);
          ctx = ctx\<lparr>bits1 := bits1 ctx + drop_bit 29 len\<rparr>;
          t = unat (drop_bit 3 t AND 0x3f)
      in if t \<noteq> 0
         then (let n = 64 - t
               in if length b < n then ctx\<lparr>md5_in := write_at (md5_in ctx) t b\<rparr>
                  else let inp = write_at (md5_in ctx) t (take n b)
                       in md5_blocks (ctx\<lparr>md5_in := inp, md5_buf := transform_bytes (md5_buf ctx) inp\<rparr>) (drop n b))
         else md5_blocks ctx b)"

definition state_bytes :: "md5_state \<Rightarrow> byte list" where
  "state_bytes = (\<lambda>(a, b, c, d). le_bytes a @ le_bytes b @ le_bytes c @ le_bytes d)"

definition MD5Final :: "MD5Context \<Rightarrow> byte list" where
  "MD5Final ctx =
     (let count = unat (drop_bit 3 (bits0 ctx) AND 0x3F);
          inp = (md5_in ctx)[count := 0x80];
          p = count + 1;
          count = 64 - 1 - count;
          (inp, st) =
            (if count < 8
             then let inp = write_at inp p (replicate count 0)
                  in (write_at inp 0 (replicate 56 0), transform_bytes (md5_buf ctx) inp)
             else (write_at inp p (replicate (count - 8) 0), md5_buf ctx));
          inp = write_at inp 56 (le_bytes (bits0 ctx) @ le_bytes (bits1 ctx))
      in state_bytes (transform_bytes st inp))"

definition MD5Digest :: "byte list \<Rightarrow> byte list \<Rightarrow> byte list" where
  "MD5Digest garbage msg = MD5Final (MD5Update (MD5Init garbage) msg)"

definition hmac_key :: "byte list \<Rightarrow> byte list \<Rightarrow> byte list" where
  "hmac_key garbage password = (if length password > 64 then MD5Digest garbage password else password)"

definition hmac_pad :: "byte \<Rightarrow> byte list \<Rightarrow> byte list" where
  "hmac_pad x key = map (\<lambda>b. b XOR x) (memcpy (replicate 64 0) key (length key))"

definition MD5HMAC :: "byte list \<Rightarrow> byte list \<Rightarrow> byte list \<Rightarrow> byte list" where
  "MD5HMAC garbage password challenge =
     (let key = hmac_key garbage password;
          response = MD5Final (MD5Update (MD5Update (MD5Init garbage) (hmac_pad 0x36 key)) challenge)
      in MD5Final (MD5Update (MD5Update (MD5Init garbage) (hmac_pad 0x5c key)) response))"

definition MD5HMAC2 :: "byte list \<Rightarrow> byte list \<Rightarrow> byte list \<Rightarrow> byte list \<Rightarrow> byte list" where
  "MD5HMAC2 garbage password challenge challenge2 =
     (let key = hmac_key garbage password;
          response = MD5Final (MD5Update (MD5Update (MD5Update (MD5Init garbage) (hmac_pad 0x36 key)) challenge) challenge2)
      in MD5Final (MD5Update (MD5Update (MD5Init garbage) (hmac_pad 0x5c key)) response))"

section \<open>The reference\<close>

text \<open>Compression of the whole blocks of a message.\<close>

function md5_fold :: "md5_state \<Rightarrow> byte list \<Rightarrow> md5_state" where
  "md5_fold st m = (if length m < 64 then st else md5_fold (transform_bytes st (take 64 m)) (drop 64 m))"
  by pat_completeness auto
termination by (relation "measure (\<lambda>(st, m). length m)") auto

declare md5_fold.simps [simp del]

definition md5_pad :: "byte list \<Rightarrow> byte list" where
  "md5_pad m = m @ [0x80] @ replicate ((119 - length m mod 64) mod 64) 0 @
     le_bytes (word_of_nat (8 * length m)) @ le_bytes (word_of_nat (8 * length m div 2 ^ 32))"

definition md5_ref :: "byte list \<Rightarrow> byte list" where
  "md5_ref m = state_bytes (md5_fold md5_init_state (md5_pad m))"

lemma md5_fold_short: "length m < 64 \<Longrightarrow> md5_fold st m = st"
  by (subst md5_fold.simps) simp

lemma md5_fold_block: "length b = 64 \<Longrightarrow> md5_fold st (b @ m) = md5_fold (transform_bytes st b) m"
  by (subst md5_fold.simps) simp

lemma md5_fold_append: "64 dvd length a \<Longrightarrow> md5_fold st (a @ b) = md5_fold (md5_fold st a) b"
proof (induction a arbitrary: st rule: length_induct)
  case (1 a)
  show ?case
  proof (cases "length a < 64")
    case True
    with 1 have "a = []" using dvd_imp_le [of 64 "length a"] by (cases a) auto
    then show ?thesis by (simp add: md5_fold_short)
  next
    case False
    then obtain c d where a: "a = c @ d" "length c = 64"
      by (metis append_take_drop_id length_take min_absorb2 not_less)
    moreover have "64 dvd length d" using 1(2) a by (simp add: dvd_add_right_iff)
    moreover have "length d < length a" using a by simp
    ultimately have "md5_fold (transform_bytes st c) (d @ b) = md5_fold (md5_fold (transform_bytes st c) d) b"
      using 1(1) by blast
    then show ?thesis by (simp add: a md5_fold_block)
  qed
qed

text \<open>The part of a message behind its last whole block.\<close>

definition md5_rest :: "byte list \<Rightarrow> byte list" where
  "md5_rest m = drop (length m - length m mod 64) m"

definition md5_repr :: "MD5Context \<Rightarrow> byte list \<Rightarrow> bool" where
  "md5_repr ctx m \<longleftrightarrow>
     length (md5_in ctx) = 64 \<and>
     md5_buf ctx = md5_fold md5_init_state m \<and>
     take (length m mod 64) (md5_in ctx) = md5_rest m \<and>
     bits0 ctx = word_of_nat (8 * length m) \<and> bits1 ctx = word_of_nat (8 * length m div 2 ^ 32)"

section \<open>The bit counter\<close>

lemma carry_div:
  fixes x y c :: nat
  assumes "0 < c"
  shows "(x + y) div c = x div c + y div c + (if (x + y) mod c < x mod c then 1 else 0)"
proof -
  have m: "(x + y) mod c = (x mod c + y mod c) mod c" by (simp add: mod_add_eq)
  have d: "(x + y) div c = x div c + y div c + (x mod c + y mod c) div c" by (rule div_add1_eq)
  have lt: "x mod c < c" "y mod c < c" using assms by simp_all
  show ?thesis
  proof (cases "x mod c + y mod c < c")
    case True
    then show ?thesis unfolding d m by simp
  next
    case False
    moreover have "x mod c + y mod c - c < c" using lt by linarith
    ultimately have "(x mod c + y mod c) div c = 1" "(x mod c + y mod c) mod c = x mod c + y mod c - c"
      using lt le_div_geq [of c "x mod c + y mod c"] le_mod_geq [of c "x mod c + y mod c"] by simp_all
    then show ?thesis unfolding d m using lt False by simp
  qed
qed

lemma bits_low: "(word_of_nat (8 * n) :: uint32) + push_bit 3 (word_of_nat k) = word_of_nat (8 * (n + k))"
proof -
  have "push_bit 3 (word_of_nat k :: uint32) = word_of_nat (8 * k)" by (simp add: push_bit_eq_mult)
  then show ?thesis by (simp only: of_nat_add [symmetric] distrib_left)
qed

lemma bits_high:
  assumes "k < 2 ^ 32"
  shows "(if (word_of_nat (8 * (n + k)) :: uint32) < word_of_nat (8 * n)
          then word_of_nat (8 * n div 2 ^ 32) + 1 else word_of_nat (8 * n div 2 ^ 32)) + drop_bit 29 (word_of_nat k)
       = (word_of_nat (8 * (n + k) div 2 ^ 32) :: uint32)"
proof -
  have "(word_of_nat (8 * (n + k)) :: uint32) < word_of_nat (8 * n) \<longleftrightarrow>
      (8 * n + 8 * k) mod 2 ^ 32 < 8 * n mod 2 ^ 32"
    by (simp only: word_less_nat_alt unat_of_nat distrib_left) simp
  moreover have "drop_bit 29 (word_of_nat k :: uint32) = word_of_nat (8 * k div 2 ^ 32)"
  proof -
    have "unat (drop_bit 29 (word_of_nat k :: uint32)) = k div 2 ^ 29"
      using assms by (simp only: unat_drop_bit_eq) (simp add: drop_bit_eq_div unat_of_nat)
    moreover have "k div 2 ^ 29 = 8 * k div 2 ^ 32" by simp
    ultimately show ?thesis by (metis unat_back)
  qed
  moreover have "8 * (n + k) div 2 ^ 32 = 8 * n div 2 ^ 32 + 8 * k div 2 ^ 32
      + (if (8 * n + 8 * k) mod 2 ^ 32 < 8 * n mod 2 ^ 32 then 1 else 0)"
    using carry_div [of "2 ^ 32" "8 * n" "8 * k"] by (simp add: distrib_left)
  ultimately show ?thesis by (simp only: of_nat_add) (simp split: if_split)
qed

lemma count_mod: "unat (drop_bit 3 (word_of_nat (8 * n) :: uint32) AND 0x3F) = n mod 64"
proof -
  have "(drop_bit 3 (word_of_nat (8 * n) :: uint32) AND 0x3F) = take_bit 6 (drop_bit 3 (word_of_nat (8 * n)))"
    by (simp add: take_bit_eq_mask mask_eq_exp_minus_1)
  then have "unat (drop_bit 3 (word_of_nat (8 * n) :: uint32) AND 0x3F) =
      take_bit 6 (drop_bit 3 (8 * n mod 2 ^ 32))"
    by (simp only: unsigned_take_bit_eq unat_drop_bit_eq unat_of_nat) (simp add: take_bit_eq_mod)
  also have "\<dots> = (8 * (n mod 2 ^ 29) div 8) mod 64"
    by (simp add: take_bit_eq_mod drop_bit_eq_div mult_mod_right)
  also have "\<dots> = n mod 64" by (simp add: mod_mod_cancel)
  finally show ?thesis .
qed

section \<open>Refinement\<close>

lemma rest_split: "\<exists>m1. m = m1 @ md5_rest m \<and> 64 dvd length m1 \<and> length (md5_rest m) = length m mod 64"
proof -
  have "64 dvd length m - length m mod 64" by (rule dvd_minus_mod)
  then show ?thesis
    by (intro exI [of _ "take (length m - length m mod 64) m"]) (simp add: md5_rest_def)
qed

lemma md5_rest_append: "64 dvd length a \<Longrightarrow> md5_rest (a @ b) = md5_rest b"
proof -
  assume "64 dvd length a"
  then obtain k where k: "length a = 64 * k" by (elim dvdE)
  then have "(length a + length b) mod 64 = length b mod 64" by simp
  then have "drop (length (a @ b) - length (a @ b) mod 64) (a @ b) =
      drop (length a + length b - length b mod 64) (a @ b)" by simp
  also have "\<dots> = drop (length b - length b mod 64) b" by simp
  finally show ?thesis by (simp only: md5_rest_def)
qed

lemma md5_rest_short: "length b < 64 \<Longrightarrow> md5_rest b = b"
  by (simp add: md5_rest_def)

lemma md5_blocks_spec:
  assumes "length (md5_in ctx) = 64"
  shows "length (md5_in (md5_blocks ctx b)) = 64 \<and>
    md5_buf (md5_blocks ctx b) = md5_fold (md5_buf ctx) b \<and>
    take (length b mod 64) (md5_in (md5_blocks ctx b)) = md5_rest b \<and>
    bits0 (md5_blocks ctx b) = bits0 ctx \<and> bits1 (md5_blocks ctx b) = bits1 ctx"
  using assms
proof (induction ctx b rule: md5_blocks.induct)
  case (1 ctx b)
  show ?case
  proof (cases "64 \<le> length b")
    case False
    then show ?thesis using 1(2)
      by (subst (1 2 3 4 5) md5_blocks.simps) (simp add: md5_fold_short md5_rest_short)
  next
    case True
    have blk: "memcpy (md5_in ctx) b 64 = take 64 b" using 1(2) by (simp add: memcpy_def)
    let ?ctx = "ctx\<lparr>md5_in := memcpy (md5_in ctx) b 64,
      md5_buf := transform_bytes (md5_buf ctx) (memcpy (md5_in ctx) b 64)\<rparr>"
    have eq: "md5_blocks ctx b = md5_blocks ?ctx (drop 64 b)"
      using True by (subst md5_blocks.simps) simp
    have "length (md5_in ?ctx) = 64" using True by (simp add: blk)
    note IH = 1(1) [OF True this]
    have b: "b = take 64 b @ drop 64 b" "length (take 64 b) = 64" using True by simp_all
    have "md5_fold (md5_buf ctx) b = md5_fold (transform_bytes (md5_buf ctx) (take 64 b)) (drop 64 b)"
      using md5_fold_block [OF b(2)] b(1) by metis
    moreover have "md5_rest b = md5_rest (drop 64 b)"
      using md5_rest_append [of "take 64 b" "drop 64 b"] b by simp
    moreover have "length b mod 64 = length (drop 64 b) mod 64"
      using True by (simp add: mod_if [of "length b"])
    ultimately show ?thesis using IH unfolding eq by (simp add: blk)
  qed
qed

lemma md5_repr_init: "length garbage = 64 \<Longrightarrow> md5_repr (MD5Init garbage) []"
  by (simp add: md5_repr_def MD5Init_def md5_fold_short md5_rest_def)

lemma md5_blocks_simps:
  "length (md5_in ctx) = 64 \<Longrightarrow> length (md5_in (md5_blocks ctx b)) = 64"
  "length (md5_in ctx) = 64 \<Longrightarrow> md5_buf (md5_blocks ctx b) = md5_fold (md5_buf ctx) b"
  "length (md5_in ctx) = 64 \<Longrightarrow> take (length b mod 64) (md5_in (md5_blocks ctx b)) = md5_rest b"
  "length (md5_in ctx) = 64 \<Longrightarrow> bits0 (md5_blocks ctx b) = bits0 ctx"
  "length (md5_in ctx) = 64 \<Longrightarrow> bits1 (md5_blocks ctx b) = bits1 ctx"
  using md5_blocks_spec [of ctx b] by simp_all

text \<open>The counters first, then the three ways through \<open>MD5Update\<close>.\<close>

definition counted :: "MD5Context \<Rightarrow> nat \<Rightarrow> MD5Context" where
  "counted ctx n = ctx\<lparr>bits0 := word_of_nat (8 * n), bits1 := word_of_nat (8 * n div 2 ^ 32)\<rparr>"

lemma counted_simps [simp]:
  "md5_in (counted ctx n) = md5_in ctx" "md5_buf (counted ctx n) = md5_buf ctx"
  "bits0 (counted ctx n) = word_of_nat (8 * n)" "bits1 (counted ctx n) = word_of_nat (8 * n div 2 ^ 32)"
  by (simp_all add: counted_def)

lemma count_step:
  assumes "bits0 ctx = a" "a + p = a'" "(if a' < a then bits1 ctx + 1 else bits1 ctx) + h = c'"
  shows "(let ctx = ctx\<lparr>bits0 := a + p\<rparr>;
             ctx = (if bits0 ctx < a then ctx\<lparr>bits1 := bits1 ctx + 1\<rparr> else ctx)
         in ctx\<lparr>bits1 := bits1 ctx + h\<rparr>) = ctx\<lparr>bits0 := a', bits1 := c'\<rparr>"
  using assms by (auto simp: Let_def)

lemma MD5Update_counted:
  assumes "md5_repr ctx m" "length b < 2 ^ 32"
  defines "t \<equiv> length m mod 64"
  shows "MD5Update ctx b =
    (let ctx' = counted ctx (length m + length b)
     in if t \<noteq> 0
        then if length b < 64 - t then ctx'\<lparr>md5_in := write_at (md5_in ctx) t b\<rparr>
             else let inp = write_at (md5_in ctx) t (take (64 - t) b)
                  in md5_blocks (ctx'\<lparr>md5_in := inp, md5_buf := transform_bytes (md5_buf ctx) inp\<rparr>) (drop (64 - t) b)
        else md5_blocks ctx' b)"
proof -
  have b: "bits0 ctx = word_of_nat (8 * length m)" "bits1 ctx = word_of_nat (8 * length m div 2 ^ 32)"
    using assms(1) by (auto simp: md5_repr_def)
  note step = count_step [OF b(1) bits_low [of "length m" "length b"], of "drop_bit 29 (word_of_nat (length b))",
      OF bits_high [OF assms(2), of "length m", folded b(2)]]
  show ?thesis
    unfolding MD5Update_def step [unfolded Let_def, folded b(1)] Let_def t_def
    by (simp only: counted_def b count_mod) simp
qed

lemma md5_repr_update:
  assumes r: "md5_repr ctx m" and len: "length b < 2 ^ 32"
  shows "md5_repr (MD5Update ctx b) (m @ b)"
proof -
  define t where "t = length m mod 64"
  have inp: "length (md5_in ctx) = 64" "take t (md5_in ctx) = md5_rest m"
    and buf: "md5_buf ctx = md5_fold md5_init_state m"
    using r by (simp_all add: md5_repr_def t_def)
  obtain m1 where m1: "m = m1 @ md5_rest m" "64 dvd length m1" "length (md5_rest m) = t"
    using rest_split [of m] unfolding t_def by blast
  have t: "t < 64" by (simp add: t_def)
  note upd = MD5Update_counted [OF r len, folded t_def]
  have fold1: "md5_fold md5_init_state m = md5_fold md5_init_state m1"
    using md5_fold_append [OF m1(2)] m1(1,3) t by (metis md5_fold_short)
  have split: "md5_rest (m @ b) = md5_rest (md5_rest m @ b)"
    "length (m @ b) mod 64 = length (md5_rest m @ b) mod 64"
    "md5_fold md5_init_state (m @ b) = md5_fold (md5_buf ctx) (md5_rest m @ b)"
  proof -
    have e: "m @ b = m1 @ md5_rest m @ b" using m1(1) by simp
    show "md5_rest (m @ b) = md5_rest (md5_rest m @ b)" unfolding e by (rule md5_rest_append [OF m1(2)])
    show "length (m @ b) mod 64 = length (md5_rest m @ b) mod 64"
      using m1(2) unfolding e by (auto elim!: dvdE)
    show "md5_fold md5_init_state (m @ b) = md5_fold (md5_buf ctx) (md5_rest m @ b)"
      unfolding e buf fold1 by (rule md5_fold_append [OF m1(2)])
  qed
  consider (whole) "t = 0" | (short) "t \<noteq> 0" "length b < 64 - t" | (fill) "t \<noteq> 0" "64 - t \<le> length b"
    by linarith
  then show ?thesis
  proof cases
    case whole
    then have "md5_rest m = []" using m1(3) by simp
    with whole split inp(1) show ?thesis
      unfolding upd by (simp add: md5_repr_def md5_blocks_simps)
  next
    case short
    then have "length (md5_rest m @ b) < 64" using m1(3) by simp
    moreover have "take (t + length b) (write_at (md5_in ctx) t b) = md5_rest m @ b"
      using short inp by (subst take_write_at) auto
    moreover have "length (write_at (md5_in ctx) t b) = 64" using short inp by (simp add: length_write_at)
    ultimately show ?thesis
      using short split m1(3) unfolding upd
      by (simp add: md5_repr_def md5_fold_short md5_rest_short)
  next
    case fill
    let ?blk = "md5_rest m @ take (64 - t) b"
    have w: "write_at (md5_in ctx) t (take (64 - t) b) = ?blk"
      using fill inp t by (simp add: write_at_def min_def)
    have blk: "length ?blk = 64" using fill m1(3) t by simp
    have rb: "md5_rest m @ b = ?blk @ drop (64 - t) b" by simp
    have "md5_rest (md5_rest m @ b) = md5_rest (drop (64 - t) b)"
      "md5_fold (md5_buf ctx) (md5_rest m @ b) = md5_fold (transform_bytes (md5_buf ctx) ?blk) (drop (64 - t) b)"
      "length (md5_rest m @ b) mod 64 = length (drop (64 - t) b) mod 64"
    proof -
      show "md5_rest (md5_rest m @ b) = md5_rest (drop (64 - t) b)"
        unfolding rb by (rule md5_rest_append) (simp only: blk dvd_refl)
      show "md5_fold (md5_buf ctx) (md5_rest m @ b) = md5_fold (transform_bytes (md5_buf ctx) ?blk) (drop (64 - t) b)"
        unfolding rb by (rule md5_fold_block [OF blk])
      have "length (md5_rest m @ b) = 64 + length (drop (64 - t) b)" using fill m1(3) t by simp
      then show "length (md5_rest m @ b) mod 64 = length (drop (64 - t) b) mod 64" by simp
    qed
    with fill split blk show ?thesis
      using md5_blocks_simps(3) [of "counted ctx (length m + length b)\<lparr>md5_in := ?blk,
          md5_buf := transform_bytes (md5_buf ctx) ?blk\<rparr>" "drop (64 - t) b"]
      unfolding upd Let_def w by (simp add: md5_repr_def md5_blocks_simps)
  qed
qed

lemma md5_repr_updates:
  "md5_repr ctx m \<Longrightarrow> \<forall>b\<in>set bs. length b < 2 ^ 32 \<Longrightarrow>
   md5_repr (fold (\<lambda>b ctx. MD5Update ctx b) bs ctx) (m @ concat bs)"
proof (induction bs arbitrary: ctx m)
  case (Cons b bs)
  from Cons.IH [OF md5_repr_update [OF Cons.prems(1), of b]] Cons.prems(2) show ?case by simp
qed simp

lemma length_le_bytes [simp]: "length (le_bytes w) = 4"
  by (simp add: le_bytes_def)

lemma MD5Final_repr:
  assumes r: "md5_repr ctx m"
  shows "MD5Final ctx = md5_ref m"
proof -
  define c where "c = length m mod 64"
  have c: "c < 64" by (simp add: c_def)
  have inp: "length (md5_in ctx) = 64" "take c (md5_in ctx) = md5_rest m"
    and buf: "md5_buf ctx = md5_fold md5_init_state m"
    and bits: "bits0 ctx = word_of_nat (8 * length m)" "bits1 ctx = word_of_nat (8 * length m div 2 ^ 32)"
    using r by (simp_all add: md5_repr_def c_def)
  obtain m1 where m1: "m = m1 @ md5_rest m" "64 dvd length m1" "length (md5_rest m) = c"
    using rest_split [of m] unfolding c_def by blast
  let ?lens = "le_bytes (bits0 ctx) @ le_bytes (bits1 ctx)"
  have fold1: "md5_buf ctx = md5_fold md5_init_state m1"
    using md5_fold_append [OF m1(2), of md5_init_state "md5_rest m"] m1(1,3) c buf
    by (simp add: md5_fold_short)
  have i0: "(md5_in ctx)[c := 0x80] = md5_rest m @ [0x80] @ drop (c + 1) (md5_in ctx)"
    using inp c by (metis append_Cons append_Nil add.commute plus_1_eq_Suc upd_conv_take_nth_drop)
  have z: "(119 - length m mod 64) mod 64 = (if c < 56 then 55 - c else 119 - c)"
    unfolding c_def [symmetric] using c by (auto simp: mod_if)
  have ref: "md5_ref m = state_bytes (md5_fold (md5_buf ctx)
      (md5_rest m @ [0x80] @ replicate (if c < 56 then 55 - c else 119 - c) 0 @ ?lens))"
    unfolding md5_ref_def md5_pad_def z bits fold1
    using md5_fold_append [OF m1(2), of md5_init_state] m1(1) by (metis append.assoc)
  have cnt: "unat (drop_bit 3 (bits0 ctx) AND 0x3F) = c" by (simp only: bits count_mod c_def)
  show ?thesis
  proof (cases "c < 56")
    case True
    have w: "write_at (write_at ((md5_in ctx)[c := 0x80]) (c + 1) (replicate (64 - 1 - c - 8) 0)) 56 ?lens =
        md5_rest m @ [0x80] @ replicate (55 - c) 0 @ ?lens" (is "_ = ?blk")
    proof -
      have "56 - c = Suc (55 - c)" using True by simp
      then show ?thesis using True inp(1) m1(3) unfolding i0 by (simp add: write_at_def)
    qed
    have "length ?blk = 64" using True m1(3) by simp
    then have f: "md5_fold (md5_buf ctx) ?blk = transform_bytes (md5_buf ctx) ?blk"
      using md5_fold_block [of ?blk "md5_buf ctx" "[]"] by (simp add: md5_fold_short)
    have n: "\<not> 64 - 1 - c < 8" using True by simp
    show ?thesis
      unfolding ref MD5Final_def Let_def cnt if_not_P [OF n] if_P [OF True] prod.case w f by (rule refl)
  next
    case False
    let ?b1 = "md5_rest m @ [0x80] @ replicate (63 - c) 0"
    let ?b2 = "replicate 56 0 @ ?lens"
    have w1: "write_at ((md5_in ctx)[c := 0x80]) (c + 1) (replicate (64 - 1 - c) 0) = ?b1"
      using False inp(1) m1(3) c unfolding i0 by (simp add: write_at_def)
    have l1: "length ?b1 = 64" using False m1(3) c by simp
    have w2: "write_at (write_at ?b1 0 (replicate 56 0)) 56 ?lens = ?b2"
      using l1 by (simp add: write_at_def)
    have l2: "length ?b2 = 64" by simp
    have "replicate (119 - c) (0 :: byte) = replicate (63 - c) 0 @ replicate 56 0"
      using False c by (simp add: replicate_add [symmetric])
    then have e: "md5_rest m @ [0x80] @ replicate (119 - c) 0 @ ?lens = ?b1 @ ?b2 @ []" by simp
    have "md5_fold (md5_buf ctx) (?b1 @ ?b2 @ []) = transform_bytes (transform_bytes (md5_buf ctx) ?b1) ?b2"
      by (simp only: md5_fold_block [OF l1] md5_fold_block [OF l2]) (simp add: md5_fold_short)
    note f = this
    have n: "64 - 1 - c < 8" using False c by simp
    show ?thesis
      unfolding ref MD5Final_def Let_def cnt if_P [OF n] if_not_P [OF False] prod.case w1 w2 e f by (rule refl)
  qed
qed

section \<open>Digests of files\<close>

text \<open>
  \<^verbatim>\<open>getmd5\<close>, and \<^verbatim>\<open>getfilemd5\<close>: the file is read in pieces of \<^verbatim>\<open>BUFSIZE\<close>; a short piece ends the
  loop.  \<open>file\<close> is the content, \<open>None\<close> when the file cannot be opened; \<open>rd\<close> tells whether the
  reading at an offset works.  \<open>getfilemd5view\<close> prints the digest in hexadecimal.
\<close>

definition getmd5 :: "byte list \<Rightarrow> byte list \<Rightarrow> byte list" where
  "getmd5 garbage d = MD5Final (MD5Update (MD5Init garbage) d)"

definition BUFSIZE :: nat where "BUFSIZE = 2 ^ 20"

function read_loop :: "(nat \<Rightarrow> bool) \<Rightarrow> nat \<Rightarrow> MD5Context \<Rightarrow> byte list \<Rightarrow> MD5Context option" where
  "read_loop rd off ctx f =
     (if \<not> rd off then None
      else let b = take BUFSIZE f
        in if length b > 0
           then let ctx = MD5Update ctx b
                in if length b < BUFSIZE then Some ctx
                   else read_loop rd (off + length b) ctx (drop BUFSIZE f)
           else Some ctx)"
  by pat_completeness auto
termination by (relation "measure (\<lambda>(rd, off, ctx, f). length f)") (auto simp: BUFSIZE_def)

declare read_loop.simps [simp del]

definition getfilemd5 :: "(nat \<Rightarrow> bool) \<Rightarrow> byte list \<Rightarrow> byte list option \<Rightarrow> byte list option" where
  "getfilemd5 rd garbage file =
     (case file of
        None \<Rightarrow> None
      | Some f \<Rightarrow> map_option MD5Final (read_loop rd 0 (MD5Init garbage) f))"

definition hex_nibble :: "nat \<Rightarrow> char" where
  "hex_nibble n = ''0123456789abcdef'' ! n"

definition hex02 :: "byte \<Rightarrow> string" where
  "hex02 b = [hex_nibble (unat b div 16), hex_nibble (unat b mod 16)]"

definition getfilemd5view :: "(nat \<Rightarrow> bool) \<Rightarrow> byte list \<Rightarrow> byte list option \<Rightarrow> string option" where
  "getfilemd5view rd garbage file = map_option (\<lambda>d. concat (map hex02 (take 16 d))) (getfilemd5 rd garbage file)"

lemma read_loop_repr:
  assumes "md5_repr ctx m" "\<forall>k. rd k"
  shows "\<exists>ctx'. read_loop rd off ctx f = Some ctx' \<and> md5_repr ctx' (m @ f)"
  using assms(1)
proof (induction f arbitrary: off ctx m rule: length_induct)
  case (1 f)
  have "length (take BUFSIZE f) \<le> BUFSIZE" by simp
  moreover have "BUFSIZE < 2 ^ 32" by (simp add: BUFSIZE_def)
  ultimately have "length (take BUFSIZE f) < 2 ^ 32" by linarith
  from md5_repr_update [OF 1(2) this] have u: "md5_repr (MD5Update ctx (take BUFSIZE f)) (m @ take BUFSIZE f)" .
  show ?case
  proof (cases "length f < BUFSIZE")
    case True
    with u 1(2) assms(2) show ?thesis by (subst read_loop.simps) (auto simp: Let_def)
  next
    case False
    then have "length (drop BUFSIZE f) < length f" by (simp add: BUFSIZE_def)
    with 1(1) u obtain ctx' where "read_loop rd (off + length (take BUFSIZE f)) (MD5Update ctx (take BUFSIZE f)) (drop BUFSIZE f) = Some ctx'"
      "md5_repr ctx' ((m @ take BUFSIZE f) @ drop BUFSIZE f)" by blast
    moreover have "0 < BUFSIZE" by (simp add: BUFSIZE_def)
    ultimately show ?thesis
      using False assms(2) by (subst read_loop.simps) (auto simp: Let_def min_def)
  qed
qed

section \<open>Properties\<close>

text \<open>C21: However a message is cut into the pieces given to \<^verbatim>\<open>MD5Update\<close>, \<^verbatim>\<open>MD5Final\<close> returns the digest of
  the whole message: its compression after padding to whole blocks, with its length in bits.\<close>

theorem md5_chunks:
  assumes "length garbage = 64" "\<forall>b\<in>set bs. length b < 2 ^ 32"
  shows "MD5Final (fold (\<lambda>b ctx. MD5Update ctx b) bs (MD5Init garbage)) = md5_ref (concat bs)"
  using MD5Final_repr [OF md5_repr_updates [OF md5_repr_init [OF assms(1)] assms(2)]] by simp

theorem md5_chunks_witness:
  "MD5Final (fold (\<lambda>b ctx. MD5Update ctx b) [[1, 2], replicate 100 7] (MD5Init (replicate 64 0))) =
     md5_ref ([1, 2] @ replicate 100 7)"
  using md5_chunks [of "replicate 64 0" "[[1, 2], replicate 100 7]"] by simp

text \<open>\<^verbatim>\<open>getfilemd5\<close> on a readable file returns the digest of its whole content, the same that
  \<^verbatim>\<open>getmd5\<close> returns for the content in memory.\<close>

theorem getfilemd5_content:
  assumes "length garbage = 64" "\<forall>k. rd k" "length f < 2 ^ 32"
  shows "getfilemd5 rd garbage (Some f) = Some (md5_ref f) \<and> getmd5 garbage f = md5_ref f"
proof -
  obtain ctx' where "read_loop rd 0 (MD5Init garbage) f = Some ctx'" "md5_repr ctx' ([] @ f)"
    using read_loop_repr [OF md5_repr_init [OF assms(1)] assms(2)] by blast
  then have "getfilemd5 rd garbage (Some f) = Some (md5_ref f)"
    using MD5Final_repr [of ctx' f] by (simp add: getfilemd5_def)
  moreover have "getmd5 garbage f = md5_ref f"
    using MD5Final_repr [OF md5_repr_update [OF md5_repr_init [OF assms(1)] assms(3)]]
    by (simp add: getmd5_def)
  ultimately show ?thesis by simp
qed

theorem getfilemd5_content_witness:
  "getfilemd5 (\<lambda>_. True) (replicate 64 0) (Some (replicate 3000 1)) = Some (md5_ref (replicate 3000 1))"
  using getfilemd5_content [of "replicate 64 0" "\<lambda>_. True" "replicate 3000 1"] by simp

end
