(* ===== verification/Md5Vectors.thy ===== *)
theory Md5Vectors
  imports Md5
begin

text \<open>The digests of two messages of the RFC 1321 test suite, evaluated by the simplifier from the
  definitions of \<open>Md5\<close>.\<close>

text \<open>The code computes the digests of the test suite of RFC 1321 (the empty message and \<^verbatim>\<open>abc\<close>).\<close>

theorem md5_test_vectors:
  "MD5Digest (replicate 64 0) [] =
     [0xd4, 0x1d, 0x8c, 0xd9, 0x8f, 0x00, 0xb2, 0x04, 0xe9, 0x80, 0x09, 0x98, 0xec, 0xf8, 0x42, 0x7e] \<and>
   MD5Digest (replicate 64 0) [97, 98, 99] =
     [0x90, 0x01, 0x50, 0x98, 0x3c, 0xd2, 0x4f, 0xb0, 0xd6, 0x96, 0x3f, 0x7d, 0x28, 0xe1, 0x7f, 0x72]"
  by code_simp

end
