(* ===== verification/LocalFile.thy ===== *)
theory LocalFile
  imports TaskTypes Md5
begin

text \<open>
  The storage of a node, \<^verbatim>\<open>src/network/vfs_localfile.c\<close>.  The file system is a map from paths to
  contents with a set of directories; which system calls succeed is given by the record \<open>io\<close>.
  \<open>write_res\<close> is the result of \<^verbatim>\<open>write\<close> for an offset and a length, negative for an error.
  \<open>datadir\<close> is the configured \<^verbatim>\<open>vfs_dst_datadir\<close>.  The ownership calls (\<^verbatim>\<open>chown\<close>), whose
  result is only logged, are left out.
\<close>

section \<open>The file system\<close>

record fsys =
  files :: "string \<rightharpoonup> string"
  dirs :: "string set"

record io =
  can_open :: "string \<Rightarrow> bool"
  can_mkdir :: "string \<Rightarrow> bool"
  can_unlink :: "string \<Rightarrow> bool"
  can_read :: "nat \<Rightarrow> bool"
  write_res :: "nat \<Rightarrow> nat \<Rightarrow> int"

definition bytes_of :: "string \<Rightarrow> byte list" where
  "bytes_of s = map of_char s"

text \<open>\<^verbatim>\<open>stat\<close> succeeds.\<close>

definition is_there :: "fsys \<Rightarrow> string \<Rightarrow> bool" where
  "is_there fs p \<longleftrightarrow> files fs p \<noteq> None \<or> p \<in> dirs fs"

text \<open>\<^verbatim>\<open>unlink\<close> and \<^verbatim>\<open>open\<close> with \<^verbatim>\<open>O_CREAT|O_TRUNC\<close>.\<close>

definition unlink :: "io \<Rightarrow> string \<Rightarrow> fsys \<Rightarrow> bool \<times> fsys" where
  "unlink io p fs =
     (if files fs p \<noteq> None \<and> can_unlink io p then (True, fs\<lparr>files := (files fs)(p := None)\<rparr>) else (False, fs))"

definition creat :: "io \<Rightarrow> string \<Rightarrow> fsys \<Rightarrow> bool \<times> fsys" where
  "creat io p fs =
     (if can_open io p then (True, fs\<lparr>files := (files fs)(p \<mapsto> [])\<rparr>) else (False, fs))"

text \<open>The text that \<^verbatim>\<open>getfilemd5view\<close> leaves in a cleared buffer: empty when it fails.\<close>

definition md5_text :: "io \<Rightarrow> string option \<Rightarrow> string" where
  "md5_text io f =
     (case getfilemd5view (can_read io) (replicate 64 0) (map_option bytes_of f) of Some v \<Rightarrow> v | None \<Rightarrow> [])"

section \<open>Paths\<close>

text \<open>\<^verbatim>\<open>basename\<close> of \<^verbatim>\<open>libgen.h\<close>.\<close>

definition after_last :: "char \<Rightarrow> string \<Rightarrow> string" where
  "after_last c s = rev (takeWhile (\<lambda>d. d \<noteq> c) (rev s))"

definition basename :: "string \<Rightarrow> string" where
  "basename s =
     (if s = [] then ''.''
      else let t = rev (dropWhile (\<lambda>c. c = CHR ''/'') (rev s))
           in if t = [] then ''/'' else after_last (CHR ''/'') t)"

definition get_localdir :: "string \<Rightarrow> string \<Rightarrow> string \<Rightarrow> string" where
  "get_localdir datadir host srcfile = datadir @ ''/'' @ host @ ''/'' @ basename (snprint 256 srcfile)"

definition part_path :: "string \<Rightarrow> int \<Rightarrow> int \<Rightarrow> string" where
  "part_path outfile idx count = snprint 256 (outfile @ ''_'' @ dec_int idx @ ''_'' @ dec_int count)"

section \<open>Operations\<close>

text \<open>\<^verbatim>\<open>createdir\<close>: the loop over the slashes behind the first character.\<close>

fun createdir_loop :: "io \<Rightarrow> string \<Rightarrow> string \<Rightarrow> fsys \<Rightarrow> int \<times> fsys" where
  "createdir_loop io pre [] fs = (0, fs)"
| "createdir_loop io pre (c # rest) fs =
     (if c = CHR ''/'' \<and> pre \<noteq> []
      then if pre \<in> dirs fs \<or> files fs pre \<noteq> None then createdir_loop io (pre @ [c]) rest fs
           else if can_mkdir io pre then createdir_loop io (pre @ [c]) rest (fs\<lparr>dirs := insert pre (dirs fs)\<rparr>)
           else (-1, fs)
      else createdir_loop io (pre @ [c]) rest fs)"

definition createdir :: "io \<Rightarrow> string \<Rightarrow> fsys \<Rightarrow> int \<times> fsys" where
  "createdir io file fs = createdir_loop io [] file fs"

definition delete_localfile :: "io \<Rightarrow> string \<Rightarrow> string \<Rightarrow> string \<Rightarrow> fsys \<Rightarrow> fsys" where
  "delete_localfile io datadir host srcfile fs = snd (unlink io (get_localdir datadir host srcfile) fs)"

definition real_rm_file :: "io \<Rightarrow> string \<Rightarrow> fsys \<Rightarrow> fsys" where
  "real_rm_file io f fs = snd (unlink io f fs)"

text \<open>\<^verbatim>\<open>check_localfile_md5\<close>: true when \<^verbatim>\<open>strncmp(md5sum, filemd5, 32)\<close> is zero.\<close>

definition check_localfile_md5 :: "io \<Rightarrow> string \<Rightarrow> string \<Rightarrow> string \<Rightarrow> string \<Rightarrow> fsys \<Rightarrow> bool" where
  "check_localfile_md5 io datadir host srcfile md5sum fs \<longleftrightarrow>
     take 32 md5sum = take 32 (md5_text io (files fs (get_localdir datadir host srcfile)))"

abbreviation LOCALFILE_OK :: int where "LOCALFILE_OK \<equiv> 0"
abbreviation LOCALFILE_DIR_E :: int where "LOCALFILE_DIR_E \<equiv> 4"
abbreviation LOCALFILE_OPEN_E :: int where "LOCALFILE_OPEN_E \<equiv> 6"

definition check_last_file ::
  "io \<Rightarrow> string \<Rightarrow> t_task_base \<Rightarrow> t_task_sub \<Rightarrow> fsys \<Rightarrow> int \<times> t_task_base \<times> fsys" where
  "check_last_file io datadir b s fs =
     (let outfile = get_localdir datadir (hostname b) (filename b);
          b = b\<lparr>tmpfile := snprint 256 (outfile @ ''_'' @ dec_int (sub_start s) @ ''_'' @ dec_int (sub_end s))\<rparr>;
          (r, fs) = createdir io (tmpfile b) fs
      in if r \<noteq> 0 then (LOCALFILE_DIR_E, b, fs)
         else case files fs (tmpfile b) of
                None \<Rightarrow> (LOCALFILE_OK, b, fs)
              | Some c \<Rightarrow>
                  let reqlen = sub_end s - sub_start s + 1
                  in if reqlen \<le> int (length c)
                     then let b = b\<lparr>getlen := 0\<rparr>; (ok, fs) = unlink io (tmpfile b) fs
                          in if ok then (LOCALFILE_OK, b, fs) else (LOCALFILE_DIR_E, b, fs)
                     else (LOCALFILE_OK, b\<lparr>getlen := int (length c)\<rparr>, fs))"

text \<open>
  \<^verbatim>\<open>open_tmp_localfile_4_write\<close>.  The descriptor it stores is \<open>Some\<close> path, \<open>None\<close> for a failed
  \<^verbatim>\<open>open\<close>; when the directory fails the descriptor is not stored at all, hence the old one is an argument.
\<close>

definition open_tmp_localfile_4_write ::
  "io \<Rightarrow> string \<Rightarrow> t_task_base \<Rightarrow> t_task_sub \<Rightarrow> string option \<Rightarrow> fsys \<Rightarrow>
   int \<times> t_task_base \<times> string option \<times> fsys" where
  "open_tmp_localfile_4_write io datadir b s fd fs =
     (let b = b\<lparr>tmpfile := part_path (get_localdir datadir (hostname b) (filename b)) (sub_idx s) (sub_count s)\<rparr>;
          (r, fs) = createdir io (tmpfile b) fs
      in if r \<noteq> 0 then (LOCALFILE_DIR_E, b, fd, fs)
         else let (ok, fs) = creat io (tmpfile b) fs
              in if ok then (LOCALFILE_OK, b, Some (tmpfile b), fs) else (LOCALFILE_OPEN_E, b, None, fs))"

definition close_tmp_check_mv :: "string option \<Rightarrow> int" where
  "close_tmp_check_mv fd = (if fd = None then LOCALFILE_OPEN_E else LOCALFILE_OK)"

text \<open>\<^verbatim>\<open>get_localfile_stat\<close>; \<open>ctime\<close> is \<^verbatim>\<open>st_ctime\<close> of a path.  The digest goes into a buffer of the
  caller that was cleared, or stays as it was when the file cannot be read.\<close>

definition get_localfile_stat :: "io \<Rightarrow> (string \<Rightarrow> int) \<Rightarrow> t_task_base \<Rightarrow> fsys \<Rightarrow> int \<times> t_task_base" where
  "get_localfile_stat io ctime b fs =
     (case files fs (filename b) of
        None \<Rightarrow> (LOCALFILE_DIR_E, b)
      | Some c \<Rightarrow>
          (LOCALFILE_OK,
           b\<lparr>fsize := int (length c), file_ctime := ctime (filename b),
             filemd5 := (case getfilemd5view (can_read io) (replicate 64 0) (Some (bytes_of c)) of
                           Some v \<Rightarrow> v | None \<Rightarrow> filemd5 b)\<rparr>))"

section \<open>Facts\<close>

lemma createdir_files: "files (snd (createdir io f fs)) = files fs"
proof -
  have "files (snd (createdir_loop io pre rest fs)) = files fs" for pre rest
    by (induction io pre rest fs rule: createdir_loop.induct) auto
  then show ?thesis by (simp add: createdir_def)
qed

lemma createdir_ok:
  assumes "\<forall>p. can_mkdir io p"
  shows "fst (createdir io f fs) = 0"
proof -
  have "fst (createdir_loop io pre rest fs) = 0" for pre rest
    using assms by (induction io pre rest fs rule: createdir_loop.induct) auto
  then show ?thesis by (simp add: createdir_def)
qed

text \<open>Every parent directory exists afterwards.\<close>

lemma createdir_loop_parents:
  "createdir_loop io pre rest fs = (0, fs') \<Longrightarrow> rest = a @ CHR ''/'' # b \<Longrightarrow> pre @ a \<noteq> [] \<Longrightarrow>
   pre @ a \<in> dirs fs' \<or> files fs' (pre @ a) \<noteq> None"
proof (induction io pre rest fs arbitrary: a rule: createdir_loop.induct)
  case (2 io pre c rest fs)
  have mono: "dirs fs1 \<subseteq> dirs (snd (createdir_loop io pre1 rest1 fs1)) \<and>
      files (snd (createdir_loop io pre1 rest1 fs1)) = files fs1" for pre1 rest1 fs1
    by (induction io pre1 rest1 fs1 rule: createdir_loop.induct) auto
  show ?case
  proof (cases a)
    case Nil
    with 2(4-6) mono [of fs "pre @ [c]" rest] mono [of "fs\<lparr>dirs := insert pre (dirs fs)\<rparr>" "pre @ [c]" rest]
    show ?thesis by (auto split: if_splits)
  next
    case (Cons d a')
    with 2 show ?thesis by (auto split: if_splits)
  qed
qed simp

end
