(* ===== verification/Split.thy ===== *)
theory Split
  imports TaskQueueInv LocalFile
begin

text \<open>
  Cutting a file into parts.  \<open>put_new\<close> is the shape that every \<^verbatim>\<open>insert_sub_task\<close> of the program has:
  take a task from \<open>TASK_HOME\<close>, fill it in, put it on a queue.  \<open>split_task\<close> of
  \<^verbatim>\<open>uc_client/vfs_data_sub.c\<close> makes one task per part; \<open>part_ranges\<close> is the partition it is to produce.

  The record \<open>env\<close> holds what the handlers get from their environment: the outcomes of the locks of the
  queues and of the hash table, of \<^verbatim>\<open>malloc\<close>, and the clock.  They stay the same during
  one call of a handler.
\<close>

record env =
  q_lock :: "int \<Rightarrow> int"
  a_lock :: int
  malloc_ok :: bool
  clock :: int

definition env_good :: "'z env_scheme \<Rightarrow> bool" where
  "env_good e \<longleftrightarrow> (\<forall>i. \<not> lock_failed (q_lock e i)) \<and> \<not> lock_failed (a_lock e) \<and> malloc_ok e"

definition good_env :: env where
  "good_env = \<lparr>q_lock = (\<lambda>_. 0), a_lock = 0, malloc_ok = True, clock = 1000\<rparr>"

lemma env_good_good_env [simp]: "env_good good_env"
  by (simp add: env_good_def good_env_def lock_failed_def)

section \<open>A new task on a queue\<close>

definition put_new :: "'z env_scheme \<Rightarrow> int \<Rightarrow> t_vfs_taskinfo \<Rightarrow> task_state \<Rightarrow> int \<times> task_state" where
  "put_new e st t s =
     (case vfs_get_task (q_lock e TASK_HOME) (malloc_ok e) TASK_HOME s of
        (r, Some x, s) \<Rightarrow>
          (0, snd (vfs_set_task (q_lock e st) x st (set_node x (\<lambda>n. n\<lparr>task := t\<rparr>) s)))
      | (r, None, s) \<Rightarrow> (-1, s))"

text \<open>
  What a run of \<open>put_new\<close> does to the queues, when nothing fails: \<open>ts\<close> are the new tasks at the end of
  queue \<open>st\<close>; the other queues but the pool, the hash table, and the tasks outside the pool are as before.
\<close>

definition queued :: "int \<Rightarrow> t_vfs_taskinfo list \<Rightarrow> task_state \<Rightarrow> task_state \<Rightarrow> bool" where
  "queued st ts s s' \<longleftrightarrow>
     (\<exists>xs. vfstask s' st = vfstask s st @ xs \<and> map (\<lambda>x. task (node s' x)) xs = ts \<and> distinct xs) \<and>
     (\<forall>j. j \<noteq> st \<longrightarrow> j \<noteq> TASK_HOME \<longrightarrow> vfstask s' j = vfstask s j) \<and>
     (\<forall>x. x < top s \<longrightarrow> x \<notin> set (vfstask s TASK_HOME) \<longrightarrow> node s' x = node s x \<and> x \<notin> set (vfstask s' TASK_HOME)) \<and>
     set (vfstask s' TASK_HOME) \<subseteq> set (vfstask s TASK_HOME) \<and> top s \<le> top s' \<and>
     alltask s' = alltask s \<and> tq_inv s'"

text \<open>\<open>alltask_ok\<close> speaks of the key of hashed tasks: the pool must hold none of them.\<close>

definition pool_clean :: "task_state \<Rightarrow> bool" where
  "pool_clean s \<longleftrightarrow> (\<forall>x i. x \<in> set (vfstask s TASK_HOME) \<longrightarrow> x \<notin> set (alltask s i))"

lemma get_home_some:
  assumes "\<not> lock_failed lk" and that: "tq_inv s"
  shows "\<exists>x s'. vfs_get_task lk True TASK_HOME s = (GET_TASK_OK, Some x, s') \<and>
    (x \<in> set (vfstask s TASK_HOME) \<or> x = top s) \<and> (\<forall>j. vfstask s' j = removeAll x (vfstask s j)) \<and>
    (\<forall>y. y \<noteq> x \<longrightarrow> node s' y = node s y) \<and> alltask s' = alltask s \<and> top s \<le> top s'"
proof (cases "vfstask s TASK_HOME")
  case Nil
  have "top s \<notin> set (vfstask s j)" for j using queues_okD(3) [OF tq_invD(1) [OF that]] by blast
  with Nil assms show ?thesis by (simp add: vfs_get_task_def tq_ops)
next
  case (Cons x xs)
  with assms show ?thesis by (simp add: vfs_get_task_def tq_ops)
qed

lemma put_new_queued:
  assumes inv: "tq_inv s" and clean: "pool_clean s" and e: "env_good e" and st: "\<not> bad_status st" "st \<noteq> TASK_HOME"
  shows "fst (put_new e st t s) = 0 \<and> queued st [t] s (snd (put_new e st t s)) \<and> pool_clean (snd (put_new e st t s))"
proof -
  have lk: "\<not> lock_failed (q_lock e TASK_HOME)" "\<not> lock_failed (q_lock e st)" "malloc_ok e"
    using e by (auto simp: env_good_def)
  obtain x s1 where get: "vfs_get_task (q_lock e TASK_HOME) True TASK_HOME s = (GET_TASK_OK, Some x, s1)"
    and x: "x \<in> set (vfstask s TASK_HOME) \<or> x = top s"
    and q1: "\<forall>j. vfstask s1 j = removeAll x (vfstask s j)" and n1: "\<forall>y. y \<noteq> x \<longrightarrow> node s1 y = node s y"
    and a1: "alltask s1 = alltask s" and t1: "top s \<le> top s1"
    using get_home_some [OF lk(1) inv] by blast
  have inv1: "tq_inv s1" using tq_inv_get [OF inv] get by (metis snd_conv)
  have d1: "detached s1 x" using get_detached [OF inv get] by simp
  have xa: "x \<notin> set (alltask s i)" for i
    using x clean inv by (auto simp: pool_clean_def tq_inv_def alltask_ok_def)
  let ?s2 = "set_node x (\<lambda>n. n\<lparr>task := t\<rparr>) s1"
  have inv2: "tq_inv ?s2"
    using d1 xa a1 by (intro tq_inv_write [OF inv1]) (auto simp: detached_def)
  let ?s3 = "snd (vfs_set_task (q_lock e st) x st ?s2)"
  have d2: "detached ?s2 x" using d1 by simp
  have eq: "put_new e st t s = (0, ?s3)" using get lk(3) by (simp add: put_new_def)
  have s3: "?s3 = atomic_add 1 st (set_node x (\<lambda>n. n\<lparr>status := st\<rparr>) (llist_add_tail x st ?s2))"
    using set_vfs_set_task [OF st(1) lk(2) d2] by simp
  have out: "x \<notin> set (vfstask s j)" if "j \<noteq> TASK_HOME" for j
    using x queues_okD(2,3) [OF tq_invD(1) [OF inv], of x] that by blast
  have q3: "vfstask ?s3 j = (if j = st then vfstask s st @ [x] else if j = TASK_HOME then removeAll x (vfstask s j)
      else vfstask s j)" for j
    using q1 out st(2) unfolding s3 by (simp add: tq_ops)
  have n3: "node ?s3 y = (if y = x then (node s1 x)\<lparr>task := t, status := st\<rparr> else node s y)" for y
    using n1 unfolding s3 by (simp add: tq_ops)
  have "tq_inv ?s3" by (rule tq_inv_set [OF inv2 d2])
  moreover have "alltask ?s3 = alltask s" "top ?s3 = top s1" using a1 unfolding s3 by (simp_all add: tq_ops)
  ultimately have "queued st [t] s ?s3"
    using q3 n3 t1 x st(2) unfolding queued_def by auto
  moreover have "pool_clean ?s3"
    using clean q3 st(2) \<open>alltask ?s3 = alltask s\<close> by (auto simp: pool_clean_def)
  ultimately show ?thesis by (simp add: eq)
qed

lemma queued_refl: "tq_inv s \<Longrightarrow> queued st [] s s"
  by (simp add: queued_def)

lemma queued_trans:
  assumes "queued st ts s s'" "queued st us s' s''" "tq_inv s" "st \<noteq> TASK_HOME"
  shows "queued st (ts @ us) s s''"
proof -
  obtain xs where xs: "vfstask s' st = vfstask s st @ xs" "map (\<lambda>x. task (node s' x)) xs = ts" "distinct xs"
    using assms(1) unfolding queued_def by blast
  obtain ys where ys: "vfstask s'' st = vfstask s' st @ ys" "map (\<lambda>x. task (node s'' x)) ys = us" "distinct ys"
    using assms(2) unfolding queued_def by blast
  have inv: "tq_inv s'" "tq_inv s''" using assms(1,2) by (auto simp: queued_def)
  have keep: "node s'' x = node s' x" if "x \<in> set (vfstask s' st)" for x
  proof -
    have "x < top s'" "x \<notin> set (vfstask s' TASK_HOME)"
      using that queues_okD(2,3) [OF tq_invD(1) [OF inv(1)], of x] assms(4) by blast+
    with assms(2) show ?thesis unfolding queued_def by blast
  qed
  have "distinct (vfstask s'' st)" using queues_okD(1) [OF tq_invD(1) [OF inv(2)]] .
  then have "distinct (xs @ ys)" using xs ys by auto
  moreover have "map (\<lambda>x. task (node s'' x)) (xs @ ys) = ts @ us"
    using keep xs ys by (simp flip: xs(2))
  moreover have "vfstask s'' st = vfstask s st @ xs @ ys" using xs ys by simp
  moreover have "node s'' x = node s x \<and> x \<notin> set (vfstask s'' TASK_HOME)"
    if "x < top s" "x \<notin> set (vfstask s TASK_HOME)" for x
    using that assms(1,2) unfolding queued_def by (metis order_less_le_trans)
  moreover have "vfstask s'' j = vfstask s j" if "j \<noteq> st" "j \<noteq> TASK_HOME" for j
    using that assms(1,2) unfolding queued_def by simp
  ultimately show ?thesis
    using assms(1,2) unfolding queued_def by (auto intro: order_trans)
qed

section \<open>The parts of a file\<close>

definition splic_count :: "int \<Rightarrow> int \<Rightarrow> int" where
  "splic_count min_size fsz =
     to_int32 (fsz div min_size) + (if fsz mod min_size \<noteq> 0 then 1 else 0)"

definition part_range :: "int \<Rightarrow> int \<Rightarrow> int \<Rightarrow> int \<Rightarrow> int \<times> int" where
  "part_range min_size fsz n i = (min_size * (i - 1), if i = n then fsz - 1 else min_size * i - 1)"

text \<open>The bytes \<open>a\<close> to \<open>b\<close> of a file.\<close>

definition slice :: "int \<Rightarrow> int \<Rightarrow> 'a list \<Rightarrow> 'a list" where
  "slice a b f = take (nat (b - a + 1)) (drop (nat a) f)"

lemma splic_count_bounds:
  assumes "0 < m" "0 \<le> fsz" "fsz div m < 2 ^ 31"
  defines "n \<equiv> splic_count m fsz"
  shows "fsz \<le> m * n" and "m * (n - 1) < fsz \<or> fsz = 0" and "0 \<le> n" and "n = 0 \<longleftrightarrow> fsz = 0"
proof -
  have "0 \<le> fsz div m" using assms by (simp add: pos_imp_zdiv_nonneg_iff)
  then have n: "n = fsz div m + (if fsz mod m \<noteq> 0 then 1 else 0)"
    using assms(3) by (simp add: n_def splic_count_def to_int32_id)
  have s: "fsz = m * (fsz div m) + fsz mod m" by simp
  have r: "0 \<le> fsz mod m" "fsz mod m < m" using assms(1) by simp_all
  show "fsz \<le> m * n"
  proof (cases "fsz mod m = 0")
    case True
    with s have "fsz = m * (fsz div m)" by linarith
    with True show ?thesis by (simp add: n)
  next
    case False
    then have "m * n = m * (fsz div m) + m" by (simp add: n distrib_left)
    with s r show ?thesis by linarith
  qed
  show "m * (n - 1) < fsz \<or> fsz = 0"
  proof (cases "fsz mod m = 0")
    case True
    with s have "m * (n - 1) = fsz - m" by (simp add: n right_diff_distrib)
    then show ?thesis using assms(1) by simp
  next
    case False
    then have "m * (n - 1) = m * (fsz div m)" "0 < fsz mod m" using r by (simp_all add: n)
    with s show ?thesis by linarith
  qed
  show "0 \<le> n" using \<open>0 \<le> fsz div m\<close> by (simp add: n)
  show "n = 0 \<longleftrightarrow> fsz = 0"
    using \<open>0 \<le> fsz div m\<close> r s assms(1) by (auto simp: n split: if_splits)
qed

text \<open>The first \<open>k\<close> parts are the first \<open>k * m\<close> bytes, and all of them are the file.\<close>

lemma slices_prefix:
  assumes "0 < m" "0 \<le> k" "k < n" "m * k \<le> int (length f)"
  shows "concat (map (\<lambda>i. case part_range m (int (length f)) n i of (a, b) \<Rightarrow> slice a b f) [1..k]) =
    take (nat (m * k)) f"
  using assms(2-4)
proof (induction "nat k" arbitrary: k)
  case 0
  then show ?case by simp
next
  case (Suc j)
  then have k: "k = (k - 1) + 1" "j = nat (k - 1)" "0 \<le> k - 1" by simp_all
  have le: "m * (k - 1) \<le> int (length f)" using Suc.prems(3) assms(1) by (simp add: right_diff_distrib)
  have "[1..k] = [1..k - 1] @ [k]" using upto_rec2 [of 1 k] Suc.prems k(3) by simp
  moreover have "take (nat (m * (k - 1))) f @ slice (m * (k - 1)) (m * k - 1) f = take (nat (m * k)) f"
  proof -
    have "m * k - 1 - m * (k - 1) + 1 = m" by (simp add: right_diff_distrib)
    moreover have "nat (m * k) = nat (m * (k - 1)) + nat m"
    proof -
      have "0 \<le> m * (k - 1)" using assms(1) k(3) by simp
      then show ?thesis using assms(1) by (simp add: nat_add_distrib [symmetric] right_diff_distrib)
    qed
    ultimately show ?thesis by (simp only: slice_def) (simp add: take_add)
  qed
  ultimately show ?case
    using Suc.hyps(1) [OF k(2,3)] Suc.prems(2) le by (simp add: part_range_def)
qed

lemma slices_all:
  assumes "0 < m" "int (length f) div m < 2 ^ 31"
  defines "n \<equiv> splic_count m (int (length f))"
  shows "concat (map (\<lambda>i. case part_range m (int (length f)) n i of (a, b) \<Rightarrow> slice a b f) [1..n]) = f"
proof (cases "f = []")
  case True
  then have "n = 0" using splic_count_bounds(4) [OF assms(1) _ assms(2)] by (simp add: n_def)
  with True show ?thesis by simp
next
  case False
  note b = splic_count_bounds [OF assms(1) _ assms(2), folded n_def, simplified]
  have n: "0 < n" using b(3,4) False by (simp add: order_less_le)
  have lt: "m * (n - 1) < int (length f)" using b(2) False by simp
  have "[1..n] = [1..n - 1] @ [n]" using upto_rec2 [of 1 n] n by simp
  moreover have "slice (m * (n - 1)) (int (length f) - 1) f = drop (nat (m * (n - 1))) f"
  proof -
    have "0 \<le> m * (n - 1)" using assms(1) n by simp
    then have "nat (int (length f) - 1 - m * (n - 1) + 1) = length f - nat (m * (n - 1))"
      using lt by simp
    then show ?thesis by (simp add: slice_def)
  qed
  ultimately show ?thesis
    using slices_prefix [of m "n - 1" n f] assms(1) n lt by (simp add: part_range_def)
qed

end
