(* ===== verification/MyBuff.thy ===== *)
theory MyBuff
  imports Framing
begin

text \<open>
  The send and receive buffers of a connection, \<^verbatim>\<open>src/network/mybuff.c\<close>: bytes waiting in memory, and
  a range of a file waiting to be sent.  \<open>buf_data\<close> is the allocated block, of \<open>buf_size\<close> bytes, of which the
  first \<open>buf_len\<close> are in use; the bytes behind them, which the code never reads, are NUL here.
  \<^verbatim>\<open>malloc\<close> and \<^verbatim>\<open>realloc\<close> succeed (the code has no path for the other case), and sizes
  stay below the range of \<^verbatim>\<open>size_t\<close>.  The functions that close a descriptor return the list of those
  they closed.
\<close>

record mybuff =
  buf_data :: "string option"
  buf_size :: nat
  buf_len :: nat
  buf_fd :: int
  foffset :: int
  flen :: nat

definition mybuff_init :: mybuff where
  "mybuff_init = \<lparr>buf_data = None, buf_size = 0, buf_len = 0, buf_fd = -1, foffset = 0, flen = 0\<rparr>"

text \<open>\<^verbatim>\<open>realloc\<close> keeps the bytes that fit.\<close>

definition realloc :: "string option \<Rightarrow> nat \<Rightarrow> string" where
  "realloc b n = (case b of None \<Rightarrow> replicate n NUL
     | Some s \<Rightarrow> take n s @ replicate (n - length s) NUL)"

definition mybuff_setdata :: "nat \<Rightarrow> mybuff \<Rightarrow> string \<Rightarrow> mybuff" where
  "mybuff_setdata init_buff_size b src =
     (let b = (if buf_data b = None
               then b\<lparr>buf_data := Some (replicate init_buff_size NUL), buf_size := init_buff_size\<rparr> else b)
      in if buf_size b - buf_len b > length src
         then b\<lparr>buf_data := map_option (\<lambda>d. write_at d (buf_len b) src) (buf_data b), buf_len := buf_len b + length src\<rparr>
         else let n = buf_len b + length src + 1
              in b\<lparr>buf_data := Some (write_at (realloc (buf_data b) n) (buf_len b) src), buf_size := n,
                   buf_len := buf_len b + length src\<rparr>)"

definition mybuff_getdata :: "mybuff \<Rightarrow> int \<times> string" where
  "mybuff_getdata b =
     (case buf_data b of
        Some d \<Rightarrow> if buf_len b > 0 then (0, take (buf_len b) d) else (-1, [])
      | None \<Rightarrow> (-1, []))"

definition mybuff_skipdata :: "mybuff \<Rightarrow> nat \<Rightarrow> mybuff" where
  "mybuff_skipdata b n =
     (case buf_data b of
        None \<Rightarrow> b
      | Some d \<Rightarrow>
          if n \<ge> buf_len b then b\<lparr>buf_len := 0\<rparr>
          else b\<lparr>buf_data := Some (write_at d 0 (take (buf_len b - n) (drop n d))), buf_len := buf_len b - n\<rparr>)"

definition mybuff_setfile :: "mybuff \<Rightarrow> int \<Rightarrow> int \<Rightarrow> nat \<Rightarrow> mybuff \<times> int list" where
  "mybuff_setfile b f off n =
     (b\<lparr>buf_fd := f, foffset := off, flen := n\<rparr>, if buf_fd b \<ge> 0 then [buf_fd b] else [])"

definition mybuff_getfile :: "mybuff \<Rightarrow> (int \<times> int \<times> nat) option" where
  "mybuff_getfile b = (if buf_fd b \<ge> 0 \<and> flen b > 0 then Some (buf_fd b, foffset b, flen b) else None)"

definition mybuff_skipfile :: "mybuff \<Rightarrow> nat \<Rightarrow> mybuff \<times> int list" where
  "mybuff_skipfile b n =
     (if buf_fd b \<ge> 0
      then if flen b \<le> n then (b\<lparr>buf_fd := -1, foffset := 0, flen := 0\<rparr>, [buf_fd b])
           else (b\<lparr>foffset := foffset b + int n, flen := flen b - n\<rparr>, [])
      else (b, []))"

definition mybuff_reinit :: "nat \<Rightarrow> mybuff \<Rightarrow> mybuff \<times> int list" where
  "mybuff_reinit init_buff_size b =
     (let (b, cl) = (if buf_fd b \<ge> 0 then (b\<lparr>buf_fd := -1, foffset := 0, flen := 0\<rparr>, [buf_fd b]) else (b, []));
          b = (if buf_size b > 2 * init_buff_size
               then b\<lparr>buf_data := Some (replicate init_buff_size NUL), buf_size := init_buff_size\<rparr> else b)
      in (b\<lparr>buf_len := 0\<rparr>, cl))"

text \<open>\<^verbatim>\<open>mybuff_fini\<close> also frees the block: \<open>None\<close>.  (The C code leaves the dangling pointer.)\<close>

definition mybuff_fini :: "nat \<Rightarrow> mybuff \<Rightarrow> mybuff \<times> int list" where
  "mybuff_fini init_buff_size b = (let (b, cl) = mybuff_reinit init_buff_size b in (b\<lparr>buf_data := None\<rparr>, cl))"

section \<open>Invariant and abstraction\<close>

text \<open>The block has \<open>buf_size\<close> bytes, and is never full: one byte behind the data is always there.\<close>

definition buff_ok :: "mybuff \<Rightarrow> bool" where
  "buff_ok b \<longleftrightarrow>
     (case buf_data b of None \<Rightarrow> buf_len b = 0 | Some d \<Rightarrow> length d = buf_size b \<and> buf_len b < buf_size b)"

definition pending :: "mybuff \<Rightarrow> string" where
  "pending b = (case buf_data b of None \<Rightarrow> [] | Some d \<Rightarrow> take (buf_len b) d)"

lemma buff_ok_init: "buff_ok mybuff_init" "pending mybuff_init = []"
  by (simp_all add: buff_ok_def mybuff_init_def pending_def)

lemma length_realloc [simp]: "length (realloc b n) = n"
  by (auto simp: realloc_def split: option.split)

lemma take_realloc: "k \<le> n \<Longrightarrow> k \<le> length d \<Longrightarrow> take k (realloc (Some d) n) = take k d"
  by (simp add: realloc_def min_def)

lemma setdata_spec:
  assumes "buff_ok b" "0 < init_buff_size"
  shows "buff_ok (mybuff_setdata init_buff_size b src)
    \<and> pending (mybuff_setdata init_buff_size b src) = pending b @ src"
proof (cases "buf_data b")
  case None
  with assms show ?thesis
    by (auto simp: buff_ok_def pending_def mybuff_setdata_def Let_def length_write_at
        take_write_at [of 0, simplified])
next
  case (Some d)
  with assms(1) have d: "length d = buf_size b" "buf_len b < buf_size b" by (auto simp: buff_ok_def)
  have "take (buf_len b) (realloc (Some d) (Suc (buf_len b + length src))) = take (buf_len b) d"
    using d by (intro take_realloc) auto
  with Some d show ?thesis
    by (auto simp: buff_ok_def pending_def mybuff_setdata_def Let_def length_write_at take_write_at)
qed

lemma skipdata_spec:
  assumes "buff_ok b"
  shows "buff_ok (mybuff_skipdata b n) \<and> pending (mybuff_skipdata b n) = drop n (pending b)"
proof (cases "buf_data b")
  case None
  with assms show ?thesis by (simp add: buff_ok_def pending_def mybuff_skipdata_def)
next
  case (Some d)
  with assms have d: "length d = buf_size b" "buf_len b < buf_size b" by (auto simp: buff_ok_def)
  show ?thesis
  proof (cases "n \<ge> buf_len b")
    case True
    with Some d show ?thesis by (simp add: buff_ok_def pending_def mybuff_skipdata_def)
  next
    case False
    let ?s = "take (buf_len b - n) (drop n d)"
    have l: "length ?s = buf_len b - n" using d by simp
    have "take (buf_len b - n) (write_at d 0 ?s) = ?s"
      using take_write_at [of 0 ?s d] d False by (simp add: l)
    moreover have "?s = drop n (take (buf_len b) d)" using False by (simp add: drop_take)
    ultimately show ?thesis
      using Some d False l by (simp add: buff_ok_def pending_def mybuff_skipdata_def length_write_at)
  qed
qed

lemma getdata_spec:
  "buff_ok b \<Longrightarrow> mybuff_getdata b = (if pending b = [] then (-1, []) else (0, pending b))"
  by (auto simp: mybuff_getdata_def pending_def buff_ok_def split: option.splits)

lemma reinit_spec:
  assumes "buff_ok b" "0 < init_buff_size"
  shows "buff_ok (fst (mybuff_reinit init_buff_size b)) \<and> pending (fst (mybuff_reinit init_buff_size b)) = []
    \<and> mybuff_getfile (fst (mybuff_reinit init_buff_size b)) = None
    \<and> snd (mybuff_reinit init_buff_size b) = (if buf_fd b \<ge> 0 then [buf_fd b] else [])"
  using assms
  by (auto simp: mybuff_reinit_def buff_ok_def pending_def mybuff_getfile_def Let_def
      split: option.splits)

section \<open>The buffer is a byte stream\<close>

text \<open>The contract between the connections and the buffer, and what the connections get from it.\<close>

locale byte_stream =
  fixes put :: "'b \<Rightarrow> string \<Rightarrow> 'b"
    and get :: "'b \<Rightarrow> int \<times> string"
    and skip :: "'b \<Rightarrow> nat \<Rightarrow> 'b"
    and content :: "'b \<Rightarrow> string"
    and good :: "'b \<Rightarrow> bool"
  assumes good_put: "good b \<Longrightarrow> good (put b s)"
    and good_skip: "good b \<Longrightarrow> good (skip b n)"
    and content_put: "good b \<Longrightarrow> content (put b s) = content b @ s"
    and content_skip: "good b \<Longrightarrow> content (skip b n) = drop n (content b)"
    and get_content: "good b \<Longrightarrow> get b = (if content b = [] then (-1, []) else (0, content b))"
begin

lemma put_all: "good b \<Longrightarrow> good (fold (\<lambda>s b. put b s) ss b) \<and>
    content (fold (\<lambda>s b. put b s) ss b) = content b @ concat ss"
  by (induction ss arbitrary: b) (simp_all add: good_put content_put)

text \<open>Bytes leave in the order they came, whatever the sizes of the writes and of the skips.\<close>

lemma fifo_bytes:
  assumes "good b" "content b = []" "sum_list ns < length (concat ss)"
  shows "get (fold (\<lambda>n b. skip b n) ns (fold (\<lambda>s b. put b s) ss b)) = (0, drop (sum_list ns) (concat ss))"
proof -
  have skips: "good c \<Longrightarrow> good (fold (\<lambda>n b. skip b n) ns c) \<and>
      content (fold (\<lambda>n b. skip b n) ns c) = drop (sum_list ns) (content c)" for c
    by (induction ns arbitrary: c) (simp_all add: good_skip content_skip add.commute)
  from put_all [OF assms(1), of ss] skips assms(2,3) show ?thesis by (simp add: get_content)
qed

end

text \<open>The buffer of the program, for any positive initial size.\<close>

interpretation mb: byte_stream "mybuff_setdata (Suc n)" mybuff_getdata mybuff_skipdata pending buff_ok for n
  by unfold_locales (simp_all add: setdata_spec skipdata_spec getdata_spec)

text \<open>Sending a range of a file in pieces.\<close>

fun skip_pieces :: "nat list \<Rightarrow> mybuff \<Rightarrow> mybuff \<times> int list" where
  "skip_pieces [] b = (b, [])"
| "skip_pieces (n # ns) b =
     (let (b1, c1) = mybuff_skipfile b n; (b2, c2) = skip_pieces ns b1 in (b2, c1 @ c2))"

lemma skip_pieces_closed: "buf_fd b < 0 \<Longrightarrow> skip_pieces ns b = (b, [])"
  by (induction ns) (simp_all add: mybuff_skipfile_def)

lemma skip_pieces_spec:
  assumes "0 \<le> buf_fd b"
  shows "if flen b \<le> sum_list ns \<and> ns \<noteq> []
    then snd (skip_pieces ns b) = [buf_fd b] \<and> buf_fd (fst (skip_pieces ns b)) = -1
    else snd (skip_pieces ns b) = [] \<and>
      fst (skip_pieces ns b) = b\<lparr>foffset := foffset b + int (sum_list ns), flen := flen b - sum_list ns\<rparr>"
  using assms
proof (induction ns arbitrary: b)
  case (Cons n ns)
  show ?case
  proof (cases "flen b \<le> n")
    case True
    with Cons.prems show ?thesis
      by (simp add: mybuff_skipfile_def skip_pieces_closed)
  next
    case False
    let ?b = "b\<lparr>foffset := foffset b + int n, flen := flen b - n\<rparr>"
    have s: "mybuff_skipfile b n = (?b, [])" using False Cons.prems by (simp add: mybuff_skipfile_def)
    have "ns \<noteq> [] \<or> \<not> flen b \<le> n + sum_list ns" using False by auto
    with Cons.IH [of ?b] Cons.prems False s show ?thesis
      by (auto simp: split_beta split: if_splits)
  qed
qed simp

section \<open>Properties\<close>

text \<open>C19: A connection buffer is a first in, first out byte stream: after any writes and any skips,
  \<^verbatim>\<open>mybuff_getdata\<close> returns what was written, less the bytes skipped.\<close>

theorem mybuff_fifo:
  assumes "buff_ok b" "pending b = []" "0 < init_buff_size" "sum_list ns < length (concat ss)"
  shows "mybuff_getdata (fold (\<lambda>n b. mybuff_skipdata b n) ns
           (fold (\<lambda>s b. mybuff_setdata init_buff_size b s) ss b)) = (0, drop (sum_list ns) (concat ss))"
  using mb.fifo_bytes [OF assms(1,2,4), of "init_buff_size - 1"] assms(3) by simp

theorem mybuff_fifo_witness:
  "mybuff_getdata (fold (\<lambda>n b. mybuff_skipdata b n) [1, 3]
     (fold (\<lambda>s b. mybuff_setdata 2 b s) [''abc'', ''defg''] mybuff_init)) = (0, ''efg'')"
  using mybuff_fifo [OF buff_ok_init, of 2 "[1, 3]" "[''abc'', ''defg'']"] by simp

text \<open>A write never overruns the block and leaves a spare byte behind the data.\<close>

theorem mybuff_setdata_bounds:
  assumes "buff_ok b" "0 < init_buff_size" "b' = mybuff_setdata init_buff_size b src"
  shows "\<exists>d. buf_data b' = Some d \<and> length d = buf_size b' \<and> buf_len b' < buf_size b' \<and> buf_len b' = buf_len b + length src
    \<and> take (buf_len b') d = pending b @ src"
proof -
  have "buf_data b' \<noteq> None" "buf_len b' = buf_len b + length src"
    using assms(3) by (auto simp: mybuff_setdata_def Let_def)
  with setdata_spec [OF assms(1,2), of src] assms(3) show ?thesis
    by (auto simp: buff_ok_def pending_def split: option.splits)
qed

theorem mybuff_setdata_bounds_witness:
  "buf_len (mybuff_setdata 4 mybuff_init ''hello'') < buf_size (mybuff_setdata 4 mybuff_init ''hello'')"
  using mybuff_setdata_bounds [OF buff_ok_init(1), of 4 _ "''hello''"] by auto

text \<open>C20: A file range that is sent in pieces is closed exactly once, by the piece that completes it; until
  then offset and remaining length move by what was sent.\<close>

theorem mybuff_file_closed_once:
  assumes "0 \<le> f"
  shows "skip_pieces ns (fst (mybuff_setfile b f off n)) =
    (if n \<le> sum_list ns \<and> ns \<noteq> []
     then (b\<lparr>buf_fd := -1, foffset := 0, flen := 0\<rparr>, [f])
     else (b\<lparr>buf_fd := f, foffset := off + int (sum_list ns), flen := n - sum_list ns\<rparr>, []))"
proof -
  have fin: "fst (skip_pieces ns b) = b\<lparr>buf_fd := -1, foffset := 0, flen := 0\<rparr>"
    if "flen b \<le> sum_list ns" "ns \<noteq> []" "0 \<le> buf_fd b" for b
    using that
  proof (induction ns arbitrary: b)
    case (Cons k ns)
    show ?case
    proof (cases "flen b \<le> k")
      case True
      with Cons.prems show ?thesis by (simp add: mybuff_skipfile_def skip_pieces_closed)
    next
      case False
      then have "ns \<noteq> []" using Cons.prems(1) by auto
      with False Cons.prems Cons.IH [of "b\<lparr>foffset := foffset b + int k, flen := flen b - k\<rparr>"]
      show ?thesis by (simp add: mybuff_skipfile_def split_beta)
    qed
  qed simp
  let ?b = "b\<lparr>buf_fd := f, foffset := off, flen := n\<rparr>"
  have "0 \<le> buf_fd ?b" using assms by simp
  from skip_pieces_spec [OF this, of ns] fin [of ?b] assms show ?thesis
    by (cases "skip_pieces ns ?b") (auto simp: mybuff_setfile_def split: if_splits)
qed

theorem mybuff_file_closed_once_witness:
  "snd (skip_pieces [4, 5, 3] (fst (mybuff_setfile mybuff_init 7 0 10))) = [7]"
  using mybuff_file_closed_once [of 7 "[4, 5, 3]" mybuff_init 0 10] by simp

end
