(* ===== verification/Conn.thy ===== *)
theory Conn
  imports MyBuff QueueFamily
begin

text \<open>
  The connection table \<^verbatim>\<open>acon\<close> of the event loop (\<^verbatim>\<open>src/network/global.h\<close>) and the functions of
  \<^verbatim>\<open>src/network/vfs_so.c\<close> that the services call on it.  \<open>'u\<close> is the user data a service keeps with a
  connection, \<open>'g\<close> what the services share beside the connections (task queues, files).
\<close>

abbreviation RECV_CLOSE :: int where "RECV_CLOSE \<equiv> 0x01"
abbreviation RECV_ADD_EPOLLIN :: int where "RECV_ADD_EPOLLIN \<equiv> 0x02"
abbreviation RECV_ADD_EPOLLOUT :: int where "RECV_ADD_EPOLLOUT \<equiv> 0x04"
abbreviation RECV_ADD_EPOLLALL :: int where "RECV_ADD_EPOLLALL \<equiv> 0x06"
abbreviation RECV_SEND :: int where "RECV_SEND \<equiv> 0x08"
abbreviation SEND_CLOSE :: int where "SEND_CLOSE \<equiv> 0x10"
abbreviation SEND_ADD_EPOLLIN :: int where "SEND_ADD_EPOLLIN \<equiv> 0x20"
abbreviation SEND_ADD_EPOLLOUT :: int where "SEND_ADD_EPOLLOUT \<equiv> 0x40"
abbreviation SEND_ADD_EPOLLALL :: int where "SEND_ADD_EPOLLALL \<equiv> 0x80"
abbreviation RET_CLOSE_MALLOC :: int where "RET_CLOSE_MALLOC \<equiv> 303"
abbreviation EPOLLIN :: int where "EPOLLIN \<equiv> 1"
abbreviation EPOLLOUT :: int where "EPOLLOUT \<equiv> 4"

record 'u conn =
  c_fd :: int
  send_buff :: mybuff
  recv_buff :: mybuff
  send_len :: int
  user :: "'u option"

text \<open>
  \<open>send_list\<close> \<dots> are the four lists of connections whose sending or receiving is put off; \<open>events\<close> is what
  epoll watches for on a descriptor, \<open>wire\<close> the bytes sent on it, \<open>shut\<close> the descriptors closed.
\<close>

record ('u, 'g) world =
  conns :: "int \<Rightarrow> 'u conn"
  glob :: 'g
  send_list :: "int list"
  recv_list :: "int list"
  tmp_send_list :: "int list"
  tmp_recv_list :: "int list"
  events :: "int \<Rightarrow> int"
  wire :: "int \<Rightarrow> string"
  shut :: "int list"

definition upd_conn :: "int \<Rightarrow> ('u conn \<Rightarrow> 'u conn) \<Rightarrow> ('u, 'g) world \<Rightarrow> ('u, 'g) world" where
  "upd_conn fd f w = w\<lparr>conns := (conns w)(fd := f (conns w fd))\<rparr>"

definition set_user :: "int \<Rightarrow> 'u option \<Rightarrow> ('u, 'g) world \<Rightarrow> ('u, 'g) world" where
  "set_user fd u w = upd_conn fd (\<lambda>c. c\<lparr>user := u\<rparr>) w"

definition add_fd_2_efd :: "nat \<Rightarrow> int \<Rightarrow> ('u, 'g) world \<Rightarrow> ('u, 'g) world" where
  "add_fd_2_efd bs fd w =
     (let (sb, c1) = mybuff_reinit bs (send_buff (conns w fd));
          (rb, c2) = mybuff_reinit bs (recv_buff (conns w fd));
          w = w\<lparr>events := (events w)(fd := EPOLLIN), shut := shut w @ c1 @ c2\<rparr>
      in upd_conn fd (\<lambda>c. c\<lparr>c_fd := fd, send_len := 0, send_buff := sb, recv_buff := rb\<rparr>) w)"

text \<open>\<^verbatim>\<open>EPOLLIN|events\<close>, for the two event bits.\<close>

definition modify_fd_event :: "int \<Rightarrow> int \<Rightarrow> ('u, 'g) world \<Rightarrow> ('u, 'g) world" where
  "modify_fd_event fd ev w = w\<lparr>events := (events w)(fd := EPOLLIN OR ev)\<rparr>"

definition get_client_data :: "int \<Rightarrow> ('u, 'g) world \<Rightarrow> int \<times> string" where
  "get_client_data fd w = mybuff_getdata (recv_buff (conns w fd))"

definition consume_client_data :: "int \<Rightarrow> nat \<Rightarrow> ('u, 'g) world \<Rightarrow> ('u, 'g) world" where
  "consume_client_data fd n w = upd_conn fd (\<lambda>c. c\<lparr>recv_buff := mybuff_skipdata (recv_buff c) n\<rparr>) w"

definition set_client_data :: "nat \<Rightarrow> int \<Rightarrow> string \<Rightarrow> ('u, 'g) world \<Rightarrow> ('u, 'g) world" where
  "set_client_data bs fd d w = upd_conn fd (\<lambda>c. c\<lparr>send_buff := mybuff_setdata bs (send_buff c) d\<rparr>) w"

definition set_client_fd :: "int \<Rightarrow> int \<Rightarrow> int \<Rightarrow> nat \<Rightarrow> ('u, 'g) world \<Rightarrow> ('u, 'g) world" where
  "set_client_fd fd lfd off n w =
     (let (b, c) = mybuff_setfile (send_buff (conns w fd)) lfd off n
      in upd_conn fd (\<lambda>k. k\<lparr>send_buff := b\<rparr>) (w\<lparr>shut := shut w @ c\<rparr>))"

text \<open>
  A handler that parses the receive buffer in place leaves its changed bytes there; \<open>put_back\<close> stores them.
\<close>

definition put_back :: "int \<Rightarrow> string \<Rightarrow> ('u, 'g) world \<Rightarrow> ('u, 'g) world" where
  "put_back fd d w =
     upd_conn fd (\<lambda>c. c\<lparr>recv_buff := (recv_buff c)\<lparr>buf_data := map_option (\<lambda>b. write_at b 0 d) (buf_data (recv_buff c))\<rparr>\<rparr>) w"

lemmas conn_defs = upd_conn_def set_user_def modify_fd_event_def get_client_data_def consume_client_data_def
  set_client_data_def

section \<open>Facts\<close>

definition received :: "int \<Rightarrow> ('u, 'g) world \<Rightarrow> string" where
  "received fd w = pending (recv_buff (conns w fd))"

definition recv_ok :: "int \<Rightarrow> ('u, 'g) world \<Rightarrow> bool" where
  "recv_ok fd w \<longleftrightarrow> buff_ok (recv_buff (conns w fd))"

lemma get_client_data_received:
  "recv_ok fd w \<Longrightarrow> get_client_data fd w = (if received fd w = [] then (-1, []) else (0, received fd w))"
  by (simp add: get_client_data_def received_def recv_ok_def getdata_spec)

lemma consume_received:
  assumes "recv_ok fd w"
  shows "recv_ok fd (consume_client_data fd n w)" "received fd (consume_client_data fd n w) = drop n (received fd w)"
  using skipdata_spec [of "recv_buff (conns w fd)" n] assms
  by (simp_all add: recv_ok_def received_def consume_client_data_def upd_conn_def)

lemma put_back_received:
  assumes "recv_ok fd w" "length d = length (received fd w)"
  shows "recv_ok fd (put_back fd d w)" "received fd (put_back fd d w) = d"
proof -
  obtain b where b: "b = recv_buff (conns w fd)" "buff_ok b" using assms(1) by (auto simp: recv_ok_def)
  have "recv_ok fd (put_back fd d w) \<and> received fd (put_back fd d w) = d"
  proof (cases "buf_data b")
    case None
    with b assms(2) show ?thesis
      by (simp add: recv_ok_def received_def put_back_def upd_conn_def pending_def buff_ok_def)
  next
    case (Some s)
    then have s: "length s = buf_size b" "buf_len b < buf_size b" using b by (simp_all add: buff_ok_def)
    have l: "length d = buf_len b"
      using assms(2) b Some s by (simp add: received_def pending_def)
    have "length (write_at s 0 d) = length s" "take (buf_len b) (write_at s 0 d) = d"
      using s l take_write_at [of 0 d s] by (simp_all add: length_write_at)
    with b Some s show ?thesis
      by (simp add: recv_ok_def received_def put_back_def upd_conn_def pending_def buff_ok_def)
  qed
  then show "recv_ok fd (put_back fd d w)" "received fd (put_back fd d w) = d" by simp_all
qed

lemma conn_frame [simp]:
  "glob (consume_client_data fd n w) = glob w" "glob (put_back fd d w) = glob w"
  "glob (set_client_data bs fd d w) = glob w" "glob (modify_fd_event fd ev w) = glob w"
  "glob (set_user fd u w) = glob w"
  "user (conns (consume_client_data fd n w) k) = user (conns w k)"
  "user (conns (put_back fd d w) k) = user (conns w k)"
  "user (conns (set_user fd u w) fd) = u"
  "recv_ok fd (set_user fd u w) = recv_ok fd w" "received fd (set_user fd u w) = received fd w"
  "recv_ok fd (w\<lparr>glob := g\<rparr>) = recv_ok fd w" "received fd (w\<lparr>glob := g\<rparr>) = received fd w"
  by (auto simp: conn_defs put_back_def received_def recv_ok_def)

text \<open>Bytes that \<^verbatim>\<open>do_recv\<close> adds to the receive buffer.\<close>

definition arrive :: "nat \<Rightarrow> int \<Rightarrow> string \<Rightarrow> ('u, 'g) world \<Rightarrow> ('u, 'g) world" where
  "arrive bs fd d w = upd_conn fd (\<lambda>c. c\<lparr>recv_buff := mybuff_setdata bs (recv_buff c) d\<rparr>) w"

lemma arrive_received:
  assumes "recv_ok fd w" "0 < bs"
  shows "recv_ok fd (arrive bs fd d w)" "received fd (arrive bs fd d w) = received fd w @ d"
  using setdata_spec [of "recv_buff (conns w fd)" bs d] assms
  by (simp_all add: recv_ok_def received_def arrive_def upd_conn_def)

lemma arrive_frame [simp]:
  "glob (arrive bs fd d w) = glob w" "user (conns (arrive bs fd d w) k) = user (conns w k)"
  by (simp_all add: arrive_def upd_conn_def)

end
