(* ===== verification/HttpHeader.thy ===== *)
theory HttpHeader
  imports TaskTypes
begin

text \<open>
  The text headers of the transfer connections: \<^verbatim>\<open>parse_item\<close> and \<^verbatim>\<open>parse_header\<close> of
  \<^verbatim>\<open>sm_client/vfs_data.c\<close>, \<^verbatim>\<open>sm_http/vfs_http.c\<close> and \<^verbatim>\<open>uc_http/vfs_http.c\<close> (the three copies of
  \<^verbatim>\<open>parse_item\<close> are the same), and the four \<^verbatim>\<open>create_header\<close> functions of \<^verbatim>\<open>src/network\<close>.

  A header is parsed in place: \<^verbatim>\<open>parse_item\<close> overwrites the CR behind the value by NUL.  A parser
  therefore returns, with its result and the fields, the buffer as it leaves it.  The text given to a
  parser is the C string at the start of the receive buffer.
\<close>

record t_uc_oss_http_header =
  h_type :: nat
  h_filename :: string
  h_hostname :: string
  h_filemd5 :: string
  h_srcip :: string
  h_datalen :: int
  h_start :: int
  h_end :: int
  h_idx :: int
  h_count :: int

definition zero_header :: t_uc_oss_http_header where
  "zero_header = \<lparr>h_type = 0, h_filename = [], h_hostname = [], h_filemd5 = [], h_srcip = [],
     h_datalen = 0, h_start = 0, h_end = 0, h_idx = 0, h_count = 0\<rparr>"

abbreviation CRLF :: string where "CRLF \<equiv> [CR, LF]"

section \<open>Parsing\<close>

text \<open>\<^verbatim>\<open>parse_item\<close>: the value, the bytes passed over as they are left, and the rest of the text.\<close>

definition parse_item :: "string \<Rightarrow> string \<Rightarrow> (string \<times> string \<times> string) option" where
  "parse_item src item =
     (case strstr src item of
        None \<Rightarrow> None
      | Some i \<Rightarrow>
          let p = drop (i + length item) src
          in case strstr p CRLF of
               None \<Rightarrow> None
             | Some j \<Rightarrow> Some (take j p, take (i + length item + j) src @ [NUL, LF], drop (j + 2) p))"

text \<open>
  One step of a \<^verbatim>\<open>parse_header\<close>: find the item, store its value, go on behind it.  The state is: no
  error so far, the header, the bytes passed over, the rest.
\<close>

type_synonym parse_state = "bool \<times> t_uc_oss_http_header \<times> string \<times> string"

definition item_step ::
  "string \<Rightarrow> (string \<Rightarrow> t_uc_oss_http_header \<Rightarrow> t_uc_oss_http_header) \<Rightarrow> parse_state \<Rightarrow> parse_state" where
  "item_step item store = (\<lambda>(ok, h, seen, data).
     if \<not> ok then (ok, h, seen, data)
     else case parse_item data item of
            None \<Rightarrow> (False, h, seen, data)
          | Some (v, c, rest) \<Rightarrow> (True, store v h, seen @ c, rest))"

fun run_items ::
  "(string \<times> (string \<Rightarrow> t_uc_oss_http_header \<Rightarrow> t_uc_oss_http_header)) list \<Rightarrow> parse_state \<Rightarrow> parse_state" where
  "run_items [] st = st"
| "run_items ((item, store) # items) st = run_items items (item_step item store st)"

definition uint8 :: "int \<Rightarrow> nat" where "uint8 i = nat (i mod 256)"

definition store_filename where "store_filename v h = h\<lparr>h_filename := snprint 255 v\<rparr>"
definition store_type where "store_type v h = h\<lparr>h_type := uint8 (atoi v)\<rparr>"
definition store_datalen where "store_datalen v h = h\<lparr>h_datalen := atol v mod 2 ^ 64\<rparr>"
definition store_start where "store_start v h = h\<lparr>h_start := atol v\<rparr>"
definition store_end where "store_end v h = h\<lparr>h_end := atol v\<rparr>"
definition store_filemd5 where "store_filemd5 v h = h\<lparr>h_filemd5 := snprint 36 v\<rparr>"
definition store_idx where "store_idx v h = h\<lparr>h_idx := to_int32 (atol v)\<rparr>"
definition store_count where "store_count v h = h\<lparr>h_count := to_int32 (atol v)\<rparr>"
definition store_hostname where "store_hostname v h = h\<lparr>h_hostname := snprint 128 v\<rparr>"

definition parse_result :: "parse_state \<Rightarrow> int \<times> t_uc_oss_http_header \<times> string" where
  "parse_result = (\<lambda>(ok, h, seen, data). (if ok then 0 else -1, h, seen @ data))"

text \<open>\<^verbatim>\<open>sm_client/vfs_data.c\<close>.\<close>

definition sm_client_items where
  "sm_client_items =
     [(''filename: '', store_filename), (''type: '', store_type), (''datalen: '', store_datalen),
      (''start: '', store_start), (''end: '', store_end), (''filemd5: '', store_filemd5),
      (''idx: '', store_idx), (''count: '', store_count), (''hostname: '', store_hostname)]"

definition sm_client_parse_header ::
  "t_uc_oss_http_header \<Rightarrow> string \<Rightarrow> int \<times> t_uc_oss_http_header \<times> string" where
  "sm_client_parse_header h data = parse_result (run_items sm_client_items (True, h, [], data))"

text \<open>\<^verbatim>\<open>sm_http/vfs_http.c\<close>.\<close>

definition sm_http_items where
  "sm_http_items =
     [(''filename: '', store_filename), (''type: '', store_type), (''datalen: '', store_datalen),
      (''start: '', store_start), (''end: '', store_end), (''filemd5: '', store_filemd5)]"

definition sm_http_parse_header ::
  "t_uc_oss_http_header \<Rightarrow> string \<Rightarrow> int \<times> t_uc_oss_http_header \<times> string" where
  "sm_http_parse_header h data = parse_result (run_items sm_http_items (True, h, [], data))"

text \<open>\<^verbatim>\<open>uc_http/vfs_http.c\<close>.\<close>

definition uc_http_items where
  "uc_http_items = [(''filename: '', store_filename), (''type: '', store_type)]"

definition uc_http_parse_header ::
  "t_uc_oss_http_header \<Rightarrow> string \<Rightarrow> int \<times> t_uc_oss_http_header \<times> string" where
  "uc_http_parse_header h data = parse_result (run_items uc_http_items (True, h, [], data))"

section \<open>Building\<close>

text \<open>A line built in \<^verbatim>\<open>sbuf[64]\<close>.\<close>

definition sbuf :: "string \<Rightarrow> string" where
  "sbuf line = snprint 64 line"

text \<open>\<^verbatim>\<open>uc_client/vfs_data_base.c\<close>: one part of a file is offered to the storage node.\<close>

definition uc_client_create_header :: "t_task_base \<Rightarrow> t_task_sub \<Rightarrow> string" where
  "uc_client_create_header b s =
     ''POST /us_oss HTTP/1.1'' @ CRLF @
     ''filename: '' @ filename b @ CRLF @
     sbuf (''type: '' @ dec_int (int (ftype b)) @ CRLF) @
     sbuf (''datalen: '' @ dec_int (fsize b) @ CRLF) @
     sbuf (''Content-Length: '' @ dec_int (sub_end s - sub_start s + 1) @ CRLF) @
     sbuf (''start: '' @ dec_int (sub_start s) @ CRLF) @
     sbuf (''end: '' @ dec_int (sub_end s) @ CRLF) @
     sbuf (''filemd5: '' @ filemd5 b @ CRLF) @
     sbuf (''filectime: '' @ dec_int (file_ctime b) @ CRLF) @
     sbuf (''idx: '' @ dec_int (sub_idx s) @ CRLF) @
     sbuf (''count: '' @ dec_int (sub_count s) @ CRLF) @
     sbuf (''hostname: '' @ hostname b @ CRLF @ CRLF)"

text \<open>\<^verbatim>\<open>sm_client/vfs_data_base.c\<close>: the list of parts that are missing.\<close>

definition sm_client_create_header :: "string \<Rightarrow> string" where
  "sm_client_create_header d =
     ''GET /question/19973178 HTTP/1.0'' @ CRLF @ ''filename: '' @ d @ CRLF @ ''type: 251'' @ CRLF @ CRLF"

text \<open>\<^verbatim>\<open>sm_http/vfs_http_sub.c\<close>: the report on a merged file.\<close>

definition sm_http_create_header :: "string \<Rightarrow> string \<Rightarrow> int \<Rightarrow> string" where
  "sm_http_create_header fname md5 typ =
     ''GET /us_oss HTTP/1.1'' @ CRLF @ ''filename: '' @ fname @ CRLF @
     sbuf (''type: '' @ dec_int typ @ CRLF) @ ''datalen: 2'' @ CRLF @
     sbuf (''start: 0'' @ CRLF) @ sbuf (''end: 0'' @ CRLF) @ sbuf (''filemd5: '' @ md5 @ CRLF @ CRLF)"

text \<open>\<^verbatim>\<open>uc_http/vfs_http_base.c\<close>: the question for missing parts; \<open>host\<close> is the node's own name.\<close>

definition uc_http_create_header :: "string \<Rightarrow> t_task_base \<Rightarrow> string" where
  "uc_http_create_header host b =
     ''GET /us_oss HTTP/1.1'' @ CRLF @ ''filename: '' @ filename b @ CRLF @
     sbuf (''type: '' @ dec_int (int (ftype b)) @ CRLF) @
     sbuf (''datalen: '' @ dec_int (fsize b) @ CRLF) @
     sbuf (''start: 0'' @ CRLF) @
     sbuf (''end: '' @ dec_int (fsize b - 1) @ CRLF) @
     sbuf (''filemd5: '' @ filemd5 b @ CRLF) @
     ''idx: 1'' @ CRLF @ ''count: 10'' @ CRLF @
     sbuf (''hostname: '' @ host @ CRLF) @
     sbuf (''action_type: 0'' @ CRLF @ CRLF)"

section \<open>Reading back one line\<close>

lemma parse_item_here:
  assumes "CR \<notin> set v"
  shows "parse_item (item @ v @ CR # LF # rest) item = Some (v, item @ v @ [NUL, LF], rest)"
proof -
  have "strstr (v @ [CR, LF] @ rest) [CR, LF] = Some (length v)"
    using strstr_found [OF assms, of "[LF]" rest] by simp
  then show ?thesis by (simp add: parse_item_def)
qed

text \<open>The same behind some text in which the item does not begin.\<close>

lemma parse_item_behind:
  assumes "CR \<notin> set v" "strstr (junk @ item @ v @ CR # LF # rest) item = Some (length junk)"
  shows "parse_item (junk @ item @ v @ CR # LF # rest) item = Some (v, junk @ item @ v @ [NUL, LF], rest)"
proof -
  have "strstr (v @ [CR, LF] @ rest) [CR, LF] = Some (length v)"
    using strstr_found [OF assms(1), of "[LF]" rest] by simp
  with assms(2) show ?thesis by (simp add: parse_item_def)
qed

lemma item_step_here:
  assumes "CR \<notin> set v"
  shows "item_step item store (True, h, seen, item @ v @ CR # LF # rest) =
     (True, store v h, seen @ item @ v @ [NUL, LF], rest)"
  by (simp add: item_step_def parse_item_here [OF assms])

lemma item_step_behind:
  assumes "CR \<notin> set v" "strstr (junk @ item @ v @ CR # LF # rest) item = Some (length junk)"
  shows "item_step item store (True, h, seen, junk @ item @ v @ CR # LF # rest) =
     (True, store v h, seen @ junk @ item @ v @ [NUL, LF], rest)"
  by (simp add: item_step_def parse_item_behind [OF assms])

lemma CR_notin_dec [simp]: "CR \<notin> set (dec_int i)"
  by (rule not_in_dec_int) (simp_all add: isdigit_def)

text \<open>Lines that fit the buffer.\<close>

lemma sbuf_id: "length line < 64 \<Longrightarrow> sbuf line = line"
  by (simp add: sbuf_def)

lemma length_dec_int:
  assumes "- (2 ^ 63) \<le> i" "i < 2 ^ 63"
  shows "length (dec_int i) \<le> 20"
proof -
  have "nat (- i) < 10 ^ Suc 18" "nat i < 10 ^ Suc 18" using assms by simp_all
  from this [THEN length_dec_nat] show ?thesis by (simp add: dec_int_def)
qed

section \<open>Round trip\<close>

text \<open>The bounds under which nothing is cut off.\<close>

definition header_fits :: "t_task_base \<Rightarrow> t_task_sub \<Rightarrow> bool" where
  "header_fits b s \<longleftrightarrow>
     CR \<notin> set (filename b) \<and> length (filename b) < 255 \<and>
     CR \<notin> set (hostname b) \<and> length (hostname b) < 50 \<and>
     CR \<notin> set (filemd5 b) \<and> length (filemd5 b) < 36 \<and>
     ftype b < 256 \<and> 0 \<le> fsize b \<and> fsize b < 2 ^ 63 \<and>
     0 \<le> sub_start s \<and> sub_start s \<le> sub_end s \<and> sub_end s < 2 ^ 63 - 1 \<and>
     0 \<le> sub_idx s \<and> sub_idx s < 2 ^ 31 \<and> 0 \<le> sub_count s \<and> sub_count s < 2 ^ 31 \<and>
     0 \<le> file_ctime b \<and> file_ctime b < 2 ^ 63"

text \<open>What the receiver stores.\<close>

definition received_header :: "t_task_base \<Rightarrow> t_task_sub \<Rightarrow> t_uc_oss_http_header \<Rightarrow> t_uc_oss_http_header" where
  "received_header b s h = h\<lparr>h_filename := filename b, h_type := ftype b, h_datalen := fsize b,
     h_start := sub_start s, h_end := sub_end s, h_filemd5 := filemd5 b, h_idx := sub_idx s,
     h_count := sub_count s, h_hostname := hostname b\<rparr>"

text \<open>The lines of the header, without the limits of the line buffer.\<close>

definition header_head :: "t_task_base \<Rightarrow> t_task_sub \<Rightarrow> string" where
  "header_head b s =
     ''POST /us_oss HTTP/1.1'' @ CRLF @ ''filename: '' @ filename b @ CRLF @
     ''type: '' @ dec_int (int (ftype b)) @ CRLF @ ''datalen: '' @ dec_int (fsize b) @ CRLF @
     ''Content-Length: '' @ dec_int (sub_end s - sub_start s + 1) @ CRLF @
     ''start: '' @ dec_int (sub_start s) @ CRLF @ ''end: '' @ dec_int (sub_end s) @ CRLF @
     ''filemd5: '' @ filemd5 b @ CRLF @ ''filectime: '' @ dec_int (file_ctime b) @ CRLF @
     ''idx: '' @ dec_int (sub_idx s) @ CRLF @ ''count: '' @ dec_int (sub_count s) @ CRLF @
     ''hostname: '' @ hostname b"

lemma uc_client_create_header_lines:
  assumes "header_fits b s"
  shows "uc_client_create_header b s = header_head b s @ CRLF @ CRLF"
proof -
  have l: "length (dec_int i) \<le> 20" if "0 \<le> i" "i < 2 ^ 63" for i
    using that by (intro length_dec_int) auto
  note f = assms [unfolded header_fits_def]
  have "length (dec_int (int (ftype b))) \<le> 20" "length (dec_int (fsize b)) \<le> 20"
    "length (dec_int (sub_end s - sub_start s + 1)) \<le> 20" "length (dec_int (sub_start s)) \<le> 20"
    "length (dec_int (sub_end s)) \<le> 20" "length (dec_int (file_ctime b)) \<le> 20"
    "length (dec_int (sub_idx s)) \<le> 20" "length (dec_int (sub_count s)) \<le> 20"
    by (rule l; use f in simp)+
  then show ?thesis
    using f by (simp add: uc_client_create_header_def header_head_def sbuf_id)
qed

text \<open>A header as a list of lines: text passed over, item, function that stores, value.\<close>

type_synonym hline =
  "string \<times> string \<times> (string \<Rightarrow> t_uc_oss_http_header \<Rightarrow> t_uc_oss_http_header) \<times> string"

definition line_text :: "hline \<Rightarrow> string" where
  "line_text = (\<lambda>(junk, item, store, v). junk @ item @ v @ CRLF)"

definition line_seen :: "hline \<Rightarrow> string" where
  "line_seen = (\<lambda>(junk, item, store, v). junk @ item @ v @ [NUL, LF])"

definition line_store :: "hline \<Rightarrow> t_uc_oss_http_header \<Rightarrow> t_uc_oss_http_header" where
  "line_store = (\<lambda>(junk, item, store, v). store v)"

definition line_ok :: "hline \<Rightarrow> bool" where
  "line_ok = (\<lambda>(junk, item, store, v). CR \<notin> set v \<and>
     (\<forall>r. strstr (junk @ item @ r) item = Some (length junk)))"

lemma run_items_lines:
  "\<forall>l\<in>set ls. line_ok l \<Longrightarrow>
   run_items (map (\<lambda>(junk, item, store, v). (item, store)) ls) (True, h, seen, concat (map line_text ls) @ rest) =
     (True, fold line_store ls h, seen @ concat (map line_seen ls), rest)"
proof (induction ls arbitrary: h seen)
  case (Cons l ls)
  obtain junk item store v where l: "l = (junk, item, store, v)" by (metis surj_pair)
  have ok: "CR \<notin> set v" "strstr (junk @ item @ v @ CR # LF # r) item = Some (length junk)" for r
    using Cons.prems by (auto simp: l line_ok_def)
  have "item_step item store (True, h, seen, line_text l @ concat (map line_text ls) @ rest) =
      (True, line_store l h, seen @ line_seen l, concat (map line_text ls) @ rest)"
    using item_step_behind [OF ok(1) ok(2)] by (simp add: l line_text_def line_store_def line_seen_def)
  with Cons.IH [of "line_store l h" "seen @ line_seen l"] Cons.prems show ?case
    by (simp add: l)
qed simp

lemma line_ok_plain: "CR \<notin> set v \<Longrightarrow> line_ok ([], item, store, v)"
  by (simp add: line_ok_def)

lemma line_ok_skip: "CR \<notin> set v \<Longrightarrow> c \<notin> set junk \<Longrightarrow> line_ok (junk, c # item, store, v)"
  using strstr_found [of c junk item] by (simp add: line_ok_def)

definition client_lines :: "t_task_base \<Rightarrow> t_task_sub \<Rightarrow> hline list" where
  "client_lines b s =
     [(''POST /us_oss HTTP/1.1'' @ CRLF, ''filename: '', store_filename, filename b),
      ([], ''type: '', store_type, dec_int (int (ftype b))),
      ([], ''datalen: '', store_datalen, dec_int (fsize b)),
      (''Content-Length: '' @ dec_int (sub_end s - sub_start s + 1) @ CRLF, ''start: '', store_start,
         dec_int (sub_start s)),
      ([], ''end: '', store_end, dec_int (sub_end s)),
      ([], ''filemd5: '', store_filemd5, filemd5 b),
      (''filectime: '' @ dec_int (file_ctime b) @ CRLF, ''idx: '', store_idx, dec_int (sub_idx s)),
      ([], ''count: '', store_count, dec_int (sub_count s)),
      ([], ''hostname: '', store_hostname, hostname b)]"

lemma line_ok_idx: "CR \<notin> set v \<Longrightarrow> line_ok (''filectime: '' @ dec_int n @ CRLF, ''idx: '', store, v)"
proof -
  assume v: "CR \<notin> set v"
  have "CHR ''i'' \<notin> set (dec_int n @ [CR, LF])"
    using not_in_dec_int [of "CHR ''i''" n] by (simp add: isdigit_def)
  from strstr_found [OF this, of "''dx: ''"]
  have "strstr (dec_int n @ CR # LF # ''idx: '' @ r) ''idx: '' = Some (length (dec_int n) + 2)" for r by simp
  with v show ?thesis by (simp add: line_ok_def)
qed

lemma client_lines_ok:
  assumes "CR \<notin> set (filename b)" "CR \<notin> set (hostname b)" "CR \<notin> set (filemd5 b)"
  shows "\<forall>l\<in>set (client_lines b s). line_ok l"
proof -
  have s: "CHR ''s'' \<notin> set (''Content-Length: '' @ dec_int (sub_end s - sub_start s + 1) @ CRLF)"
    using not_in_dec_int [of "CHR ''s''"] by (simp add: isdigit_def)
  have f: "CHR ''f'' \<notin> set (''POST /us_oss HTTP/1.1'' @ CRLF)" by simp
  show ?thesis
    unfolding client_lines_def list.set ball_simps
    by (intro conjI line_ok_plain line_ok_idx line_ok_skip [OF _ s] line_ok_skip [OF _ f] TrueI assms CR_notin_dec)
qed

lemma client_lines_text: "header_head b s @ CRLF = concat (map line_text (client_lines b s))"
  by (simp add: header_head_def client_lines_def line_text_def)

lemma client_lines_items: "map (\<lambda>(junk, item, store, v). (item, store)) (client_lines b s) = sm_client_items"
  by (simp add: client_lines_def sm_client_items_def)

lemma client_lines_store:
  assumes "header_fits b s"
  shows "fold line_store (client_lines b s) h = received_header b s h"
proof -
  note f = assms [unfolded header_fits_def]
  have "atol (dec_int (fsize b)) = fsize b" "atol (dec_int (sub_start s)) = sub_start s"
    "atol (dec_int (sub_end s)) = sub_end s" "atol (dec_int (sub_idx s)) = sub_idx s"
    "atol (dec_int (sub_count s)) = sub_count s" "atoi (dec_int (int (ftype b))) = int (ftype b)"
    using f by (simp_all add: atol_dec_int atoi_dec_int)
  moreover have "to_int32 (sub_idx s) = sub_idx s" "to_int32 (sub_count s) = sub_count s"
    using f by (simp_all add: to_int32_id)
  ultimately show ?thesis using f
    by (simp add: client_lines_def line_store_def received_header_def store_filename_def store_type_def
        store_datalen_def store_start_def store_end_def store_filemd5_def store_idx_def store_count_def
        store_hostname_def uint8_def)
qed

lemma length_lines_seen: "length (concat (map line_seen ls)) = length (concat (map line_text ls))"
  by (induction ls) (auto simp: line_seen_def line_text_def)

text \<open>The parser passes over exactly the header and leaves the body alone.\<close>

lemma sm_client_parse_create:
  assumes "header_fits b s"
  shows "\<exists>passed. sm_client_parse_header h (uc_client_create_header b s @ body) = (0, received_header b s h, passed @ body)
    \<and> length passed = length (uc_client_create_header b s)"
proof -
  have cr: "CR \<notin> set (filename b)" "CR \<notin> set (hostname b)" "CR \<notin> set (filemd5 b)"
    using assms by (auto simp: header_fits_def)
  have eq: "uc_client_create_header b s = concat (map line_text (client_lines b s)) @ CRLF"
    unfolding uc_client_create_header_lines [OF assms] client_lines_text [symmetric] by simp
  have "sm_client_parse_header h (uc_client_create_header b s @ body) =
      (0, received_header b s h, (concat (map line_seen (client_lines b s)) @ CRLF) @ body)"
    unfolding sm_client_parse_header_def client_lines_items [of b s, symmetric] eq append_assoc
    using run_items_lines [OF client_lines_ok [OF cr]] client_lines_store [OF assms]
    by (simp add: parse_result_def)
  moreover have "length (concat (map line_seen (client_lines b s)) @ CRLF) = length (uc_client_create_header b s)"
    unfolding eq by (simp add: length_lines_seen)
  ultimately show ?thesis by blast
qed

section \<open>The end of a header\<close>

lemma strstr_end_line:
  assumes "CR \<notin> set a" "c \<noteq> CR"
  shows "strstr (a @ CR # LF # c # r) [CR, LF, CR, LF] =
    map_option (\<lambda>i. length a + 2 + i) (strstr (c # r) [CR, LF, CR, LF])"
proof -
  have "strstr (CR # LF # c # r) [CR, LF, CR, LF] = map_option (\<lambda>i. 2 + i) (strstr (c # r) [CR, LF, CR, LF])"
    using assms(2) by (auto simp: option.map_comp comp_def)
  then show ?thesis
    using strstr_skip [OF assms(1), of "CR # LF # c # r" "[LF, CR, LF]"]
    by (simp add: option.map_comp comp_def ac_simps)
qed

text \<open>Lines without CR, none of them empty, then an empty line.\<close>

lemma strstr_end_lines:
  "ls \<noteq> [] \<Longrightarrow> \<forall>l\<in>set ls. CR \<notin> set l \<and> l \<noteq> [] \<Longrightarrow>
   strstr (concat (map (\<lambda>l. l @ CRLF) ls) @ CR # LF # r) [CR, LF, CR, LF] =
     Some (length (concat (map (\<lambda>l. l @ CRLF) ls)) - 2)"
proof (induction ls)
  case (Cons l ls)
  show ?case
  proof (cases ls)
    case Nil
    then show ?thesis
      using strstr_found [of CR l "[LF, CR, LF]" r] Cons.prems by simp
  next
    case (Cons m ms)
    then obtain c m' where m: "m = c # m'" "c \<noteq> CR"
      using Cons.prems by (cases m) auto
    have "length (concat (map (\<lambda>l. l @ CRLF) ls)) \<ge> 2" using Cons by simp
    then show ?thesis
      using Cons.IH Cons.prems strstr_end_line [of l c] m Cons by simp
  qed
qed simp

definition head_lines :: "t_task_base \<Rightarrow> t_task_sub \<Rightarrow> string list" where
  "head_lines b s =
     [''POST /us_oss HTTP/1.1'', ''filename: '' @ filename b, ''type: '' @ dec_int (int (ftype b)),
      ''datalen: '' @ dec_int (fsize b), ''Content-Length: '' @ dec_int (sub_end s - sub_start s + 1),
      ''start: '' @ dec_int (sub_start s), ''end: '' @ dec_int (sub_end s), ''filemd5: '' @ filemd5 b,
      ''filectime: '' @ dec_int (file_ctime b), ''idx: '' @ dec_int (sub_idx s),
      ''count: '' @ dec_int (sub_count s), ''hostname: '' @ hostname b]"

lemma header_end:
  assumes "header_fits b s"
  shows "strstr (uc_client_create_header b s @ body) (CRLF @ CRLF) =
    Some (length (uc_client_create_header b s) - 4)"
proof -
  have "uc_client_create_header b s @ body = concat (map (\<lambda>l. l @ CRLF) (head_lines b s)) @ CR # LF # body"
    unfolding uc_client_create_header_lines [OF assms] by (simp add: header_head_def head_lines_def)
  moreover have "length (concat (map (\<lambda>l. l @ CRLF) (head_lines b s))) = length (uc_client_create_header b s) - 2"
    unfolding uc_client_create_header_lines [OF assms] by (simp add: header_head_def head_lines_def)
  moreover have "\<forall>l\<in>set (head_lines b s). CR \<notin> set l \<and> l \<noteq> []"
    using assms by (auto simp: head_lines_def header_fits_def)
  moreover have "head_lines b s \<noteq> []" by (simp add: head_lines_def)
  ultimately show ?thesis using strstr_end_lines [of "head_lines b s" body] by simp
qed

section \<open>Properties\<close>

text \<open>C24: The storage node reads from a part's header exactly what the sender wrote into it, and finds its
  end where the body begins, for names and numbers that fit the fixed size buffers.\<close>

theorem part_header_roundtrip:
  assumes "header_fits b s"
  shows "\<exists>buf. sm_client_parse_header h (uc_client_create_header b s @ body) = (0, received_header b s h, buf)
    \<and> strstr (uc_client_create_header b s @ body) (CRLF @ CRLF) = Some (length (uc_client_create_header b s) - 4)"
  using sm_client_parse_create [OF assms, of h body] header_end [OF assms, of body] by blast

definition example_base :: t_task_base where
  "example_base = zero_base\<lparr>filename := ''/d/movie.flv'', hostname := ''uc1'', filemd5 := replicate 32 (CHR ''a''),
     fsize := 2500000, file_ctime := 1350000000\<rparr>"

definition example_sub :: t_task_sub where
  "example_sub = zero_sub\<lparr>sub_start := 1048576, sub_end := 2097151, sub_idx := 2, sub_count := 3\<rparr>"

theorem part_header_roundtrip_witness:
  "fst (snd (sm_client_parse_header zero_header (uc_client_create_header example_base example_sub @ ''xyz''))) =
     received_header example_base example_sub zero_header"
proof -
  have "header_fits example_base example_sub"
    by (simp add: header_fits_def example_base_def example_sub_def zero_base_def zero_sub_def)
  from part_header_roundtrip [OF this, of zero_header "''xyz''"] show ?thesis by auto
qed

text \<open>A host name of 53 characters or more is cut in the line buffer of \<^verbatim>\<open>create_header\<close> together with the
  empty line that ends the header.\<close>

theorem long_hostname_unterminated:
  assumes "length (hostname b) \<ge> 53"
  shows "sbuf (''hostname: '' @ hostname b @ CRLF @ CRLF) = ''hostname: '' @ take 53 (hostname b)"
  using assms by (simp add: sbuf_def snprint_def)

theorem long_hostname_unterminated_witness:
  "sbuf (''hostname: '' @ hostname (zero_base\<lparr>hostname := replicate 60 (CHR ''h'')\<rparr>) @ CRLF @ CRLF) =
     ''hostname: '' @ take 53 (replicate 60 (CHR ''h''))"
  using long_hostname_unterminated [of "zero_base\<lparr>hostname := replicate 60 (CHR ''h'')\<rparr>"] by simp

end
