(* ===== verification/Node.thy ===== *)
theory Node
  imports Split Conn HttpHeader
begin

text \<open>
  What the four services of a node (\<^verbatim>\<open>uc_client\<close>, \<^verbatim>\<open>uc_http\<close>, \<^verbatim>\<open>sm_client\<close>, \<^verbatim>\<open>sm_http\<close>) share: the
  environment of a handler call, the state beside the connection table, open files, the bookkeeping of
  connections, and \<^verbatim>\<open>do_close\<close> of \<^verbatim>\<open>src/network/vfs_so.c\<close>, which calls the service back.
\<close>

text \<open>\<open>peer_ip\<close> is \<^verbatim>\<open>getpeerip\<close>; \<open>conn_malloc\<close> tells whether the user data of a connection can be
  allocated; \<open>ctime_of\<close> is \<^verbatim>\<open>st_ctime\<close> of a path.  \<open>fd_results\<close> are the results of the coming calls of
  \<^verbatim>\<open>createsocket\<close> and of \<^verbatim>\<open>open\<close>, negative for a failure.\<close>

record node_env = env +
  n_io :: io
  datadir :: string
  cfg :: t_g_config
  buff_size :: nat
  peer_ip :: "int \<Rightarrow> uint32"
  conn_malloc :: bool
  ctime_of :: "string \<Rightarrow> int"
  max_fds :: int
  self_host :: string

record node_glob =
  g_tq :: task_state
  g_fs :: fsys
  activelist :: "int list"
  online_list :: "int \<Rightarrow> int list"
  fd_results :: "int list"

text \<open>An open file is its path and the offset of the next byte.  Writing to a file that has been removed
  leaves no trace; a file that has become shorter is filled up with NUL.\<close>

type_synonym ofile = "string \<times> nat"

definition fwrite :: "ofile \<Rightarrow> string \<Rightarrow> fsys \<Rightarrow> fsys" where
  "fwrite f d fs =
     (case files fs (fst f) of
        None \<Rightarrow> fs
      | Some c \<Rightarrow> fs\<lparr>files := (files fs)(fst f \<mapsto>
          write_at (c @ replicate (snd f - length c) NUL) (snd f) d)\<rparr>)"

lemma fwrite_append: "files fs p = Some c \<Longrightarrow> fwrite (p, length c) d fs = fs\<lparr>files := (files fs)(p \<mapsto> c @ d)\<rparr>"
  by (simp add: fwrite_def write_at_def)

text \<open>\<^verbatim>\<open>createsocket\<close>, and \<^verbatim>\<open>open\<close> for reading.\<close>

definition next_fd :: "('u, node_glob) world \<Rightarrow> int \<times> ('u, node_glob) world" where
  "next_fd w =
     (case fd_results (glob w) of
        [] \<Rightarrow> (-1, w)
      | fd # fds \<Rightarrow> (fd, w\<lparr>glob := (glob w)\<lparr>fd_results := fds\<rparr>\<rparr>))"

definition open_read :: "node_env \<Rightarrow> string \<Rightarrow> ('u, node_glob) world \<Rightarrow> int \<times> ('u, node_glob) world" where
  "open_read e path w =
     (if files (g_fs (glob w)) path = None \<or> \<not> can_open (n_io e) path then (-1, w) else next_fd w)"

section \<open>Bookkeeping of connections\<close>

definition tq_upd :: "(task_state \<Rightarrow> task_state) \<Rightarrow> ('u, node_glob) world \<Rightarrow> ('u, node_glob) world" where
  "tq_upd f w = w\<lparr>glob := (glob w)\<lparr>g_tq := f (g_tq (glob w))\<rparr>\<rparr>"

definition fs_upd :: "(fsys \<Rightarrow> fsys) \<Rightarrow> ('u, node_glob) world \<Rightarrow> ('u, node_glob) world" where
  "fs_upd f w = w\<lparr>glob := (glob w)\<lparr>g_fs := f (g_fs (glob w))\<rparr>\<rparr>"

text \<open>\<^verbatim>\<open>list_move_tail(&(peer->alist), &activelist)\<close> and \<^verbatim>\<open>list_del_init(&(peer->alist))\<close>.\<close>

definition alist_move_tail :: "int \<Rightarrow> ('u, node_glob) world \<Rightarrow> ('u, node_glob) world" where
  "alist_move_tail fd w = w\<lparr>glob := (glob w)\<lparr>activelist := removeAll fd (activelist (glob w)) @ [fd]\<rparr>\<rparr>"

definition alist_del :: "int \<Rightarrow> ('u, node_glob) world \<Rightarrow> ('u, node_glob) world" where
  "alist_del fd w = w\<lparr>glob := (glob w)\<lparr>activelist := removeAll fd (activelist (glob w))\<rparr>\<rparr>"

definition online_bucket :: "uint32 \<Rightarrow> int" where
  "online_bucket ip = uint (ip AND 0xFF)"

definition online_add :: "int \<Rightarrow> uint32 \<Rightarrow> ('u, node_glob) world \<Rightarrow> ('u, node_glob) world" where
  "online_add fd ip w =
     w\<lparr>glob := (glob w)\<lparr>online_list := (online_list (glob w))(online_bucket ip := fd # online_list (glob w) (online_bucket ip))\<rparr>\<rparr>"

definition online_del :: "int \<Rightarrow> ('u, node_glob) world \<Rightarrow> ('u, node_glob) world" where
  "online_del fd w = w\<lparr>glob := (glob w)\<lparr>online_list := (\<lambda>i. removeAll fd (online_list (glob w) i))\<rparr>\<rparr>"

text \<open>\<^verbatim>\<open>do_close\<close>: \<open>fin\<close> is the service's \<^verbatim>\<open>svc_finiconn\<close>.\<close>

definition do_close :: "(int \<Rightarrow> ('u, 'g) world \<Rightarrow> ('u, 'g) world) \<Rightarrow> int \<Rightarrow> int \<Rightarrow> ('u, 'g) world \<Rightarrow> ('u, 'g) world" where
  "do_close fin maxfds fd w =
     (if 0 \<le> fd \<and> fd < maxfds
      then if c_fd (conns w fd) < 0 then w
           else let w = fin fd w;
                    w = w\<lparr>events := (events w)(fd := 0)\<rparr>;
                    w = upd_conn fd (\<lambda>c. c\<lparr>c_fd := -1\<rparr>) w
                in w\<lparr>shut := shut w @ [fd]\<rparr>
      else w)"

lemma node_frame [simp]:
  "g_fs (glob (tq_upd f w)) = g_fs (glob w)" "g_tq (glob (fs_upd h w)) = g_tq (glob w)"
  "g_tq (glob (tq_upd f w)) = f (g_tq (glob w))" "g_fs (glob (fs_upd h w)) = h (g_fs (glob w))"
  "fd_results (glob (tq_upd f w)) = fd_results (glob w)" "fd_results (glob (fs_upd h w)) = fd_results (glob w)"
  "conns (tq_upd f w) = conns w" "conns (fs_upd h w) = conns w" "conns (alist_move_tail fd w) = conns w"
  "conns (alist_del fd w) = conns w" "conns (online_add fd ip w) = conns w" "conns (online_del fd w) = conns w"
  "g_tq (glob (alist_move_tail fd w)) = g_tq (glob w)" "g_fs (glob (alist_move_tail fd w)) = g_fs (glob w)"
  "g_tq (glob (alist_del fd w)) = g_tq (glob w)" "g_fs (glob (alist_del fd w)) = g_fs (glob w)"
  "g_tq (glob (online_add fd ip w)) = g_tq (glob w)" "g_fs (glob (online_add fd ip w)) = g_fs (glob w)"
  "g_tq (glob (online_del fd w)) = g_tq (glob w)" "g_fs (glob (online_del fd w)) = g_fs (glob w)"
  by (simp_all add: tq_upd_def fs_upd_def alist_move_tail_def alist_del_def online_add_def online_del_def)

lemma received_frame [simp]:
  "received fd (tq_upd f w) = received fd w" "recv_ok fd (tq_upd f w) = recv_ok fd w"
  "received fd (fs_upd h w) = received fd w" "recv_ok fd (fs_upd h w) = recv_ok fd w"
  "received fd (alist_move_tail k w) = received fd w" "recv_ok fd (alist_move_tail k w) = recv_ok fd w"
  by (simp_all add: received_def recv_ok_def)

end
