(* ===== verification/SmClient.thy ===== *)
theory SmClient
  imports Node
begin

text \<open>
  The receiving service of the storage node: \<^verbatim>\<open>src/network/sm_client/vfs_data.c\<close> with the files it includes
  (\<^verbatim>\<open>vfs_data_base.c\<close>, \<^verbatim>\<open>vfs_data_sub.c\<close>) and \<^verbatim>\<open>vfs_data_task.c\<close>.  A connection first receives the header of
  one part (\<open>RECV_HEAD_ING\<close>) and then its bytes (\<open>RECV_BODY_ING\<close>), which go to the part file.  A header of
  type 250 asks instead for the list of parts that are missing.

  \<^verbatim>\<open>local_in_fd\<close> is the open file, \<open>None\<close> for the values that are not descriptors.  The text a
  handler searches is the content of the receive buffer; the byte behind it counts as NUL.
\<close>

datatype sock_stat = LOGOUT | CONNECTED | RECV_HEAD_ING | RECV_BODY_ING

record vfs_cs_peer =
  header :: t_uc_oss_http_header
  p_fd :: int
  local_in_fd :: "ofile option"
  hbtime :: int
  p_ip :: uint32
  sstat :: sock_stat
  recvtask :: "addr option"

type_synonym sm_world = "(vfs_cs_peer, node_glob) world"

definition new_peer :: "int \<Rightarrow> int \<Rightarrow> uint32 \<Rightarrow> vfs_cs_peer" where
  "new_peer fd now ip = \<lparr>header = zero_header, p_fd = fd, local_in_fd = None, hbtime = now, p_ip = ip,
     sstat = CONNECTED, recvtask = None\<rparr>"

text \<open>The user data of a connection that has some, and a change of it.\<close>

definition peer_of :: "int \<Rightarrow> sm_world \<Rightarrow> vfs_cs_peer" where
  "peer_of fd w = (case user (conns w fd) of Some p \<Rightarrow> p | None \<Rightarrow> new_peer fd 0 0)"

definition upd_peer :: "int \<Rightarrow> (vfs_cs_peer \<Rightarrow> vfs_cs_peer) \<Rightarrow> sm_world \<Rightarrow> sm_world" where
  "upd_peer fd f w = set_user fd (Some (f (peer_of fd w))) w"

section \<open>Connections\<close>

definition svc_initconn :: "node_env \<Rightarrow> int \<Rightarrow> sm_world \<Rightarrow> int \<times> sm_world" where
  "svc_initconn e fd w =
     (let ip = peer_ip e fd
      in if user (conns w fd) = None \<and> \<not> conn_malloc e then (RET_CLOSE_MALLOC, w)
         else (0, online_add fd ip (alist_move_tail fd (set_user fd (Some (new_peer fd (clock e) ip)) w))))"

definition svc_finiconn :: "node_env \<Rightarrow> int \<Rightarrow> sm_world \<Rightarrow> sm_world" where
  "svc_finiconn e fd w =
     (case user (conns w fd) of
        None \<Rightarrow> w
      | Some p \<Rightarrow>
          let w = online_del fd (alist_del fd w);
              w = (case recvtask p of
                     Some x \<Rightarrow>
                       tq_upd (\<lambda>s. snd (vfs_set_task (q_lock e TASK_FIN) x TASK_FIN
                         (set_node x (\<lambda>n. n\<lparr>task := (task n)\<lparr>base := (base (task n))\<lparr>overstatus := OVER_PEERERR\<rparr>\<rparr>\<rparr>) s))) w
                   | None \<Rightarrow> w)
          in set_user fd None w)"

section \<open>The list of missing parts\<close>

definition wait_tmp_to_wait :: "env \<Rightarrow> task_state \<Rightarrow> int \<Rightarrow> int \<Rightarrow> task_state" where
  "wait_tmp_to_wait e s src dst =
     fold (\<lambda>x s. case vfs_get_task (q_lock e src) (malloc_ok e) src s of
                   (_, Some x, s) \<Rightarrow> snd (vfs_set_task (q_lock e dst) x dst s)
                 | (_, None, s) \<Rightarrow> s)
       (vfstask s src) s"

definition part_entry :: "string \<Rightarrow> int \<Rightarrow> int \<Rightarrow> string" where
  "part_entry fname idx count = fname @ '' '' @ dec_int idx @ '' '' @ dec_int count @ '':''"

text \<open>
  The loop over the waiting tasks, which \<^verbatim>\<open>once_run\<close> ends after \<^verbatim>\<open>cs_max_task_run_once\<close> rounds; \<open>n\<close> is the
  number of rounds left.  \<^verbatim>\<open>sublen\<close> is the length that \<^verbatim>\<open>snprintf\<close> reports, which is not cut.
\<close>

definition BUFLEN :: nat where "BUFLEN = 10240"

fun unok_loop :: "env \<Rightarrow> nat \<Rightarrow> string \<Rightarrow> string \<Rightarrow> task_state \<Rightarrow> string \<times> task_state" where
  "unok_loop e 0 host buf s = (buf, s)"
| "unok_loop e (Suc n) host buf s =
     (case vfs_get_task (q_lock e TASK_WAIT) (malloc_ok e) TASK_WAIT s of
        (_, None, s) \<Rightarrow> (buf, s)
      | (_, Some x, s) \<Rightarrow>
          let b = base (task (node s x)); u = sub (task (node s x))
          in if hostname b \<noteq> host
             then unok_loop e n host buf (snd (vfs_set_task (q_lock e TASK_WAIT_TMP) x TASK_WAIT_TMP s))
             else let entry = part_entry (filename b) (sub_idx u) (sub_count u)
                  in if length entry + length buf \<ge> BUFLEN
                     then (buf, snd (vfs_set_task (q_lock e TASK_WAIT_TMP) x TASK_WAIT_TMP s))
                     else unok_loop e n host (buf @ snprint 1024 entry)
                            (snd (vfs_set_task (q_lock e TASK_HOME) x TASK_HOME s)))"

definition get_task_unok :: "node_env \<Rightarrow> string \<Rightarrow> task_state \<Rightarrow> string \<times> task_state" where
  "get_task_unok e host s =
     (let s = wait_tmp_to_wait (env.truncate e) s TASK_WAIT_TMP TASK_WAIT;
          (buf, s) = unok_loop (env.truncate e) (cs_max_task_run_once (cfg e) - 1) host [] s
      in (sm_client_create_header buf, s))"

section \<open>Receiving\<close>

definition convert_httpheader_2_task ::
  "t_uc_oss_http_header \<Rightarrow> t_task_base \<Rightarrow> t_task_sub \<Rightarrow> t_task_base \<times> t_task_sub" where
  "convert_httpheader_2_task h b s =
     (b\<lparr>ftype := h_type h, filemd5 := snprint 36 (h_filemd5 h), filename := snprint 256 (h_filename h),
        hostname := snprint 256 (h_hostname h)\<rparr>,
      s\<lparr>sub_idx := h_idx h, sub_count := h_count h, sub_start := h_start h, sub_end := h_end h\<rparr>)"

definition set_base :: "addr \<Rightarrow> (t_task_base \<Rightarrow> t_task_base) \<Rightarrow> task_state \<Rightarrow> task_state" where
  "set_base x f s = set_node x (\<lambda>n. n\<lparr>task := (task n)\<lparr>base := f (base (task n))\<rparr>\<rparr>) s"

definition do_prepare_recvfile :: "node_env \<Rightarrow> int \<Rightarrow> int \<Rightarrow> sm_world \<Rightarrow> int \<times> sm_world" where
  "do_prepare_recvfile e fd fsz w =
     (let p = peer_of fd w
      in if sstat p \<noteq> RECV_HEAD_ING then (RECV_CLOSE, w)
         else case recvtask p of
           None \<Rightarrow> (RECV_CLOSE, w)
         | Some x \<Rightarrow>
             let w = tq_upd (set_base x (\<lambda>b. b\<lparr>fsize := fsz, getlen := 0\<rparr>)) w;
                 t = task (node (g_tq (glob w)) x);
                 (r, b, f, fs) = open_tmp_localfile_4_write (n_io e) (datadir e) (base t) (sub t)
                                   (map_option fst (local_in_fd p)) (g_fs (glob w));
                 w = fs_upd (\<lambda>_. fs) (tq_upd (set_base x (\<lambda>_. b)) w);
                 w = upd_peer fd (\<lambda>p. p\<lparr>local_in_fd := map_option (\<lambda>q. (q, 0)) f\<rparr>) w
             in if r \<noteq> LOCALFILE_OK
                then (RECV_CLOSE,
                      tq_upd (\<lambda>s. snd (vfs_set_task (q_lock e TASK_FIN) x TASK_FIN
                        (set_base x (\<lambda>b. b\<lparr>overstatus := OVER_E_OPEN_DSTFILE\<rparr>) s))) w)
                else (RECV_ADD_EPOLLIN, upd_peer fd (\<lambda>p. p\<lparr>sstat := RECV_BODY_ING\<rparr>) w))"

definition check_req :: "node_env \<Rightarrow> int \<Rightarrow> sm_world \<Rightarrow> int \<times> sm_world" where
  "check_req e fd w =
     (case get_client_data fd w of (r, data) \<Rightarrow>
        if r \<noteq> 0 then (-1, w)
        else case strstr (cstr data) (CRLF @ CRLF) of
          None \<Rightarrow> (-1, w)
        | Some k \<Rightarrow>
            let clen = k + 4;
                w = upd_peer fd (\<lambda>p. p\<lparr>sstat := RECV_HEAD_ING\<rparr>) w;
                (pr, h, buf) = sm_client_parse_header (header (peer_of fd w)) (cstr data);
                w = put_back fd (buf @ drop (length buf) data) (upd_peer fd (\<lambda>p. p\<lparr>header := h\<rparr>) w)
            in if pr \<noteq> 0 \<and> h_type h \<noteq> 250 then (RECV_CLOSE, w)
               else if h_type h = 250
               then let (taskbuf, s) = get_task_unok e (h_hostname h) (g_tq (glob w))
                    in (RECV_SEND, set_client_data (buff_size e) fd taskbuf (tq_upd (\<lambda>_. s) w))
               else case vfs_get_task (q_lock e TASK_HOME) (malloc_ok e) TASK_HOME (g_tq (glob w)) of
                 (_, None, s) \<Rightarrow> (-1, tq_upd (\<lambda>_. s) w)
               | (_, Some x, s) \<Rightarrow>
                   let (b, u) = convert_httpheader_2_task h (zero_base\<lparr>usrcip := p_ip (peer_of fd w)\<rparr>) zero_sub;
                       w = tq_upd (\<lambda>_. set_node x (\<lambda>n. n\<lparr>task := \<lparr>base = b, sub = u\<rparr>\<rparr>) s) w;
                       w = upd_peer fd (\<lambda>p. p\<lparr>recvtask := Some x\<rparr>) w;
                       (r, w) = do_prepare_recvfile e fd (h_end h - h_start h + 1) w
                   in (r, consume_client_data fd clen w))"

text \<open>The branch of \<^verbatim>\<open>svc_recv\<close> for \<open>RECV_BODY_ING\<close>.\<close>

definition recv_body :: "node_env \<Rightarrow> int \<Rightarrow> sm_world \<Rightarrow> int \<times> sm_world" where
  "recv_body e fd w =
     (let p = peer_of fd w
      in case recvtask p of
        None \<Rightarrow> (RECV_CLOSE, w)
      | Some x \<Rightarrow>
          (case get_client_data fd w of (r, data) \<Rightarrow>
             if r \<noteq> 0 then (RECV_ADD_EPOLLIN, w)
             else
               let b = base (task (node (g_tq (glob w)) x));
                   remainlen = to_int32 (fsize b - getlen b);
                   datalen = (if remainlen < 0 then length data else min (length data) (nat remainlen));
                   n = (case local_in_fd p of Some f \<Rightarrow> write_res (n_io e) (snd f) datalen | None \<Rightarrow> -1)
               in if n < 0 then (RECV_CLOSE, w)
                  else
                    let w = (case local_in_fd p of
                               Some f \<Rightarrow>
                                 upd_peer fd (\<lambda>p. p\<lparr>local_in_fd := Some (fst f, snd f + nat n)\<rparr>)
                                   (fs_upd (fwrite f (take (nat n) data)) w)
                             | None \<Rightarrow> w);
                        w = consume_client_data fd (nat n) w;
                        w = tq_upd (set_base x (\<lambda>b. b\<lparr>getlen := getlen b + n\<rparr>)) w
                    in if getlen b + n \<ge> fsize b
                       then if close_tmp_check_mv (map_option fst (local_in_fd p)) \<noteq> LOCALFILE_OK
                            then (RECV_CLOSE,
                                  tq_upd (\<lambda>s. snd (vfs_set_task (q_lock e TASK_FIN) x TASK_FIN
                                    (set_base x (\<lambda>b. b\<lparr>overstatus := OVER_E_MD5\<rparr>) s)))
                                    (upd_peer fd (\<lambda>p. p\<lparr>recvtask := None\<rparr>) w))
                            else (RECV_CLOSE,
                                  upd_peer fd (\<lambda>p. p\<lparr>local_in_fd := None, recvtask := None\<rparr>)
                                    (tq_upd (\<lambda>s. snd (vfs_set_task (q_lock e TASK_FIN) x TASK_FIN
                                      (set_base x (\<lambda>b. b\<lparr>overstatus := OVER_OK\<rparr>) s))) w))
                       else (RECV_ADD_EPOLLIN, w)))"

definition touch :: "node_env \<Rightarrow> int \<Rightarrow> sm_world \<Rightarrow> sm_world" where
  "touch e fd w = alist_move_tail fd (upd_peer fd (\<lambda>p. p\<lparr>hbtime := clock e\<rparr>) w)"

text \<open>
  \<^verbatim>\<open>svc_recv\<close>.  The loop around \<^verbatim>\<open>check_req\<close> is left in its first round: a result other than the three
  that are tested means that the connection is in \<open>RECV_BODY_ING\<close> (\<open>check_req_body\<close>), and the
  \<^verbatim>\<open>goto\<close> leads to the first branch, which returns.
\<close>

definition svc_recv :: "node_env \<Rightarrow> int \<Rightarrow> sm_world \<Rightarrow> int \<times> sm_world" where
  "svc_recv e fd w =
     (let w = touch e fd w
      in if sstat (peer_of fd w) = RECV_BODY_ING then recv_body e fd w
         else case check_req e fd w of (subret, w) \<Rightarrow>
           if subret = -1 then (RECV_ADD_EPOLLIN, w)
           else if subret = RECV_SEND then (RECV_SEND, w)
           else if subret = RECV_CLOSE then (RECV_CLOSE, upd_peer fd (\<lambda>p. p\<lparr>recvtask := None\<rparr>) w)
           else recv_body e fd (touch e fd w))"

definition svc_send :: "node_env \<Rightarrow> int \<Rightarrow> sm_world \<Rightarrow> int \<times> sm_world" where
  "svc_send e fd w = (SEND_CLOSE, touch e fd w)"

definition svc_send_once :: "node_env \<Rightarrow> int \<Rightarrow> sm_world \<Rightarrow> int \<times> sm_world" where
  "svc_send_once e fd w = (SEND_ADD_EPOLLIN, upd_peer fd (\<lambda>p. p\<lparr>hbtime := clock e\<rparr>) w)"

text \<open>
  \<^verbatim>\<open>svc_timeout\<close>: \<open>is_cs\<close> is the test of the node's role, \<open>to\<close> ten times the configured timeout.  The list is
  ordered by the time of the last activity, so the first connection in time ends the loop.
\<close>

fun close_idle :: "node_env \<Rightarrow> int \<Rightarrow> int list \<Rightarrow> sm_world \<Rightarrow> sm_world" where
  "close_idle e to [] w = w"
| "close_idle e to (fd # fds) w =
     (if clock e - hbtime (peer_of fd w) < to then w
      else close_idle e to fds (do_close (svc_finiconn e) (max_fds e) (p_fd (peer_of fd w)) w))"

definition svc_timeout :: "node_env \<Rightarrow> bool \<Rightarrow> int \<Rightarrow> sm_world \<Rightarrow> sm_world" where
  "svc_timeout e is_cs to w = (if is_cs then close_idle e to (activelist (glob w)) w else w)"

end
