(* ===== verification/UcClient.thy ===== *)
theory UcClient
  imports SmClient
begin

text \<open>
  The sending service of an upload node: \<^verbatim>\<open>src/network/uc_client/vfs_data.c\<close> with the files it includes
  (\<^verbatim>\<open>vfs_data_base.c\<close>, \<^verbatim>\<open>vfs_data_sub.c\<close>, \<^verbatim>\<open>vfs_data_dir_sync.c\<close>, \<^verbatim>\<open>vfs_data_inotify.c\<close>).  A changed
  file is cut into parts, one task per part on \<open>TASK_WAIT_SYNC\<close>; the timeout handler opens a
  connection for each task and puts the header and the range of the file into its send buffer.

  The connection record is that of \<open>SmClient\<close>: the two structures differ in \<^verbatim>\<open>header\<close>, which this service
  does not have and no definition below touches.
\<close>

type_synonym uc_world = sm_world

section \<open>Cutting a file\<close>

definition uc_insert_sub_task ::
  "node_env \<Rightarrow> t_task_base \<Rightarrow> int \<Rightarrow> int \<Rightarrow> int \<Rightarrow> int \<Rightarrow> task_state \<Rightarrow> int \<times> task_state" where
  "uc_insert_sub_task e b idx count start end s =
     put_new e TASK_WAIT_SYNC
       \<lparr>base = b\<lparr>stime := clock e\<rparr>,
        sub = zero_sub\<lparr>sub_idx := idx, sub_count := count, sub_start := start, sub_end := end, starttime := clock e\<rparr>\<rparr> s"

text \<open>\<^verbatim>\<open>dirname\<close> of \<^verbatim>\<open>libgen.h\<close>.\<close>

definition drop_slashes :: "string \<Rightarrow> string" where
  "drop_slashes s = rev (dropWhile (\<lambda>c. c = CHR ''/'') (rev s))"

definition dirname :: "string \<Rightarrow> string" where
  "dirname s =
     (let t = drop_slashes s
      in if s = [] then ''.''
         else if t = [] then (if s = ''//'' then ''//'' else ''/'')
         else case strrchr t (CHR ''/'') of
           None \<Rightarrow> ''.''
         | Some i \<Rightarrow>
             let d = drop_slashes (take i t)
             in if d = [] then (if i = 1 then ''//'' else ''/'') else d)"

definition update_sync_time :: "node_env \<Rightarrow> string \<Rightarrow> fsys \<Rightarrow> fsys" where
  "update_sync_time e fname fs =
     (if \<not> is_there fs fname then fs
      else let p = snprint 256 (dirname fname @ ''/.sync_time''); (ok, fs) = creat (n_io e) p fs
           in if ok then fs\<lparr>files := (files fs)(p \<mapsto> dec_int (ctime_of e fname))\<rparr> else fs)"

function split_loop ::
  "node_env \<Rightarrow> t_task_base \<Rightarrow> int \<Rightarrow> int \<Rightarrow> int \<Rightarrow> task_state \<Rightarrow> int \<times> task_state" where
  "split_loop e b n idx start s =
     (if idx > n then (0, s)
      else let end = (if idx = n then fsize b - 1 else start + splic_min_size (cfg e) - 1);
               (r, s) = uc_insert_sub_task e b idx n start end s
           in if r \<noteq> 0 then (-1, s) else split_loop e b n (idx + 1) (start + splic_min_size (cfg e)) s)"
  by pat_completeness auto
termination by (relation "measure (\<lambda>(e, b, n, idx, start, s). nat (n + 1 - idx))") auto

declare split_loop.simps [simp del]

definition split_task :: "node_env \<Rightarrow> t_task_base \<Rightarrow> task_state \<Rightarrow> fsys \<Rightarrow> int \<times> task_state \<times> fsys" where
  "split_task e b s fs =
     (if fsize b = 0 then (0, s, fs)
      else let fs = update_sync_time e (snprint 256 (filename b)) fs;
               b = b\<lparr>hostname := snprint 256 (self_host e)\<rparr>;
               (r, s) = split_loop e b (splic_count (splic_min_size (cfg e)) (fsize b)) 1 0 s
           in (r, s, fs))"

definition split_in :: "node_env \<Rightarrow> t_task_base \<Rightarrow> uc_world \<Rightarrow> uc_world" where
  "split_in e b w =
     (case split_task e b (g_tq (glob w)) (g_fs (glob w)) of (r, s, fs) \<Rightarrow> tq_upd (\<lambda>_. s) (fs_upd (\<lambda>_. fs) w))"

section \<open>Sending a part\<close>

definition uc_active_connect :: "node_env \<Rightarrow> uc_world \<Rightarrow> int \<times> uc_world" where
  "uc_active_connect e w =
     (let (fd, w) = next_fd w
      in if fd < 0 then (-1, w)
         else let (r, w) = svc_initconn e fd w
              in if r \<noteq> 0 then (-1, w\<lparr>shut := shut w @ [fd]\<rparr>)
                 else (fd, add_fd_2_efd (buff_size e) fd w))"

definition uc_active_send :: "node_env \<Rightarrow> int \<Rightarrow> string \<Rightarrow> t_task_sub \<Rightarrow> int \<Rightarrow> uc_world \<Rightarrow> int \<times> uc_world" where
  "uc_active_send e fd d u lfd w =
     (let w = set_client_data (buff_size e) fd d w;
          w = set_client_fd fd lfd (sub_start u) (nat (sub_end u - sub_start u + 1)) w
      in (0, modify_fd_event fd EPOLLOUT w))"

definition inotify_new_task :: "node_env \<Rightarrow> t_task_base \<Rightarrow> t_task_sub \<Rightarrow> uc_world \<Rightarrow> int \<times> uc_world" where
  "inotify_new_task e b u w =
     (let httpheader = uc_client_create_header b u; (lfd, w) = open_read e (filename b) w
      in if lfd < 0 then (-1, w)
         else let (fd, w) = uc_active_connect e w
              in if fd < 0 then (-1, w) else uc_active_send e fd httpheader u lfd w)"

text \<open>The second loop of \<^verbatim>\<open>check_task\<close>, with the number of rounds left.\<close>

fun check_task_loop :: "node_env \<Rightarrow> nat \<Rightarrow> uc_world \<Rightarrow> uc_world" where
  "check_task_loop e 0 w = w"
| "check_task_loop e (Suc n) w =
     (case vfs_get_task (q_lock e TASK_WAIT_SYNC) (malloc_ok e) TASK_WAIT_SYNC (g_tq (glob w)) of
        (_, None, s) \<Rightarrow> tq_upd (\<lambda>_. s) w
      | (_, Some x, s) \<Rightarrow>
          let w = tq_upd (\<lambda>_. s) w; t = task (node s x);
              (r, w) = inotify_new_task e (base t) (sub t) w;
              st = (if r \<noteq> 0 then TASK_WAIT_TMP else TASK_HOME)
          in check_task_loop e n (tq_upd (\<lambda>s. snd (vfs_set_task (q_lock e st) x st s)) w))"

definition check_task :: "node_env \<Rightarrow> uc_world \<Rightarrow> uc_world" where
  "check_task e w =
     check_task_loop e (cs_max_task_run_once (cfg e) - 1)
       (tq_upd (\<lambda>s. wait_tmp_to_wait (env.truncate e) s TASK_WAIT_TMP TASK_WAIT_SYNC) w)"

section \<open>The service\<close>

definition uc_svc_finiconn :: "node_env \<Rightarrow> int \<Rightarrow> uc_world \<Rightarrow> uc_world" where
  "uc_svc_finiconn e fd w =
     (case user (conns w fd) of
        None \<Rightarrow> w
      | Some p \<Rightarrow>
          let w = online_del fd (alist_del fd w);
              w = (case recvtask p of
                     Some x \<Rightarrow>
                       tq_upd (\<lambda>s. snd (vfs_set_task (q_lock e TASK_FIN) x TASK_FIN
                           (set_base x (\<lambda>b. b\<lparr>overstatus := OVER_PEERERR\<rparr>) s)))
                         (fs_upd (real_rm_file (n_io e) (tmpfile (base (task (node (g_tq (glob w)) x))))) w)
                   | None \<Rightarrow> w)
          in set_user fd None w)"

definition uc_check_req :: "node_env \<Rightarrow> int \<Rightarrow> uc_world \<Rightarrow> int \<times> uc_world" where
  "uc_check_req e fd w =
     (case get_client_data fd w of (r, data) \<Rightarrow>
        if r \<noteq> 0 then (-1, w)
        else case strstr (cstr data) (CRLF @ CRLF) of
          None \<Rightarrow> (-1, w)
        | Some k \<Rightarrow>
            case strstr (cstr data) ''HTTP/'' of
              None \<Rightarrow> (RECV_CLOSE, w)
            | Some i \<Rightarrow>
                case strchr (drop i (cstr data)) SPACE of
                  None \<Rightarrow> (RECV_CLOSE, w)
                | Some j \<Rightarrow>
                    if atoi (drop (i + j + 1) (cstr data)) \<noteq> 200 then (RECV_CLOSE, w)
                    else (RECV_CLOSE, consume_client_data fd (k + 4) w))"

text \<open>\<^verbatim>\<open>svc_recv\<close>: \<^verbatim>\<open>check_req\<close> returns only the two results that leave the loop.  The branch for
  \<open>RECV_BODY_ING\<close> is that of \<open>SmClient\<close>.\<close>

definition uc_svc_recv :: "node_env \<Rightarrow> int \<Rightarrow> uc_world \<Rightarrow> int \<times> uc_world" where
  "uc_svc_recv e fd w =
     (let w = touch e fd w
      in if sstat (peer_of fd w) = RECV_BODY_ING then recv_body e fd w
         else case uc_check_req e fd w of (subret, w) \<Rightarrow>
           if subret = -1 then (RECV_ADD_EPOLLIN, w)
           else (RECV_CLOSE, upd_peer fd (\<lambda>p. p\<lparr>recvtask := None\<rparr>) w))"

definition uc_svc_send :: "node_env \<Rightarrow> int \<Rightarrow> uc_world \<Rightarrow> int \<times> uc_world" where
  "uc_svc_send e fd w = (SEND_ADD_EPOLLIN, touch e fd w)"

fun uc_close_idle :: "node_env \<Rightarrow> int \<Rightarrow> int list \<Rightarrow> uc_world \<Rightarrow> uc_world" where
  "uc_close_idle e to [] w = w"
| "uc_close_idle e to (fd # fds) w =
     (if clock e - hbtime (peer_of fd w) < to then w
      else uc_close_idle e to fds (do_close (uc_svc_finiconn e) (max_fds e) (p_fd (peer_of fd w)) w))"

definition uc_svc_timeout :: "node_env \<Rightarrow> bool \<Rightarrow> uc_world \<Rightarrow> uc_world" where
  "uc_svc_timeout e is_cs w =
     check_task e (if is_cs then uc_close_idle e (int (conn_timeout (cfg e)) * 10) (activelist (glob w)) w else w)"

end
