(* ===== verification/UcWatch.thy ===== *)
theory UcWatch
  imports UcClient
begin

text \<open>
  How an upload node notices files: \<^verbatim>\<open>src/network/uc_client/vfs_data_inotify.c\<close>, which watches the data
  directory, and \<^verbatim>\<open>vfs_data_dir_sync.c\<close>, which walks it once at the start.

  \<open>readdir\<close> gives the entries of a directory, \<open>None\<close> when it cannot be opened.  The directory tree is walked to
  the depth given by the first argument.
  \<open>wd_results\<close> are the results of the coming calls of \<^verbatim>\<open>inotify_add_watch\<close>.
\<close>

record watch_state =
  watch_dirs :: "int \<Rightarrow> string"
  wd_results :: "int list"

record inotify_event =
  ev_wd :: int
  ev_mask :: uint32
  ev_name :: string

definition IN_CLOSE_WRITE :: uint32 where "IN_CLOSE_WRITE = 0x8"
definition IN_MOVED_FROM :: uint32 where "IN_MOVED_FROM = 0x40"
definition IN_MOVED_TO :: uint32 where "IN_MOVED_TO = 0x80"
definition IN_CREATE :: uint32 where "IN_CREATE = 0x100"
definition IN_DELETE :: uint32 where "IN_DELETE = 0x200"
definition MAX_WATCH :: int where "MAX_WATCH = 10240"

lemmas in_masks = IN_CLOSE_WRITE_def IN_MOVED_FROM_def IN_MOVED_TO_def IN_CREATE_def IN_DELETE_def

definition hidden :: "string \<Rightarrow> bool" where
  "hidden n \<longleftrightarrow> take 1 n = ''.''"

definition next_wd :: "watch_state \<Rightarrow> int \<times> watch_state" where
  "next_wd ws = (case wd_results ws of [] \<Rightarrow> (-1, ws) | wd # wds \<Rightarrow> (wd, ws\<lparr>wd_results := wds\<rparr>))"

fun add_watch :: "nat \<Rightarrow> (string \<Rightarrow> string list option) \<Rightarrow> fsys \<Rightarrow> string \<Rightarrow> watch_state \<Rightarrow> int \<times> watch_state"
  and add_watch_entries :: "nat \<Rightarrow> (string \<Rightarrow> string list option) \<Rightarrow> fsys \<Rightarrow> string \<Rightarrow> string list \<Rightarrow> watch_state \<Rightarrow>
    int \<times> watch_state" where
  "add_watch 0 readdir fs indir ws = (-1, ws)"
| "add_watch (Suc k) readdir fs indir ws =
     (case next_wd ws of (wd, ws) \<Rightarrow>
        if wd = -1 then (-1, ws)
        else if wd \<ge> MAX_WATCH then (-1, ws)
        else let ws = ws\<lparr>watch_dirs := (watch_dirs ws)(wd := snprint 256 indir)\<rparr>
             in case readdir indir of
                  None \<Rightarrow> (-1, ws)
                | Some names \<Rightarrow> add_watch_entries k readdir fs indir names ws)"
| "add_watch_entries k readdir fs indir [] ws = (0, ws)"
| "add_watch_entries k readdir fs indir (n # names) ws =
     (let file = snprint 256 (indir @ ''/'' @ n)
      in if hidden n \<or> \<not> is_there fs file then add_watch_entries k readdir fs indir names ws
         else if file \<in> dirs fs
         then case add_watch k readdir fs file ws of (r, ws) \<Rightarrow>
                if r \<noteq> 0 then (-1, ws) else add_watch_entries k readdir fs indir names ws
         else add_watch_entries k readdir fs indir names ws)"

definition inotify_event_handler ::
  "node_env \<Rightarrow> (string \<Rightarrow> string list option) \<Rightarrow> inotify_event \<Rightarrow> watch_state \<Rightarrow> uc_world \<Rightarrow> watch_state \<times> uc_world" where
  "inotify_event_handler e readdir ev ws w =
     (if hidden (ev_name ev) then (ws, w)
      else
        let path = watch_dirs ws (ev_wd ev) @ ''/'' @ ev_name ev; fs = g_fs (glob w)
        in if ev_mask ev AND IN_CREATE \<noteq> 0
           then if \<not> is_there fs path then (ws, w)
                else if path \<in> dirs fs then (snd (add_watch 256 readdir fs path ws), w)
                else (ws, w)
           else
             let t = zero_base\<lparr>filename := snprint 256 path\<rparr>;
                 added = (ev_mask ev AND IN_CLOSE_WRITE \<noteq> 0 \<or> ev_mask ev AND IN_MOVED_TO \<noteq> 0);
                 (r, t) = (if added then get_localfile_stat (n_io e) (ctime_of e) t fs else (LOCALFILE_OK, t))
             in if r \<noteq> LOCALFILE_OK then (ws, w)
                else
                  let t = (if added then t\<lparr>ftype := TASK_ADDFILE\<rparr> else t);
                      t = (if ev_mask ev AND IN_DELETE \<noteq> 0 \<or> ev_mask ev AND IN_MOVED_FROM \<noteq> 0
                           then t\<lparr>ftype := TASK_DELFILE\<rparr> else t)
                  in (ws, split_in e t w))"

section \<open>The walk at the start\<close>

definition get_sync_time :: "io \<Rightarrow> string \<Rightarrow> fsys \<Rightarrow> int" where
  "get_sync_time io indir fs =
     (let p = snprint 256 (indir @ ''/.sync_time'')
      in case files fs p of
           None \<Rightarrow> 0
         | Some c \<Rightarrow> if can_open io p then atol (takeWhile (\<lambda>c. c \<noteq> LF) (take 15 (cstr c))) else 0)"

fun do_sync_dir :: "nat \<Rightarrow> node_env \<Rightarrow> (string \<Rightarrow> string list option) \<Rightarrow> string \<Rightarrow> uc_world \<Rightarrow> uc_world"
  and sync_entries :: "nat \<Rightarrow> node_env \<Rightarrow> (string \<Rightarrow> string list option) \<Rightarrow> string \<Rightarrow> int \<Rightarrow> string list \<Rightarrow> uc_world \<Rightarrow>
    uc_world" where
  "do_sync_dir 0 e readdir indir w = w"
| "do_sync_dir (Suc k) e readdir indir w =
     (case readdir indir of
        None \<Rightarrow> w
      | Some names \<Rightarrow>
          sync_entries k e readdir indir (get_sync_time (n_io e) indir (g_fs (glob w))) names w)"
| "sync_entries k e readdir indir t0 [] w = w"
| "sync_entries k e readdir indir t0 (n # names) w =
     (let file = snprint 256 (indir @ ''/'' @ n); fs = g_fs (glob w)
      in if hidden n \<or> \<not> is_there fs file then sync_entries k e readdir indir t0 names w
         else if file \<in> dirs fs then sync_entries k e readdir indir t0 names (do_sync_dir k e readdir file w)
         else case get_localfile_stat (n_io e) (ctime_of e) (zero_base\<lparr>filename := file\<rparr>) fs of (r, b) \<Rightarrow>
           if r \<noteq> LOCALFILE_OK \<or> file_ctime b < t0 then sync_entries k e readdir indir t0 names w
           else sync_entries k e readdir indir t0 names (split_in e (b\<lparr>ftype := TASK_ADDFILE\<rparr>) w))"

end
