(* ===== verification/SmReceive.thy ===== *)
theory SmReceive
  imports SmClient TaskQueueProps
begin

text \<open>
  What the receiving service does with a part that arrives in pieces: the phases of a connection of
  \<open>SmClient\<close> as lemmas, and their composition over any sequence of pieces.
\<close>

section \<open>Frame rules\<close>

lemma peer_frame [simp]:
  "peer_of fd (tq_upd f w) = peer_of fd w" "peer_of fd (fs_upd h w) = peer_of fd w"
  "peer_of fd (alist_move_tail k w) = peer_of fd w" "peer_of fd (consume_client_data k n w) = peer_of fd w"
  "peer_of fd (put_back k d w) = peer_of fd w" "peer_of fd (arrive bs k d w) = peer_of fd w"
  "peer_of fd (upd_peer fd g w) = g (peer_of fd w)"
  by (simp_all add: peer_of_def upd_peer_def)

lemma upd_peer_frame [simp]:
  "glob (upd_peer fd g w) = glob w" "recv_ok fd (upd_peer fd g w) = recv_ok fd w"
  "received fd (upd_peer fd g w) = received fd w"
  by (simp_all add: upd_peer_def)

lemma touch_frame [simp]:
  "g_tq (glob (touch e fd w)) = g_tq (glob w)" "g_fs (glob (touch e fd w)) = g_fs (glob w)"
  "recv_ok fd (touch e fd w) = recv_ok fd w" "received fd (touch e fd w) = received fd w"
  "peer_of fd (touch e fd w) = (peer_of fd w)\<lparr>hbtime := clock e\<rparr>"
  by (simp_all add: touch_def)

lemma set_base_frame [simp]:
  "detached (set_base x f s) y = detached s y" "top (set_base x f s) = top s" "alltask (set_base x f s) = alltask s"
  "vfstask (set_base x f s) = vfstask s"
  "base (task (node (set_base x f s) x)) = f (base (task (node s x)))"
  "sub (task (node (set_base x f s) x)) = sub (task (node s x))"
  by (simp_all add: set_base_def set_node_def detached_def)

lemma other_conns [simp]:
  "k \<noteq> fd \<Longrightarrow> conns (upd_peer fd g w) k = conns w k" "k \<noteq> fd \<Longrightarrow> conns (touch e fd w) k = conns w k"
  "k \<noteq> fd \<Longrightarrow> conns (arrive bs fd d w) k = conns w k" "k \<noteq> fd \<Longrightarrow> conns (put_back fd d w) k = conns w k"
  "k \<noteq> fd \<Longrightarrow> conns (consume_client_data fd n w) k = conns w k"
  by (simp_all add: upd_peer_def touch_def set_user_def arrive_def put_back_def consume_client_data_def upd_conn_def)

lemma other_node [simp]: "y \<noteq> x \<Longrightarrow> node (set_base x f s) y = node s y"
  by (simp add: set_base_def set_node_def)

text \<open>Nothing of a task that is held and not hashed matters to the invariant.\<close>

definition held :: "task_state \<Rightarrow> addr \<Rightarrow> bool" where
  "held s x \<longleftrightarrow> tq_inv s \<and> detached s x \<and> (\<forall>i. x \<notin> set (alltask s i))"

lemma held_write: "held s x \<Longrightarrow> held (set_node x f s) x"
  by (auto simp: held_def detached_def set_node_def intro!: tq_inv_write [unfolded set_node_def])

lemma held_set_base: "held s x \<Longrightarrow> held (set_base x f s) x"
  unfolding set_base_def by (rule held_write)

lemma held_take_home:
  assumes "tq_inv s" "pool_clean s" "\<not> lock_failed lk"
  shows "\<exists>x s'. vfs_get_task lk True TASK_HOME s = (GET_TASK_OK, Some x, s') \<and> held s' x \<and>
    vfstask s' = (\<lambda>j. removeAll x (vfstask s j)) \<and> (x \<in> set (vfstask s TASK_HOME) \<or> x = top s) \<and>
    alltask s' = alltask s \<and> (\<forall>y. y \<noteq> x \<longrightarrow> node s' y = node s y)"
proof -
  obtain x s' where g: "vfs_get_task lk True TASK_HOME s = (GET_TASK_OK, Some x, s')"
    and x: "x \<in> set (vfstask s TASK_HOME) \<or> x = top s" and a: "alltask s' = alltask s"
    and f: "\<forall>j. vfstask s' j = removeAll x (vfstask s j)" "\<forall>y. y \<noteq> x \<longrightarrow> node s' y = node s y"
    using get_home_some [OF assms(3,1)] by blast
  have "tq_inv s'" using tq_inv_get [OF assms(1), of lk True TASK_HOME] g by simp
  moreover have "detached s' x" using get_detached [OF assms(1) g] by simp
  moreover have "x \<notin> set (alltask s i)" for i
    using x assms(1,2) by (auto simp: pool_clean_def tq_inv_def alltask_ok_def)
  ultimately show ?thesis using g a f x by (auto simp: held_def fun_eq_iff)
qed

section \<open>The header\<close>

text \<open>No header yet: wait for more.\<close>

lemma svc_recv_no_header:
  assumes "sstat (peer_of fd w) \<noteq> RECV_BODY_ING" "recv_ok fd w" "strstr (cstr (received fd w)) (CRLF @ CRLF) = None"
  shows "svc_recv e fd w = (RECV_ADD_EPOLLIN, touch e fd w)"
proof -
  have "strstr [] (CRLF @ CRLF) = None" by simp
  then have "check_req e fd (touch e fd w) = (-1, touch e fd w)"
    using assms(2,3) by (simp add: check_req_def get_client_data_received split: option.split)
  with assms(1) show ?thesis by (simp add: svc_recv_def Let_def)
qed

text \<open>The loop of \<^verbatim>\<open>svc_recv\<close> does not come round: \<^verbatim>\<open>check_req\<close> leaves the connection in the
  body state or returns one of the three results tested.\<close>

lemma check_req_body:
  assumes "check_req e fd w = (r, w')" "r \<noteq> -1" "r \<noteq> RECV_SEND" "r \<noteq> RECV_CLOSE"
  shows "sstat (peer_of fd w') = RECV_BODY_ING"
proof -
  have prep: "do_prepare_recvfile e fd n v = (r, v') \<Longrightarrow> r \<noteq> RECV_CLOSE \<Longrightarrow>
      sstat (peer_of fd v') = RECV_BODY_ING" for n v r v'
    by (auto simp: do_prepare_recvfile_def Let_def split: option.splits if_splits prod.splits)
  show ?thesis
    using assms
    by (auto simp: check_req_def Let_def split: option.splits if_splits prod.splits dest!: prep)
qed

section \<open>The body\<close>

text \<open>
  What the handling of one part leaves alone: the other files and connections, the table of all tasks, the other
  tasks, and the queues but the two the task goes through.
\<close>

definition others_kept :: "int \<Rightarrow> addr \<Rightarrow> string \<Rightarrow> sm_world \<Rightarrow> sm_world \<Rightarrow> bool" where
  "others_kept fd x path w w' \<longleftrightarrow>
     (\<forall>q. q \<noteq> path \<longrightarrow> files (g_fs (glob w')) q = files (g_fs (glob w)) q) \<and>
     (\<forall>k. k \<noteq> fd \<longrightarrow> conns w' k = conns w k) \<and>
     alltask (g_tq (glob w')) = alltask (g_tq (glob w)) \<and>
     (\<forall>y. y \<noteq> x \<longrightarrow> task (node (g_tq (glob w')) y) = task (node (g_tq (glob w)) y)) \<and>
     (\<forall>i. i \<noteq> TASK_HOME \<longrightarrow> i \<noteq> TASK_FIN \<longrightarrow> vfstask (g_tq (glob w')) i = vfstask (g_tq (glob w)) i) \<and>
     set (vfstask (g_tq (glob w')) TASK_HOME) \<subseteq> set (vfstask (g_tq (glob w)) TASK_HOME)"

lemma others_kept_trans: "others_kept fd x path w w1 \<Longrightarrow> others_kept fd x path w1 w2 \<Longrightarrow> others_kept fd x path w w2"
  unfolding others_kept_def by auto

text \<open>The task of a part carries the names and the number that the sender's task \<open>b\<close>, \<open>u\<close> has.\<close>

definition same_part :: "t_task_base \<Rightarrow> t_task_sub \<Rightarrow> t_vfs_taskinfo \<Rightarrow> bool" where
  "same_part b u t \<longleftrightarrow> filename (base t) = filename b \<and> hostname (base t) = hostname b \<and>
     filemd5 (base t) = filemd5 b \<and> expire (base t) = 0 \<and> sub_idx (sub t) = sub_idx u \<and> sub_count (sub t) = sub_count u"

text \<open>
  The connection receives the body of a part: \<open>x\<close> is its task, \<open>path\<close> the part file, which holds \<open>c\<close>, and
  \<open>plen\<close> the length of the part; \<open>w0\<close> is the state before the part began.
\<close>

definition receiving ::
  "int \<Rightarrow> addr \<Rightarrow> t_task_base \<Rightarrow> t_task_sub \<Rightarrow> string \<Rightarrow> nat \<Rightarrow> string \<Rightarrow> sm_world \<Rightarrow> sm_world \<Rightarrow> bool" where
  "receiving fd x b u path plen c w0 w \<longleftrightarrow>
     sstat (peer_of fd w) = RECV_BODY_ING \<and> recvtask (peer_of fd w) = Some x \<and>
     local_in_fd (peer_of fd w) = Some (path, length c) \<and> files (g_fs (glob w)) path = Some c \<and>
     fsize (base (task (node (g_tq (glob w)) x))) = int plen \<and>
     getlen (base (task (node (g_tq (glob w)) x))) = int (length c) \<and>
     tmpfile (base (task (node (g_tq (glob w)) x))) = path \<and>
     same_part b u (task (node (g_tq (glob w)) x)) \<and>
     held (g_tq (glob w)) x \<and> recv_ok fd w \<and> length c < plen \<and> plen < 2 ^ 31 \<and>
     others_kept fd x path w0 w \<and> vfstask (g_tq (glob w)) TASK_FIN = vfstask (g_tq (glob w0)) TASK_FIN"

text \<open>The part is complete: its task has been added at the end of \<open>TASK_FIN\<close>.\<close>

definition part_done ::
  "int \<Rightarrow> addr \<Rightarrow> t_task_base \<Rightarrow> t_task_sub \<Rightarrow> string \<Rightarrow> string \<Rightarrow> sm_world \<Rightarrow> sm_world \<Rightarrow> bool" where
  "part_done fd x b u path c w0 w \<longleftrightarrow>
     files (g_fs (glob w)) path = Some c \<and> tq_inv (g_tq (glob w)) \<and>
     vfstask (g_tq (glob w)) TASK_FIN = vfstask (g_tq (glob w0)) TASK_FIN @ [x] \<and>
     overstatus (base (task (node (g_tq (glob w)) x))) = OVER_OK \<and>
     tmpfile (base (task (node (g_tq (glob w)) x))) = path \<and>
     same_part b u (task (node (g_tq (glob w)) x)) \<and> others_kept fd x path w0 w \<and>
     (\<forall>i. x \<notin> set (alltask (g_tq (glob w)) i))"

definition env_full :: "node_env \<Rightarrow> bool" where
  "env_full e \<longleftrightarrow> env_good e \<and> (\<forall>p. can_open (n_io e) p) \<and> (\<forall>p. can_mkdir (n_io e) p) \<and>
     (\<forall>off n. write_res (n_io e) off n = int n) \<and> 0 < buff_size e"

lemma set_task_fin:
  assumes "held s x" "\<not> lock_failed lk"
  shows "tq_inv (snd (vfs_set_task lk x TASK_FIN s))"
    and "vfstask (snd (vfs_set_task lk x TASK_FIN s)) = (vfstask s)(TASK_FIN := vfstask s TASK_FIN @ [x])"
    and "task (node (snd (vfs_set_task lk x TASK_FIN s)) y) = task (node s y)"
    and "alltask (snd (vfs_set_task lk x TASK_FIN s)) = alltask s"
proof -
  have d: "tq_inv s" "detached s x" using assms(1) by (auto simp: held_def)
  have "\<not> bad_status TASK_FIN" by (simp add: bad_status_def)
  note eq = set_vfs_set_task [OF this assms(2) d(2)]
  show "tq_inv (snd (vfs_set_task lk x TASK_FIN s))" by (rule tq_inv_set [OF d])
  show "vfstask (snd (vfs_set_task lk x TASK_FIN s)) = (vfstask s)(TASK_FIN := vfstask s TASK_FIN @ [x])"
    "task (node (snd (vfs_set_task lk x TASK_FIN s)) y) = task (node s y)"
    "alltask (snd (vfs_set_task lk x TASK_FIN s)) = alltask s"
    unfolding eq by (simp_all add: tq_ops fun_eq_iff)
qed

lemma set_base_held_fields [simp]:
  "fsize (b\<lparr>getlen := n\<rparr>) = fsize b" "tmpfile (b\<lparr>getlen := n\<rparr>) = tmpfile b" by simp_all

lemma recv_body_step:
  assumes r: "receiving fd x b u path plen c w0 w" and e: "env_full e" and d: "received fd w = d" "d \<noteq> []"
  shows "case recv_body e fd w of (ret, w') \<Rightarrow>
    if length c + length d < plen
    then ret = RECV_ADD_EPOLLIN \<and> receiving fd x b u path plen (c @ d) w0 w' \<and> received fd w' = []
    else ret = RECV_CLOSE \<and> part_done fd x b u path (c @ take (plen - length c) d) w0 w'"
proof -
  let ?s = "g_tq (glob w)"
  let ?b = "base (task (node ?s x))"
  have p: "sstat (peer_of fd w) = RECV_BODY_ING" "recvtask (peer_of fd w) = Some x"
    "local_in_fd (peer_of fd w) = Some (path, length c)" "files (g_fs (glob w)) path = Some c"
    "fsize ?b = int plen" "getlen ?b = int (length c)" "tmpfile ?b = path" "held ?s x" "recv_ok fd w"
    "length c < plen" "plen < 2 ^ 31" "others_kept fd x path w0 w" "same_part b u (task (node ?s x))"
    "vfstask ?s TASK_FIN = vfstask (g_tq (glob w0)) TASK_FIN"
    using r by (auto simp: receiving_def)
  have rem: "to_int32 (int plen - int (length c)) = int (plen - length c)"
    using p(10,11) by (simp add: to_int32_id of_nat_diff)
  define n where "n = min (length d) (plen - length c)"
  have n: "(if int (plen - length c) < 0 then length d else min (length d) (nat (int (plen - length c)))) = n"
    by (simp add: n_def)
  have wr: "write_res (n_io e) off k = int k" for off k using e by (simp add: env_full_def)
  have get: "get_client_data fd w = (0, d)" using get_client_data_received [OF p(9)] d by simp
  let ?w1 = "upd_peer fd (\<lambda>p. p\<lparr>local_in_fd := Some (path, length c + n)\<rparr>)
      (fs_upd (fwrite (path, length c) (take n d)) w)"
  let ?w2 = "tq_upd (set_base x (\<lambda>b. b\<lparr>getlen := getlen b + int n\<rparr>)) (consume_client_data fd n ?w1)"
  have files2: "files (g_fs (glob ?w2)) path = Some (c @ take n d)"
    using p(4) by (simp add: fwrite_append)
  have ok1: "recv_ok fd ?w1" using p(9) by simp
  have recv2: "recv_ok fd ?w2" "received fd ?w2 = drop n d"
    using consume_received [OF ok1, of n] d(1) by simp_all
  have kept2: "others_kept fd x path w0 ?w2"
    by (rule others_kept_trans [OF p(12)]) (simp add: others_kept_def fwrite_append [OF p(4)])
  have part2: "same_part b u (task (node (g_tq (glob ?w2)) x))" using p(13) by (simp add: same_part_def)
  have step: "recv_body e fd w =
     (if int (length c) + int n \<ge> int plen
      then (RECV_CLOSE, upd_peer fd (\<lambda>p. p\<lparr>local_in_fd := None, recvtask := None\<rparr>)
              (tq_upd (\<lambda>s. snd (vfs_set_task (q_lock e TASK_FIN) x TASK_FIN
                (set_base x (\<lambda>b. b\<lparr>overstatus := OVER_OK\<rparr>) s))) ?w2))
      else (RECV_ADD_EPOLLIN, ?w2))"
    unfolding recv_body_def Let_def get p(2,3) option.case prod.case p(5,6) rem n wr
    by (simp add: close_tmp_check_mv_def p(3,5,6) del: of_nat_diff)
  show ?thesis
  proof (cases "length c + length d < plen")
    case True
    then have nd: "n = length d" by (simp add: n_def)
    with True have "recv_body e fd w = (RECV_ADD_EPOLLIN, ?w2)" by (simp add: step)
    moreover have "receiving fd x b u path plen (c @ d) w0 ?w2"
      using p(1-11,14) files2 recv2(1) True held_set_base [OF p(8)] kept2 part2 by (simp add: receiving_def nd)
    ultimately show ?thesis using True recv2(2) nd by simp
  next
    case False
    then have nd: "n = plen - length c" by (simp add: n_def)
    have lk: "\<not> lock_failed (q_lock e TASK_FIN)" using e by (simp add: env_full_def env_good_def)
    let ?s2 = "set_base x (\<lambda>b. b\<lparr>overstatus := OVER_OK\<rparr>) (set_base x (\<lambda>b. b\<lparr>getlen := getlen b + int n\<rparr>) ?s)"
    have h: "held ?s2 x" using p(8) by (simp add: held_set_base)
    note fin = set_task_fin [OF h lk]
    have "\<not> int (length c) + int n < int plen" using p(10) by (simp add: nd)
    then have "recv_body e fd w = (RECV_CLOSE, upd_peer fd (\<lambda>p. p\<lparr>local_in_fd := None, recvtask := None\<rparr>)
              (tq_upd (\<lambda>s. snd (vfs_set_task (q_lock e TASK_FIN) x TASK_FIN
                (set_base x (\<lambda>b. b\<lparr>overstatus := OVER_OK\<rparr>) s))) ?w2))" (is "_ = (_, ?w3)")
      by (simp add: step)
    note r3 = this
    have "others_kept fd x path w0 ?w3"
      by (rule others_kept_trans [OF kept2]) (simp add: others_kept_def fin)
    moreover have "same_part b u (task (node (g_tq (glob ?w3)) x))" using part2 by (simp add: fin same_part_def)
    ultimately have "part_done fd x b u path (c @ take n d) w0 ?w3"
      using fin files2 p(7,14) h by (simp add: part_done_def held_def)
    then show ?thesis using False r3 by (simp add: nd)
  qed
qed

section \<open>The header, when it is complete\<close>

lemma cstr_header: "NUL \<notin> set a \<Longrightarrow> cstr (a @ b) = a @ cstr b"
  by (induction a) (auto simp: cstr_def)

lemma header_no_NUL:
  assumes "header_fits b s" "NUL \<notin> set (filename b)" "NUL \<notin> set (hostname b)" "NUL \<notin> set (filemd5 b)"
  shows "NUL \<notin> set (uc_client_create_header b s)"
proof -
  have "NUL \<notin> set (dec_int i)" for i by (rule not_in_dec_int) (simp_all add: isdigit_def)
  then show ?thesis
    unfolding uc_client_create_header_lines [OF assms(1)] header_head_def using assms(2-4) by simp
qed

definition part_file :: "node_env \<Rightarrow> t_task_base \<Rightarrow> t_task_sub \<Rightarrow> string" where
  "part_file e b u = part_path (get_localdir (datadir e) (hostname b) (filename b)) (sub_idx u) (sub_count u)"

lemma do_prepare_ok:
  assumes e: "env_full e" and p: "sstat (peer_of fd w) = RECV_HEAD_ING" "recvtask (peer_of fd w) = Some x"
    and h: "held (g_tq (glob w)) x"
    and t: "task (node (g_tq (glob w)) x) = \<lparr>base = b, sub = u\<rparr>"
    and len: "0 < plen" "plen < 2 ^ 31" and ok: "recv_ok fd w"
    and k: "others_kept fd x (part_file e b u) w0 w" "vfstask (g_tq (glob w)) TASK_FIN = vfstask (g_tq (glob w0)) TASK_FIN"
    and n: "same_part b0 u0 \<lparr>base = b, sub = u\<rparr>"
  shows "case do_prepare_recvfile e fd (int plen) w of (r, w') \<Rightarrow>
    r = RECV_ADD_EPOLLIN \<and> receiving fd x b0 u0 (part_file e b u) plen [] w0 w' \<and> received fd w' = received fd w"
proof -
  let ?f = "part_file e b u"
  let ?w1 = "tq_upd (set_base x (\<lambda>b. b\<lparr>fsize := int plen, getlen := 0\<rparr>)) w"
  have t1: "base (task (node (g_tq (glob ?w1)) x)) = b\<lparr>fsize := int plen, getlen := 0\<rparr>"
    "sub (task (node (g_tq (glob ?w1)) x)) = u" using t by simp_all
  obtain fs1 where cd: "createdir (n_io e) ?f (g_fs (glob w)) = (0, fs1)"
    using createdir_ok [of "n_io e" ?f "g_fs (glob w)"] e
    by (cases "createdir (n_io e) ?f (g_fs (glob w))") (auto simp: env_full_def)
  have files1: "files fs1 = files (g_fs (glob w))"
    using createdir_files [of "n_io e" ?f "g_fs (glob w)"] cd by simp
  have op: "can_open (n_io e) ?f" using e by (simp add: env_full_def)
  have open1: "open_tmp_localfile_4_write (n_io e) (datadir e) (b\<lparr>fsize := int plen, getlen := 0\<rparr>) u old (g_fs (glob w)) =
      (LOCALFILE_OK, b\<lparr>fsize := int plen, getlen := 0, tmpfile := ?f\<rparr>, Some ?f, fs1\<lparr>files := (files fs1)(?f \<mapsto> [])\<rparr>)" for old
    using cd op by (simp add: open_tmp_localfile_4_write_def part_file_def [symmetric] creat_def Let_def)
  have h2: "held (set_base x f (set_base x g (g_tq (glob w)))) x" for f g
    by (intro held_set_base h)
  show ?thesis
    unfolding do_prepare_recvfile_def Let_def p option.case t1 open1 prod.case
    using p h2 len ok open1 [unfolded Let_def] t n k(2)
    by (simp add: receiving_def t1 open1 same_part_def others_kept_trans [OF k(1)] others_kept_def [of fd x ?f w] files1)
qed

definition untouched :: "int \<Rightarrow> sm_world \<Rightarrow> sm_world \<Rightarrow> bool" where
  "untouched fd w0 w \<longleftrightarrow> g_tq (glob w) = g_tq (glob w0) \<and> g_fs (glob w) = g_fs (glob w0) \<and>
     (\<forall>k. k \<noteq> fd \<longrightarrow> conns w k = conns w0 k)"

lemma svc_recv_header:
  assumes e: "env_full e" and p: "sstat (peer_of fd w) \<noteq> RECV_BODY_ING" and ok: "recv_ok fd w"
    and inv: "tq_inv (g_tq (glob w))" "pool_clean (g_tq (glob w))"
    and fits: "header_fits b u" and nul: "NUL \<notin> set (filename b)" "NUL \<notin> set (hostname b)" "NUL \<notin> set (filemd5 b)"
    and ty: "ftype b \<noteq> 250" and plen: "int plen = sub_end u - sub_start u + 1" "plen < 2 ^ 31"
    and data: "received fd w = uc_client_create_header b u @ d" and w0: "untouched fd w0 w"
  shows "\<exists>x w'. receiving fd x b u (part_file e b u) plen [] w0 w' \<and> received fd w' = d \<and> svc_recv e fd w = recv_body e fd w'"
proof -
  let ?h = "uc_client_create_header b u"
  let ?w0 = "touch e fd w"
  have get: "get_client_data fd ?w0 = (0, ?h @ d)"
  proof -
    have "?h \<noteq> []" by (simp add: uc_client_create_header_def)
    then show ?thesis using get_client_data_received [of fd ?w0] ok data by simp
  qed
  have cs: "cstr (?h @ d) = ?h @ cstr d" using header_no_NUL [OF fits nul] by (rule cstr_header)
  have four: "4 \<le> length ?h" by (simp add: uc_client_create_header_def)
  let ?w1 = "upd_peer fd (\<lambda>p. p\<lparr>sstat := RECV_HEAD_ING\<rparr>) ?w0"
  obtain passed where parse: "sm_client_parse_header (header (peer_of fd ?w1)) (?h @ cstr d) =
      (0, received_header b u (header (peer_of fd ?w1)), passed @ cstr d)" and lp: "length passed = length ?h"
    using sm_client_parse_create [OF fits] by blast
  let ?buf = "passed @ cstr d"
  let ?rh = "received_header b u (header (peer_of fd ?w1))"
  let ?w2 = "put_back fd (?buf @ drop (length ?buf) (?h @ d)) (upd_peer fd (\<lambda>p. p\<lparr>header := ?rh\<rparr>) ?w1)"
  have "cstr d @ drop (length (cstr d)) d = d"
    by (metis append_eq_conv_conj cstr_def takeWhile_dropWhile_id)
  then have whole: "?buf @ drop (length ?buf) (?h @ d) = passed @ d" using lp by simp
  then have lb: "length (?buf @ drop (length ?buf) (?h @ d)) = length (?h @ d)" using lp by simp
  have ok2: "recv_ok fd ?w2" and r2: "received fd ?w2 = ?buf @ drop (length ?buf) (?h @ d)"
    using put_back_received [of fd "upd_peer fd (\<lambda>p. p\<lparr>header := ?rh\<rparr>) ?w1"] ok lb data by simp_all
  have lk: "\<not> lock_failed (q_lock e TASK_HOME)" and mal: "malloc_ok e" using e by (auto simp: env_full_def env_good_def)
  obtain x s1 where take: "vfs_get_task (q_lock e TASK_HOME) True TASK_HOME (g_tq (glob w)) = (GET_TASK_OK, Some x, s1)"
    and held1: "held s1 x" and s1: "vfstask s1 = (\<lambda>j. removeAll x (vfstask (g_tq (glob w)) j))"
      "x \<in> set (vfstask (g_tq (glob w)) TASK_HOME) \<or> x = top (g_tq (glob w))" "alltask s1 = alltask (g_tq (glob w))"
      "\<forall>y. y \<noteq> x \<longrightarrow> node s1 y = node (g_tq (glob w)) y"
    using held_take_home [OF inv lk] by blast
  obtain b' u' where conv: "convert_httpheader_2_task ?rh (zero_base\<lparr>usrcip := p_ip (peer_of fd ?w2)\<rparr>) zero_sub = (b', u')"
    and b': "filename b' = filename b" "hostname b' = hostname b" "sub_idx u' = sub_idx u" "sub_count u' = sub_count u"
      "same_part b u \<lparr>base = b', sub = u'\<rparr>"
    using fits by (auto simp: convert_httpheader_2_task_def received_header_def header_fits_def same_part_def zero_base_def)
  have home_only: "x \<notin> set (vfstask (g_tq (glob w)) j)" if "j \<noteq> TASK_HOME" for j
    using queues_okD(2,3) [OF tq_invD(1) [OF inv(1)]] s1(2) that by blast
  let ?w3 = "upd_peer fd (\<lambda>p. p\<lparr>recvtask := Some x\<rparr>)
      (tq_upd (\<lambda>_. set_node x (\<lambda>n. n\<lparr>task := \<lparr>base = b', sub = u'\<rparr>\<rparr>) s1) ?w2)"
  have "0 < plen" using plen(1) fits by (simp add: header_fits_def)
  moreover have "held (g_tq (glob ?w3)) x" using held_write [OF held1] by simp
  moreover have "others_kept fd x (part_file e b' u') w0 ?w3"
    using w0 s1 home_only by (auto simp: others_kept_def untouched_def set_node_def removeAll_notin)
  moreover have "vfstask (g_tq (glob ?w3)) TASK_FIN = vfstask (g_tq (glob w0)) TASK_FIN"
    using w0 s1(1) home_only [of TASK_FIN] by (simp add: untouched_def set_node_def)
  ultimately obtain w4 where w4: "do_prepare_recvfile e fd (int plen) ?w3 = (RECV_ADD_EPOLLIN, w4)"
    "receiving fd x b u (part_file e b' u') plen [] w0 w4" "received fd w4 = received fd ?w3"
    using do_prepare_ok [OF e, of fd ?w3 x b' u' plen w0 b u] plen(2) ok2 b'(5)
    by (cases "do_prepare_recvfile e fd (int plen) ?w3") (auto simp: set_node_def)
  have pf: "part_file e b' u' = part_file e b u" using b' by (simp add: part_file_def)
  let ?w5 = "consume_client_data fd (length ?h) w4"
  have len: "h_end ?rh - h_start ?rh + 1 = int plen" using plen(1) by (simp add: received_header_def)
  have check: "check_req e fd ?w0 = (RECV_ADD_EPOLLIN, ?w5)"
    unfolding check_req_def Let_def get prod.case cs header_end [OF fits] option.case parse
    using ty take mal conv w4(1) four len
    by (simp add: received_header_def)
  have r5: "receiving fd x b u (part_file e b u) plen [] w0 ?w5" "received fd ?w5 = d"
  proof -
    have okw4: "recv_ok fd w4" using w4(2) by (simp add: receiving_def)
    have "received fd w4 = ?buf @ drop (length ?buf) (?h @ d)" using w4(3) r2 by simp
    moreover have "drop (length ?h) (?buf @ drop (length ?buf) (?h @ d)) = d"
      unfolding whole using lp by simp
    ultimately show "received fd ?w5 = d" using consume_received [OF okw4] by simp
    show "receiving fd x b u (part_file e b u) plen [] w0 ?w5"
      using w4(2) consume_received(1) [OF okw4] unfolding pf by (simp add: receiving_def others_kept_def)
  qed
  let ?w6 = "touch e fd ?w5"
  have "receiving fd x b u (part_file e b u) plen [] w0 ?w6"
    using r5(1) by (simp add: receiving_def others_kept_def)
  moreover have "svc_recv e fd w = recv_body e fd ?w6"
    using p check by (simp add: svc_recv_def Let_def)
  ultimately show ?thesis using r5(2) by (intro exI [of _ x] exI [of _ ?w6]) simp
qed

section \<open>A part in any number of pieces\<close>

text \<open>
  The bytes of a connection as they come: \<^verbatim>\<open>do_recv\<close> appends a piece to the receive buffer and calls
  \<^verbatim>\<open>svc_recv\<close>; after \<open>RECV_CLOSE\<close> nothing more is read.
\<close>

fun run_recv :: "node_env \<Rightarrow> int \<Rightarrow> string list \<Rightarrow> sm_world \<Rightarrow> int \<times> sm_world" where
  "run_recv e fd [] w = (RECV_ADD_EPOLLIN, w)"
| "run_recv e fd (d # ds) w =
     (case svc_recv e fd (arrive (buff_size e) fd d w) of
        (r, w) \<Rightarrow> if r = RECV_CLOSE then (r, w) else run_recv e fd ds w)"

lemma receiving_touch [simp]: "receiving fd x b u path plen c w0 (touch e fd w) = receiving fd x b u path plen c w0 w"
  by (simp add: receiving_def others_kept_def)

lemma receiving_arrive:
  assumes "receiving fd x b u path plen c w0 w" "0 < bs"
  shows "receiving fd x b u path plen c w0 (arrive bs fd d w)"
  using assms arrive_received(1) [of fd w bs d] by (simp add: receiving_def others_kept_def)

lemma recv_body_empty:
  assumes "receiving fd x b u path plen c w0 w" "received fd w = []"
  shows "recv_body e fd w = (RECV_ADD_EPOLLIN, w)"
  using assms get_client_data_received [of fd w] by (simp add: recv_body_def receiving_def Let_def)

lemma run_recv_body:
  assumes "env_full e" "receiving fd x b u path plen c w0 w" "received fd w = []" "\<forall>d\<in>set ds. d \<noteq> []"
    "length (c @ concat ds) = plen"
  shows "\<exists>w'. run_recv e fd ds w = (RECV_CLOSE, w') \<and> part_done fd x b u path (c @ concat ds) w0 w'"
  using assms(2-)
proof (induction ds arbitrary: c w)
  case Nil
  then show ?case by (simp add: receiving_def)
next
  case (Cons d ds)
  let ?w = "touch e fd (arrive (buff_size e) fd d w)"
  have bs: "0 < buff_size e" using assms(1) by (simp add: env_full_def)
  have r: "receiving fd x b u path plen c w0 ?w" using receiving_arrive [OF Cons.prems(1) bs] by simp
  have "recv_ok fd w" using Cons.prems(1) by (simp add: receiving_def)
  then have d: "received fd ?w = d" using arrive_received(2) [of fd w "buff_size e" d] bs Cons.prems(2) by simp
  have sv: "svc_recv e fd (arrive (buff_size e) fd d w) = recv_body e fd ?w"
    using r by (simp add: svc_recv_def Let_def receiving_def)
  obtain ret w' where ret: "recv_body e fd ?w = (ret, w')" by fastforce
  have "d \<noteq> []" using Cons.prems(3) by simp
  note step = recv_body_step [OF r assms(1) d this, unfolded ret prod.case]
  show ?case
  proof (cases "length c + length d < plen")
    case True
    then have s: "ret = RECV_ADD_EPOLLIN" "receiving fd x b u path plen (c @ d) w0 w'" "received fd w' = []"
      using step by simp_all
    have "\<forall>d\<in>set ds. d \<noteq> []" "length ((c @ d) @ concat ds) = plen" using Cons.prems(3,4) by simp_all
    from Cons.IH [OF s(2,3) this] show ?thesis using s(1) by (simp add: sv ret)
  next
    case False
    then have "concat ds = []" "plen = length c + length d" using Cons.prems(4) by auto
    then show ?thesis using step by (simp add: sv ret del: concat_eq_Nil_conv)
  qed
qed

lemma strstr_mono: "strstr p x = Some k \<Longrightarrow> \<exists>k'\<le>k. strstr (p @ q) x = Some k'"
proof (induction p arbitrary: k)
  case Nil
  then show ?case by (cases q) (auto split: if_splits)
next
  case (Cons c p)
  show ?case
  proof (cases "starts_with x (c # p @ q)")
    case False
    moreover have "\<not> starts_with x (c # p)"
      using False by (metis append.assoc append_Cons starts_with_iff)
    ultimately show ?thesis using Cons by auto
  qed simp
qed

lemma no_end_before:
  assumes "header_fits b u" "uc_client_create_header b u = a @ r" "r \<noteq> []" "NUL \<notin> set a"
  shows "strstr (cstr a) (CRLF @ CRLF) = None"
proof (rule ccontr)
  assume "\<not> ?thesis"
  then obtain k where k: "strstr a (CRLF @ CRLF) = Some k" using assms(4) by auto
  have "length (drop k a) \<ge> 4"
    using arg_cong [OF strstr_Some_split [OF k], of length] strstr_Some [OF k] by simp
  moreover obtain k' where "k' \<le> k" "strstr (a @ r) (CRLF @ CRLF) = Some k'" using strstr_mono [OF k] by blast
  ultimately show False
    using header_end [OF assms(1), of "[]"] assms(2,3) by (cases r) auto
qed

text \<open>The conditions on a part under which it arrives unharmed.\<close>

definition sendable :: "t_task_base \<Rightarrow> t_task_sub \<Rightarrow> string \<Rightarrow> bool" where
  "sendable b u body \<longleftrightarrow> header_fits b u \<and> NUL \<notin> set (filename b) \<and> NUL \<notin> set (hostname b) \<and>
     NUL \<notin> set (filemd5 b) \<and> ftype b \<noteq> 250 \<and> int (length body) = sub_end u - sub_start u + 1 \<and>
     length body < 2 ^ 31"

lemma run_recv_part:
  assumes e: "env_full e" and s: "sendable b u body"
  shows "sstat (peer_of fd w) \<noteq> RECV_BODY_ING \<Longrightarrow> recv_ok fd w \<Longrightarrow> tq_inv (g_tq (glob w)) \<Longrightarrow>
    pool_clean (g_tq (glob w)) \<Longrightarrow> \<forall>d\<in>set ds. d \<noteq> [] \<Longrightarrow>
    received fd w @ concat ds = uc_client_create_header b u @ body \<Longrightarrow>
    length (received fd w) < length (uc_client_create_header b u) \<Longrightarrow> untouched fd w0 w \<Longrightarrow>
    \<exists>x w'. run_recv e fd ds w = (RECV_CLOSE, w') \<and> part_done fd x b u (part_file e b u) body w0 w'"
proof (induction ds arbitrary: w)
  case Nil
  then have "length (received fd w) = length (uc_client_create_header b u @ body)" by simp
  with Nil.prems show ?case by simp
next
  case (Cons d ds)
  let ?h = "uc_client_create_header b u"
  let ?w = "arrive (buff_size e) fd d w"
  have f: "header_fits b u" and nul: "NUL \<notin> set (filename b)" "NUL \<notin> set (hostname b)" "NUL \<notin> set (filemd5 b)"
    and ty: "ftype b \<noteq> 250" and len: "int (length body) = sub_end u - sub_start u + 1" "length body < 2 ^ 31"
    using s by (auto simp: sendable_def)
  have bs: "0 < buff_size e" using e by (simp add: env_full_def)
  have ok: "recv_ok fd ?w" and rd: "received fd ?w = received fd w @ d"
    using arrive_received [OF Cons.prems(2) bs] by simp_all
  have st: "sstat (peer_of fd ?w) \<noteq> RECV_BODY_ING" "tq_inv (g_tq (glob ?w))" "pool_clean (g_tq (glob ?w))"
    using Cons.prems by simp_all
  have ds: "\<forall>d\<in>set ds. d \<noteq> []" using Cons.prems(5) by simp
  have eq: "(received fd w @ d) @ concat ds = ?h @ body" using Cons.prems(6) by simp
  show ?case
  proof (cases "length (received fd w @ d) < length ?h")
    case True
    then obtain r where r: "?h = (received fd w @ d) @ r" "r \<noteq> []"
      using short_prefix [OF eq] by blast
    have "NUL \<notin> set (received fd w @ d)" using header_no_NUL [OF f nul] unfolding r(1) by simp
    from no_end_before [OF f r this] have "svc_recv e fd ?w = (RECV_ADD_EPOLLIN, touch e fd ?w)"
      using svc_recv_no_header [OF st(1) ok] rd by simp
    moreover have "\<exists>x w'. run_recv e fd ds (touch e fd ?w) = (RECV_CLOSE, w') \<and> part_done fd x b u (part_file e b u) body w0 w'"
      using Cons.IH [of "touch e fd ?w"] st ok ds eq True rd Cons.prems(8) by (simp add: untouched_def)
    ultimately show ?thesis by simp
  next
    case False
    then obtain d' where d': "received fd w @ d = ?h @ d'" "d' @ concat ds = body"
      using long_prefix [OF eq] by auto
    obtain x v where v: "receiving fd x b u (part_file e b u) (length body) [] w0 v" "received fd v = d'"
      "svc_recv e fd ?w = recv_body e fd v"
      using svc_recv_header [OF e st(1) ok st(2,3) f nul ty len, of d' w0] rd d'(1) Cons.prems(8)
      by (auto simp: untouched_def)
    show ?thesis
    proof (cases "d' = []")
      case True
      then have "recv_body e fd v = (RECV_ADD_EPOLLIN, v)" using recv_body_empty v(1,2) by simp
      then show ?thesis
        using run_recv_body [OF e v(1) _ ds] v(2,3) True d'(2) by auto
    next
      case False
      obtain ret v' where ret: "recv_body e fd v = (ret, v')" by fastforce
      note step = recv_body_step [OF v(1) e v(2) False, unfolded ret prod.case]
      show ?thesis
      proof (cases "length d' < length body")
        case True
        then show ?thesis
          using step run_recv_body [OF e _ _ ds, of fd x b u "part_file e b u" "length body" d' w0 v'] d'(2)
          by (auto simp: v(3) ret)
      next
        case False
        then have "d' = body" using d'(2) short_prefix [of d' "concat ds" body "[]"] by auto
        then show ?thesis using step by (auto simp: v(3) ret)
      qed
    qed
  qed
qed


section \<open>Property\<close>


definition good_io :: io where
  "good_io = \<lparr>can_open = (\<lambda>_. True), can_mkdir = (\<lambda>_. True), can_unlink = (\<lambda>_. True), can_read = (\<lambda>_. True),
     write_res = (\<lambda>_ n. int n)\<rparr>"

definition example_env :: node_env where
  "example_env = \<lparr>q_lock = (\<lambda>_. 0), a_lock = 0, malloc_ok = True, clock = 1000, n_io = good_io,
     datadir = ''/diska'', cfg = example_config, buff_size = 2048, peer_ip = (\<lambda>_. 0), conn_malloc = True,
     ctime_of = (\<lambda>_. 1350000000), max_fds = 1024, self_host = ''fcs1''\<rparr>"

lemma env_full_example: "env_full example_env"
  by (simp add: env_full_def env_good_def example_env_def good_io_def)

text \<open>A node that has just started, with connection 5 accepted.\<close>

definition fresh_world :: "('u, node_glob) world" where
  "fresh_world = \<lparr>conns = (\<lambda>_. \<lparr>c_fd = -1, send_buff = mybuff_init, recv_buff = mybuff_init, send_len = 0, user = None\<rparr>),
     glob = \<lparr>g_tq = init_queues task_globals, g_fs = \<lparr>files = Map.empty, dirs = {}\<rparr>, activelist = [], online_list = (\<lambda>_. []), fd_results = [7, 8, 9, 10]\<rparr>,
     send_list = [], recv_list = [], tmp_send_list = [], tmp_recv_list = [], events = (\<lambda>_. 0), wire = (\<lambda>_. []), shut = []\<rparr>"

lemma fresh_world_facts:
  "recv_ok fd fresh_world" "received fd fresh_world = []" "tq_inv (g_tq (glob fresh_world))"
  "pool_clean (g_tq (glob fresh_world))" "sstat (peer_of fd fresh_world) = CONNECTED"
  using buff_ok_init tq_inv_init [of task_globals]
  by (simp_all add: fresh_world_def recv_ok_def received_def pool_clean_def init_queues_def peer_of_def new_peer_def)

definition small_part :: t_task_sub where
  "small_part = example_sub\<lparr>sub_start := 10, sub_end := 12\<rparr>"


end
