(* ===== verification/UcProps.thy ===== *)
theory UcProps
  imports UcWatch SmReceive
begin

text \<open>
  Properties of the sending service: the tasks made for a file cover it, a task's connection is given the
  header and the range of its part, and what the service does with deleted files.
\<close>

section \<open>Cutting a file\<close>

definition part_task :: "node_env \<Rightarrow> t_task_base \<Rightarrow> int \<Rightarrow> int \<Rightarrow> t_vfs_taskinfo" where
  "part_task e b n i =
     (case part_range (splic_min_size (cfg e)) (fsize b) n i of (start, end) \<Rightarrow>
       \<lparr>base = b\<lparr>stime := clock e\<rparr>,
        sub = zero_sub\<lparr>sub_idx := i, sub_count := n, sub_start := start, sub_end := end, starttime := clock e\<rparr>\<rparr>)"

lemma split_loop_queued:
  "env_good e \<Longrightarrow> tq_inv s \<Longrightarrow> pool_clean s \<Longrightarrow> start = splic_min_size (cfg e) * (idx - 1) \<Longrightarrow>
    case split_loop e b n idx start s of (r, s') \<Rightarrow>
      r = 0 \<and> queued TASK_WAIT_SYNC (map (part_task e b n) [idx..n]) s s' \<and> pool_clean s'"
proof (induction e b n idx start s rule: split_loop.induct)
  case (1 e b n idx start s)
  show ?case
  proof (cases "n < idx")
    case True
    with 1 show ?thesis by (simp add: split_loop.simps [of e b n idx] queued_refl)
  next
    case False
    let ?m = "splic_min_size (cfg e)"
    let ?last = "if idx = n then fsize b - 1 else start + ?m - 1"
    have t: "\<lparr>base = b\<lparr>stime := clock e\<rparr>,
        sub = zero_sub\<lparr>sub_idx := idx, sub_count := n, sub_start := start, sub_end := ?last, starttime := clock e\<rparr>\<rparr> =
      part_task e b n idx"
      using "1.prems" by (simp add: part_task_def part_range_def right_diff_distrib)
    have "\<not> bad_status TASK_WAIT_SYNC" "TASK_WAIT_SYNC \<noteq> TASK_HOME" by (simp_all add: bad_status_def)
    note put = put_new_queued [OF "1.prems"(2,3,1) this, of "part_task e b n idx"]
    obtain s1 where s1: "uc_insert_sub_task e b idx n start ?last s = (0, s1)"
      and q: "queued TASK_WAIT_SYNC [part_task e b n idx] s s1" and c: "pool_clean s1"
      using put unfolding uc_insert_sub_task_def t by (metis prod.collapse)
    have inv1: "tq_inv s1" using q by (simp add: queued_def)
    have "start + ?m = ?m * (idx + 1 - 1)" using "1.prems" by (simp add: right_diff_distrib)
    note IH = "1.IH" [OF _ refl s1 [symmetric] refl _ "1.prems"(1) inv1 c this]
    have "[idx..n] = idx # [idx + 1..n]" using False upto_rec1 [of idx n] by simp
    with IH False q queued_trans [OF q _ "1.prems"(2)] show ?thesis
      by (simp add: split_loop.simps [of e b n idx] s1 Let_def split: prod.splits)
  qed
qed

lemma part_task_slice:
  "concat (map (\<lambda>t. slice (sub_start (sub t)) (sub_end (sub t)) f) (map (part_task e b n) is)) =
   concat (map (\<lambda>i. case part_range (splic_min_size (cfg e)) (fsize b) n i of (x, y) \<Rightarrow> slice x y f) is)"
  by (induction "is") (auto simp: part_task_def part_range_def)

text \<open>C6: The tasks that \<^verbatim>\<open>split_task\<close> appends to \<open>TASK_WAIT_SYNC\<close> are numbered 1 to n, and the ranges they
  name, read from the file in this order, are the whole file: no byte is missing or sent twice.\<close>

theorem split_task_covers_file:
  assumes "env_good e" "tq_inv s" "pool_clean s" "fsize b = int (length f)" "0 < splic_min_size (cfg e)"
    "fsize b div splic_min_size (cfg e) < 2 ^ 31"
  shows "\<exists>ts s' fs'. split_task e b s fs = (0, s', fs') \<and> queued TASK_WAIT_SYNC ts s s'
    \<and> map (sub_idx \<circ> sub) ts = [1..int (length ts)]
    \<and> concat (map (\<lambda>t. slice (sub_start (sub t)) (sub_end (sub t)) f) ts) = f"
proof (cases "f = []")
  case True
  with assms show ?thesis
    by (intro exI [of _ "[]"] exI [of _ s] exI [of _ fs]) (simp add: split_task_def queued_refl)
next
  case False
  let ?b = "b\<lparr>hostname := snprint 256 (self_host e)\<rparr>"
  let ?n = "splic_count (splic_min_size (cfg e)) (fsize b)"
  let ?ts = "map (part_task e ?b ?n) [1..?n]"
  obtain s' where s': "split_loop e ?b ?n 1 0 s = (0, s')" "queued TASK_WAIT_SYNC ?ts s s'"
    using split_loop_queued [OF assms(1-3), of 0 1 ?b ?n] by (auto split: prod.splits)
  have "0 \<le> ?n" using splic_count_bounds(3) [OF assms(5) _ assms(6)] assms(4) by simp
  then have "map (sub_idx \<circ> sub) ?ts = [1..int (length ?ts)]"
    by (simp add: part_task_def part_range_def comp_def)
  moreover have "concat (map (\<lambda>t. slice (sub_start (sub t)) (sub_end (sub t)) f) ?ts) = f"
    using slices_all [OF assms(5), of f] assms(4,6) unfolding part_task_slice by simp
  moreover have "split_task e b s fs = (0, s', update_sync_time e (snprint 256 (filename b)) fs)"
    using False s'(1) assms(4) by (simp add: split_task_def Let_def)
  ultimately show ?thesis using s'(2) by blast
qed

theorem split_task_covers_file_witness:
  "\<exists>ts s' fs'. split_task (example_env\<lparr>cfg := example_config\<lparr>splic_min_size := 4\<rparr>\<rparr>) (example_base\<lparr>fsize := 10\<rparr>)
      (init_queues task_globals) \<lparr>files = Map.empty, dirs = {}\<rparr> = (0, s', fs') \<and> queued TASK_WAIT_SYNC ts (init_queues task_globals) s'
    \<and> map (sub_idx \<circ> sub) ts = [1..int (length ts)]
    \<and> concat (map (\<lambda>t. slice (sub_start (sub t)) (sub_end (sub t)) ''0123456789'') ts) = ''0123456789''"
proof -
  let ?e = "example_env\<lparr>cfg := example_config\<lparr>splic_min_size := 4\<rparr>\<rparr>"
  have "env_good ?e" by (simp add: env_good_def example_env_def)
  moreover have "pool_clean (init_queues task_globals)" by (simp add: pool_clean_def init_queues_def)
  moreover have "fsize (example_base\<lparr>fsize := 10\<rparr>) = int (length ''0123456789'')" by simp
  moreover have "0 < splic_min_size (cfg ?e)" "fsize (example_base\<lparr>fsize := 10\<rparr>) div splic_min_size (cfg ?e) < 2 ^ 31"
    by (simp_all add: example_env_def)
  ultimately show ?thesis by (rule split_task_covers_file [OF _ tq_inv_init])
qed

section \<open>Sending a part\<close>

lemma new_task_queued:
  assumes "files (g_fs (glob w)) (filename b) = Some c" "can_open (n_io e) (filename b)"
    "fd_results (glob w) = lfd # fd # fds" "0 \<le> lfd" "0 \<le> fd" "conn_malloc e" "0 < buff_size e"
    "buff_ok (send_buff (conns w fd))" "sub_start u \<le> sub_end u"
  shows "\<exists>w'. inotify_new_task e b u w = (0, w') \<and> buff_ok (send_buff (conns w' fd)) \<and> wire w' = wire w
    \<and> mybuff_getdata (send_buff (conns w' fd)) = (0, uc_client_create_header b u)
    \<and> mybuff_getfile (send_buff (conns w' fd)) = Some (lfd, sub_start u, nat (sub_end u - sub_start u + 1))
    \<and> events w' fd = (EPOLLIN OR EPOLLOUT) \<and> sstat (peer_of fd w') = CONNECTED"
proof -
  let ?h = "uc_client_create_header b u"
  obtain w1 where w1: "svc_initconn e fd (w\<lparr>glob := (glob w)\<lparr>fd_results := fds\<rparr>\<rparr>) = (0, w1)"
    and v1: "wire w1 = wire w" and u1: "user (conns w1 fd) = Some (new_peer fd (clock e) (peer_ip e fd))"
    and b1: "send_buff (conns w1 fd) = send_buff (conns w fd)"
    using assms(6) by (auto simp: svc_initconn_def Let_def set_user_def upd_conn_def online_add_def alist_move_tail_def)
  let ?r = "fst (mybuff_reinit (buff_size e) (send_buff (conns w fd)))"
  obtain w2 where w2: "add_fd_2_efd (buff_size e) fd w1 = w2" and u2: "user (conns w2 fd) = user (conns w1 fd)"
    and v2: "wire w2 = wire w" and b2: "send_buff (conns w2 fd) = ?r"
    by (auto simp: add_fd_2_efd_def upd_conn_def b1 v1 split: prod.splits)
  have r: "buff_ok ?r" "pending ?r = []" using reinit_spec [OF assms(8,7)] by simp_all
  let ?s = "mybuff_setdata (buff_size e) ?r ?h"
  have s: "buff_ok ?s" "pending ?s = ?h" using setdata_spec [OF r(1) assms(7), of ?h] r(2) by simp_all
  let ?n = "nat (sub_end u - sub_start u + 1)"
  let ?f = "fst (mybuff_setfile ?s lfd (sub_start u) ?n)"
  have h: "?h \<noteq> []" by (simp add: uc_client_create_header_def)
  have f: "mybuff_getdata ?f = (0, ?h)" "mybuff_getfile ?f = Some (lfd, sub_start u, ?n)" "buff_ok ?f"
    using getdata_spec [OF s(1)] s h assms(4,9)
    by (auto simp: mybuff_setfile_def mybuff_getdata_def mybuff_getfile_def buff_ok_def split: option.splits)
  let ?w3 = "snd (uc_active_send e fd ?h u lfd w2)"
  have "inotify_new_task e b u w = (0, ?w3)"
    using assms(1-5) w1 w2
    by (simp add: inotify_new_task_def open_read_def next_fd_def uc_active_connect_def uc_active_send_def Let_def)
  moreover have "send_buff (conns ?w3 fd) = ?f" "events ?w3 fd = (EPOLLIN OR EPOLLOUT)"
    "user (conns ?w3 fd) = user (conns w2 fd)" "wire ?w3 = wire w"
    by (simp_all add: uc_active_send_def set_client_data_def set_client_fd_def upd_conn_def modify_fd_event_def b2 v2 Let_def
        split: prod.splits)
  ultimately show ?thesis
    using f u1 u2 by (intro exI [of _ ?w3]) (simp add: peer_of_def new_peer_def)
qed

text \<open>For a task whose file can be opened and a connection that can be made, \<^verbatim>\<open>inotify_new_task\<close> leaves a
  connection whose send buffer holds the header of the part and then, as file data, exactly the bytes of the
  task's range, and that waits for the socket to become writable.\<close>

theorem new_task_queued_for_sending:
  assumes "files (g_fs (glob w)) (filename b) = Some c" "can_open (n_io e) (filename b)"
    "fd_results (glob w) = lfd # fd # fds" "0 \<le> lfd" "0 \<le> fd" "conn_malloc e" "0 < buff_size e"
    "buff_ok (send_buff (conns w fd))" "sub_start u \<le> sub_end u"
  shows "\<exists>w'. inotify_new_task e b u w = (0, w')
    \<and> mybuff_getdata (send_buff (conns w' fd)) = (0, uc_client_create_header b u)
    \<and> mybuff_getfile (send_buff (conns w' fd)) = Some (lfd, sub_start u, nat (sub_end u - sub_start u + 1))
    \<and> events w' fd = (EPOLLIN OR EPOLLOUT) \<and> sstat (peer_of fd w') = CONNECTED"
  using new_task_queued [OF assms] by blast

theorem new_task_queued_for_sending_witness:
  "\<exists>w'. inotify_new_task example_env example_base small_part
      (fs_upd (\<lambda>fs. fs\<lparr>files := [''/d/movie.flv'' \<mapsto> ''0123456789abcdef'']\<rparr>) fresh_world) = (0, w')
    \<and> mybuff_getdata (send_buff (conns w' 8)) = (0, uc_client_create_header example_base small_part)
    \<and> mybuff_getfile (send_buff (conns w' 8)) = Some (7, 10, 3)
    \<and> events w' 8 = (EPOLLIN OR EPOLLOUT) \<and> sstat (peer_of 8 w') = CONNECTED"
  using new_task_queued_for_sending [of "fs_upd (\<lambda>fs. fs\<lparr>files := [''/d/movie.flv'' \<mapsto> ''0123456789abcdef'']\<rparr>) fresh_world"
      example_base "''0123456789abcdef''" example_env 7 8 "[9, 10]" small_part] buff_ok_init(1)
  by (simp add: example_base_def zero_base_def small_part_def fresh_world_def fs_upd_def example_env_def good_io_def)

section \<open>Deleted files\<close>

text \<open>C34: A removal of a file is noticed but nothing comes of it: \<^verbatim>\<open>inotify_event_handler\<close> builds a task of type
  \<open>TASK_DELFILE\<close> with size zero, and \<^verbatim>\<open>split_task\<close> returns for size zero before it makes any task.\<close>

theorem delete_event_without_task:
  assumes "ev_mask ev AND IN_CREATE = 0" "ev_mask ev AND IN_CLOSE_WRITE = 0" "ev_mask ev AND IN_MOVED_TO = 0"
  shows "inotify_event_handler e readdir ev ws w = (ws, w)"
  using assms
  by (simp add: inotify_event_handler_def Let_def split_in_def split_task_def zero_base_def tq_upd_def fs_upd_def)

theorem delete_event_without_task_witness:
  "inotify_event_handler example_env (\<lambda>_. None) \<lparr>ev_wd = 1, ev_mask = IN_DELETE, ev_name = ''movie.flv''\<rparr>
     \<lparr>watch_dirs = (\<lambda>_. ''/d''), wd_results = []\<rparr> fresh_world =
   (\<lparr>watch_dirs = (\<lambda>_. ''/d''), wd_results = []\<rparr>, fresh_world)"
  by (rule delete_event_without_task) (simp_all add: in_masks)

end
