(* ===== verification/HttpPeer.thy ===== *)
theory HttpPeer
  imports Node TextUtils
begin

text \<open>
  What \<^verbatim>\<open>src/network/sm_http/vfs_http.c\<close> and \<^verbatim>\<open>src/network/uc_http/vfs_http.c\<close> have in common, in two
  copies: the connection record, opening and closing a connection, sending a message on a new one.  The
  fields \<^verbatim>\<open>fname\<close> and \<^verbatim>\<open>nostandby\<close> of the structure are never used.
\<close>

record http_peer =
  hp_header :: t_uc_oss_http_header
  hp_fd :: int
  hp_time :: int

type_synonym http_world = "(http_peer, node_glob) world"

definition http_svc_initconn :: "node_env \<Rightarrow> int \<Rightarrow> http_world \<Rightarrow> int \<times> http_world" where
  "http_svc_initconn e fd w =
     (if user (conns w fd) = None \<and> \<not> conn_malloc e then (RET_CLOSE_MALLOC, w)
      else (0, alist_move_tail fd (set_user fd (Some
             \<lparr>hp_header = zero_header\<lparr>h_srcip := ip2str (peer_ip e fd)\<rparr>, hp_fd = fd, hp_time = clock e\<rparr>) w)))"

definition http_svc_finiconn :: "int \<Rightarrow> http_world \<Rightarrow> http_world" where
  "http_svc_finiconn fd w =
     (case user (conns w fd) of None \<Rightarrow> w | Some p \<Rightarrow> set_user fd None (alist_del fd w))"

definition http_svc_send :: "node_env \<Rightarrow> int \<Rightarrow> http_world \<Rightarrow> int \<times> http_world" where
  "http_svc_send e fd w = (SEND_ADD_EPOLLIN, set_user fd (map_option (\<lambda>p. p\<lparr>hp_time := clock e\<rparr>) (user (conns w fd))) w)"

definition http_active_connect :: "node_env \<Rightarrow> http_world \<Rightarrow> int \<times> http_world" where
  "http_active_connect e w =
     (let (fd, w) = next_fd w
      in if fd < 0 then (-1, w)
         else let (r, w) = http_svc_initconn e fd w
              in if r \<noteq> 0 then (-1, w\<lparr>shut := shut w @ [fd]\<rparr>)
                 else (fd, add_fd_2_efd (buff_size e) fd w))"

definition http_active_send :: "node_env \<Rightarrow> int \<Rightarrow> string \<Rightarrow> http_world \<Rightarrow> int \<times> http_world" where
  "http_active_send e fd d w = (0, modify_fd_event fd EPOLLOUT (set_client_data (buff_size e) fd d w))"

text \<open>Connect and, when that works, send: the callers only log a failure.\<close>

definition connect_and_send :: "node_env \<Rightarrow> string \<Rightarrow> http_world \<Rightarrow> http_world" where
  "connect_and_send e d w =
     (case http_active_connect e w of (fd, w) \<Rightarrow> if fd < 0 then w else snd (http_active_send e fd d w))"

text \<open>The first part of \<^verbatim>\<open>svc_timeout\<close>.\<close>

definition http_close_idle :: "node_env \<Rightarrow> http_world \<Rightarrow> http_world" where
  "http_close_idle e w =
     fold (\<lambda>fd w. case user (conns w fd) of
             None \<Rightarrow> w
           | Some p \<Rightarrow> if clock e - hp_time p > int (conn_timeout (cfg e))
                       then do_close http_svc_finiconn (max_fds e) (hp_fd p) w else w)
       (activelist (glob w)) w"

text \<open>
  \<^verbatim>\<open>check_request\<close> of both services, over their \<^verbatim>\<open>parse_header\<close> and \<^verbatim>\<open>do_req\<close>: a negative result for an
  error, 0 for an incomplete request, else the length of the request.
\<close>

definition http_check_request ::
  "(t_uc_oss_http_header \<Rightarrow> string \<Rightarrow> int \<times> t_uc_oss_http_header \<times> string) \<Rightarrow>
   (t_uc_oss_http_header \<Rightarrow> http_world \<Rightarrow> t_uc_oss_http_header \<times> http_world) \<Rightarrow>
   int \<Rightarrow> string \<Rightarrow> nat \<Rightarrow> http_world \<Rightarrow> int \<times> http_world" where
  "http_check_request parse do_req fd d len w =
     (if len < 14 then (0, w)
      else let s = cstr d
           in if \<not> starts_with ''GET /'' s then (-1, w)
              else case strstr (drop 5 s) (CRLF @ CRLF) of
                None \<Rightarrow> (0, w)
              | Some k \<Rightarrow>
                  (case strstr (drop 5 s) '' HTTP/'' of
                     None \<Rightarrow> (-2, w)
                   | Some q \<Rightarrow>
                       if q \<ge> 1023 then (-2, w)
                       else
                         (case user (conns w fd) of
                            None \<Rightarrow> (-1, w)
                          | Some p \<Rightarrow>
                              let (r, h, buf) = parse (hp_header p) s;
                                  w = set_user fd (Some (p\<lparr>hp_header := h\<rparr>))
                                        (put_back fd (buf @ drop (length buf) d) w)
                              in if r \<noteq> 0 then (-1, w)
                                 else let (h, w) = do_req h w
                                      in (int k + 9, set_user fd (map_option (\<lambda>p. p\<lparr>hp_header := h\<rparr>) (user (conns w fd))) w))))"

end
