(* ===== verification/SmHttp.thy ===== *)
theory SmHttp
  imports HttpPeer TaskQueueProps
begin

text \<open>
  The collecting service of the storage node: \<^verbatim>\<open>src/network/sm_http/vfs_http.c\<close> and
  \<^verbatim>\<open>vfs_http_sub.c\<close>.  A request announces a file, for which tasks are made, one per part.  The timeout
  handler looks at the finished tasks; when all parts of a file are there it merges the part files into
  the file and reports its digest.
\<close>

definition sm_insert_sub_task ::
  "node_env \<Rightarrow> t_uc_oss_http_header \<Rightarrow> int \<Rightarrow> int \<Rightarrow> int \<Rightarrow> int \<Rightarrow> task_state \<Rightarrow> int \<times> task_state" where
  "sm_insert_sub_task e h idx count start end s =
     put_new e TASK_WAIT
       \<lparr>base = zero_base\<lparr>stime := clock e, fsize := to_int64 (h_datalen h), filename := snprint 256 (h_filename h),
          filemd5 := snprint 36 (h_filemd5 h), srcip := snprint 16 (h_srcip h)\<rparr>,
        sub = zero_sub\<lparr>sub_idx := idx, sub_count := count, sub_start := start, sub_end := end, starttime := clock e\<rparr>\<rparr> s"

function sm_split_loop ::
  "node_env \<Rightarrow> t_uc_oss_http_header \<Rightarrow> int \<Rightarrow> int \<Rightarrow> int \<Rightarrow> task_state \<Rightarrow> int \<times> task_state" where
  "sm_split_loop e h n idx start s =
     (if idx > n then (0, s)
      else let end = (if idx = n then to_int64 (h_datalen h - 1) else start + splic_min_size (cfg e) - 1);
               (r, s) = sm_insert_sub_task e h idx n start end s
           in if r \<noteq> 0 then (-1, s) else sm_split_loop e h n (idx + 1) (start + splic_min_size (cfg e)) s)"
  by pat_completeness auto
termination by (relation "measure (\<lambda>(e, h, n, idx, start, s). nat (n + 1 - idx))") auto

declare sm_split_loop.simps [simp del]

definition sm_do_req :: "node_env \<Rightarrow> t_uc_oss_http_header \<Rightarrow> http_world \<Rightarrow> int \<times> http_world" where
  "sm_do_req e h w =
     (if h_type h = 1 then (0, fs_upd (delete_localfile (n_io e) (datadir e) (h_hostname h) (h_filename h)) w)
      else if check_localfile_md5 (n_io e) (datadir e) (h_hostname h) (h_filename h) (h_filemd5 h) (g_fs (glob w))
      then (0, connect_and_send e (sm_http_create_header (h_filename h) (h_filemd5 h) 5) w)
      else if h_datalen h = 0 then (0, w)
      else let (r, s) = sm_split_loop e h (splic_count (splic_min_size (cfg e)) (h_datalen h)) 1 0 (g_tq (glob w))
           in (r, tq_upd (\<lambda>_. s) w))"

definition sm_check_request :: "node_env \<Rightarrow> int \<Rightarrow> string \<Rightarrow> nat \<Rightarrow> http_world \<Rightarrow> int \<times> http_world" where
  "sm_check_request e = http_check_request sm_http_parse_header (\<lambda>h w. (h, snd (sm_do_req e h w)))"

definition handle_request :: "node_env \<Rightarrow> int \<Rightarrow> http_world \<Rightarrow> http_world" where
  "handle_request e fd w =
     set_client_data (buff_size e) fd (''HTTP/1.1 200 OK'' @ CRLF @ ''Content-Length: 0'' @ CRLF @ CRLF) w"

definition sm_http_svc_recv :: "node_env \<Rightarrow> int \<Rightarrow> http_world \<Rightarrow> int \<times> http_world" where
  "sm_http_svc_recv e fd w =
     (case get_client_data fd w of (r, d) \<Rightarrow>
        if r \<noteq> 0 then (RECV_ADD_EPOLLIN, w)
        else case sm_check_request e fd d (length d) w of (clen, w) \<Rightarrow>
          if clen < 0 then (RECV_CLOSE, w)
          else if clen = 0 then (RECV_ADD_EPOLLIN, w)
          else (RECV_SEND, consume_client_data fd (nat clen) (handle_request e fd w)))"

section \<open>Merging\<close>

text \<open>
  The copy loop for one part: \<open>k\<close> counts the calls of \<^verbatim>\<open>read\<close>, each of which returns up to 1024000 bytes of
  \<open>rest\<close>, the bytes not yet read.  The result tells whether there was an error.
\<close>

definition COPY_SIZE :: nat where "COPY_SIZE = 1024000"

function merge_copy :: "io \<Rightarrow> nat \<Rightarrow> string \<Rightarrow> ofile \<Rightarrow> fsys \<Rightarrow> bool \<times> ofile \<times> fsys" where
  "merge_copy io k rest out fs =
     (if rest = [] then (False, out, fs)
      else if \<not> can_read io k then (True, out, fs)
      else let d = take COPY_SIZE rest;
               n = write_res io (snd out) (length d);
               out' = (fst out, snd out + nat n);
               fs' = (if n > 0 then fwrite out (take (nat n) d) fs else fs)
           in if n \<noteq> int (length d) then (True, out', fs')
              else merge_copy io (Suc k) (drop COPY_SIZE rest) out' fs')"
  by pat_completeness auto
termination by (relation "measure (\<lambda>(io, k, rest, out, fs). length rest)") (auto simp: COPY_SIZE_def)

declare merge_copy.simps [simp del]

definition set_task :: "node_env \<Rightarrow> addr \<Rightarrow> int \<Rightarrow> http_world \<Rightarrow> http_world" where
  "set_task e x st w = tq_upd (\<lambda>s. snd (vfs_set_task (q_lock e st) x st s)) w"

text \<open>The loop over the parts \<open>idx\<close> to \<open>count\<close>.\<close>

function merge_parts :: "node_env \<Rightarrow> string \<Rightarrow> int \<Rightarrow> int \<Rightarrow> ofile \<Rightarrow> http_world \<Rightarrow> http_world" where
  "merge_parts e fname count idx out w =
     (if idx > count then w
      else case get_task_from_alltask (a_lock e) fname idx count (g_tq (glob w)) of
        (_, None, s) \<Rightarrow> tq_upd (\<lambda>_. s) w
      | (_, Some x, s) \<Rightarrow>
          let w = tq_upd (\<lambda>_. s) w; b = base (task (node s x))
          in if expire b \<noteq> 0 then merge_parts e fname count (idx + 1) out (set_task e x TASK_HOME w)
             else if files (g_fs (glob w)) (tmpfile b) = None \<or> \<not> can_open (n_io e) (tmpfile b) then w
             else
               let (err, out, fs) = merge_copy (n_io e) 0 (the (files (g_fs (glob w)) (tmpfile b))) out (g_fs (glob w));
                   (ok, fs) = unlink (n_io e) (tmpfile b) fs;
                   w = set_task e x TASK_HOME (fs_upd (\<lambda>_. fs) w)
               in if err \<or> \<not> ok then w else merge_parts e fname count (idx + 1) out w)"
  by pat_completeness auto
termination by (relation "measure (\<lambda>(e, fname, count, idx, out, w). nat (count + 1 - idx))") auto

declare merge_parts.simps [simp del]

definition do_merge_file ::
  "node_env \<Rightarrow> string \<Rightarrow> string \<Rightarrow> int \<Rightarrow> string \<Rightarrow> http_world \<Rightarrow> int \<times> http_world" where
  "do_merge_file e host fname count md5 w =
     (let outfile = get_localdir (datadir e) host fname; (ok, fs) = creat (n_io e) outfile (g_fs (glob w))
      in if \<not> ok then (-1, w)
         else let w = merge_parts e fname count 1 (outfile, 0) (fs_upd (\<lambda>_. fs) w);
                  typ = (if md5_text (n_io e) (files (g_fs (glob w)) outfile) = md5 then 5 else 6)
              in (0, connect_and_send e (sm_http_create_header fname md5 typ) w))"

section \<open>Finished tasks\<close>

definition check_task_allsub_isok :: "int \<Rightarrow> string \<Rightarrow> int \<Rightarrow> task_state \<Rightarrow> bool" where
  "check_task_allsub_isok lk fname count s \<longleftrightarrow>
     list_all (\<lambda>idx. check_task_from_alltask lk fname idx count 0 s = 0) [1..count]"

definition clear_alltask_timeout :: "node_env \<Rightarrow> string \<Rightarrow> int \<Rightarrow> task_state \<Rightarrow> task_state" where
  "clear_alltask_timeout e fname count s =
     fold (\<lambda>idx s. case get_task_from_alltask (a_lock e) fname idx count s of
             (_, None, s) \<Rightarrow> s
           | (_, Some x, s) \<Rightarrow> snd (vfs_set_task (q_lock e TASK_HOME) x TASK_HOME s))
       [1..count] s"

text \<open>
  \<^verbatim>\<open>check_lack_task\<close>.  The marker file is made by the shell; \<open>system_cmd\<close> is what a shell command does to
  the files.
\<close>

definition lack_entry :: "node_env \<Rightarrow> fsys \<Rightarrow> string \<Rightarrow> addr \<Rightarrow> int \<Rightarrow> int \<Rightarrow> task_state \<Rightarrow> task_state" where
  "lack_entry e fs localfile x count i s =
     (if is_there fs (part_path localfile i count) then s
      else case vfs_get_task (q_lock e TASK_HOME) (malloc_ok e) TASK_HOME s of
        (_, None, s) \<Rightarrow> s
      | (_, Some y, s) \<Rightarrow>
          let b = base (task (node s x)); s = set_node y (\<lambda>n. n\<lparr>task := \<lparr>base = b, sub = zero_sub\<lparr>sub_idx := i, sub_count := count\<rparr>\<rparr>\<rparr>) s;
              s = snd (set_task_from_alltask (a_lock e) (filename b) i count 1 s)
          in snd (vfs_set_task (q_lock e TASK_WAIT) y TASK_WAIT s))"

definition check_lack_task :: "node_env \<Rightarrow> (string \<Rightarrow> fsys \<Rightarrow> fsys) \<Rightarrow> addr \<Rightarrow> http_world \<Rightarrow> http_world" where
  "check_lack_task e system_cmd x w =
     (let t = task (node (g_tq (glob w)) x);
          localfile = get_localdir (datadir e) (hostname (base t)) (filename (base t));
          checkfile = snprint 256 (localfile @ ''_checkfile_nodup'')
      in if is_there (g_fs (glob w)) checkfile then w
         else let w = fs_upd (system_cmd (snprint 256 (''touch '' @ checkfile))) w; fs = g_fs (glob w)
              in tq_upd (fold (lack_entry e fs localfile x (sub_count (sub t))) [1..sub_count (sub t)]) w)"

text \<open>\<^verbatim>\<open>check_fin_task\<close>: \<open>n\<close> is the number of tasks it may still handle; the task that exceeds it has been
  taken from the queue when the function returns.\<close>

definition fin_task :: "node_env \<Rightarrow> (string \<Rightarrow> fsys \<Rightarrow> fsys) \<Rightarrow> addr \<Rightarrow> http_world \<Rightarrow> http_world" where
  "fin_task e system_cmd x w =
     (let t = task (node (g_tq (glob w)) x); b = base t
      in if overstatus b \<noteq> OVER_OK
         then if cfg_retry (cfg e) \<noteq> 0 \<and> retry b < cfg_retry (cfg e)
              then set_task e x TASK_WAIT
                     (tq_upd (set_node x (\<lambda>n. n\<lparr>task := (task n)\<lparr>base := b\<lparr>retry := retry b + 1, overstatus := OVER_UNKNOWN\<rparr>\<rparr>\<rparr>)) w)
              else tq_upd (clear_alltask_timeout e (filename b) (sub_count (sub t))) w
         else let w = check_lack_task e system_cmd x w;
                  w = tq_upd (\<lambda>s. snd (add_task_to_alltask (a_lock e) x s)) w
              in if check_task_allsub_isok (a_lock e) (filename b) (sub_count (sub t)) (g_tq (glob w))
                 then snd (do_merge_file e (hostname b) (filename b) (sub_count (sub t)) (filemd5 b) w)
                 else w)"

fun check_fin_loop :: "node_env \<Rightarrow> (string \<Rightarrow> fsys \<Rightarrow> fsys) \<Rightarrow> nat \<Rightarrow> http_world \<Rightarrow> http_world" where
  "check_fin_loop e system_cmd n w =
     (case vfs_get_task (q_lock e TASK_FIN) (malloc_ok e) TASK_FIN (g_tq (glob w)) of
        (_, None, s) \<Rightarrow> tq_upd (\<lambda>_. s) w
      | (_, Some x, s) \<Rightarrow>
          let w = tq_upd (\<lambda>_. s) w
          in (case n of 0 \<Rightarrow> w | Suc m \<Rightarrow> check_fin_loop e system_cmd m (fin_task e system_cmd x w)))"

declare check_fin_loop.simps [simp del]

definition check_fin_task :: "node_env \<Rightarrow> (string \<Rightarrow> fsys \<Rightarrow> fsys) \<Rightarrow> http_world \<Rightarrow> http_world" where
  "check_fin_task e system_cmd w = check_fin_loop e system_cmd 128 w"

definition sm_http_svc_timeout :: "node_env \<Rightarrow> (string \<Rightarrow> fsys \<Rightarrow> fsys) \<Rightarrow> http_world \<Rightarrow> http_world" where
  "sm_http_svc_timeout e system_cmd w = check_fin_task e system_cmd (http_close_idle e w)"

end
