(* ===== verification/SmMerge.thy ===== *)
theory SmMerge
  imports SmHttp SmReceive
begin

text \<open>Properties of \<open>SmHttp\<close>: merging restores the file; what \<^verbatim>\<open>check_fin_task\<close> does with the queue.\<close>

section \<open>Copying one part\<close>

lemma merge_copy_all:
  assumes "\<forall>k. can_read io k" "\<forall>off n. write_res io off n = int n"
  shows "files fs p = Some acc \<Longrightarrow> merge_copy io k rest (p, length acc) fs =
    (False, (p, length (acc @ rest)), fs\<lparr>files := (files fs)(p \<mapsto> acc @ rest)\<rparr>)"
proof (induction "length rest" arbitrary: k rest acc fs rule: less_induct)
  case less
  show ?case
  proof (cases "rest = []")
    case True
    have "(files fs)(p \<mapsto> acc) = files fs" using less.prems by (simp add: fun_upd_idem)
    with True show ?thesis by (simp add: merge_copy.simps [of io k "[]"])
  next
    case False
    let ?d = "take COPY_SIZE rest"
    have d: "?d \<noteq> []" using False by (simp add: COPY_SIZE_def)
    have acc: "acc @ rest = (acc @ ?d) @ drop COPY_SIZE rest" by simp
    have "length (drop COPY_SIZE rest) < length rest" using False by (simp add: COPY_SIZE_def)
    from less.hyps [OF this, of "fs\<lparr>files := (files fs)(p \<mapsto> acc @ ?d)\<rparr>" "acc @ ?d" "Suc k"]
    have IH: "merge_copy io (Suc k) (drop COPY_SIZE rest) (p, length (acc @ ?d)) (fs\<lparr>files := (files fs)(p \<mapsto> acc @ ?d)\<rparr>) =
        (False, (p, length (acc @ rest)), fs\<lparr>files := (files fs)(p \<mapsto> acc @ rest)\<rparr>)"
      by simp
    have t: "take (min (length rest) COPY_SIZE) rest = ?d" by (simp add: min_def)
    have "merge_copy io k rest (p, length acc) fs =
        merge_copy io (Suc k) (drop COPY_SIZE rest) (p, length acc + length ?d) (fwrite (p, length acc) ?d fs)"
      using assms False d by (simp add: merge_copy.simps [of io k rest] Let_def t)
    also have "\<dots> = (False, (p, length (acc @ rest)), fs\<lparr>files := (files fs)(p \<mapsto> acc @ rest)\<rparr>)"
      using IH by (simp add: fwrite_append [OF less.prems])
    finally show ?thesis .
  qed
qed

section \<open>Merging all parts\<close>

text \<open>All parts \<open>idx\<close> to \<open>n\<close> are in the table and their part files are there; \<open>P i\<close> is the path of part \<open>i\<close> and
  \<open>c i\<close> its content.\<close>

definition parts_ready ::
  "string \<Rightarrow> int \<Rightarrow> int \<Rightarrow> (int \<Rightarrow> string) \<Rightarrow> (int \<Rightarrow> string) \<Rightarrow> task_state \<Rightarrow> fsys \<Rightarrow> bool" where
  "parts_ready fname idx n P c s fs \<longleftrightarrow> alltask_ok s \<and>
     (\<forall>i\<in>{idx..n}. hashed s (same_task fname i n) \<and> files fs (P i) = Some (c i) \<and>
        (\<forall>j x. x \<in> set (alltask s j) \<longrightarrow> same_task fname i n (node s x) \<longrightarrow>
           tmpfile (base (task (node s x))) = P i \<and> expire (base (task (node s x))) = 0))"

lemma parts_ready_fs:
  assumes "parts_ready fname idx n P c s fs" "\<And>i. i \<in> {idx..n} \<Longrightarrow> files fs' (P i) = files fs (P i)"
  shows "parts_ready fname idx n P c s fs'"
  unfolding parts_ready_def
proof (intro conjI ballI)
  show "alltask_ok s" using assms(1) by (simp add: parts_ready_def)
  fix i assume i: "i \<in> {idx..n}"
  with assms(1) show "hashed s (same_task fname i n)"
    "\<forall>j x. x \<in> set (alltask s j) \<longrightarrow> same_task fname i n (node s x) \<longrightarrow>
       tmpfile (base (task (node s x))) = P i \<and> expire (base (task (node s x))) = 0"
    unfolding parts_ready_def by blast+
  have "files fs (P i) = Some (c i)" using assms(1) i unfolding parts_ready_def by blast
  then show "files fs' (P i) = Some (c i)" using assms(2) [OF i] by simp
qed

lemma get_all_hashed:
  assumes "alltask_ok s" "\<not> lock_failed lk" "hashed s (same_task f i n)"
  shows "\<exists>x j. get_task_from_alltask lk f i n s = (0, Some x, hlist_del x s) \<and> x \<in> set (alltask s j) \<and>
    same_task f i n (node s x)"
proof -
  have "find (\<lambda>x. same_task f i n (node s x)) (alltask s (task_bucket f i n)) \<noteq> None"
    using find_bucket [OF assms(1), of "same_task f i n" f i n] assms(3) by simp
  then obtain x where x: "find (\<lambda>x. same_task f i n (node s x)) (alltask s (task_bucket f i n)) = Some x" by auto
  with find_Some_in [OF this] assms(2) show ?thesis by (auto simp: get_task_from_alltask_def)
qed

lemma set_task_tq:
  "alltask (g_tq (glob (set_task e x st w))) = alltask (g_tq (glob w))"
  "task (node (g_tq (glob (set_task e x st w))) y) = task (node (g_tq (glob w)) y)"
  "top (g_tq (glob (set_task e x st w))) = top (g_tq (glob w))"
  "g_fs (glob (set_task e x st w)) = g_fs (glob w)" "conns (set_task e x st w) = conns w"
  "fd_results (glob (set_task e x st w)) = fd_results (glob w)"
  by (auto simp: set_task_def vfs_set_task_def tq_ops tq_upd_def)

lemma alltask_ok_keep:
  assumes "alltask_ok s" "\<And>i. set (alltask s' i) \<subseteq> set (alltask s i)" "\<And>i. distinct (alltask s' i)"
    "\<And>y. task (node s' y) = task (node s y)" "top s \<le> top s'"
  shows "alltask_ok s'"
proof -
  have "x < top s' \<and> i = key_bucket (node s' x)" if x: "x \<in> set (alltask s' i)" for x i
  proof -
    have "x \<in> set (alltask s i)" using x assms(2) by blast
    then have "x < top s" "i = key_bucket (node s x)" using assms(1) unfolding alltask_ok_def by blast+
    then show ?thesis using assms(4,5) by (simp add: key_bucket_def)
  qed
  then show ?thesis using assms(3) unfolding alltask_ok_def by blast
qed

lemma same_task_status: "task t = task t' \<Longrightarrow> same_task f i n t = same_task f i n t'"
  by (simp add: same_task_def)

lemma parts_ready_step:
  assumes r: "parts_ready fname idx n P c s fs" and x: "same_task fname idx n (node s x)"
    and s': "\<And>j. alltask s' j = removeAll x (alltask s j)" "\<And>y. task (node s' y) = task (node s y)" "top s' = top s"
    and fs': "\<And>i. i \<in> {idx + 1..n} \<Longrightarrow> files fs' (P i) = files fs (P i)"
  shows "parts_ready fname (idx + 1) n P c s' fs'"
proof -
  have same: "same_task fname i n (node s' y) = same_task fname i n (node s y)" for i y
    by (rule same_task_status [OF s'(2)])
  have a: "alltask_ok s" using r by (simp add: parts_ready_def)
  then have d: "distinct (alltask s j)" for j unfolding alltask_ok_def by blast
  have ok: "alltask_ok s'"
    by (rule alltask_ok_keep [OF a]) (auto simp: s' d distinct_removeAll)
  have other: "y \<noteq> x" if "same_task fname i n (node s y)" "i \<noteq> idx" for i y
    using that x by (auto simp: same_task_def)
  have "hashed s' (same_task fname i n) \<and> files fs' (P i) = Some (c i) \<and>
      (\<forall>j y. y \<in> set (alltask s' j) \<longrightarrow> same_task fname i n (node s' y) \<longrightarrow>
         tmpfile (base (task (node s' y))) = P i \<and> expire (base (task (node s' y))) = 0)"
    if i: "i \<in> {idx + 1..n}" for i
  proof -
    have ii: "i \<in> {idx..n}" using i by simp
    have ri: "hashed s (same_task fname i n)" "files fs (P i) = Some (c i)"
      "\<forall>j y. y \<in> set (alltask s j) \<longrightarrow> same_task fname i n (node s y) \<longrightarrow>
         tmpfile (base (task (node s y))) = P i \<and> expire (base (task (node s y))) = 0"
      using r ii unfolding parts_ready_def by blast+
    obtain j y where y: "y \<in> set (alltask s j)" "same_task fname i n (node s y)" using ri(1) by (auto simp: hashed_def)
    have "i \<noteq> idx" using i by simp
    then have "y \<noteq> x" using other [OF y(2)] by blast
    then have "y \<in> set (alltask s' j)" using y(1) by (simp add: s'(1))
    then have "hashed s' (same_task fname i n)" using y(2) unfolding hashed_def same by blast
    moreover have "files fs' (P i) = Some (c i)" using ri(2) fs' i by simp
    moreover have "tmpfile (base (task (node s' z))) = P i \<and> expire (base (task (node s' z))) = 0"
      if z: "z \<in> set (alltask s' l)" "same_task fname i n (node s' z)" for l z
    proof -
      have "z \<in> set (alltask s l)" using z(1) by (simp add: s'(1))
      moreover have "same_task fname i n (node s z)" using z(2) same by simp
      ultimately show ?thesis using ri(3) unfolding s'(2) by blast
    qed
    ultimately show ?thesis by blast
  qed
  with ok show ?thesis unfolding parts_ready_def by blast
qed

definition merge_env :: "node_env \<Rightarrow> bool" where
  "merge_env e \<longleftrightarrow> env_full e \<and> (\<forall>k. can_read (n_io e) k) \<and> (\<forall>p. can_unlink (n_io e) p)"

lemma merge_parts_all:
  assumes e: "merge_env e"
  shows "parts_ready fname idx n P c (g_tq (glob w)) (g_fs (glob w)) \<Longrightarrow>
    files (g_fs (glob w)) o_path = Some acc \<Longrightarrow> inj_on P {idx..n} \<Longrightarrow> \<forall>i\<in>{idx..n}. P i \<noteq> o_path \<Longrightarrow>
    w' = merge_parts e fname n idx (o_path, length acc) w \<Longrightarrow>
      files (g_fs (glob w')) o_path = Some (acc @ concat (map c [idx..n])) \<and>
      (\<forall>i\<in>{idx..n}. files (g_fs (glob w')) (P i) = None) \<and>
      (\<forall>q. q \<noteq> o_path \<longrightarrow> q \<notin> P ` {idx..n} \<longrightarrow> files (g_fs (glob w')) q = files (g_fs (glob w)) q) \<and>
      conns w' = conns w \<and> fd_results (glob w') = fd_results (glob w)"
proof (induction "nat (n + 1 - idx)" arbitrary: idx w w' acc)
  case 0
  then show ?case by (simp add: merge_parts.simps [of e fname n idx])
next
  case (Suc k)
  let ?s = "g_tq (glob w)"
  let ?fs = "g_fs (glob w)"
  have le: "idx \<le> n" and k: "k = nat (n + 1 - (idx + 1))" using Suc.hyps(2) by simp_all
  then have mem: "idx \<in> {idx..n}" by simp
  have lk: "\<not> lock_failed (a_lock e)" using e by (simp add: merge_env_def env_full_def env_good_def)
  have r: "alltask_ok ?s" "hashed ?s (same_task fname idx n)" "files ?fs (P idx) = Some (c idx)"
    "\<forall>j x. x \<in> set (alltask ?s j) \<longrightarrow> same_task fname idx n (node ?s x) \<longrightarrow>
       tmpfile (base (task (node ?s x))) = P idx \<and> expire (base (task (node ?s x))) = 0"
    using Suc.prems(1) mem unfolding parts_ready_def by blast+
  obtain x j where x: "get_task_from_alltask (a_lock e) fname idx n ?s = (0, Some x, hlist_del x ?s)"
    "x \<in> set (alltask ?s j)" "same_task fname idx n (node ?s x)"
    using get_all_hashed [OF r(1) lk r(2)] by blast
  have b: "tmpfile (base (task (node ?s x))) = P idx" "expire (base (task (node ?s x))) = 0" using r(4) x by blast+
  have io: "\<forall>k. can_read (n_io e) k" "\<forall>off n. write_res (n_io e) off n = int n" "\<And>p. can_open (n_io e) p"
    "\<And>p. can_unlink (n_io e) p"
    using e by (auto simp: merge_env_def env_full_def)
  let ?acc = "acc @ c idx"
  let ?fs1 = "?fs\<lparr>files := (files ?fs)(o_path \<mapsto> ?acc)\<rparr>"
  let ?fs2 = "?fs1\<lparr>files := (files ?fs1)(P idx := None)\<rparr>"
  let ?w1 = "set_task e x TASK_HOME (fs_upd (\<lambda>_. ?fs2) (tq_upd (\<lambda>_. hlist_del x ?s) w))"
  have ne: "P idx \<noteq> o_path" using Suc.prems(4) mem by blast
  have step: "merge_parts e fname n idx (o_path, length acc) w =
      merge_parts e fname n (idx + 1) (o_path, length ?acc) ?w1"
    using le b r(3) io ne
    by (simp add: merge_parts.simps [of e fname n idx] x(1) Let_def merge_copy_all [OF io(1,2) Suc.prems(2)] unlink_def
        hlist_del_def)
  have inj: "P i \<noteq> P idx" if "i \<in> {idx + 1..n}" for i
    using Suc.prems(3) that mem by (auto dest!: inj_onD)
  have "parts_ready fname (idx + 1) n P c (g_tq (glob ?w1)) (g_fs (glob ?w1))"
  proof (rule parts_ready_step [OF Suc.prems(1) x(3)])
    fix i assume i: "i \<in> {idx + 1..n}"
    then have "P i \<noteq> o_path" using Suc.prems(4) by simp
    with inj [OF i] show "files (g_fs (glob ?w1)) (P i) = files ?fs (P i)" by (simp add: set_task_tq)
  qed (simp_all add: set_task_tq hlist_del_def)
  moreover have "files (g_fs (glob ?w1)) o_path = Some ?acc" using ne by (simp add: set_task_tq)
  moreover have "inj_on P {idx + 1..n}" "\<forall>i\<in>{idx + 1..n}. P i \<noteq> o_path"
    using Suc.prems(3,4) by (auto simp: inj_on_def)
  ultimately have IH: "files (g_fs (glob w')) o_path = Some (?acc @ concat (map c [idx + 1..n])) \<and>
      (\<forall>i\<in>{idx + 1..n}. files (g_fs (glob w')) (P i) = None) \<and>
      (\<forall>q. q \<noteq> o_path \<longrightarrow> q \<notin> P ` {idx + 1..n} \<longrightarrow> files (g_fs (glob w')) q = files (g_fs (glob ?w1)) q) \<and>
      conns w' = conns ?w1 \<and> fd_results (glob w') = fd_results (glob ?w1)"
    using Suc.prems(5) unfolding step by (rule Suc.hyps(1) [OF k])
  have w1: "conns ?w1 = conns w" "fd_results (glob ?w1) = fd_results (glob w)" by (simp_all add: set_task_tq)
  note IH1 = conjunct1 [OF IH] and IH2 = conjunct1 [OF conjunct2 [OF IH]]
    and IH3 = conjunct1 [OF conjunct2 [OF conjunct2 [OF IH]]]
    and IH4 = conjunct2 [OF conjunct2 [OF conjunct2 [OF IH]], unfolded w1]
  have "P idx \<notin> P ` {idx + 1..n}"
  proof
    assume "P idx \<in> P ` {idx + 1..n}"
    then obtain i where "i \<in> {idx + 1..n}" "P i = P idx" by (metis imageE)
    with inj show False by blast
  qed
  then have gone: "files (g_fs (glob w')) (P idx) = None" using IH3 ne by (simp add: set_task_tq)
  have range: "{idx..n} = insert idx {idx + 1..n}" using le by auto
  have list: "[idx..n] = idx # [idx + 1..n]" using le upto_rec1 [of idx n] by simp
  have "files (g_fs (glob w')) q = files ?fs q" if "q \<noteq> o_path" "q \<notin> P ` {idx..n}" for q
  proof -
    have "q \<notin> P ` {idx + 1..n}" "q \<noteq> P idx" using that(2) range by auto
    then show ?thesis using IH3 that(1) by (simp add: set_task_tq)
  qed
  then show ?case using IH1 IH2 IH4 gone unfolding list range by (simp only: list.map concat.simps append_assoc ball_simps) blast
qed

section \<open>The paths of the parts\<close>

lemma length_dec_pos: "0 \<le> i \<Longrightarrow> i < 2 ^ 31 \<Longrightarrow> length (dec_int i) \<le> 10"
  using length_dec_nat [of "nat i" 9] by (simp add: dec_int_def)

lemma dec_int_inj: "0 \<le> i \<Longrightarrow> 0 \<le> j \<Longrightarrow> dec_int i = dec_int j \<Longrightarrow> i = j"
  by (metis dec_int_def eq_nat_nat_iff linorder_not_less read_dec_nat)

lemma part_path_short:
  assumes "length outfile < 230" "0 \<le> i" "i < 2 ^ 31" "0 \<le> n" "n < 2 ^ 31"
  shows "part_path outfile i n = outfile @ ''_'' @ dec_int i @ ''_'' @ dec_int n"
  using assms length_dec_pos [of i] length_dec_pos [of n] by (simp add: part_path_def)

lemma part_path_inj:
  assumes "length outfile < 230" "n < 2 ^ 31"
  shows "inj_on (\<lambda>i. part_path outfile i n) {1..n}" "\<forall>i\<in>{1..n}. part_path outfile i n \<noteq> outfile"
proof -
  have p: "part_path outfile i n = outfile @ ''_'' @ dec_int i @ ''_'' @ dec_int n" if "i \<in> {1..n}" for i
    using that assms by (intro part_path_short) auto
  show "inj_on (\<lambda>i. part_path outfile i n) {1..n}"
    by (rule inj_onI) (auto simp: p intro: dec_int_inj)
  show "\<forall>i\<in>{1..n}. part_path outfile i n \<noteq> outfile" by (simp add: p)
qed

section \<open>The report\<close>

lemma connect_and_send_fs: "g_fs (glob (connect_and_send e d w)) = g_fs (glob w)"
  by (auto simp: connect_and_send_def http_active_connect_def http_svc_initconn_def http_active_send_def next_fd_def Let_def
      add_fd_2_efd_def upd_conn_def set_user_def split: list.splits prod.splits if_splits)

lemma connect_and_send_tq: "g_tq (glob (connect_and_send e d w)) = g_tq (glob w)"
  by (auto simp: connect_and_send_def http_active_connect_def http_svc_initconn_def http_active_send_def next_fd_def Let_def
      add_fd_2_efd_def upd_conn_def set_user_def split: list.splits prod.splits if_splits)

lemma connect_and_send_msg:
  assumes "fd_results (glob w) = fd # fds" "0 \<le> fd" "conn_malloc e" "0 < buff_size e" "buff_ok (send_buff (conns w fd))"
    "d \<noteq> []"
  shows "mybuff_getdata (send_buff (conns (connect_and_send e d w) fd)) = (0, d)"
proof -
  let ?r = "fst (mybuff_reinit (buff_size e) (send_buff (conns w fd)))"
  have r: "buff_ok ?r" "pending ?r = []" using reinit_spec [OF assms(5,4)] by simp_all
  have "mybuff_getdata (mybuff_setdata (buff_size e) ?r d) = (0, d)"
    using setdata_spec [OF r(1) assms(4), of d] getdata_spec r(2) assms(6) by simp
  moreover have "send_buff (conns (connect_and_send e d w) fd) = mybuff_setdata (buff_size e) ?r d"
    using assms(1-3)
    by (simp add: connect_and_send_def http_active_connect_def http_svc_initconn_def next_fd_def http_active_send_def
        add_fd_2_efd_def upd_conn_def set_user_def modify_fd_event_def set_client_data_def Let_def split: prod.splits)
  ultimately show ?thesis by simp
qed

lemma merge_file_all:
  assumes e: "merge_env e" and o: "outfile = get_localdir (datadir e) host fname" "length outfile < 230"
    and n: "n < 2 ^ 31"
    and ready: "parts_ready fname 1 n (\<lambda>i. part_path outfile i n) c (g_tq (glob w)) (g_fs (glob w))"
    and conn: "fd_results (glob w) = fd # fds" "0 \<le> fd" "conn_malloc e" "buff_ok (send_buff (conns w fd))"
  shows "\<exists>w'. do_merge_file e host fname n md5 w = (0, w') \<and>
    files (g_fs (glob w')) outfile = Some (concat (map c [1..n])) \<and>
    (\<forall>i\<in>{1..n}. files (g_fs (glob w')) (part_path outfile i n) = None) \<and>
    mybuff_getdata (send_buff (conns w' fd)) = (0, sm_http_create_header fname md5
      (if md5_text (n_io e) (Some (concat (map c [1..n]))) = md5 then 5 else 6))"
proof -
  let ?P = "\<lambda>i. part_path outfile i n"
  let ?fs = "g_fs (glob w)"
  let ?w1 = "fs_upd (\<lambda>_. ?fs\<lparr>files := (files ?fs)(outfile \<mapsto> [])\<rparr>) w"
  have io: "can_open (n_io e) outfile" "0 < buff_size e" using e by (simp_all add: merge_env_def env_full_def)
  note inj = part_path_inj [OF o(2) n]
  have keep: "files (g_fs (glob ?w1)) (?P i) = files ?fs (?P i)" if "i \<in> {1..n}" for i
    using inj(2) that by simp
  have "parts_ready fname 1 n ?P c (g_tq (glob ?w1)) (g_fs (glob ?w1))"
    using parts_ready_fs [OF ready keep] by simp
  moreover have "files (g_fs (glob ?w1)) outfile = Some []" by simp
  ultimately have m: "files (g_fs (glob w2)) outfile = Some (concat (map c [1..n]))"
    "\<forall>i\<in>{1..n}. files (g_fs (glob w2)) (?P i) = None" "conns w2 = conns w" "fd_results (glob w2) = fd # fds"
    if "w2 = merge_parts e fname n 1 (outfile, 0) ?w1" for w2
    using merge_parts_all [OF e, of fname 1 n ?P c ?w1 outfile "[]" w2] inj that conn(1) by simp_all
  let ?w2 = "merge_parts e fname n 1 (outfile, 0) ?w1"
  let ?d = "sm_http_create_header fname md5 (if md5_text (n_io e) (Some (concat (map c [1..n]))) = md5 then 5 else 6)"
  have "do_merge_file e host fname n md5 w = (0, connect_and_send e ?d ?w2)"
    using m(1) [OF refl] io(1) by (simp add: do_merge_file_def o(1) [symmetric] creat_def Let_def)
  moreover have "?d \<noteq> []" by (simp add: sm_http_create_header_def)
  ultimately show ?thesis
    using m [OF refl] connect_and_send_msg [OF m(4) [OF refl] conn(2,3) io(2), of ?d] conn(4)
    by (intro exI [of _ "connect_and_send e ?d ?w2"]) (simp add: connect_and_send_fs)
qed

section \<open>Properties\<close>

text \<open>C11: When all parts of a file are in the table of tasks and their part files are there, \<^verbatim>\<open>do_merge_file\<close>
  leaves the file as the parts in order, removes the part files, and puts into the send buffer of a new
  connection the report, of type 5 exactly when the digest of the merged file is the announced one.\<close>

theorem merge_concatenates_parts:
  assumes "merge_env e" "outfile = get_localdir (datadir e) host fname" "length outfile < 230" "n < 2 ^ 31"
    "parts_ready fname 1 n (\<lambda>i. part_path outfile i n) c (g_tq (glob w)) (g_fs (glob w))"
    "fd_results (glob w) = fd # fds" "0 \<le> fd" "conn_malloc e" "buff_ok (send_buff (conns w fd))"
  shows "\<exists>w'. do_merge_file e host fname n md5 w = (0, w') \<and>
    files (g_fs (glob w')) outfile = Some (concat (map c [1..n])) \<and>
    (\<forall>i\<in>{1..n}. files (g_fs (glob w')) (part_path outfile i n) = None) \<and>
    mybuff_getdata (send_buff (conns w' fd)) = (0, sm_http_create_header fname md5
      (if md5_text (n_io e) (Some (concat (map c [1..n]))) = md5 then 5 else 6))"
  by (rule merge_file_all [OF assms])

text \<open>A node with the parts \<open>''ab''\<close> and \<open>''c''\<close> of a file.\<close>

definition two_parts_node :: "nat \<Rightarrow> t_vfs_tasklist" where
  "two_parts_node x = \<lparr>task = \<lparr>base = zero_base\<lparr>filename := ''/d/f'', hostname := ''uc1'',
       tmpfile := part_path ''/diska/uc1/f'' (int x + 1) 2\<rparr>, sub = zero_sub\<lparr>sub_idx := int x + 1, sub_count := 2\<rparr>\<rparr>,
     upip = 0, status = TASK_UNKNOWN\<rparr>"

definition two_parts :: http_world where
  "two_parts = (fresh_world :: http_world)\<lparr>glob := (glob (fresh_world :: http_world))\<lparr>
     g_tq := \<lparr>node = two_parts_node, vfstask = (\<lambda>_. []),
       alltask = (\<lambda>i. filter (\<lambda>x. i = key_bucket (two_parts_node x)) [0, 1]), taskcount = (\<lambda>_. 0), top = 2\<rparr>,
     g_fs := \<lparr>files = [part_path ''/diska/uc1/f'' 1 2 \<mapsto> ''ab'', part_path ''/diska/uc1/f'' 2 2 \<mapsto> ''c''], dirs = {}\<rparr>\<rparr>\<rparr>"

lemma two_parts_facts:
  "merge_env example_env" "''/diska/uc1/f'' = get_localdir (datadir example_env) ''uc1'' ''/d/f''"
  "fd_results (glob two_parts) = 7 # [8, 9, 10]" "conn_malloc example_env" "buff_ok (send_buff (conns two_parts 7))"
  using env_full_example buff_ok_init(1)
  by (simp_all add: merge_env_def example_env_def good_io_def get_localdir_def basename_def after_last_def two_parts_def
      fresh_world_def)

lemma two_parts_ready:
  "parts_ready ''/d/f'' 1 2 (\<lambda>i. part_path ''/diska/uc1/f'' i 2) (\<lambda>i. if i = 1 then ''ab'' else ''c'')
     (g_tq (glob two_parts)) (g_fs (glob two_parts))"
proof -
  have r: "{1..2} = {1, 2 :: int}" by auto
  have ne: "part_path ''/diska/uc1/f'' 1 2 \<noteq> part_path ''/diska/uc1/f'' 2 2"
    using part_path_inj(1) [of "''/diska/uc1/f''" 2] unfolding r by (auto simp: inj_on_def)
  have in0: "0 \<in> set (alltask (g_tq (glob two_parts)) (key_bucket (two_parts_node 0)))"
    "1 \<in> set (alltask (g_tq (glob two_parts)) (key_bucket (two_parts_node 1)))" by (simp_all add: two_parts_def)
  have nd: "node (g_tq (glob two_parts)) = two_parts_node" by (simp add: two_parts_def)
  have same: "same_task ''/d/f'' (int x + 1) 2 (two_parts_node x)" for x by (simp add: same_task_def two_parts_node_def)
  have "hashed (g_tq (glob two_parts)) (same_task ''/d/f'' 1 2)" "hashed (g_tq (glob two_parts)) (same_task ''/d/f'' 2 2)"
    unfolding hashed_def nd using in0 same [of 0] same [of 1] by force+
  moreover have "alltask_ok (g_tq (glob two_parts))" by (auto simp: alltask_ok_def two_parts_def)
  ultimately show ?thesis
    unfolding parts_ready_def r nd using ne
    by (auto simp: two_parts_def same_task_def two_parts_node_def zero_base_def)
qed

theorem merge_concatenates_parts_witness:
  "\<exists>w'. do_merge_file example_env ''uc1'' ''/d/f'' 2 [] two_parts = (0, w') \<and>
     files (g_fs (glob w')) ''/diska/uc1/f'' = Some ''abc''"
proof -
  have "concat (map (\<lambda>i. if i = 1 then ''ab'' else ''c'') [1..2]) = ''abc''" by (simp add: upto.simps)
  with merge_concatenates_parts [OF two_parts_facts(1,2) _ _ two_parts_ready two_parts_facts(3) _ two_parts_facts(4,5), of "[]"]
  show ?thesis by auto
qed

text \<open>C4: A file that was cut by the upload node's partition and whose parts all arrived is restored: the
  merged file is the original one, and the report says so when the announced digest was the original's.\<close>

theorem merge_restores_split_file:
  assumes "merge_env e" "outfile = get_localdir (datadir e) host fname" "length outfile < 230"
    "0 < m" "n = splic_count m (int (length f))" "int (length f) div m < 2 ^ 31 - 1"
    "parts_ready fname 1 n (\<lambda>i. part_path outfile i n)
       (\<lambda>i. case part_range m (int (length f)) n i of (a, b) \<Rightarrow> slice a b f) (g_tq (glob w)) (g_fs (glob w))"
    "fd_results (glob w) = fd # fds" "0 \<le> fd" "conn_malloc e" "buff_ok (send_buff (conns w fd))"
  shows "\<exists>w'. do_merge_file e host fname n (md5_text (n_io e) (Some f)) w = (0, w') \<and>
    files (g_fs (glob w')) outfile = Some f \<and>
    mybuff_getdata (send_buff (conns w' fd)) = (0, sm_http_create_header fname (md5_text (n_io e) (Some f)) 5)"
proof -
  have "0 \<le> int (length f) div m" using assms(4) by (simp add: pos_imp_zdiv_nonneg_iff)
  then have "n < 2 ^ 31" using assms(6) by (simp add: assms(5) splic_count_def to_int32_id)
  moreover have "concat (map (\<lambda>i. case part_range m (int (length f)) n i of (a, b) \<Rightarrow> slice a b f) [1..n]) = f"
    unfolding assms(5) using assms(6) by (intro slices_all [OF assms(4)]) simp
  ultimately show ?thesis
    using merge_file_all [OF assms(1-3) _ assms(7-11), of "md5_text (n_io e) (Some f)"] by auto
qed

theorem merge_restores_split_file_witness:
  "\<exists>w'. do_merge_file example_env ''uc1'' ''/d/f'' 2 (md5_text (n_io example_env) (Some ''abc'')) two_parts = (0, w') \<and>
     files (g_fs (glob w')) ''/diska/uc1/f'' = Some ''abc''"
proof -
  have n: "2 = splic_count 2 (int (length ''abc''))" by (simp add: splic_count_def to_int32_id)
  have "(\<lambda>i. case part_range 2 (int (length ''abc'')) 2 i of (a, b) \<Rightarrow> slice a b ''abc'') 1 = ''ab''"
    "(\<lambda>i. case part_range 2 (int (length ''abc'')) 2 i of (a, b) \<Rightarrow> slice a b ''abc'') 2 = ''c''"
    by (simp_all add: part_range_def slice_def)
  then have "parts_ready ''/d/f'' 1 2 (\<lambda>i. part_path ''/diska/uc1/f'' i 2)
      (\<lambda>i. case part_range 2 (int (length ''abc'')) 2 i of (a, b) \<Rightarrow> slice a b ''abc'')
      (g_tq (glob two_parts)) (g_fs (glob two_parts))"
    using two_parts_ready unfolding parts_ready_def
    by (smt (verit) atLeastAtMost_iff)
  from merge_restores_split_file [OF two_parts_facts(1,2) _ _ n _ this two_parts_facts(3) _ two_parts_facts(4,5)]
  show ?thesis by auto
qed

section \<open>Finished tasks\<close>

definition retriable :: "node_env \<Rightarrow> task_state \<Rightarrow> addr \<Rightarrow> bool" where
  "retriable e s x \<longleftrightarrow> overstatus (base (task (node s x))) \<noteq> OVER_OK \<and> retry (base (task (node s x))) < cfg_retry (cfg e)"

lemma take_fin:
  assumes "tq_inv s" "vfstask s TASK_FIN = x # xs" "\<not> lock_failed lk"
  shows "\<exists>s1. vfs_get_task lk m TASK_FIN s = (GET_TASK_OK, Some x, s1) \<and> vfstask s1 = (vfstask s)(TASK_FIN := xs) \<and>
    (\<forall>y. task (node s1 y) = task (node s y)) \<and> tq_inv s1 \<and> detached s1 x \<and> alltask s1 = alltask s"
proof -
  let ?s1 = "snd (snd (vfs_get_task lk m TASK_FIN s))"
  have g: "vfs_get_task lk m TASK_FIN s = (GET_TASK_OK, Some x, ?s1)"
    using assms by (simp add: vfs_get_task_def bad_status_def)
  note q = queues_okD [OF tq_invD(1) [OF assms(1)]]
  have x: "x \<notin> set xs" using q(1) [of TASK_FIN] assms(2) by auto
  have "x \<notin> set (vfstask s j)" if "j \<noteq> TASK_FIN" for j
    using q(2) [of x j TASK_FIN] that assms(2) by auto
  with x have "vfstask ?s1 = (vfstask s)(TASK_FIN := xs)"
    using assms by (auto simp: vfs_get_task_def bad_status_def tq_ops fun_eq_iff)
  moreover have "task (node ?s1 y) = task (node s y)" "alltask ?s1 = alltask s" for y
    using assms by (simp_all add: vfs_get_task_def bad_status_def tq_ops)
  ultimately show ?thesis
    using g tq_inv_get [OF assms(1), of lk m TASK_FIN] get_detached [OF assms(1) g] by blast
qed

lemma fin_task_retry:
  assumes "tq_inv (g_tq (glob w))" "detached (g_tq (glob w)) x" "retriable e (g_tq (glob w)) x" "env_good e"
  shows "\<exists>s2. fin_task e sc x w = tq_upd (\<lambda>_. s2) w \<and> tq_inv s2 \<and>
    vfstask s2 = (vfstask (g_tq (glob w)))(TASK_WAIT := vfstask (g_tq (glob w)) TASK_WAIT @ [x]) \<and>
    (\<forall>y. y \<noteq> x \<longrightarrow> task (node s2 y) = task (node (g_tq (glob w)) y))"
proof -
  let ?s = "g_tq (glob w)"
  let ?b = "base (task (node ?s x))"
  let ?s1 = "set_node x (\<lambda>n. n\<lparr>task := (task n)\<lparr>base := ?b\<lparr>retry := retry ?b + 1, overstatus := OVER_UNKNOWN\<rparr>\<rparr>\<rparr>) ?s"
  let ?s2 = "snd (vfs_set_task (q_lock e TASK_WAIT) x TASK_WAIT ?s1)"
  have lk: "\<not> lock_failed (q_lock e TASK_WAIT)" using assms(4) by (simp add: env_good_def)
  have d1: "detached ?s1 x" using assms(2) by simp
  have inv1: "tq_inv ?s1"
    using assms(2) by (intro tq_inv_write [OF assms(1)]) (auto simp: detached_def key_bucket_def)
  have "\<not> bad_status TASK_WAIT" by (simp add: bad_status_def)
  note eq = set_vfs_set_task [OF this lk d1]
  have "fin_task e sc x w = tq_upd (\<lambda>_. ?s2) w"
    using assms(3) by (simp add: fin_task_def retriable_def set_task_def tq_upd_def Let_def)
  moreover have "vfstask ?s2 = (vfstask ?s)(TASK_WAIT := vfstask ?s TASK_WAIT @ [x])"
    "\<forall>y. y \<noteq> x \<longrightarrow> task (node ?s2 y) = task (node ?s y)"
    unfolding eq by (simp_all add: tq_ops)
  ultimately show ?thesis using tq_inv_set [OF inv1 d1] by blast
qed

lemma check_fin_loop_retry:
  "env_good e \<Longrightarrow> tq_inv (g_tq (glob w)) \<Longrightarrow> vfstask (g_tq (glob w)) TASK_FIN = xs @ y # zs \<Longrightarrow>
   \<forall>x\<in>set xs. retriable e (g_tq (glob w)) x \<Longrightarrow>
   vfstask (g_tq (glob (check_fin_loop e sc (length xs) w))) =
     (vfstask (g_tq (glob w)))(TASK_FIN := zs, TASK_WAIT := vfstask (g_tq (glob w)) TASK_WAIT @ xs)"
proof (induction xs arbitrary: w)
  case Nil
  have lk: "\<not> lock_failed (q_lock e TASK_FIN)" using Nil.prems(1) by (simp add: env_good_def)
  obtain s1 where "vfs_get_task (q_lock e TASK_FIN) (malloc_ok e) TASK_FIN (g_tq (glob w)) = (GET_TASK_OK, Some y, s1)"
    "vfstask s1 = (vfstask (g_tq (glob w)))(TASK_FIN := zs)"
    using take_fin [OF Nil.prems(2) _ lk, of y zs] Nil.prems(3) by (metis append_Nil)
  then show ?case by (auto simp: check_fin_loop.simps [of e sc 0 w] fun_eq_iff)
next
  case (Cons x xs)
  have lk: "\<not> lock_failed (q_lock e TASK_FIN)" using Cons.prems(1) by (simp add: env_good_def)
  obtain s1 where s1: "vfs_get_task (q_lock e TASK_FIN) (malloc_ok e) TASK_FIN (g_tq (glob w)) = (GET_TASK_OK, Some x, s1)"
    "vfstask s1 = (vfstask (g_tq (glob w)))(TASK_FIN := xs @ y # zs)"
    "\<forall>y. task (node s1 y) = task (node (g_tq (glob w)) y)" "tq_inv s1" "detached s1 x"
    using take_fin [OF Cons.prems(2) _ lk] Cons.prems(3) by (metis append_Cons)
  let ?w1 = "tq_upd (\<lambda>_. s1) w"
  have "retriable e s1 x" using Cons.prems(4) s1(3) by (simp add: retriable_def)
  then obtain s2 where s2: "fin_task e sc x ?w1 = tq_upd (\<lambda>_. s2) ?w1" "tq_inv s2"
    "vfstask s2 = (vfstask s1)(TASK_WAIT := vfstask s1 TASK_WAIT @ [x])"
    "\<forall>y. y \<noteq> x \<longrightarrow> task (node s2 y) = task (node s1 y)"
    using fin_task_retry [of ?w1 x e sc] s1(4,5) Cons.prems(1) by auto
  let ?w2 = "tq_upd (\<lambda>_. s2) ?w1"
  have "x \<notin> set xs" using queues_okD(1) [OF tq_invD(1) [OF Cons.prems(2)], of TASK_FIN] Cons.prems(3) by auto
  then have "\<forall>z\<in>set xs. retriable e (g_tq (glob ?w2)) z"
    using Cons.prems(4) s1(3) s2(4) by (simp add: retriable_def) metis
  moreover have "vfstask (g_tq (glob ?w2)) TASK_FIN = xs @ y # zs" using s1(2) s2(3) by simp
  moreover have "tq_inv (g_tq (glob ?w2))" using s2(2) by simp
  ultimately have "vfstask (g_tq (glob (check_fin_loop e sc (length xs) ?w2))) =
      (vfstask s2)(TASK_FIN := zs, TASK_WAIT := vfstask s2 TASK_WAIT @ xs)"
    using Cons.IH [of ?w2] Cons.prems(1) by (simp add: fun_eq_iff)
  then show ?case
    using s1(1,2) s2(1,3) by (auto simp: check_fin_loop.simps [of e sc "Suc (length xs)" w] fun_eq_iff)
qed

text \<open>C35: One run of \<^verbatim>\<open>check_fin_task\<close> over more than 128 failed tasks puts the first 128 back to work in
  order, but the 129th is lost: it has been taken off \<open>TASK_FIN\<close> when the bound is tested and is then on no
  queue.\<close>

theorem check_fin_task_loses_one:
  assumes "env_good e" "tq_inv (g_tq (glob w))" "vfstask (g_tq (glob w)) TASK_FIN = xs @ y # zs" "length xs = 128"
    "\<forall>x\<in>set xs. retriable e (g_tq (glob w)) x"
  shows "vfstask (g_tq (glob (check_fin_task e sc w))) TASK_WAIT = vfstask (g_tq (glob w)) TASK_WAIT @ xs \<and>
    vfstask (g_tq (glob (check_fin_task e sc w))) TASK_FIN = zs \<and>
    (\<forall>i. y \<notin> set (vfstask (g_tq (glob (check_fin_task e sc w))) i))"
proof -
  note q = queues_okD [OF tq_invD(1) [OF assms(2)]]
  have "distinct (xs @ y # zs)" using q(1) [of TASK_FIN] assms(3) by simp
  moreover have "y \<notin> set (vfstask (g_tq (glob w)) i)" if "i \<noteq> TASK_FIN" for i
    using q(2) [of y i TASK_FIN] that assms(3) by auto
  ultimately show ?thesis
    using check_fin_loop_retry [OF assms(1-3,5), of sc] assms(4) by (simp add: check_fin_task_def)
qed

text \<open>130 failed tasks on \<open>TASK_FIN\<close>.\<close>

definition failed_tasks :: http_world where
  "failed_tasks = (fresh_world :: http_world)\<lparr>glob := (glob (fresh_world :: http_world))\<lparr>
     g_tq := \<lparr>node = (\<lambda>_. \<lparr>task = zero_task, upip = 0, status = TASK_FIN\<rparr>),
       vfstask = (\<lambda>_. [])(TASK_FIN := [0..<130]), alltask = (\<lambda>_. []),
       taskcount = (\<lambda>i. (if i = TASK_FIN then 130 else 0) - uncounted i), top = 130\<rparr>\<rparr>\<rparr>"

theorem check_fin_task_loses_one_witness:
  "vfstask (g_tq (glob (check_fin_task (example_env\<lparr>cfg := example_config\<lparr>cfg_retry := 1\<rparr>\<rparr>) (\<lambda>_ fs. fs) failed_tasks))) TASK_FIN = [129]"
proof -
  let ?e = "example_env\<lparr>cfg := example_config\<lparr>cfg_retry := 1\<rparr>\<rparr>"
  have "env_good ?e" by (simp add: env_good_def example_env_def)
  moreover have "tq_inv (g_tq (glob failed_tasks))"
    by (auto simp: tq_inv_def inv_defs failed_tasks_def bad_status_def)
  moreover have "[0..<130] = [0..<128] @ 128 # [129]"
    using upt_add_eq_append [of 0 128 2] by (simp add: upt_rec)
  then have "vfstask (g_tq (glob failed_tasks)) TASK_FIN = [0..<128] @ 128 # [129]" by (simp add: failed_tasks_def)
  moreover have "\<forall>x\<in>set [0..<128]. retriable ?e (g_tq (glob failed_tasks)) x"
    by (simp add: failed_tasks_def retriable_def zero_task_def zero_base_def)
  ultimately show ?thesis using check_fin_task_loses_one [of ?e failed_tasks "[0..<128]" 128 "[129]" "\<lambda>_ fs. fs"] by simp
qed

end
