(* ===== verification/UcHttp.thy ===== *)
theory UcHttp
  imports HttpPeer
begin

text \<open>
  The asking service of the upload node: \<^verbatim>\<open>src/network/uc_http/vfs_http.c\<close> and \<^verbatim>\<open>vfs_http_base.c\<close>.  Every 30
  seconds it asks the storage node which parts are missing (a header of type 250); the answer names them
  in its \<^verbatim>\<open>filename\<close> line, \<^verbatim>\<open>name index count:\<close> for each, and \<^verbatim>\<open>do_req\<close> makes a task for each.
\<close>

section \<open>The list of missing parts\<close>

definition uch_insert_sub_task ::
  "node_env \<Rightarrow> t_task_base \<Rightarrow> int \<Rightarrow> int \<Rightarrow> int \<Rightarrow> int \<Rightarrow> task_state \<Rightarrow> int \<times> task_state" where
  "uch_insert_sub_task e b idx count start end s =
     put_new e TASK_WAIT_SYNC
       \<lparr>base = b\<lparr>hostname := snprint 256 (self_host e), stime := clock e\<rparr>,
        sub = zero_sub\<lparr>sub_idx := idx, sub_count := count, sub_start := start, sub_end := end, starttime := clock e\<rparr>\<rparr> s"

definition process_lack :: "node_env \<Rightarrow> string \<Rightarrow> int \<Rightarrow> int \<Rightarrow> http_world \<Rightarrow> http_world" where
  "process_lack e fname idx count w =
     (case get_localfile_stat (n_io e) (ctime_of e) (zero_base\<lparr>filename := snprint 256 fname\<rparr>) (g_fs (glob w)) of (r, b) \<Rightarrow>
        if r \<noteq> 0 then w
        else if idx < 1 \<or> count < 1 \<or> idx > count then w
        else
          let start = splic_min_size (cfg e) * (idx - 1);
              end = start + splic_min_size (cfg e) - 1;
              end = (if end > fsize b - 1 then fsize b - 1 else end)
          in if start < 0 \<or> start > fsize b - 1 then w
             else tq_upd (\<lambda>s. snd (uch_insert_sub_task e b idx count start end s)) w)"

text \<open>\<^verbatim>\<open>sscanf(s, "%[^ ] %[^ ] %[^ ]", ...) == 3\<close>.\<close>

definition scan_word :: "string \<Rightarrow> (string \<times> string) option" where
  "scan_word s =
     (let v = takeWhile (\<lambda>c. c \<noteq> SPACE) s
      in if v = [] then None else Some (v, dropWhile isspace (dropWhile (\<lambda>c. c \<noteq> SPACE) s)))"

definition scan_entry :: "string \<Rightarrow> (string \<times> string \<times> string) option" where
  "scan_entry s =
     (case scan_word s of
        None \<Rightarrow> None
      | Some (a, s) \<Rightarrow>
          (case scan_word s of
             None \<Rightarrow> None
           | Some (b, s) \<Rightarrow> (case scan_word s of None \<Rightarrow> None | Some (c, _) \<Rightarrow> Some (a, b, c))))"

function uch_do_req :: "node_env \<Rightarrow> string \<Rightarrow> http_world \<Rightarrow> http_world" where
  "uch_do_req e s w =
     (case strchr s (CHR '':'') of
        None \<Rightarrow> w
      | Some i \<Rightarrow>
          uch_do_req e (drop (i + 1) s)
            (case scan_entry (take i s) of
               None \<Rightarrow> w
             | Some (a, b, c) \<Rightarrow> process_lack e a (atoi b) (atoi c) w))"
  by pat_completeness auto
termination
  by (relation "measure (\<lambda>(e, s, w). length s)") (auto simp: strchr_Some_split)

declare uch_do_req.simps [simp del]

section \<open>Handlers\<close>

text \<open>\<^verbatim>\<open>do_req\<close> writes a NUL over each colon of \<^verbatim>\<open>header.filename\<close>.\<close>

definition uch_check_request :: "node_env \<Rightarrow> int \<Rightarrow> string \<Rightarrow> nat \<Rightarrow> http_world \<Rightarrow> int \<times> http_world" where
  "uch_check_request e =
     http_check_request uc_http_parse_header
       (\<lambda>h w. (h\<lparr>h_filename := takeWhile (\<lambda>c. c \<noteq> CHR '':'') (h_filename h)\<rparr>, uch_do_req e (h_filename h) w))"

definition uch_svc_recv :: "node_env \<Rightarrow> int \<Rightarrow> http_world \<Rightarrow> int \<times> http_world" where
  "uch_svc_recv e fd w =
     (case get_client_data fd w of (r, d) \<Rightarrow>
        if r \<noteq> 0 then (RECV_ADD_EPOLLIN, w)
        else case uch_check_request e fd d (length d) w of (clen, w) \<Rightarrow>
          if clen < 0 then (RECV_CLOSE, w)
          else if clen = 0 then (RECV_ADD_EPOLLIN, w)
          else (RECV_SEND, consume_client_data fd (nat clen) w))"

definition uch_check_task :: "node_env \<Rightarrow> http_world \<Rightarrow> http_world" where
  "uch_check_task e w = connect_and_send e (uc_http_create_header (self_host e) (zero_base\<lparr>ftype := 250\<rparr>)) w"

text \<open>\<open>last_check\<close> is the static variable of \<^verbatim>\<open>svc_timeout\<close>.\<close>

definition uch_svc_timeout :: "node_env \<Rightarrow> int \<Rightarrow> http_world \<Rightarrow> int \<times> http_world" where
  "uch_svc_timeout e last_check w =
     (let w = http_close_idle e w
      in if clock e - last_check < 30 then (last_check, w) else (clock e, uch_check_task e w))"

end
