(* ===== verification/UcMissing.thy ===== *)
theory UcMissing
  imports UcHttp SmReceive
begin

text \<open>
  The dialogue about missing parts: the list that \<open>SmClient\<close> writes is read back by \<open>UcHttp\<close>, and each
  entry becomes the task that \<^verbatim>\<open>split_task\<close> once made for that part.
\<close>

section \<open>One missing part\<close>

lemma part_range_lack:
  assumes "0 < m" "0 \<le> fsz" "fsz div m < 2 ^ 31 - 1" "n = splic_count m fsz" "1 \<le> i" "i \<le> n"
  shows "(m * (i - 1), if m * (i - 1) + m - 1 > fsz - 1 then fsz - 1 else m * (i - 1) + m - 1) = part_range m fsz n i"
    and "m * (i - 1) \<le> fsz - 1"
proof -
  have lt31: "fsz div m < 2 ^ 31" using assms(3) by simp
  note b = splic_count_bounds [OF assms(1,2) lt31, folded assms(4)]
  have pos: "fsz \<noteq> 0" using b(4) assms(5,6) by auto
  have mi: "m * i = m * (i - 1) + m" by (simp add: right_diff_distrib)
  have le: "m * (i - 1) \<le> m * (n - 1)" using assms(1,6) by simp
  with b(2) pos show le1: "m * (i - 1) \<le> fsz - 1" by simp
  show "(m * (i - 1), if m * (i - 1) + m - 1 > fsz - 1 then fsz - 1 else m * (i - 1) + m - 1) = part_range m fsz n i"
  proof (cases "i = n")
    case True
    with b(1) mi show ?thesis by (simp add: part_range_def)
  next
    case False
    then have "i \<le> n - 1" using assms(6) by simp
    then have "m * i \<le> m * (n - 1)" using assms(1) by simp
    with b(2) pos False mi show ?thesis by (simp add: part_range_def)
  qed
qed

lemma lack_task_part:
  assumes "env_good e" "tq_inv (g_tq (glob w))" "pool_clean (g_tq (glob w))"
    "files (g_fs (glob w)) fname = Some c" "length fname < 256"
    "0 < splic_min_size (cfg e)" "int (length c) div splic_min_size (cfg e) < 2 ^ 31 - 1"
    "n = splic_count (splic_min_size (cfg e)) (int (length c))" "1 \<le> i" "i \<le> n"
  shows "\<exists>t s. process_lack e fname i n w = tq_upd (\<lambda>_. s) w \<and> queued TASK_WAIT_SYNC [t] (g_tq (glob w)) s \<and>
    (sub_start (sub t), sub_end (sub t)) = part_range (splic_min_size (cfg e)) (int (length c)) n i \<and>
    sub_idx (sub t) = i \<and> sub_count (sub t) = n \<and> filename (base t) = fname \<and> pool_clean s"
proof -
  let ?m = "splic_min_size (cfg e)"
  obtain a z where r: "part_range ?m (int (length c)) n i = (a, z)" by fastforce
  obtain b where b: "get_localfile_stat (n_io e) (ctime_of e) (zero_base\<lparr>filename := fname\<rparr>) (g_fs (glob w)) = (0, b)"
    "fsize b = int (length c)" "filename b = fname"
    using assms(4) by (auto simp: get_localfile_stat_def)
  let ?t = "\<lparr>base = b\<lparr>hostname := snprint 256 (self_host e), stime := clock e\<rparr>,
        sub = zero_sub\<lparr>sub_idx := i, sub_count := n, sub_start := a, sub_end := z, starttime := clock e\<rparr>\<rparr>"
  note p = part_range_lack [OF assms(6) _ assms(7-10), simplified, unfolded r prod.inject]
  have a: "?m * (i - 1) = a" "a \<le> int (length c) - 1" using p by simp_all
  have z: "(if a + ?m - 1 > int (length c) - 1 then int (length c) - 1 else a + ?m - 1) = z"
    using p(1) unfolding a(1) by auto
  have st: "\<not> bad_status TASK_WAIT_SYNC" "TASK_WAIT_SYNC \<noteq> TASK_HOME" by (simp_all add: bad_status_def)
  note put = put_new_queued [OF assms(2,3,1) st, of ?t]
  have "0 \<le> a" using assms(6,9) unfolding a(1) [symmetric] by simp
  then have ok: "\<not> (i < 1 \<or> n < 1 \<or> i > n)" "\<not> (a < 0 \<or> a > int (length c) - 1)" using a(2) assms(9,10) by auto
  have "process_lack e fname i n w = tq_upd (\<lambda>s. snd (uch_insert_sub_task e b i n a z s)) w"
    unfolding process_lack_def snprint_id [OF assms(5)] b(1) prod.case Let_def a(1) b(2) z
    using ok by (simp only: if_False refl not_not if_True simp_thms)
  also have "\<dots> = tq_upd (\<lambda>_. snd (put_new e TASK_WAIT_SYNC ?t (g_tq (glob w)))) w"
    by (simp add: uch_insert_sub_task_def tq_upd_def)
  finally show ?thesis
    unfolding r using put b(3) by (intro exI [of _ ?t] exI [of _ "snd (put_new e TASK_WAIT_SYNC ?t (g_tq (glob w)))"]) simp
qed

text \<open>C28: For a part that is missing, \<^verbatim>\<open>process_lack\<close> makes a task with exactly the range of the file that
  \<^verbatim>\<open>split_task\<close> gave to this part, although it computes the range in another way.\<close>

theorem lack_task_is_split_part:
  assumes "env_good e" "tq_inv (g_tq (glob w))" "pool_clean (g_tq (glob w))"
    "files (g_fs (glob w)) fname = Some c" "length fname < 256"
    "0 < splic_min_size (cfg e)" "int (length c) div splic_min_size (cfg e) < 2 ^ 31 - 1"
    "n = splic_count (splic_min_size (cfg e)) (int (length c))" "1 \<le> i" "i \<le> n"
  shows "\<exists>t s. process_lack e fname i n w = tq_upd (\<lambda>_. s) w \<and> queued TASK_WAIT_SYNC [t] (g_tq (glob w)) s \<and>
    (sub_start (sub t), sub_end (sub t)) = part_range (splic_min_size (cfg e)) (int (length c)) n i \<and>
    sub_idx (sub t) = i \<and> sub_count (sub t) = n \<and> filename (base t) = fname"
  using lack_task_part [OF assms] by blast

theorem lack_task_is_split_part_witness:
  "\<exists>t s. process_lack (example_env\<lparr>cfg := example_config\<lparr>splic_min_size := 4\<rparr>\<rparr>) ''/d/f'' 3 3
       (fs_upd (\<lambda>fs. fs\<lparr>files := [''/d/f'' \<mapsto> ''0123456789'']\<rparr>) (fresh_world :: http_world)) =
     tq_upd (\<lambda>_. s) (fs_upd (\<lambda>fs. fs\<lparr>files := [''/d/f'' \<mapsto> ''0123456789'']\<rparr>) (fresh_world :: http_world)) \<and>
     (sub_start (sub t), sub_end (sub t)) = (8, 9) \<and> queued TASK_WAIT_SYNC [t] (init_queues task_globals) s"
proof -
  let ?e = "example_env\<lparr>cfg := example_config\<lparr>splic_min_size := 4\<rparr>\<rparr>"
  let ?w = "fs_upd (\<lambda>fs. fs\<lparr>files := [''/d/f'' \<mapsto> ''0123456789'']\<rparr>) (fresh_world :: http_world)"
  have e: "env_good ?e" by (simp add: env_good_def example_env_def)
  have inv: "tq_inv (g_tq (glob ?w))" "pool_clean (g_tq (glob ?w))"
    using tq_inv_init [of task_globals] by (simp_all add: fresh_world_def pool_clean_def init_queues_def)
  have f: "files (g_fs (glob ?w)) ''/d/f'' = Some ''0123456789''" by simp
  have n: "3 = splic_count (splic_min_size (cfg ?e)) (int (length ''0123456789''))"
    by (simp add: splic_count_def to_int32_id)
  have "\<exists>t s. process_lack ?e ''/d/f'' 3 3 ?w = tq_upd (\<lambda>_. s) ?w \<and> queued TASK_WAIT_SYNC [t] (g_tq (glob ?w)) s \<and>
      (sub_start (sub t), sub_end (sub t)) = part_range (splic_min_size (cfg ?e)) (int (length ''0123456789'')) 3 3 \<and>
      sub_idx (sub t) = 3 \<and> sub_count (sub t) = 3 \<and> filename (base t) = ''/d/f''"
    by (rule lack_task_is_split_part [OF e inv f _ _ _ n]) simp_all
  moreover have "g_tq (glob ?w) = init_queues task_globals" by (simp add: fresh_world_def)
  ultimately show ?thesis by (simp add: part_range_def) metis
qed

section \<open>The list\<close>

definition plain_name :: "string \<Rightarrow> bool" where
  "plain_name s \<longleftrightarrow> s \<noteq> [] \<and> SPACE \<notin> set s \<and> CHR '':'' \<notin> set s"

lemma dec_int_plain: "SPACE \<notin> set (dec_int i)" "CHR '':'' \<notin> set (dec_int i)" "dec_int i \<noteq> []"
  by (rule not_in_dec_int; simp add: isdigit_def) (rule not_in_dec_int; simp add: isdigit_def; fail | simp add: dec_int_def)+

lemma scan_word_next:
  assumes "v \<noteq> []" "SPACE \<notin> set v" "t \<noteq> []" "\<not> isspace (hd t)"
  shows "scan_word (v @ SPACE # t) = Some (v, t)"
proof -
  have "takeWhile (\<lambda>c. c \<noteq> SPACE) (v @ SPACE # t) = v" "dropWhile (\<lambda>c. c \<noteq> SPACE) (v @ SPACE # t) = SPACE # t"
    using assms(2) by (auto simp: takeWhile_append dropWhile_append)
  moreover have "dropWhile isspace (SPACE # t) = t" using assms(3,4) by (cases t) (simp_all add: isspace_def)
  ultimately show ?thesis using assms(1) by (simp add: scan_word_def)
qed

lemma scan_word_last: "v \<noteq> [] \<Longrightarrow> SPACE \<notin> set v \<Longrightarrow> scan_word v = Some (v, [])"
proof -
  assume v: "v \<noteq> []" "SPACE \<notin> set v"
  then have w: "takeWhile (\<lambda>c. c \<noteq> SPACE) v = v" "dropWhile (\<lambda>c. c \<noteq> SPACE) v = []"
    by (auto simp: takeWhile_eq_all_conv dropWhile_eq_Nil_conv)
  show "scan_word v = Some (v, [])" unfolding scan_word_def w Let_def using v(1) by simp
qed

lemma hd_dec_int: "\<not> isspace (hd (dec_int i @ t))"
proof -
  have "hd (dec_int i) \<in> set (dec_int i)" using dec_int_plain(3) by simp
  then have "isdigit (hd (dec_int i)) \<or> hd (dec_int i) = CHR ''-''" by (rule dec_int_chars)
  then show ?thesis using dec_int_plain(3) [of i] isdigit_not_sign(1) by (auto simp: isspace_def)
qed

lemma scan_entry_part:
  assumes "plain_name a"
  shows "scan_entry (a @ '' '' @ dec_int i @ '' '' @ dec_int n) = Some (a, dec_int i, dec_int n)"
proof -
  have "scan_word (a @ SPACE # (dec_int i @ SPACE # dec_int n)) = Some (a, dec_int i @ SPACE # dec_int n)"
    using assms hd_dec_int [of i] dec_int_plain(3) [of i] by (intro scan_word_next) (auto simp: plain_name_def)
  moreover have "scan_word (dec_int i @ SPACE # dec_int n) = Some (dec_int i, dec_int n)"
    using hd_dec_int [of n "[]"] dec_int_plain by (intro scan_word_next) auto
  moreover have "scan_word (dec_int n) = Some (dec_int n, [])" using dec_int_plain by (intro scan_word_last) auto
  ultimately show ?thesis by (simp add: scan_entry_def)
qed

definition small_part_key :: "string \<times> int \<times> int \<Rightarrow> bool" where
  "small_part_key = (\<lambda>(a, i, n). plain_name a \<and> - (2 ^ 31) \<le> i \<and> i < 2 ^ 31 \<and> - (2 ^ 31) \<le> n \<and> n < 2 ^ 31)"

lemma uch_do_req_list:
  "\<forall>k\<in>set ks. small_part_key k \<Longrightarrow>
   uch_do_req e (concat (map (\<lambda>(a, i, n). part_entry a i n) ks)) w = fold (\<lambda>(a, i, n). process_lack e a i n) ks w"
proof (induction ks arbitrary: w)
  case Nil
  then show ?case by (simp add: uch_do_req.simps [of e "[]"])
next
  case (Cons k ks)
  obtain a i n where k: "k = (a, i, n)" by (metis surj_pair)
  let ?v = "a @ '' '' @ dec_int i @ '' '' @ dec_int n"
  let ?rest = "concat (map (\<lambda>(a, i, n). part_entry a i n) ks)"
  have p: "plain_name a" "- (2 ^ 31) \<le> i" "i < 2 ^ 31" "- (2 ^ 31) \<le> n" "n < 2 ^ 31"
    using Cons.prems by (auto simp: k small_part_key_def)
  have "CHR '':'' \<notin> set ?v" using p(1) dec_int_plain by (auto simp: plain_name_def)
  from strchr_append [OF this, of ?rest]
  have s: "strchr (part_entry a i n @ ?rest) (CHR '':'') = Some (length ?v)" by (simp add: part_entry_def)
  have split: "take (length v) (v @ x # r) = v" "drop (length v + 1) (v @ x # r) = r" for v :: string and x r by simp_all
  have eq: "part_entry a i n @ ?rest = ?v @ CHR '':'' # ?rest" by (simp add: part_entry_def)
  note t = split [of ?v "CHR '':''" ?rest, folded eq]
  have "uch_do_req e (part_entry a i n @ ?rest) w = uch_do_req e ?rest (process_lack e a i n w)"
    unfolding uch_do_req.simps [of e "part_entry a i n @ ?rest"] s option.case t scan_entry_part [OF p(1)] prod.case
    using p by (simp add: atoi_dec_int)
  with Cons.IH Cons.prems show ?case by (simp add: k)
qed

text \<open>C29: The upload node reads from the list of missing parts exactly the entries that the storage node wrote
  into it, in order, for file names without blanks and colons.\<close>

theorem missing_list_roundtrip:
  assumes "\<forall>k\<in>set ks. small_part_key k"
  shows "uch_do_req e (concat (map (\<lambda>(a, i, n). part_entry a i n) ks)) w = fold (\<lambda>(a, i, n). process_lack e a i n) ks w"
  by (rule uch_do_req_list [OF assms])

theorem missing_list_roundtrip_witness:
  "uch_do_req example_env (concat (map (\<lambda>(a, i, n). part_entry a i n) [(''/d/f'', 1, 3), (''/d/g'', 2, 2)])) fresh_world =
     process_lack example_env ''/d/g'' 2 2 (process_lack example_env ''/d/f'' 1 3 fresh_world)"
  using missing_list_roundtrip [of "[(''/d/f'', 1, 3), (''/d/g'', 2, 2)]" example_env fresh_world]
  by (simp add: small_part_key_def plain_name_def)

text \<open>Of a list longer than 254 characters only the first 254 reach the upload node: its header field for
  a file name holds no more, while the storage node has already given up the tasks of all entries.\<close>

theorem missing_list_cut:
  assumes "CR \<notin> set d"
  shows "\<exists>buf. uc_http_parse_header h (sm_client_create_header d) = (0, h\<lparr>h_filename := take 254 d, h_type := 251\<rparr>, buf)"
proof -
  define ls :: "hline list" where "ls = [(''GET /question/19973178 HTTP/1.0'' @ CRLF, ''filename: '', store_filename, d),
    ([], ''type: '', store_type, ''251'')]"
  have f: "CHR ''f'' \<notin> set (''GET /question/19973178 HTTP/1.0'' @ CRLF)" by simp
  have ok: "\<forall>l\<in>set ls. line_ok l"
    unfolding ls_def list.set ball_simps by (intro conjI line_ok_plain line_ok_skip [OF assms f] TrueI) simp
  have eq: "sm_client_create_header d = concat (map line_text ls) @ CRLF"
    by (simp add: ls_def sm_client_create_header_def line_text_def)
  have items: "map (\<lambda>(junk, item, store, v). (item, store)) ls = uc_http_items" by (simp add: ls_def uc_http_items_def)
  have "fold line_store ls h = h\<lparr>h_filename := take 254 d, h_type := 251\<rparr>"
    by (simp add: ls_def line_store_def store_filename_def store_type_def snprint_def uint8_def atoi_def atol_def
        isspace_def isdigit_def digit_val_def to_int32_id)
  then show ?thesis
    using run_items_lines [OF ok, of h "[]" CRLF] unfolding uc_http_parse_header_def eq items by (simp add: parse_result_def)
qed

theorem missing_list_cut_witness:
  "h_filename (fst (snd (uc_http_parse_header zero_header (sm_client_create_header (replicate 300 (CHR ''a'')))))) =
     replicate 254 (CHR ''a'')"
  using missing_list_cut [of "replicate 300 (CHR ''a'')" zero_header] by auto

end
