(* ===== verification/EventLoop.thy ===== *)
theory EventLoop
  imports Conn Node
begin

text \<open>
  The event loop of a service thread, \<^verbatim>\<open>src/network/vfs_so.c\<close>: \<^verbatim>\<open>do_send\<close>, \<^verbatim>\<open>do_recv\<close>,
  \<^verbatim>\<open>accept_new\<close>, the lists of connections that are put off, and one turn of the loop.  The functions of the
  service, which the thread loads with \<^verbatim>\<open>dlsym\<close>, are the record \<open>mylib\<close>; an optional function that is missing
  is \<open>None\<close>.

  \<open>kernel\<close> holds what the kernel will answer: for each descriptor the results of the coming calls of
  \<^verbatim>\<open>send\<close> and \<^verbatim>\<open>sendfile64\<close> and of \<^verbatim>\<open>recv\<close>, the descriptors \<^verbatim>\<open>accept\<close> returns, the random numbers,
  and the content of the local files being sent.  \<open>Sent n\<close> says that the socket takes \<open>n\<close> bytes, \<open>n\<close> not 0: the
  call returns the smaller of this and the number of bytes it was given.  Where a list is used up the kernel answers \<^verbatim>\<open>EAGAIN\<close>
  (\<^verbatim>\<open>accept\<close>: a failure; \<^verbatim>\<open>rand\<close>: 0).
\<close>

record ('u, 'g) mylib =
  lib_initconn :: "int \<Rightarrow> ('u, 'g) world \<Rightarrow> int \<times> ('u, 'g) world"
  lib_recv :: "int \<Rightarrow> ('u, 'g) world \<Rightarrow> int \<times> ('u, 'g) world"
  lib_send :: "int \<Rightarrow> ('u, 'g) world \<Rightarrow> int \<times> ('u, 'g) world"
  lib_send_once :: "(int \<Rightarrow> ('u, 'g) world \<Rightarrow> int \<times> ('u, 'g) world) option"
  lib_finiconn :: "(int \<Rightarrow> ('u, 'g) world \<Rightarrow> ('u, 'g) world) option"
  lib_timeout :: "(('u, 'g) world \<Rightarrow> ('u, 'g) world) option"

datatype send_ret = Sent nat | S_EINTR | S_EAGAIN | S_ENOENT | S_FAIL
datatype recv_ret = Got string | Peer_closed | R_EINTR | R_EAGAIN | R_FAIL

record kernel =
  k_send :: "int \<Rightarrow> send_ret list"
  k_recv :: "int \<Rightarrow> recv_ret list"
  k_accept :: "int list"
  k_rand :: "int list"
  k_file :: "int \<Rightarrow> string"

record loop_env =
  l_buff_size :: nat
  l_max_fds :: int
  l_max_pend :: int
  l_send_ratio :: int
  l_recv_ratio :: int

definition GSIZE :: nat where "GSIZE = 1073741824"

section \<open>Putting off\<close>

definition next_rand :: "kernel \<Rightarrow> int \<times> kernel" where
  "next_rand k = (case k_rand k of [] \<Rightarrow> (0, k) | r # rs \<Rightarrow> (r, k\<lparr>k_rand := rs\<rparr>))"

definition add_send_pend :: "bool \<Rightarrow> int \<Rightarrow> ('u, 'g) world \<Rightarrow> ('u, 'g) world" where
  "add_send_pend tmp fd w =
     (let w = w\<lparr>send_list := removeAll fd (send_list w), tmp_send_list := removeAll fd (tmp_send_list w)\<rparr>
      in if tmp then w\<lparr>tmp_send_list := tmp_send_list w @ [fd]\<rparr> else w\<lparr>send_list := send_list w @ [fd]\<rparr>)"

definition add_recv_pend :: "bool \<Rightarrow> int \<Rightarrow> ('u, 'g) world \<Rightarrow> ('u, 'g) world" where
  "add_recv_pend tmp fd w =
     (let w = w\<lparr>recv_list := removeAll fd (recv_list w), tmp_recv_list := removeAll fd (tmp_recv_list w)\<rparr>
      in if tmp then w\<lparr>tmp_recv_list := tmp_recv_list w @ [fd]\<rparr> else w\<lparr>recv_list := recv_list w @ [fd]\<rparr>)"

section \<open>Sending\<close>

text \<open>The first \<^verbatim>\<open>while\<close> loop of \<^verbatim>\<open>do_send\<close>: the data of the buffer.  The results are \<open>ret\<close>, \<open>n\<close> and what
  the kernel will answer next.\<close>

fun send_data :: "int \<Rightarrow> string \<Rightarrow> send_ret list \<Rightarrow> ('u, 'g) world \<Rightarrow> int \<times> int \<times> send_ret list \<times> ('u, 'g) world" where
  "send_data fd d [] w = (SEND_ADD_EPOLLOUT, -1, [], w)"
| "send_data fd d (r # rs) w =
     (case r of
        Sent m \<Rightarrow>
          let n = min m (length d) in
          (if n < length d then SEND_ADD_EPOLLOUT else SEND_ADD_EPOLLIN, int n, rs,
           upd_conn fd (\<lambda>c. c\<lparr>send_buff := mybuff_skipdata (send_buff c) n, send_len := send_len c + int n\<rparr>)
             (w\<lparr>wire := (wire w)(fd := wire w fd @ take n d)\<rparr>))
      | S_EINTR \<Rightarrow> send_data fd d rs w
      | S_EAGAIN \<Rightarrow> (SEND_ADD_EPOLLOUT, -1, rs, w)
      | _ \<Rightarrow> (SEND_CLOSE, -1, rs, w))"

text \<open>The second one: the range of the file, \<open>d\<close> being its bytes.\<close>

fun send_file :: "int \<Rightarrow> string \<Rightarrow> nat \<Rightarrow> send_ret list \<Rightarrow> ('u, 'g) world \<Rightarrow> int \<times> int \<times> send_ret list \<times> ('u, 'g) world" where
  "send_file fd d len [] w = (SEND_ADD_EPOLLOUT, -1, [], w)"
| "send_file fd d len (r # rs) w =
     (case r of
        Sent m \<Rightarrow>
          (let n = min m (length d); (b, cl) = mybuff_skipfile (send_buff (conns w fd)) n
           in (if n < len then SEND_ADD_EPOLLOUT else SEND_ADD_EPOLLIN, int n, rs,
               upd_conn fd (\<lambda>c. c\<lparr>send_buff := b, send_len := send_len c + int n\<rparr>)
                 (w\<lparr>wire := (wire w)(fd := wire w fd @ take n d), shut := shut w @ cl\<rparr>)))
      | S_EINTR \<Rightarrow> send_file fd d len rs w
      | S_FAIL \<Rightarrow> (SEND_CLOSE, -1, rs, w)
      | _ \<Rightarrow> (SEND_ADD_EPOLLOUT, -1, rs, w))"

definition send_io :: "int \<Rightarrow> ('u, 'g) world \<Rightarrow> kernel \<Rightarrow> int \<times> int \<times> ('u, 'g) world \<times> kernel" where
  "send_io fd w k =
     (let (r, d) = mybuff_getdata (send_buff (conns w fd));
          (ret, n, rs, w) = (if r = 0 then send_data fd d (k_send k fd) w else (SEND_ADD_EPOLLIN, 0, k_send k fd, w));
          (ret, n, rs, w) =
            (case mybuff_getfile (send_buff (conns w fd)) of
               Some (localfd, start, len) \<Rightarrow>
                 if ret = SEND_ADD_EPOLLIN
                 then send_file fd (take (min len GSIZE) (drop (nat start) (k_file k localfd))) len rs w
                 else (ret, n, rs, w)
             | None \<Rightarrow> (ret, n, rs, w))
      in (ret, n, w, k\<lparr>k_send := (k_send k)(fd := rs)\<rparr>))"

definition lib_do_close :: "('u, 'g) mylib \<Rightarrow> loop_env \<Rightarrow> int \<Rightarrow> ('u, 'g) world \<Rightarrow> ('u, 'g) world" where
  "lib_do_close lib l fd w = do_close (case lib_finiconn lib of Some f \<Rightarrow> f | None \<Rightarrow> (\<lambda>_ w. w)) (l_max_fds l) fd w"

text \<open>What follows the two loops.\<close>

definition send_done :: "('u, 'g) mylib \<Rightarrow> loop_env \<Rightarrow> int \<Rightarrow> int \<Rightarrow> int \<Rightarrow> ('u, 'g) world \<Rightarrow> ('u, 'g) world" where
  "send_done lib l fd ret n w =
     (if ret = SEND_CLOSE then lib_do_close lib l fd w
      else
        let w = (if ret = SEND_ADD_EPOLLIN then modify_fd_event fd EPOLLIN w
                 else if ret = SEND_ADD_EPOLLOUT then modify_fd_event fd EPOLLOUT w
                 else if ret = SEND_ADD_EPOLLALL then modify_fd_event fd (EPOLLOUT OR EPOLLIN) w else w);
            w = (case lib_send_once lib of Some f \<Rightarrow> if n > 0 then snd (f fd w) else w | None \<Rightarrow> w)
        in if ret = SEND_ADD_EPOLLIN
           then case lib_send lib fd w of (r, w) \<Rightarrow> if r = SEND_CLOSE then lib_do_close lib l fd w else w
           else w)"

definition do_send :: "('u, 'g) mylib \<Rightarrow> loop_env \<Rightarrow> int \<Rightarrow> bool \<Rightarrow> ('u, 'g) world \<times> kernel \<Rightarrow> ('u, 'g) world \<times> kernel" where
  "do_send lib l fd flag = (\<lambda>(w, k).
     if fd < 0 \<or> c_fd (conns w fd) < 0 then (w, k)
     else let (r, k) = next_rand k
          in if r AND l_max_pend l > l_send_ratio l then (add_send_pend flag fd w, k)
             else let (ret, n, w, k) = send_io fd w k in (send_done lib l fd ret n w, k))"

section \<open>Receiving\<close>

text \<open>The loop of \<^verbatim>\<open>do_recv\<close>: true when \<^verbatim>\<open>do_close\<close> is to be called instead of \<^verbatim>\<open>svc_recv\<close>.\<close>

fun recv_loop :: "nat \<Rightarrow> int \<Rightarrow> recv_ret list \<Rightarrow> ('u, 'g) world \<Rightarrow> bool \<times> recv_ret list \<times> ('u, 'g) world" where
  "recv_loop bs fd [] w = (False, [], modify_fd_event fd EPOLLIN w)"
| "recv_loop bs fd (r # rs) w =
     (case r of
        Got d \<Rightarrow>
          (let w = upd_conn fd (\<lambda>c. c\<lparr>recv_buff := mybuff_setdata bs (recv_buff c) d\<rparr>) w
           in if length d = bs then recv_loop bs fd rs w else (False, rs, w))
      | Peer_closed \<Rightarrow> (True, rs, w)
      | R_EINTR \<Rightarrow> recv_loop bs fd rs w
      | R_EAGAIN \<Rightarrow> (False, rs, modify_fd_event fd EPOLLIN w)
      | R_FAIL \<Rightarrow> (True, rs, w))"

definition do_recv :: "('u, 'g) mylib \<Rightarrow> loop_env \<Rightarrow> int \<Rightarrow> bool \<Rightarrow> ('u, 'g) world \<times> kernel \<Rightarrow> ('u, 'g) world \<times> kernel" where
  "do_recv lib l fd flag = (\<lambda>(w, k).
     if fd < 0 \<or> c_fd (conns w fd) < 0 then (w, k)
     else let (r, k) = next_rand k; (_, k) = next_rand k
          in if r AND l_max_pend l > l_recv_ratio l then (add_recv_pend flag fd w, k)
             else
               let (cl, rs, w) = recv_loop (l_buff_size l) fd (k_recv k fd) w; k = k\<lparr>k_recv := (k_recv k)(fd := rs)\<rparr>
               in if cl then (lib_do_close lib l fd w, k)
                  else case lib_recv lib fd w of (ret, w) \<Rightarrow>
                    if ret = RECV_SEND then do_send lib l fd False (w, k)
                    else if ret = RECV_ADD_EPOLLIN then (modify_fd_event fd EPOLLIN w, k)
                    else if ret = RECV_ADD_EPOLLOUT then (modify_fd_event fd EPOLLOUT w, k)
                    else if ret = RECV_ADD_EPOLLALL then (modify_fd_event fd (EPOLLOUT OR EPOLLIN) w, k)
                    else if ret = RECV_CLOSE then (lib_do_close lib l fd w, k)
                    else (w, k))"

section \<open>The loop\<close>

fun accept_loop :: "('u, 'g) mylib \<Rightarrow> loop_env \<Rightarrow> int list \<Rightarrow> ('u, 'g) world \<Rightarrow> int list \<times> ('u, 'g) world" where
  "accept_loop lib l [] w = ([], w)"
| "accept_loop lib l (fd # fds) w =
     (if fd < 0 then (fds, w)
      else if fd \<ge> l_max_fds l then accept_loop lib l fds (w\<lparr>shut := shut w @ [fd]\<rparr>)
      else case lib_initconn lib fd w of (r, w) \<Rightarrow>
        if r \<noteq> 0 then accept_loop lib l fds (w\<lparr>shut := shut w @ [fd]\<rparr>)
        else accept_loop lib l fds (add_fd_2_efd (l_buff_size l) fd w))"

definition accept_new :: "('u, 'g) mylib \<Rightarrow> loop_env \<Rightarrow> ('u, 'g) world \<times> kernel \<Rightarrow> ('u, 'g) world \<times> kernel" where
  "accept_new lib l = (\<lambda>(w, k). case accept_loop lib l (k_accept k) w of (fds, w) \<Rightarrow> (w, k\<lparr>k_accept := fds\<rparr>))"

definition scan_pend_list :: "('u, 'g) mylib \<Rightarrow> loop_env \<Rightarrow> ('u, 'g) world \<times> kernel \<Rightarrow> ('u, 'g) world \<times> kernel" where
  "scan_pend_list lib l = (\<lambda>(w, k).
     let w = w\<lparr>send_list := send_list w @ tmp_send_list w, tmp_send_list := []\<rparr>;
         (w, k) = fold (\<lambda>fd (w, k). do_send lib l (c_fd (conns w fd)) True (w\<lparr>send_list := removeAll fd (send_list w)\<rparr>, k))
                    (send_list w) (w, k);
         w = w\<lparr>recv_list := recv_list w @ tmp_recv_list w, tmp_recv_list := []\<rparr>
     in fold (\<lambda>fd (w, k). do_recv lib l (c_fd (conns w fd)) True (w\<lparr>recv_list := removeAll fd (recv_list w)\<rparr>, k))
          (recv_list w) (w, k))"

definition do_process :: "('u, 'g) mylib \<Rightarrow> loop_env \<Rightarrow> int \<Rightarrow> int \<Rightarrow> ('u, 'g) world \<times> kernel \<Rightarrow> ('u, 'g) world \<times> kernel" where
  "do_process lib l fd ev = (\<lambda>(w, k).
     if ev AND (EPOLLIN OR EPOLLOUT) = 0 then (lib_do_close lib l fd w, k)
     else let (w, k) = (if ev AND EPOLLIN \<noteq> 0 then do_recv lib l fd False (w, k) else (w, k))
          in if ev AND EPOLLOUT \<noteq> 0 then do_send lib l fd False (w, k) else (w, k))"

text \<open>One turn of the \<^verbatim>\<open>while\<close> loop of \<^verbatim>\<open>vfs_signalling_thread\<close>: \<open>evs\<close> is the result of \<^verbatim>\<open>epoll_wait\<close>,
  \<open>lfd\<close> the listening socket of a service that has one; the new value of \<^verbatim>\<open>last\<close> (\<open>prev\<close>) is returned.\<close>

definition loop_turn ::
  "('u, 'g) mylib \<Rightarrow> loop_env \<Rightarrow> int option \<Rightarrow> nat \<Rightarrow> (int \<times> int) list \<Rightarrow> int \<Rightarrow> int \<Rightarrow> ('u, 'g) world \<times> kernel \<Rightarrow>
   int \<times> ('u, 'g) world \<times> kernel" where
  "loop_turn lib l lfd ck evs now prev s =
     (let s = fold (\<lambda>(fd, ev) s. if lfd = Some fd then accept_new lib l s else do_process lib l fd ev s) evs s
      in if now > prev + int ck
         then let (w, k) = scan_pend_list lib l s
              in (now, (case lib_timeout lib of Some f \<Rightarrow> f w | None \<Rightarrow> w), k)
         else (prev, s))"

end
