(* ===== verification/EventProps.thy ===== *)
theory EventProps
  imports EventLoop UcProps
begin

text \<open>
  What the event loop does to the bytes of a connection: nothing is lost, repeated or reordered on the way
  out, and all of it leaves when the socket keeps taking bytes.
\<close>

section \<open>The bytes still to be sent\<close>

definition file_range :: "kernel \<Rightarrow> mybuff \<Rightarrow> string" where
  "file_range k b =
     (case mybuff_getfile b of
        Some (f, off, n) \<Rightarrow> take n (drop (nat off) (k_file k f))
      | None \<Rightarrow> [])"

definition outstanding :: "kernel \<Rightarrow> mybuff \<Rightarrow> string" where
  "outstanding k b = pending b @ file_range k b"

definition sendable_buff :: "kernel \<Rightarrow> mybuff \<Rightarrow> bool" where
  "sendable_buff k b \<longleftrightarrow> buff_ok b \<and>
     (case mybuff_getfile b of
        Some (f, off, n) \<Rightarrow> 0 \<le> off \<and> nat off + n \<le> length (k_file k f)
      | None \<Rightarrow> True)"

lemma upd_conn_here [simp]:
  "conns (upd_conn fd f w) fd = f (conns w fd)" "wire (upd_conn fd f w) = wire w"
  by (simp_all add: upd_conn_def)

lemma getfile_skipdata [simp]: "mybuff_getfile (mybuff_skipdata b n) = mybuff_getfile b"
  by (simp add: mybuff_getfile_def mybuff_skipdata_def Let_def split: option.split)

lemma setfile_spec:
  "pending (fst (mybuff_setfile b f off n)) = pending b" "buff_ok (fst (mybuff_setfile b f off n)) = buff_ok b"
  "0 \<le> f \<Longrightarrow> 0 < n \<Longrightarrow> mybuff_getfile (fst (mybuff_setfile b f off n)) = Some (f, off, n)"
  by (cases "buf_data b"; simp add: mybuff_setfile_def pending_def buff_ok_def mybuff_getfile_def)+

lemma send_data_spec:
  "send_data fd d rs w = (ret, n, rs', w') \<Longrightarrow> buff_ok (send_buff (conns w fd)) \<Longrightarrow> d = pending (send_buff (conns w fd)) \<Longrightarrow>
   \<exists>j\<le>length d. wire w' fd = wire w fd @ take j d \<and> pending (send_buff (conns w' fd)) = drop j d \<and>
     buff_ok (send_buff (conns w' fd)) \<and> mybuff_getfile (send_buff (conns w' fd)) = mybuff_getfile (send_buff (conns w fd)) \<and>
     (ret = SEND_ADD_EPOLLIN \<longrightarrow> j = length d)"
proof (induction fd d rs w rule: send_data.induct)
  case (1 fd d w)
  then show ?case by (intro exI [of _ 0]) simp
next
  case (2 fd d r rs w)
  note sk = skipdata_spec [OF "2.prems"(2)]
  show ?case
  proof (cases r)
    case (Sent m)
    let ?j = "min m (length d)"
    have "drop ?j d = drop m d" by (simp add: min_def)
    with Sent 2 sk [of ?j] show ?thesis
      by (intro exI [of _ ?j]) (auto simp: Let_def split: if_splits)
  next
    case S_EINTR
    with 2 show ?thesis by simp
  qed (use 2 in \<open>auto intro!: exI [of _ 0]\<close>)
qed

lemma skipfile_other:
  assumes "mybuff_skipfile b n = (b', cl)" "0 \<le> buf_fd b" "buf_fd b = f" "foffset b = off" "flen b = len" "buff_ok b" "0 < len"
  shows "pending b' = pending b \<and> buff_ok b' \<and>
    mybuff_getfile b' = (if n < len then Some (f, off + int n, len - n) else None)"
proof (cases "n < len")
  case True
  then have "b' = b\<lparr>foffset := foffset b + int n, flen := flen b - n\<rparr>"
    using assms by (simp add: mybuff_skipfile_def)
  with True assms show ?thesis by (cases "buf_data b") (simp_all add: pending_def buff_ok_def mybuff_getfile_def)
next
  case False
  then show ?thesis using assms by (cases "buf_data b") (auto simp: mybuff_skipfile_def pending_def buff_ok_def mybuff_getfile_def)
qed

lemma send_file_spec:
  "send_file fd d len rs w = (ret, n, rs', w') \<Longrightarrow> buff_ok (send_buff (conns w fd)) \<Longrightarrow>
   mybuff_getfile (send_buff (conns w fd)) = Some (f, off, len) \<Longrightarrow> d = take (min len GSIZE) (drop (nat off) (k_file k f)) \<Longrightarrow>
   0 \<le> off \<Longrightarrow> nat off + len \<le> length (k_file k f) \<Longrightarrow>
   \<exists>j\<le>len. wire w' fd = wire w fd @ take j (drop (nat off) (k_file k f)) \<and>
     pending (send_buff (conns w' fd)) = pending (send_buff (conns w fd)) \<and> buff_ok (send_buff (conns w' fd)) \<and>
     mybuff_getfile (send_buff (conns w' fd)) = (if j < len then Some (f, off + int j, len - j) else None) \<and>
     (ret = SEND_ADD_EPOLLIN \<longrightarrow> j = len)"
proof (induction fd d len rs w rule: send_file.induct)
  case (1 fd d len w)
  have "0 < len" using "1.prems"(3) by (auto simp: mybuff_getfile_def split: if_splits)
  with 1 show ?case by (intro exI [of _ 0]) simp
next
  case (2 fd d len r rs w)
  let ?b = "send_buff (conns w fd)"
  have pos: "0 < len" and b: "0 \<le> buf_fd ?b" "buf_fd ?b = f" "foffset ?b = off" "flen ?b = len"
    using "2.prems"(3) by (auto simp: mybuff_getfile_def split: if_splits)
  show ?case
  proof (cases r)
    case (Sent m)
    let ?j = "min m (length d)"
    have "len \<le> length (drop (nat off) (k_file k f))" using "2.prems"(6) by simp
    then have ld: "length d = min len GSIZE" unfolding "2.prems"(4) length_take by linarith
    have t: "take ?j d = take ?j (drop (nat off) (k_file k f))"
      unfolding "2.prems"(4) by (simp add: ld min_def)
    obtain b' cl where sk: "mybuff_skipfile ?b ?j = (b', cl)" by fastforce
    have b': "pending b' = pending ?b" "buff_ok b'"
      "mybuff_getfile b' = (if ?j < len then Some (f, off + int ?j, len - ?j) else None)"
      using skipfile_other [OF sk b "2.prems"(2) pos] by simp_all
    have "w' = upd_conn fd (\<lambda>c. c\<lparr>send_buff := b', send_len := send_len c + int ?j\<rparr>)
        (w\<lparr>wire := (wire w)(fd := wire w fd @ take ?j d), shut := shut w @ cl\<rparr>)"
      "ret = (if ?j < len then SEND_ADD_EPOLLOUT else SEND_ADD_EPOLLIN)"
      using "2.prems"(1) by (auto simp: Sent sk Let_def)
    then show ?thesis using b' ld unfolding t by (intro exI [of _ ?j]) (auto split: if_splits)
  next
    case S_EINTR
    with 2 show ?thesis by simp
  qed (use 2 pos in \<open>auto intro!: exI [of _ 0]\<close>)
qed

lemma take_drop_shift: "j \<le> n \<Longrightarrow> take j x @ take (n - j) (drop j x) = take n x"
  by (metis le_add_diff_inverse take_add)

text \<open>The two loops of \<^verbatim>\<open>do_send\<close>, apart.\<close>

definition send_first :: "int \<Rightarrow> kernel \<Rightarrow> ('u, 'g) world \<Rightarrow> int \<times> int \<times> send_ret list \<times> ('u, 'g) world" where
  "send_first fd k w =
     (if pending (send_buff (conns w fd)) \<noteq> [] then send_data fd (pending (send_buff (conns w fd))) (k_send k fd) w
      else (SEND_ADD_EPOLLIN, 0, k_send k fd, w))"

definition send_rest :: "int \<Rightarrow> kernel \<Rightarrow> int \<times> int \<times> send_ret list \<times> ('u, 'g) world \<Rightarrow> int \<times> int \<times> send_ret list \<times> ('u, 'g) world" where
  "send_rest fd k = (\<lambda>(ret, n, rs, w).
     case mybuff_getfile (send_buff (conns w fd)) of
       Some (localfd, start, len) \<Rightarrow>
         if ret = SEND_ADD_EPOLLIN then send_file fd (take (min len GSIZE) (drop (nat start) (k_file k localfd))) len rs w
         else (ret, n, rs, w)
     | None \<Rightarrow> (ret, n, rs, w))"

lemma send_io_parts:
  "buff_ok (send_buff (conns w fd)) \<Longrightarrow>
   send_io fd w k = (case send_rest fd k (send_first fd k w) of (ret, n, rs, w) \<Rightarrow> (ret, n, w, k\<lparr>k_send := (k_send k)(fd := rs)\<rparr>))"
  by (auto simp: send_io_def send_rest_def send_first_def getdata_spec split: prod.splits)

lemma send_first_spec:
  assumes "send_first fd k w = (ret, n, rs, w')" "buff_ok (send_buff (conns w fd))"
  shows "wire w' fd @ pending (send_buff (conns w' fd)) = wire w fd @ pending (send_buff (conns w fd)) \<and>
    buff_ok (send_buff (conns w' fd)) \<and> mybuff_getfile (send_buff (conns w' fd)) = mybuff_getfile (send_buff (conns w fd)) \<and>
    (ret = SEND_ADD_EPOLLIN \<longrightarrow> pending (send_buff (conns w' fd)) = [])"
proof (cases "pending (send_buff (conns w fd)) = []")
  case True
  with assms show ?thesis by (simp add: send_first_def)
next
  case False
  then have "send_data fd (pending (send_buff (conns w fd))) (k_send k fd) w = (ret, n, rs, w')"
    using assms(1) by (simp add: send_first_def)
  from send_data_spec [OF this assms(2) refl] show ?thesis by auto
qed

lemma send_rest_spec:
  assumes "send_rest fd k (ret, n, rs, w) = (ret', n', rs', w')" "sendable_buff k (send_buff (conns w fd))"
    "ret = SEND_ADD_EPOLLIN \<longrightarrow> pending (send_buff (conns w fd)) = []"
  shows "wire w' fd @ outstanding k (send_buff (conns w' fd)) = wire w fd @ outstanding k (send_buff (conns w fd)) \<and>
    sendable_buff k (send_buff (conns w' fd)) \<and> (ret' = SEND_ADD_EPOLLIN \<longrightarrow> outstanding k (send_buff (conns w' fd)) = [])"
proof (cases "ret = SEND_ADD_EPOLLIN \<and> mybuff_getfile (send_buff (conns w fd)) \<noteq> None")
  case False
  then have "ret' = ret" "w' = w" using assms(1) by (auto simp: send_rest_def split: option.splits)
  with False assms(2,3) show ?thesis
    by (cases "mybuff_getfile (send_buff (conns w fd))") (auto simp: outstanding_def file_range_def)
next
  case True
  let ?b = "send_buff (conns w fd)"
  obtain g off len where g: "mybuff_getfile ?b = Some (g, off, len)" using True by (metis option.exhaust surj_pair)
  have s: "send_file fd (take (min len GSIZE) (drop (nat off) (k_file k g))) len rs w = (ret', n', rs', w')"
    using assms(1) True g by (simp add: send_rest_def)
  have range: "0 \<le> off" "nat off + len \<le> length (k_file k g)" and ok: "buff_ok ?b"
    using assms(2) g by (simp_all add: sendable_buff_def)
  let ?x = "drop (nat off) (k_file k g)"
  obtain j where j: "j \<le> len" "wire w' fd = wire w fd @ take j ?x" "pending (send_buff (conns w' fd)) = pending ?b"
    "buff_ok (send_buff (conns w' fd))"
    "mybuff_getfile (send_buff (conns w' fd)) = (if j < len then Some (g, off + int j, len - j) else None)"
    "ret' = SEND_ADD_EPOLLIN \<longrightarrow> j = len"
    using send_file_spec [OF s ok g refl range] by blast
  have p: "pending ?b = []" using True assms(3) by simp
  have r2: "file_range k (send_buff (conns w' fd)) = take (len - j) (drop j ?x)"
    using j(1,5) range(1) by (auto simp: file_range_def nat_add_distrib add.commute)
  have "wire w' fd @ outstanding k (send_buff (conns w' fd)) = wire w fd @ take len ?x"
    unfolding outstanding_def j(2,3) p r2 append_Nil append_assoc take_drop_shift [OF j(1)] ..
  moreover have "outstanding k ?b = take len ?x" using p g by (simp add: outstanding_def file_range_def)
  moreover have "sendable_buff k (send_buff (conns w' fd))"
    using j(1,4,5) range by (simp add: sendable_buff_def nat_add_distrib)
  moreover have "ret' = SEND_ADD_EPOLLIN \<longrightarrow> outstanding k (send_buff (conns w' fd)) = []"
    using j(3,6) p r2 by (simp add: outstanding_def)
  ultimately show ?thesis by simp
qed

lemma send_io_spec:
  assumes "send_io fd w k = (ret, n, w', k')" "sendable_buff k (send_buff (conns w fd))"
  shows "wire w' fd @ outstanding k (send_buff (conns w' fd)) = wire w fd @ outstanding k (send_buff (conns w fd)) \<and>
    sendable_buff k (send_buff (conns w' fd)) \<and> (ret = SEND_ADD_EPOLLIN \<longrightarrow> outstanding k (send_buff (conns w' fd)) = []) \<and>
    k_file k' = k_file k"
proof -
  obtain ret1 n1 rs1 w1 where f: "send_first fd k w = (ret1, n1, rs1, w1)" by (metis surj_pair)
  obtain ret2 n2 rs2 w2 where r: "send_rest fd k (ret1, n1, rs1, w1) = (ret2, n2, rs2, w2)" by (metis surj_pair)
  have ok: "buff_ok (send_buff (conns w fd))" using assms(2) by (simp add: sendable_buff_def)
  have w': "ret = ret2" "w' = w2" "k_file k' = k_file k" using assms(1) unfolding send_io_parts [OF ok] f r by auto
  note s = send_first_spec [OF f ok]
  have "sendable_buff k (send_buff (conns w1 fd))" using s assms(2) by (simp add: sendable_buff_def)
  from send_rest_spec [OF r this] s w' show ?thesis by (simp add: outstanding_def file_range_def)
qed

section \<open>Progress\<close>

text \<open>The answers of a socket that keeps working, and the number of calls that take bytes.\<close>

definition working :: "send_ret list \<Rightarrow> bool" where
  "working rs \<longleftrightarrow> (\<forall>r\<in>set rs. case r of Sent m \<Rightarrow> 0 < m | S_EINTR \<Rightarrow> True | S_EAGAIN \<Rightarrow> True | _ \<Rightarrow> False)"

fun sent_count :: "send_ret list \<Rightarrow> nat" where
  "sent_count [] = 0"
| "sent_count (Sent m # rs) = Suc (sent_count rs)"
| "sent_count (r # rs) = sent_count rs"

lemma working_Cons [simp]:
  "working (r # rs) \<longleftrightarrow> (case r of Sent m \<Rightarrow> 0 < m | S_EINTR \<Rightarrow> True | S_EAGAIN \<Rightarrow> True | _ \<Rightarrow> False) \<and> working rs"
  by (simp add: working_def)

text \<open>What both loops do with the answers: they use some up, and a call that took bytes took at least one.\<close>

definition progress :: "send_ret list \<Rightarrow> send_ret list \<Rightarrow> int \<Rightarrow> nat \<Rightarrow> nat \<Rightarrow> bool" where
  "progress rs rs' ret m m' \<longleftrightarrow> working rs' \<and> length rs' \<le> length rs - 1 \<and>
     (ret = SEND_ADD_EPOLLIN \<or> ret = SEND_ADD_EPOLLOUT) \<and> sent_count rs + m' \<le> sent_count rs' + m"

lemma send_data_progress:
  "send_data fd d rs w = (ret, n, rs', w') \<Longrightarrow> working rs \<Longrightarrow> buff_ok (send_buff (conns w fd)) \<Longrightarrow>
   d = pending (send_buff (conns w fd)) \<Longrightarrow> d \<noteq> [] \<Longrightarrow>
   progress rs rs' ret (length d) (length (pending (send_buff (conns w' fd))))"
proof (induction fd d rs w rule: send_data.induct)
  case (1 fd d w)
  then show ?case by (auto simp: progress_def)
next
  case (2 fd d r rs w)
  show ?case
  proof (cases r)
    case (Sent m)
    have m: "0 < m" "working rs" using "2.prems"(2) Sent by simp_all
    have l: "0 < length d" using "2.prems"(5) by simp
    have w': "rs' = rs" "ret = SEND_ADD_EPOLLIN \<or> ret = SEND_ADD_EPOLLOUT"
      "send_buff (conns w' fd) = mybuff_skipdata (send_buff (conns w fd)) (min m (length d))"
      using "2.prems"(1) Sent by (auto simp: Let_def split: if_splits)
    have p: "length (pending (send_buff (conns w' fd))) = length d - min m (length d)"
      using skipdata_spec [OF "2.prems"(3), of "min m (length d)"] "2.prems"(4) unfolding w'(3) by simp
    have "Suc (length d - min m (length d)) \<le> length d" using m(1) l by linarith
    then show ?thesis unfolding progress_def p w'(1) Sent using m(2) w'(2) by simp
  next
    case S_EINTR
    with 2 have "progress rs rs' ret (length d) (length (pending (send_buff (conns w' fd))))" by simp
    with S_EINTR show ?thesis by (auto simp: progress_def)
  qed (use 2 in \<open>auto simp: progress_def\<close>)
qed

lemma send_file_progress:
  "send_file fd d len rs w = (ret, n, rs', w') \<Longrightarrow> working rs \<Longrightarrow>
   mybuff_getfile (send_buff (conns w fd)) = Some (f, off, len) \<Longrightarrow> length d = min len GSIZE \<Longrightarrow>
   progress rs rs' ret len (flen (send_buff (conns w' fd)))"
proof (induction fd d len rs w rule: send_file.induct)
  case (1 fd d len w)
  then show ?case by (auto simp: progress_def mybuff_getfile_def split: if_splits)
next
  case (2 fd d len r rs w)
  let ?b = "send_buff (conns w fd)"
  have pos: "0 < len" and b: "0 \<le> buf_fd ?b" "flen ?b = len"
    using "2.prems"(3) by (auto simp: mybuff_getfile_def split: if_splits)
  show ?case
  proof (cases r)
    case (Sent m)
    let ?j = "min m (length d)"
    have m: "0 < m" "working rs" using "2.prems"(2) Sent by simp_all
    have j: "0 < ?j" using m(1) pos "2.prems"(4) by (simp add: GSIZE_def)
    have w': "rs' = rs" "ret = SEND_ADD_EPOLLIN \<or> ret = SEND_ADD_EPOLLOUT"
      "send_buff (conns w' fd) = fst (mybuff_skipfile ?b ?j)"
      using "2.prems"(1) Sent by (auto simp: Let_def split: if_splits prod.splits)
    have p: "flen (send_buff (conns w' fd)) = len - ?j"
      unfolding w'(3) using b by (simp add: mybuff_skipfile_def)
    have "Suc (len - ?j) \<le> len" using j pos by linarith
    then show ?thesis unfolding progress_def p w'(1) Sent using m(2) w'(2) by simp
  next
    case S_EINTR
    with 2 have "progress rs rs' ret len (flen (send_buff (conns w' fd)))" by simp
    with S_EINTR show ?thesis by (auto simp: progress_def)
  qed (use 2 pos b in \<open>auto simp: progress_def\<close>)
qed

lemma file_range_length:
  "sendable_buff k b \<Longrightarrow> mybuff_getfile b = Some (f, off, n) \<Longrightarrow> length (file_range k b) = n"
  by (auto simp: sendable_buff_def file_range_def min_def)

lemma outstanding_length:
  "sendable_buff k b \<Longrightarrow>
   length (outstanding k b) = length (pending b) + (case mybuff_getfile b of Some (f, off, n) \<Rightarrow> n | None \<Rightarrow> 0)"
  by (cases "mybuff_getfile b") (auto simp: outstanding_def file_range_length, simp add: file_range_def)

lemma getfile_flen:
  "(case mybuff_getfile b of Some (f, off, n) \<Rightarrow> n | None \<Rightarrow> 0) \<le> flen b"
  by (simp add: mybuff_getfile_def)

lemma progress_trans:
  "progress rs rs1 SEND_ADD_EPOLLIN m m1 \<Longrightarrow> progress rs1 rs2 ret m1 m2 \<Longrightarrow> progress rs rs2 ret m m2"
  by (auto simp: progress_def)

lemma progress_add: "progress rs rs' ret m m' \<Longrightarrow> progress rs rs' ret (m + x) (m' + x)"
  by (simp add: progress_def)

lemma progress_le: "progress rs rs' ret m m' \<Longrightarrow> m'' \<le> m' \<Longrightarrow> progress rs rs' ret m m''"
  by (simp add: progress_def)

lemma send_first_progress:
  assumes "send_first fd k w = (ret, n, rs, w')" "pending (send_buff (conns w fd)) \<noteq> []" "working (k_send k fd)"
    "buff_ok (send_buff (conns w fd))"
  shows "progress (k_send k fd) rs ret (length (pending (send_buff (conns w fd)))) (length (pending (send_buff (conns w' fd))))"
  using send_data_progress [OF _ assms(3,4) refl assms(2)] assms(1,2) by (simp add: send_first_def)

text \<open>The call uses answers up as long as something is to be sent.\<close>

lemma send_io_progress:
  assumes "send_io fd w k = (ret, n, w', k')" "sendable_buff k (send_buff (conns w fd))" "working (k_send k fd)"
    "outstanding k (send_buff (conns w fd)) \<noteq> []"
  shows "progress (k_send k fd) (k_send k' fd) ret (length (outstanding k (send_buff (conns w fd))))
    (length (outstanding k (send_buff (conns w' fd))))"
proof -
  let ?b = "send_buff (conns w fd)"
  obtain ret1 n1 rs1 w1 where f: "send_first fd k w = (ret1, n1, rs1, w1)" by (metis surj_pair)
  let ?b1 = "send_buff (conns w1 fd)"
  obtain ret2 n2 rs2 w2 where r: "send_rest fd k (ret1, n1, rs1, w1) = (ret2, n2, rs2, w2)" by (metis surj_pair)
  have ok: "buff_ok ?b" using assms(2) by (simp add: sendable_buff_def)
  have w': "ret = ret2" "w' = w2" "k_send k' fd = rs2" using assms(1) unfolding send_io_parts [OF ok] f r by auto
  note s = send_first_spec [OF f ok]
  have sb1: "sendable_buff k ?b1" using s assms(2) by (simp add: sendable_buff_def)
  have sb2: "sendable_buff k (send_buff (conns w2 fd))" using send_rest_spec [OF r sb1] s by simp
  let ?f = "\<lambda>b. case mybuff_getfile b of Some (f, off, n) \<Rightarrow> n | None \<Rightarrow> 0"
  have one: "progress (k_send k fd) rs1 ret1 (length (outstanding k ?b)) (length (outstanding k ?b1))" if "pending ?b \<noteq> []"
    using progress_add [OF send_first_progress [OF f that assms(3) ok], of "?f ?b"] s
    by (simp add: outstanding_length [OF assms(2)] outstanding_length [OF sb1])
  have two: "progress rs1 rs2 ret2 (length (outstanding k ?b1)) (length (outstanding k (send_buff (conns w2 fd))))"
    if g: "ret1 = SEND_ADD_EPOLLIN" "mybuff_getfile ?b1 = Some (h, off, len)" "working rs1" for h off len
  proof -
    let ?d = "take (min len GSIZE) (drop (nat off) (k_file k h))"
    have sf: "send_file fd ?d len rs1 w1 = (ret2, n2, rs2, w2)" using r g by (simp add: send_rest_def)
    have rg: "0 \<le> off" "nat off + len \<le> length (k_file k h)" and ok1: "buff_ok ?b1"
      using sb1 g(2) by (simp_all add: sendable_buff_def)
    have ld: "length ?d = min len GSIZE" using rg by simp
    have p1: "pending ?b1 = []" using s g(1) by simp
    have p2: "pending (send_buff (conns w2 fd)) = []" using send_file_spec [OF sf ok1 g(2) refl rg] p1 by auto
    have "progress rs1 rs2 ret2 len (flen (send_buff (conns w2 fd)))"
      by (rule send_file_progress [OF sf g(3,2) ld])
    then have "progress rs1 rs2 ret2 len (?f (send_buff (conns w2 fd)))" by (rule progress_le) (rule getfile_flen)
    then show ?thesis using g(2) p1 p2 by (simp add: outstanding_length [OF sb1] outstanding_length [OF sb2])
  qed
  show ?thesis
  proof (cases "pending ?b = []")
    case True
    then have f0: "ret1 = SEND_ADD_EPOLLIN" "rs1 = k_send k fd" "w1 = w" using f by (simp_all add: send_first_def)
    obtain h off len where "mybuff_getfile ?b1 = Some (h, off, len)"
      using assms(4) True f0(3) by (auto simp: outstanding_def file_range_def split: option.splits)
    from two [OF f0(1) this] assms(3) show ?thesis unfolding f0 w' by simp
  next
    case False
    note o = one [OF False]
    show ?thesis
    proof (cases "ret1 = SEND_ADD_EPOLLIN \<and> mybuff_getfile ?b1 \<noteq> None")
      case True
      then obtain h off len where g: "mybuff_getfile ?b1 = Some (h, off, len)" by (metis option.exhaust surj_pair)
      have "ret1 = SEND_ADD_EPOLLIN" "working rs1" using True o by (simp_all add: progress_def)
      from progress_trans [OF _ two [OF this(1) g this(2)]] o this(1) show ?thesis unfolding w' by blast
    next
      case False
      then have "ret2 = ret1" "rs2 = rs1" "w2 = w1" using r by (auto simp: send_rest_def split: option.splits)
      then show ?thesis using o unfolding w' by simp
    qed
  qed
qed

text \<open>The calls of \<^verbatim>\<open>do_send\<close> on one connection, one after the other, as long as they ask to be called again.\<close>

fun send_rounds :: "nat \<Rightarrow> int \<Rightarrow> ('u, 'g) world \<times> kernel \<Rightarrow> ('u, 'g) world \<times> kernel" where
  "send_rounds 0 fd s = s"
| "send_rounds (Suc m) fd (w, k) =
     (case send_io fd w k of (ret, n, w, k) \<Rightarrow> if ret = SEND_ADD_EPOLLOUT then send_rounds m fd (w, k) else (w, k))"

lemma outstanding_cong: "k_file k' = k_file k \<Longrightarrow> outstanding k' = outstanding k"
  by (rule ext) (simp add: outstanding_def file_range_def split: option.split)

lemma sendable_cong: "k_file k' = k_file k \<Longrightarrow> sendable_buff k' = sendable_buff k"
  by (rule ext) (simp add: sendable_buff_def split: option.split)

lemmas kernel_file_cong = outstanding_cong sendable_cong

lemma send_rounds_all:
  "length (k_send k fd) \<le> m \<Longrightarrow> sendable_buff k (send_buff (conns w fd)) \<Longrightarrow> working (k_send k fd) \<Longrightarrow>
   length (outstanding k (send_buff (conns w fd))) \<le> sent_count (k_send k fd) \<Longrightarrow>
   wire (fst (send_rounds m fd (w, k))) fd = wire w fd @ outstanding k (send_buff (conns w fd))"
proof (induction m arbitrary: w k)
  case 0
  then show ?case by simp
next
  case (Suc m)
  let ?o = "outstanding k (send_buff (conns w fd))"
  obtain ret n w' k' where io: "send_io fd w k = (ret, n, w', k')" by (metis surj_pair)
  note c = send_io_spec [OF io Suc.prems(2)]
  have kf: "outstanding k' = outstanding k" "sendable_buff k' = sendable_buff k"
    by (rule kernel_file_cong, use c in simp)+
  show ?case
  proof (cases "ret = SEND_ADD_EPOLLOUT")
    case True
    show ?thesis
    proof (cases "?o = []")
      case False
      from send_io_progress [OF io Suc.prems(2,3) this]
      have p: "working (k_send k' fd)" "length (k_send k' fd) \<le> m"
        "length (outstanding k (send_buff (conns w' fd))) \<le> sent_count (k_send k' fd)"
        using Suc.prems(1,4) by (auto simp: progress_def)
      from Suc.IH [OF p(2) _ p(1), of w'] p(3) c True io show ?thesis by (simp add: kf)
    next
      case o: True
      then have "pending (send_buff (conns w fd)) = []" "mybuff_getfile (send_buff (conns w fd)) = None"
        using outstanding_length [OF Suc.prems(2)] by (auto simp: mybuff_getfile_def split: if_splits)
      then have "ret = SEND_ADD_EPOLLIN"
        using io Suc.prems(2) by (simp add: send_io_parts sendable_buff_def send_first_def send_rest_def)
      with True show ?thesis by simp
    qed
  next
    case False
    have "ret = SEND_ADD_EPOLLIN"
    proof (cases "?o = []")
      case False
      with send_io_progress [OF io Suc.prems(2,3)] \<open>ret \<noteq> SEND_ADD_EPOLLOUT\<close> show ?thesis by (simp add: progress_def)
    next
      case o: True
      then have "pending (send_buff (conns w fd)) = []" "mybuff_getfile (send_buff (conns w fd)) = None"
        using outstanding_length [OF Suc.prems(2)] by (auto simp: mybuff_getfile_def split: if_splits)
      then show ?thesis
        using io Suc.prems(2) by (simp add: send_io_parts sendable_buff_def send_first_def send_rest_def)
    qed
    with c have "wire w' fd = wire w fd @ ?o" by (metis append_Nil2)
    with io \<open>ret = SEND_ADD_EPOLLIN\<close> show ?thesis by simp
  qed
qed

section \<open>Properties\<close>

text \<open>C26: A call of \<^verbatim>\<open>do_send\<close> neither loses, repeats nor reorders a byte, whatever the kernel answers: what was
  sent on the connection followed by what is still to be sent (the data of the buffer, then the range of the file)
  stays the same, and when the call stops watching for the socket to become writable nothing is left.\<close>

theorem send_io_conserves:
  assumes "sendable_buff k (send_buff (conns w fd))" "send_io fd w k = (ret, n, w', k')"
  shows "wire w' fd @ outstanding k' (send_buff (conns w' fd)) = wire w fd @ outstanding k (send_buff (conns w fd))
    \<and> sendable_buff k' (send_buff (conns w' fd)) \<and> (ret = SEND_ADD_EPOLLIN \<longrightarrow> outstanding k' (send_buff (conns w' fd)) = [])"
proof -
  note c = send_io_spec [OF assms(2,1)]
  then have "outstanding k' = outstanding k" "sendable_buff k' = sendable_buff k" by (auto intro: kernel_file_cong)
  with c show ?thesis by simp
qed

text \<open>A connection with five bytes in its buffer and a range of the file on descriptor 7 behind them.\<close>

definition example_conn :: "(vfs_cs_peer, node_glob) world" where
  "example_conn = set_client_fd 5 7 2 4 (set_client_data 2048 5 ''head:'' (add_fd_2_efd 2048 5 fresh_world))"

definition example_kernel :: kernel where
  "example_kernel = \<lparr>k_send = (\<lambda>_. [Sent 3, S_EAGAIN, S_EINTR, Sent 1, Sent 5, Sent 3, Sent 9, Sent 1, Sent 1, Sent 1, Sent 1]),
     k_recv = (\<lambda>_. []), k_accept = [], k_rand = [], k_file = (\<lambda>_. ''0123456789'')\<rparr>"

lemma example_conn_facts:
  "sendable_buff example_kernel (send_buff (conns example_conn 5))"
  "outstanding example_kernel (send_buff (conns example_conn 5)) = ''head:2345''" "wire example_conn 5 = []"
proof -
  let ?b = "mybuff_setdata 2048 (fst (mybuff_reinit 2048 mybuff_init)) ''head:''"
  have r: "buff_ok (fst (mybuff_reinit 2048 mybuff_init))" "pending (fst (mybuff_reinit 2048 mybuff_init)) = []"
    using reinit_spec [OF buff_ok_init(1), of 2048] by simp_all
  have s: "buff_ok ?b" "pending ?b = ''head:''" using setdata_spec [OF r(1), of 2048 "''head:''"] r(2) by simp_all
  have "send_buff (conns example_conn 5) = fst (mybuff_setfile ?b 7 2 4)" "wire example_conn 5 = []"
    by (simp_all add: example_conn_def fresh_world_def set_client_fd_def set_client_data_def upd_conn_def add_fd_2_efd_def
        case_prod_beta)
  with s show "sendable_buff example_kernel (send_buff (conns example_conn 5))"
    "outstanding example_kernel (send_buff (conns example_conn 5)) = ''head:2345''" "wire example_conn 5 = []"
    by (simp_all add: setfile_spec sendable_buff_def outstanding_def file_range_def example_kernel_def)
qed

theorem send_io_conserves_witness:
  "wire (fst (snd (snd (send_io 5 example_conn example_kernel)))) 5 @
     outstanding (snd (snd (snd (send_io 5 example_conn example_kernel)))) (send_buff (conns (fst (snd (snd (send_io 5 example_conn example_kernel)))) 5)) =
     ''head:2345''"
proof -
  obtain ret n w' k' where io: "send_io 5 example_conn example_kernel = (ret, n, w', k')" by (metis surj_pair)
  from send_io_conserves [OF example_conn_facts(1) io] show ?thesis by (simp add: io example_conn_facts(2,3))
qed

text \<open>C27: If the socket goes on taking bytes, everything that was to be sent leaves: the kernel may answer with
  short counts, \<^verbatim>\<open>EAGAIN\<close> and \<^verbatim>\<open>EINTR\<close> in any order, and it is enough that as many calls take something as there
  are bytes.\<close>

theorem everything_is_sent:
  assumes "sendable_buff k (send_buff (conns w fd))" "working (k_send k fd)"
    "length (outstanding k (send_buff (conns w fd))) \<le> sent_count (k_send k fd)"
  shows "wire (fst (send_rounds (length (k_send k fd)) fd (w, k))) fd = wire w fd @ outstanding k (send_buff (conns w fd))"
  by (rule send_rounds_all [OF order_refl assms])

theorem everything_is_sent_witness:
  "wire (fst (send_rounds 12 5 (example_conn, example_kernel\<lparr>k_send := (\<lambda>_. S_EAGAIN # S_EINTR # Sent 3 # replicate 9 (Sent 1))\<rparr>))) 5 = ''head:2345''"
proof -
  let ?k = "example_kernel\<lparr>k_send := (\<lambda>_. S_EAGAIN # S_EINTR # Sent 3 # replicate 9 (Sent 1))\<rparr>"
  have k: "k_file ?k = k_file example_kernel" by simp
  have s: "sendable_buff ?k (send_buff (conns example_conn 5))" "outstanding ?k (send_buff (conns example_conn 5)) = ''head:2345''"
    using example_conn_facts(1,2) unfolding kernel_file_cong [OF k] by simp_all
  have "working (k_send ?k 5)" "sent_count (k_send ?k 5) = 10" "length (k_send ?k 5) = 12"
    by (simp_all add: working_def numeral_eq_Suc)
  with everything_is_sent [of ?k example_conn 5] s show ?thesis by (simp add: example_conn_facts(3))
qed

end
