(* ===== verification/PartTransfer.thy ===== *)
theory PartTransfer
  imports EventProps
begin

text \<open>
  The way of a part from the file on the upload node to the part file on the storage node: the task is put on a
  connection (\<^verbatim>\<open>uc_client\<close>), the event loop sends the header and the range of the file, and the receiving service
  (\<^verbatim>\<open>sm_client\<close>) stores the body.  Between the two nodes is a stream of bytes, which arrives in pieces of any size.
\<close>

lemma wire_of_new_task:
  assumes "files (g_fs (glob w)) (filename b) = Some c" "can_open (n_io e) (filename b)"
    "fd_results (glob w) = lfd # fd # fds" "0 \<le> lfd" "0 \<le> fd" "conn_malloc e" "0 < buff_size e"
    "buff_ok (send_buff (conns w fd))" "0 \<le> sub_start u" "sub_start u \<le> sub_end u" "sub_end u < int (length c)"
    "k_file k lfd = c" "working (k_send k fd)"
    "length (uc_client_create_header b u @ slice (sub_start u) (sub_end u) c) \<le> sent_count (k_send k fd)"
  shows "\<exists>w'. inotify_new_task e b u w = (0, w') \<and>
    wire (fst (send_rounds (length (k_send k fd)) fd (w', k))) fd =
      wire w fd @ uc_client_create_header b u @ slice (sub_start u) (sub_end u) c"
proof -
  obtain w' where w': "inotify_new_task e b u w = (0, w')" "buff_ok (send_buff (conns w' fd))" "wire w' = wire w"
    "mybuff_getdata (send_buff (conns w' fd)) = (0, uc_client_create_header b u)"
    "mybuff_getfile (send_buff (conns w' fd)) = Some (lfd, sub_start u, nat (sub_end u - sub_start u + 1))"
    using new_task_queued [OF assms(1-8,10)] by blast
  have p: "pending (send_buff (conns w' fd)) = uc_client_create_header b u"
    using getdata_spec [OF w'(2)] w'(4) by (simp split: if_splits)
  have "nat (sub_start u) + nat (sub_end u - sub_start u + 1) \<le> length c" using assms(9-11) by linarith
  then have s: "sendable_buff k (send_buff (conns w' fd))"
    using w'(2,5) assms(9,12) by (simp add: sendable_buff_def)
  have o: "outstanding k (send_buff (conns w' fd)) = uc_client_create_header b u @ slice (sub_start u) (sub_end u) c"
    by (simp add: outstanding_def file_range_def p w'(5) assms(12) slice_def)
  from send_rounds_all [OF order_refl s assms(13)] show ?thesis
    using w'(1,3) assms(14) by (intro exI [of _ w']) (simp add: o)
qed



end
