(* ===== verification/Replicate.thy ===== *)
theory Replicate
  imports PartTransfer SmMerge
begin

text \<open>
  A whole file on its way: its parts arrive at the storage node one after the other, in any order and each on a
  connection of its own (\<open>SmReceive\<close>), and the next run of \<^verbatim>\<open>check_fin_task\<close> collects their tasks and merges
  the part files (\<open>SmHttp\<close>).
\<close>

section \<open>The parts arrive\<close>

text \<open>A part that arrives: its connection, the sender's description of the part, and the pieces.\<close>

type_synonym arrival = "int \<times> t_task_sub \<times> string list"

fun run_parts :: "node_env \<Rightarrow> arrival list \<Rightarrow> sm_world \<Rightarrow> sm_world" where
  "run_parts e [] w = w"
| "run_parts e ((fd, u, ds) # ps) w = run_parts e ps (snd (run_recv e fd ds w))"

definition idle :: "int \<Rightarrow> sm_world \<Rightarrow> bool" where
  "idle fd w \<longleftrightarrow> sstat (peer_of fd w) \<noteq> RECV_BODY_ING \<and> recv_ok fd w \<and> received fd w = []"

lemma idle_cong: "conns w' fd = conns w fd \<Longrightarrow> idle fd w' = idle fd w"
  by (simp add: idle_def peer_of_def recv_ok_def received_def)

text \<open>The parts of a file: \<open>c i\<close> is the content of part \<open>i\<close>.\<close>

definition arrival_ok :: "t_task_base \<Rightarrow> int \<Rightarrow> (int \<Rightarrow> string) \<Rightarrow> sm_world \<Rightarrow> arrival \<Rightarrow> bool" where
  "arrival_ok b n c w = (\<lambda>(fd, u, ds). sub_count u = n \<and> sub_idx u \<in> {1..n} \<and> sendable b u (c (sub_idx u)) \<and>
     idle fd w \<and> (\<forall>d\<in>set ds. d \<noteq> []) \<and> concat ds = uc_client_create_header b u @ c (sub_idx u))"

abbreviation part_no :: "arrival \<Rightarrow> int" where
  "part_no p \<equiv> sub_idx (fst (snd p))"

definition fin_part :: "t_task_base \<Rightarrow> int \<Rightarrow> string \<Rightarrow> int \<Rightarrow> t_vfs_taskinfo \<Rightarrow> bool" where
  "fin_part b n outfile i t \<longleftrightarrow> overstatus (base t) = OVER_OK \<and> tmpfile (base t) = part_path outfile i n \<and>
     filename (base t) = filename b \<and> hostname (base t) = hostname b \<and> filemd5 (base t) = filemd5 b \<and>
     expire (base t) = 0 \<and> sub_idx (sub t) = i \<and> sub_count (sub t) = n"

lemma part_arrives_once:
  assumes e: "env_full e" and a: "arrival_ok b n c w (fd, u, ds)" and i: "tq_inv (g_tq (glob w))" "pool_clean (g_tq (glob w))"
    and o: "outfile = get_localdir (datadir e) (hostname b) (filename b)"
  shows "\<exists>x w1. snd (run_recv e fd ds w) = w1 \<and> tq_inv (g_tq (glob w1)) \<and> pool_clean (g_tq (glob w1)) \<and>
    vfstask (g_tq (glob w1)) TASK_FIN = vfstask (g_tq (glob w)) TASK_FIN @ [x] \<and>
    fin_part b n outfile (sub_idx u) (task (node (g_tq (glob w1)) x)) \<and>
    files (g_fs (glob w1)) (part_path outfile (sub_idx u) n) = Some (c (sub_idx u)) \<and>
    others_kept fd x (part_path outfile (sub_idx u) n) w w1 \<and> (\<forall>j. x \<notin> set (alltask (g_tq (glob w1)) j))"
proof -
  have p: "sendable b u (c (sub_idx u))" "sstat (peer_of fd w) \<noteq> RECV_BODY_ING" "recv_ok fd w" "received fd w = []"
    "\<forall>d\<in>set ds. d \<noteq> []" "concat ds = uc_client_create_header b u @ c (sub_idx u)" "sub_count u = n"
    using a by (auto simp: arrival_ok_def idle_def)
  have h: "received fd w @ concat ds = uc_client_create_header b u @ c (sub_idx u)"
    "length (received fd w) < length (uc_client_create_header b u)" "untouched fd w w"
    using p(4,6) by (simp_all add: uc_client_create_header_def untouched_def)
  obtain x w1 where w1: "run_recv e fd ds w = (RECV_CLOSE, w1)" "part_done fd x b u (part_file e b u) (c (sub_idx u)) w w1"
    using run_recv_part [OF e p(1,2,3) i p(5) h] by blast
  have pf: "part_file e b u = part_path outfile (sub_idx u) n" by (simp add: part_file_def o p(7))
  have k: "others_kept fd x (part_path outfile (sub_idx u) n) w w1" using w1(2) by (simp add: part_done_def pf)
  then have "pool_clean (g_tq (glob w1))"
    using i(2) by (auto simp: pool_clean_def others_kept_def)
  moreover have "fin_part b n outfile (sub_idx u) (task (node (g_tq (glob w1)) x))"
    using w1(2) by (simp add: part_done_def pf fin_part_def same_part_def p(7))
  moreover have "tq_inv (g_tq (glob w1))" "vfstask (g_tq (glob w1)) TASK_FIN = vfstask (g_tq (glob w)) TASK_FIN @ [x]"
    "files (g_fs (glob w1)) (part_path outfile (sub_idx u) n) = Some (c (sub_idx u))"
    "\<forall>j. x \<notin> set (alltask (g_tq (glob w1)) j)"
    using w1(2) by (simp_all add: part_done_def pf)
  moreover have "snd (run_recv e fd ds w) = w1" using w1(1) by simp
  ultimately show ?thesis using k by blast
qed

text \<open>All of them: the tasks of the parts stand on \<open>TASK_FIN\<close> in the order of arrival.\<close>

lemma parts_arrive:
  assumes e: "env_full e" and o: "outfile = get_localdir (datadir e) (hostname b) (filename b)" "length outfile < 230"
    and n: "n < 2 ^ 31"
  shows "\<forall>p\<in>set ps. arrival_ok b n c w p \<Longrightarrow> distinct (map fst ps) \<Longrightarrow> distinct (map part_no ps) \<Longrightarrow>
    tq_inv (g_tq (glob w)) \<Longrightarrow> pool_clean (g_tq (glob w)) \<Longrightarrow> w' = run_parts e ps w \<Longrightarrow>
    \<exists>xs. tq_inv (g_tq (glob w')) \<and> vfstask (g_tq (glob w')) TASK_FIN = vfstask (g_tq (glob w)) TASK_FIN @ xs \<and>
      list_all2 (\<lambda>p x. fin_part b n outfile (part_no p) (task (node (g_tq (glob w')) x))) ps xs \<and>
      (\<forall>p\<in>set ps. files (g_fs (glob w')) (part_path outfile (part_no p) n) = Some (c (part_no p))) \<and>
      (\<forall>q. q \<notin> (\<lambda>i. part_path outfile i n) ` {1..n} \<longrightarrow> files (g_fs (glob w')) q = files (g_fs (glob w)) q) \<and>
      (\<forall>i\<in>{1..n}. i \<notin> part_no ` set ps \<longrightarrow>
         files (g_fs (glob w')) (part_path outfile i n) = files (g_fs (glob w)) (part_path outfile i n)) \<and>
      alltask (g_tq (glob w')) = alltask (g_tq (glob w)) \<and>
      (\<forall>y. y \<notin> set xs \<longrightarrow> task (node (g_tq (glob w')) y) = task (node (g_tq (glob w)) y)) \<and>
      (\<forall>x\<in>set xs. \<forall>j. x \<notin> set (alltask (g_tq (glob w)) j))"
proof (induction ps arbitrary: w)
  case Nil
  then show ?case by simp
next
  case (Cons p ps)
  obtain fd u ds where p: "p = (fd, u, ds)" by (cases p) auto
  let ?i = "sub_idx u"
  let ?P = "\<lambda>i. part_path outfile i n"
  have a: "arrival_ok b n c w (fd, u, ds)" using Cons.prems(1) p by simp
  then have i: "?i \<in> {1..n}" by (simp add: arrival_ok_def)
  obtain x w1 where w1: "snd (run_recv e fd ds w) = w1" "tq_inv (g_tq (glob w1))" "pool_clean (g_tq (glob w1))"
    "vfstask (g_tq (glob w1)) TASK_FIN = vfstask (g_tq (glob w)) TASK_FIN @ [x]"
    "fin_part b n outfile ?i (task (node (g_tq (glob w1)) x))" "files (g_fs (glob w1)) (?P ?i) = Some (c ?i)"
    "others_kept fd x (?P ?i) w w1" "\<forall>j. x \<notin> set (alltask (g_tq (glob w1)) j)"
    using part_arrives_once [OF e a Cons.prems(4,5) o(1)] by blast
  have later: "arrival_ok b n c w1 q" if q: "q \<in> set ps" for q
  proof -
    have "fst q \<noteq> fd" using Cons.prems(2) q p by auto
    then have "conns w1 (fst q) = conns w (fst q)" using w1(7) by (simp add: others_kept_def)
    then show ?thesis using Cons.prems(1) q idle_cong [of w1 "fst q" w] by (cases q) (auto simp: arrival_ok_def)
  qed
  have d: "distinct (map fst ps)" "distinct (map part_no ps)" "?i \<notin> part_no ` set ps"
    using Cons.prems(2,3) p by auto
  have w': "w' = run_parts e ps w1" using Cons.prems(6) p w1(1) by simp
  obtain xs where xs: "tq_inv (g_tq (glob w'))" "vfstask (g_tq (glob w')) TASK_FIN = vfstask (g_tq (glob w1)) TASK_FIN @ xs"
    "list_all2 (\<lambda>p x. fin_part b n outfile (part_no p) (task (node (g_tq (glob w')) x))) ps xs"
    "\<forall>p\<in>set ps. files (g_fs (glob w')) (?P (part_no p)) = Some (c (part_no p))"
    "\<forall>q. q \<notin> ?P ` {1..n} \<longrightarrow> files (g_fs (glob w')) q = files (g_fs (glob w1)) q"
    "\<forall>i\<in>{1..n}. i \<notin> part_no ` set ps \<longrightarrow> files (g_fs (glob w')) (?P i) = files (g_fs (glob w1)) (?P i)"
    "alltask (g_tq (glob w')) = alltask (g_tq (glob w1))"
    "\<forall>y. y \<notin> set xs \<longrightarrow> task (node (g_tq (glob w')) y) = task (node (g_tq (glob w1)) y)"
    "\<forall>x\<in>set xs. \<forall>j. x \<notin> set (alltask (g_tq (glob w1)) j)"
    using Cons.IH [OF _ d(1,2) w1(2,3) w'] later by blast
  have "distinct (vfstask (g_tq (glob w')) TASK_FIN)" by (rule queues_okD(1) [OF tq_invD(1) [OF xs(1)]])
  then have x: "x \<notin> set xs" using xs(2) w1(4) by simp
  have k: "\<And>q. q \<noteq> ?P ?i \<Longrightarrow> files (g_fs (glob w1)) q = files (g_fs (glob w)) q"
    "alltask (g_tq (glob w1)) = alltask (g_tq (glob w))"
    "\<And>y. y \<noteq> x \<Longrightarrow> task (node (g_tq (glob w1)) y) = task (node (g_tq (glob w)) y)"
    using w1(7) by (simp_all add: others_kept_def)
  have ne: "?P j \<noteq> ?P ?i" if "j \<in> {1..n}" "j \<noteq> ?i" for j
    using part_path_inj(1) [OF o(2) n] that i by (auto dest!: inj_onD)
  have t: "task (node (g_tq (glob w')) x) = task (node (g_tq (glob w1)) x)" using xs(8) x by blast
  have l: "list_all2 (\<lambda>p x. fin_part b n outfile (part_no p) (task (node (g_tq (glob w')) x))) (p # ps) (x # xs)"
    using xs(3) w1(5) t p by simp
  have f1: "\<forall>p\<in>set (p # ps). files (g_fs (glob w')) (?P (part_no p)) = Some (c (part_no p))"
    using xs(4,6) d(3) i w1(6) p by auto
  have f2: "\<forall>q. q \<notin> ?P ` {1..n} \<longrightarrow> files (g_fs (glob w')) q = files (g_fs (glob w)) q"
    using xs(5) k(1) i by (metis imageI)
  have f3: "\<forall>j\<in>{1..n}. j \<notin> part_no ` set (p # ps) \<longrightarrow> files (g_fs (glob w')) (?P j) = files (g_fs (glob w)) (?P j)"
    using xs(6) k(1) ne p by auto
  have ta: "\<forall>y. y \<notin> set (x # xs) \<longrightarrow> task (node (g_tq (glob w')) y) = task (node (g_tq (glob w)) y)"
    using xs(8) k(3) by auto
  have "vfstask (g_tq (glob w')) TASK_FIN = vfstask (g_tq (glob w)) TASK_FIN @ x # xs" using xs(2) w1(4) by simp
  moreover have "\<forall>y\<in>set (x # xs). \<forall>j. y \<notin> set (alltask (g_tq (glob w)) j)" using xs(9) w1(8) k(2) by simp
  ultimately show ?case using xs(1,7) k(2) l f1 f2 f3 ta by (intro exI [of _ "x # xs"]) simp
qed

section \<open>Their tasks are collected\<close>

text \<open>What the code relies on of the shell: \<^verbatim>\<open>touch\<close> makes the empty file \<open>p\<close> when there is none.\<close>

definition touches :: "(string \<Rightarrow> fsys \<Rightarrow> fsys) \<Rightarrow> string \<Rightarrow> bool" where
  "touches sc p \<longleftrightarrow> (\<forall>fs. sc (''touch '' @ p) fs = (if is_there fs p then fs else fs\<lparr>files := (files fs)(p \<mapsto> [])\<rparr>))"

definition marker :: "string \<Rightarrow> string" where
  "marker outfile = outfile @ ''_checkfile_nodup''"

lemma marker_not_part:
  assumes "length outfile < 230" "i \<in> {1..n}" "n < 2 ^ 31"
  shows "part_path outfile i n \<noteq> marker outfile"
proof
  assume "part_path outfile i n = marker outfile"
  then have eq: "dec_int i @ ''_'' @ dec_int n = ''checkfile_nodup''"
    using assms part_path_short [of outfile i n] by (simp add: marker_def)
  obtain c cs where d: "dec_int i = c # cs" using dec_nat_nonempty [of "nat i"] assms(2) by (cases "dec_nat (nat i)") (auto simp: dec_int_def)
  have "isdigit c" using dec_nat_digits [of c "nat i"] d assms(2) by (simp add: dec_int_def)
  moreover have "c = CHR ''c''" using eq d by simp
  ultimately show False by (simp add: isdigit_def)
qed

text \<open>With all part files there \<^verbatim>\<open>check_lack_task\<close> finds nothing missing.\<close>

lemma check_lack_nothing:
  assumes "touches sc (marker outfile)" "outfile = get_localdir (datadir e) (hostname b) (filename b)" "length outfile < 230"
    "fin_part b n outfile i (task (node (g_tq (glob w)) x))"
    "\<forall>i\<in>{1..n}. files (g_fs (glob w)) (part_path outfile i n) \<noteq> None" "n < 2 ^ 31"
  shows "\<exists>fs'. check_lack_task e sc x w = fs_upd (\<lambda>_. fs') w \<and>
    (\<forall>q. q \<noteq> marker outfile \<longrightarrow> files fs' q = files (g_fs (glob w)) q)"
proof -
  let ?fs = "g_fs (glob w)"
  have t: "hostname (base (task (node (g_tq (glob w)) x))) = hostname b"
    "filename (base (task (node (g_tq (glob w)) x))) = filename b" "sub_count (sub (task (node (g_tq (glob w)) x))) = n"
    using assms(4) by (simp_all add: fin_part_def)
  have m: "snprint 256 (outfile @ ''_checkfile_nodup'') = marker outfile"
    "snprint 256 (''touch '' @ marker outfile) = ''touch '' @ marker outfile"
    unfolding marker_def by (rule snprint_id, use assms(3) in simp)+
  have none: "fold (lack_entry e fs outfile x n) [1..n] s = s" if "\<forall>i\<in>{1..n}. files fs (part_path outfile i n) \<noteq> None" for fs s
  proof -
    have "fold (lack_entry e fs outfile x n) is s = s" if "set is \<subseteq> {1..n}" for "is"
      using that \<open>\<forall>i\<in>{1..n}. files fs (part_path outfile i n) \<noteq> None\<close>
      by (induction "is") (auto simp: lack_entry_def is_there_def)
    then show ?thesis by simp
  qed
  show ?thesis
  proof (cases "is_there ?fs (marker outfile)")
    case True
    then have "check_lack_task e sc x w = fs_upd (\<lambda>_. ?fs) w"
      by (simp add: check_lack_task_def Let_def t m assms(2) [symmetric] fs_upd_def)
    then show ?thesis by blast
  next
    case False
    let ?fs' = "?fs\<lparr>files := (files ?fs)(marker outfile \<mapsto> [])\<rparr>"
    have "sc (''touch '' @ marker outfile) ?fs = ?fs'" using assms(1) False by (simp add: touches_def)
    moreover have "\<forall>i\<in>{1..n}. files ?fs' (part_path outfile i n) \<noteq> None"
      using assms(5) by simp
    ultimately have "check_lack_task e sc x w = fs_upd (\<lambda>_. ?fs') w"
      using False none [of ?fs']
      by (simp add: check_lack_task_def Let_def t m m(2) [simplified] assms(2) [symmetric] tq_upd_def fs_upd_def)
    then show ?thesis by (intro exI [of _ ?fs']) simp
  qed
qed

text \<open>
  The state in the middle of a run of \<^verbatim>\<open>check_fin_task\<close>: the parts \<open>is\<close> still wait on \<open>TASK_FIN\<close>, as the
  tasks \<open>xs\<close>, and the others are in the table of all tasks.
\<close>

definition collecting ::
  "t_task_base \<Rightarrow> int \<Rightarrow> string \<Rightarrow> (int \<Rightarrow> string) \<Rightarrow> int list \<Rightarrow> addr list \<Rightarrow> http_world \<Rightarrow> bool" where
  "collecting b n outfile c is xs w \<longleftrightarrow>
     tq_inv (g_tq (glob w)) \<and> vfstask (g_tq (glob w)) TASK_FIN = xs \<and> distinct is \<and> set is \<subseteq> {1..n} \<and>
     list_all2 (\<lambda>i x. fin_part b n outfile i (task (node (g_tq (glob w)) x))) is xs \<and>
     (\<forall>i\<in>{1..n}. files (g_fs (glob w)) (part_path outfile i n) = Some (c i) \<and>
        (hashed (g_tq (glob w)) (same_task (filename b) i n) \<longleftrightarrow> i \<notin> set is)) \<and>
     (\<forall>j x. x \<in> set (alltask (g_tq (glob w)) j) \<longrightarrow> x \<notin> set xs \<and>
        (\<forall>i\<in>{1..n}. same_task (filename b) i n (node (g_tq (glob w)) x) \<longrightarrow>
           fin_part b n outfile i (task (node (g_tq (glob w)) x))))"

lemma collecting_ready:
  assumes "collecting b n outfile c [] xs w"
  shows "parts_ready (filename b) 1 n (\<lambda>i. part_path outfile i n) c (g_tq (glob w)) (g_fs (glob w))"
  using assms tq_invD(4) unfolding collecting_def parts_ready_def fin_part_def by auto

lemma collecting_missing:
  assumes "collecting b n outfile c (i # is) xs w" "\<not> lock_failed lk"
  shows "\<not> check_task_allsub_isok lk (filename b) n (g_tq (glob w))"
proof -
  have i: "i \<in> {1..n}" "\<not> hashed (g_tq (glob w)) (same_task (filename b) i n)" and inv: "alltask_ok (g_tq (glob w))"
    using assms(1) tq_invD(4) by (auto simp: collecting_def)
  have "\<not> hashed (g_tq (glob w)) (\<lambda>t. same_task (filename b) i n t \<and> expire (base (task t)) = 0)"
    using i(2) unfolding hashed_def by blast
  then have "check_task_from_alltask lk (filename b) i n 0 (g_tq (glob w)) \<noteq> 0"
    using find_bucket [OF inv, of "\<lambda>t. same_task (filename b) i n t \<and> expire (base (task t)) = 0" "filename b" i n] assms(2)
    by (auto simp: check_task_from_alltask_def)
  then show ?thesis using i(1) by (auto simp: check_task_allsub_isok_def list_all_iff)
qed

lemma collecting_complete:
  assumes "collecting b n outfile c [] xs w" "\<not> lock_failed lk"
  shows "check_task_allsub_isok lk (filename b) n (g_tq (glob w))"
proof -
  have inv: "alltask_ok (g_tq (glob w))" using assms(1) tq_invD(4) by (auto simp: collecting_def)
  have "check_task_from_alltask lk (filename b) i n 0 (g_tq (glob w)) = 0" if i: "i \<in> {1..n}" for i
  proof -
    have "hashed (g_tq (glob w)) (same_task (filename b) i n)"
      using collecting_ready [OF assms(1)] i unfolding parts_ready_def by blast
    then obtain j x where x: "x \<in> set (alltask (g_tq (glob w)) j)" "same_task (filename b) i n (node (g_tq (glob w)) x)"
      unfolding hashed_def by blast
    moreover have "expire (base (task (node (g_tq (glob w)) x))) = 0"
      using collecting_ready [OF assms(1)] i x unfolding parts_ready_def by blast
    ultimately have "hashed (g_tq (glob w)) (\<lambda>t. same_task (filename b) i n t \<and> expire (base (task t)) = 0)"
      unfolding hashed_def by blast
    then show ?thesis
      using find_bucket [OF inv, of "\<lambda>t. same_task (filename b) i n t \<and> expire (base (task t)) = 0" "filename b" i n] assms(2)
      by (auto simp: check_task_from_alltask_def split: option.splits)
  qed
  then show ?thesis by (auto simp: check_task_allsub_isok_def list_all_iff)
qed

lemma collecting_step:
  assumes c: "collecting b n outfile c (i # is) (x # xs) w" and lk: "\<not> lock_failed lk"
    and s1: "vfstask s1 = (vfstask (g_tq (glob w)))(TASK_FIN := xs)" "\<And>y. task (node s1 y) = task (node (g_tq (glob w)) y)"
      "tq_inv s1" "detached s1 x" "alltask s1 = alltask (g_tq (glob w))"
    and fs: "\<And>j. j \<in> {1..n} \<Longrightarrow> files fs' (part_path outfile j n) = files (g_fs (glob w)) (part_path outfile j n)"
    and w2: "w2 = tq_upd (\<lambda>s. snd (add_task_to_alltask lk x s)) (fs_upd (\<lambda>_. fs') (tq_upd (\<lambda>_. s1) w))"
  shows "collecting b n outfile c is xs w2"
proof -
  let ?s = "g_tq (glob w)"
  let ?same = "\<lambda>j. same_task (filename b) j n"
  define s2 where "s2 = snd (add_task_to_alltask lk x s1)"
  have x: "fin_part b n outfile i (task (node ?s x))" "i \<in> {1..n}" "i \<notin> set is" "\<And>j. x \<notin> set (alltask ?s j)"
    and p: "list_all2 (\<lambda>i x. fin_part b n outfile i (task (node ?s x))) is xs" "distinct is" "set is \<subseteq> {1..n}"
    and parts: "\<And>j. j \<in> {1..n} \<Longrightarrow> files (g_fs (glob w)) (part_path outfile j n) = Some (c j)"
      "\<And>j. j \<in> {1..n} \<Longrightarrow> hashed ?s (?same j) \<longleftrightarrow> j \<noteq> i \<and> j \<notin> set is"
    and tab: "\<And>k y. y \<in> set (alltask ?s k) \<Longrightarrow> y \<notin> set (x # xs)"
      "\<And>k y j. y \<in> set (alltask ?s k) \<Longrightarrow> j \<in> {1..n} \<Longrightarrow> ?same j (node ?s y) \<Longrightarrow> fin_part b n outfile j (task (node ?s y))"
    using c unfolding collecting_def by (simp, simp, simp, fastforce, simp, simp, simp, simp, simp, blast, blast)
  have "tq_inv ?s" using c by (simp add: collecting_def)
  then have "distinct (vfstask ?s TASK_FIN)" by (rule queues_okD(1) [OF tq_invD(1)])
  moreover have "vfstask ?s TASK_FIN = x # xs" using c by (simp add: collecting_def)
  ultimately have xx: "x \<notin> set xs" by simp
  have inv: "tq_inv s2" using s1(3,4) unfolding s2_def by (intro tq_inv_add_all) (auto simp: detached_def)
  have v: "vfstask s2 TASK_FIN = xs" using lk s1(1) by (simp add: s2_def add_task_to_alltask_def tq_ops Let_def)
  have t: "task (node s2 y) = task (node ?s y)" for y
    using lk s1(2) by (simp add: s2_def add_task_to_alltask_def tq_ops Let_def)
  have same: "?same j (node s2 y) = ?same j (node ?s y)" for j y by (rule same_task_status [OF t])
  have mem: "y \<in> set (alltask s2 k) \<Longrightarrow> y = x \<or> y \<in> set (alltask ?s k)" for y k
    using lk s1(5) by (auto simp: s2_def add_task_to_alltask_def tq_ops Let_def split: if_splits)
  have keep: "y \<in> set (alltask ?s k) \<Longrightarrow> y \<in> set (alltask s2 k)" for y k
    using lk s1(5) x(4) by (auto simp: s2_def add_task_to_alltask_def tq_ops Let_def)
  have new: "\<exists>k. x \<in> set (alltask s2 k)"
    using lk by (auto simp: s2_def add_task_to_alltask_def tq_ops Let_def)
  have sx: "?same j (node ?s x) \<longleftrightarrow> j = i" for j using x(1) by (auto simp: same_task_def fin_part_def)
  have h: "hashed s2 (?same j) \<longleftrightarrow> j = i \<or> hashed ?s (?same j)" for j
    unfolding hashed_def same using mem keep new sx by metis
  have q: "g_tq (glob w2) = s2" "g_fs (glob w2) = fs'" using w2 by (simp_all add: s2_def)
  have "\<forall>j\<in>{1..n}. files fs' (part_path outfile j n) = Some (c j) \<and> (hashed s2 (?same j) \<longleftrightarrow> j \<notin> set is)"
    using parts fs h x(3) by auto
  moreover have "\<forall>k y. y \<in> set (alltask s2 k) \<longrightarrow> y \<notin> set xs \<and>
      (\<forall>j\<in>{1..n}. ?same j (node s2 y) \<longrightarrow> fin_part b n outfile j (task (node s2 y)))"
    unfolding same t using mem tab xx x(1) sx by (metis list.set_intros(2))
  ultimately show ?thesis unfolding collecting_def q t using inv v p by simp
qed

lemma set_task_no_fin:
  "vfstask (g_tq (glob w)) TASK_FIN = [] \<Longrightarrow> vfstask (g_tq (glob (set_task e x TASK_HOME w))) TASK_FIN = []"
  by (auto simp: set_task_def vfs_set_task_def tq_ops)

lemma merge_parts_no_fin:
  "vfstask (g_tq (glob w)) TASK_FIN = [] \<Longrightarrow> vfstask (g_tq (glob (merge_parts e f n idx out w))) TASK_FIN = []"
proof (induction "nat (n + 1 - idx)" arbitrary: idx out w)
  case (Suc k)
  then have k: "k = nat (n + 1 - (idx + 1))" by simp
  obtain r x s where g: "get_task_from_alltask (a_lock e) f idx n (g_tq (glob w)) = (r, x, s)"
    by (cases "get_task_from_alltask (a_lock e) f idx n (g_tq (glob w))") auto
  have s: "vfstask s TASK_FIN = []"
    using g Suc.prems by (auto simp: get_task_from_alltask_def tq_ops split: if_splits option.splits)
  show ?case
    using Suc.prems Suc.hyps(1) [OF k] set_task_no_fin s
    by (subst merge_parts.simps) (simp add: g Let_def split: option.split prod.split)
qed (simp add: merge_parts.simps)

lemma do_merge_no_fin:
  "vfstask (g_tq (glob w)) TASK_FIN = [] \<Longrightarrow> vfstask (g_tq (glob (snd (do_merge_file e host f n md5 w)))) TASK_FIN = []"
  using merge_parts_no_fin by (simp add: do_merge_file_def Let_def connect_and_send_tq split: prod.split)

lemma check_fin_loop_idle:
  assumes "vfstask (g_tq (glob w)) TASK_FIN = []" "\<not> lock_failed (q_lock e TASK_FIN)"
  shows "check_fin_loop e sc m w = w"
proof -
  have "vfs_get_task (q_lock e TASK_FIN) (malloc_ok e) TASK_FIN (g_tq (glob w)) = (GET_TASK_NOTHING, None, g_tq (glob w))"
    using assms by (simp add: vfs_get_task_def bad_status_def)
  then show ?thesis by (subst check_fin_loop.simps) (simp add: tq_upd_def)
qed

lemma collect_all:
  assumes e: "merge_env e" and o: "outfile = get_localdir (datadir e) (hostname b) (filename b)" "length outfile < 230"
    and n: "n < 2 ^ 31" and sc: "touches sc (marker outfile)" and conn: "0 \<le> fd" "conn_malloc e"
  shows "collecting b n outfile c is xs w \<Longrightarrow> is \<noteq> [] \<Longrightarrow> length xs \<le> m \<Longrightarrow> fd_results (glob w) = fd # fds \<Longrightarrow>
    buff_ok (send_buff (conns w fd)) \<Longrightarrow> w' = check_fin_loop e sc m w \<Longrightarrow>
    files (g_fs (glob w')) outfile = Some (concat (map c [1..n])) \<and>
    (\<forall>i\<in>{1..n}. files (g_fs (glob w')) (part_path outfile i n) = None) \<and>
    mybuff_getdata (send_buff (conns w' fd)) = (0, sm_http_create_header (filename b) (filemd5 b)
      (if md5_text (n_io e) (Some (concat (map c [1..n]))) = filemd5 b then 5 else 6))"
proof (induction "is" arbitrary: xs w m)
  case (Cons i "is")
  have lk: "\<not> lock_failed (q_lock e TASK_FIN)" "\<not> lock_failed (a_lock e)"
    using e by (simp_all add: merge_env_def env_full_def env_good_def)
  obtain x xs' where xs: "xs = x # xs'" using Cons.prems(1) by (auto simp: collecting_def list_all2_Cons1)
  then obtain m' where m: "m = Suc m'" "length xs' \<le> m'" using Cons.prems(3) by (cases m) auto
  have inv: "tq_inv (g_tq (glob w))" "vfstask (g_tq (glob w)) TASK_FIN = x # xs'" "n \<ge> 1"
    using Cons.prems(1) xs by (auto simp: collecting_def)
  obtain s1 where s1: "vfs_get_task (q_lock e TASK_FIN) (malloc_ok e) TASK_FIN (g_tq (glob w)) = (GET_TASK_OK, Some x, s1)"
    "vfstask s1 = (vfstask (g_tq (glob w)))(TASK_FIN := xs')" "\<And>y. task (node s1 y) = task (node (g_tq (glob w)) y)"
    "tq_inv s1" "detached s1 x" "alltask s1 = alltask (g_tq (glob w))"
    using take_fin [OF inv(1,2) lk(1)] by blast
  define w1 where "w1 = tq_upd (\<lambda>_. s1) w"
  have q1: "g_tq (glob w1) = s1" "g_fs (glob w1) = g_fs (glob w)" by (simp_all add: w1_def)
  have x: "fin_part b n outfile i (task (node (g_tq (glob w1)) x))"
    using Cons.prems(1) xs unfolding q1 s1(3) by (simp add: collecting_def)
  have "\<forall>j\<in>{1..n}. files (g_fs (glob w1)) (part_path outfile j n) \<noteq> None"
    using Cons.prems(1) unfolding q1 collecting_def by fastforce
  from check_lack_nothing [OF sc o x this n] obtain fs' where fs': "check_lack_task e sc x w1 = fs_upd (\<lambda>_. fs') w1"
    "\<forall>q. q \<noteq> marker outfile \<longrightarrow> files fs' q = files (g_fs (glob w1)) q" by blast
  define w2 where "w2 = tq_upd (\<lambda>s. snd (add_task_to_alltask (a_lock e) x s)) (fs_upd (\<lambda>_. fs') w1)"
  have "files fs' (part_path outfile j n) = files (g_fs (glob w)) (part_path outfile j n)" if "j \<in> {1..n}" for j
    using fs'(2) marker_not_part [OF o(2) that n] q1(2) by simp
  from collecting_step [OF Cons.prems(1) [unfolded xs] lk(2) s1(2-6) this w2_def [unfolded w1_def]]
  have c2: "collecting b n outfile c is xs' w2" .
  have fin: "fin_task e sc x w1 = (if check_task_allsub_isok (a_lock e) (filename b) n (g_tq (glob w2))
      then snd (do_merge_file e (hostname b) (filename b) n (filemd5 b) w2) else w2)"
    using x fs'(1) by (simp add: fin_task_def Let_def fin_part_def w2_def)
  have loop: "check_fin_loop e sc m w = check_fin_loop e sc m' (fin_task e sc x w1)"
    by (subst check_fin_loop.simps) (simp add: s1(1) m(1) w1_def)
  have conns2: "fd_results (glob w2) = fd # fds" "buff_ok (send_buff (conns w2 fd))"
    using Cons.prems(4,5) by (simp_all add: w2_def w1_def)
  show ?case
  proof (cases "is")
    case Nil
    then have c0: "collecting b n outfile c [] [] w2" using c2 by (simp add: collecting_def)
    from merge_file_all [OF e o n collecting_ready [OF c0] conns2(1) conn conns2(2)] obtain w3 where
      w3: "do_merge_file e (hostname b) (filename b) n (filemd5 b) w2 = (0, w3)"
      "files (g_fs (glob w3)) outfile = Some (concat (map c [1..n]))"
      "\<forall>i\<in>{1..n}. files (g_fs (glob w3)) (part_path outfile i n) = None"
      "mybuff_getdata (send_buff (conns w3 fd)) = (0, sm_http_create_header (filename b) (filemd5 b)
        (if md5_text (n_io e) (Some (concat (map c [1..n]))) = filemd5 b then 5 else 6))" by blast
    have "vfstask (g_tq (glob w2)) TASK_FIN = []" using c0 by (simp add: collecting_def)
    then have "vfstask (g_tq (glob w3)) TASK_FIN = []"
      using do_merge_no_fin [of w2 e "hostname b" "filename b" n "filemd5 b"] w3(1) by simp
    moreover have "fin_task e sc x w1 = w3" using fin collecting_complete [OF c0 lk(2)] w3(1) by simp
    ultimately have "w' = w3" using Cons.prems(6) loop check_fin_loop_idle lk(1) by simp
    with w3(2-4) show ?thesis by simp
  next
    case (Cons i' is')
    then have "fin_task e sc x w1 = w2" using fin collecting_missing [of b n outfile c i' is' xs' w2] c2 lk(2) by simp
    then have "w' = check_fin_loop e sc m' w2" using Cons.prems(6) loop by simp
    from Cons.IH [OF c2 _ m(2) conns2 this] Cons show ?thesis by simp
  qed
qed simp

section \<open>The whole way\<close>

text \<open>\<open>s\<close> is what an upload node sends for the part \<open>u\<close> of the file \<open>b\<close> with content \<open>f\<close>, from some state in which
  the file can be opened, a connection can be made and the socket goes on taking bytes.\<close>

definition sends :: "node_env \<Rightarrow> t_task_base \<Rightarrow> t_task_sub \<Rightarrow> string \<Rightarrow> string \<Rightarrow> bool" where
  "sends e b u f s \<longleftrightarrow> (\<exists>w k lfd fd fds.
     files (g_fs (glob w)) (filename b) = Some f \<and> can_open (n_io e) (filename b) \<and>
     fd_results (glob w) = lfd # fd # fds \<and> 0 \<le> lfd \<and> 0 \<le> fd \<and> conn_malloc e \<and> 0 < buff_size e \<and>
     buff_ok (send_buff (conns w fd)) \<and> wire w fd = [] \<and> k_file k lfd = f \<and> working (k_send k fd) \<and>
     length (uc_client_create_header b u @ slice (sub_start u) (sub_end u) f) \<le> sent_count (k_send k fd) \<and>
     s = wire (fst (send_rounds (length (k_send k fd)) fd (snd (inotify_new_task e b u w), k))) fd)"

lemma sends_stream:
  assumes "sends e b u f s" "0 \<le> sub_start u" "sub_start u \<le> sub_end u" "sub_end u < int (length f)"
  shows "s = uc_client_create_header b u @ slice (sub_start u) (sub_end u) f"
proof -
  obtain w k lfd fd fds where r: "files (g_fs (glob w)) (filename b) = Some f" "can_open (n_io e) (filename b)"
    "fd_results (glob w) = lfd # fd # fds" "0 \<le> lfd" "0 \<le> fd" "conn_malloc e" "0 < buff_size e"
    "buff_ok (send_buff (conns w fd))" and x: "wire w fd = []"
    and k: "k_file k lfd = f" "working (k_send k fd)"
    "length (uc_client_create_header b u @ slice (sub_start u) (sub_end u) f) \<le> sent_count (k_send k fd)"
    and s: "s = wire (fst (send_rounds (length (k_send k fd)) fd (snd (inotify_new_task e b u w), k))) fd"
    using assms(1) unfolding sends_def by blast
  from wire_of_new_task [OF r assms(2-4) k] x s show ?thesis by auto
qed

lemma replicate_file:
  assumes e: "merge_env e" and o: "outfile = get_localdir (datadir e) (hostname b) (filename b)" "length outfile < 230"
    and m: "0 < m" "n = splic_count m (int (length f))" "int (length f) div m < 2 ^ 31 - 1" "n \<le> 128" "f \<noteq> []"
    and ps: "distinct (map fst ps)" "distinct (map part_no ps)" "set (map part_no ps) = {1..n}"
      "\<forall>(fd, u, ds)\<in>set ps. sub_count u = n \<and> part_range m (int (length f)) n (sub_idx u) = (sub_start u, sub_end u) \<and>
         sendable b u (slice (sub_start u) (sub_end u) f) \<and> idle fd v \<and> (\<forall>d\<in>set ds. d \<noteq> []) \<and> sends ue b u f (concat ds)"
    and v: "tq_inv (g_tq (glob v))" "pool_clean (g_tq (glob v))" "vfstask (g_tq (glob v)) TASK_FIN = []"
      "\<forall>i\<in>{1..n}. \<not> hashed (g_tq (glob v)) (same_task (filename b) i n)"
    and h: "g_tq (glob h) = g_tq (glob (run_parts e ps v))" "g_fs (glob h) = g_fs (glob (run_parts e ps v))"
      "fd_results (glob h) = fd # fds" "0 \<le> fd" "conn_malloc e" "buff_ok (send_buff (conns h fd))"
    and sc: "touches sc (marker outfile)"
    and h': "h' = check_fin_task e sc h"
  shows "files (g_fs (glob h')) outfile = Some f \<and>
    (\<forall>i\<in>{1..n}. files (g_fs (glob h')) (part_path outfile i n) = None) \<and>
    mybuff_getdata (send_buff (conns h' fd)) = (0, sm_http_create_header (filename b) (filemd5 b)
      (if md5_text (n_io e) (Some f) = filemd5 b then 5 else 6))"
proof -
  define c where "c i = (case part_range m (int (length f)) n i of (a, z) \<Rightarrow> slice a z f)" for i
  let ?w = "run_parts e ps v"
  have "0 \<le> int (length f) div m" using m(1) by (simp add: pos_imp_zdiv_nonneg_iff)
  then have n: "n < 2 ^ 31" using m(3) by (simp add: m(2) splic_count_def to_int32_id)
  have cat: "concat (map c [1..n]) = f"
    unfolding c_def m(2) using m(3) by (intro slices_all [OF m(1)]) simp
  have n1: "1 \<le> n" using cat m(5) by (cases "1 \<le> n") auto
  have "arrival_ok b n c v p" if p: "p \<in> set ps" for p
  proof -
    obtain fd u ds where q: "p = (fd, u, ds)" by (cases p) auto
    have a: "sub_count u = n" "part_range m (int (length f)) n (sub_idx u) = (sub_start u, sub_end u)"
      "sendable b u (slice (sub_start u) (sub_end u) f)" "idle fd v" "\<forall>d\<in>set ds. d \<noteq> []" "sends ue b u f (concat ds)"
      using ps(4) p q by auto
    have i: "sub_idx u \<in> {1..n}" using ps(3) p q by force
    have ci: "c (sub_idx u) = slice (sub_start u) (sub_end u) f" by (simp add: c_def a(2))
    have r: "0 \<le> sub_start u" "sub_start u \<le> sub_end u"
      using a(3) by (simp_all add: sendable_def header_fits_def)
    have "int (min (length f - nat (sub_start u)) (nat (sub_end u - sub_start u + 1))) = sub_end u - sub_start u + 1"
      using a(3) by (simp add: sendable_def slice_def)
    with r have "sub_end u < int (length f)" by linarith
    with sends_stream [OF a(6) r] ci a i q show ?thesis by (simp add: arrival_ok_def)
  qed
  then have "\<forall>p\<in>set ps. arrival_ok b n c v p" by blast
  moreover have "env_full e" using e by (simp add: merge_env_def)
  ultimately obtain xs where xs: "tq_inv (g_tq (glob ?w))" "vfstask (g_tq (glob ?w)) TASK_FIN = xs"
    "list_all2 (\<lambda>p x. fin_part b n outfile (part_no p) (task (node (g_tq (glob ?w)) x))) ps xs"
    "\<forall>p\<in>set ps. files (g_fs (glob ?w)) (part_path outfile (part_no p) n) = Some (c (part_no p))"
    "alltask (g_tq (glob ?w)) = alltask (g_tq (glob v))"
    "\<forall>y. y \<notin> set xs \<longrightarrow> task (node (g_tq (glob ?w)) y) = task (node (g_tq (glob v)) y)"
    "\<forall>x\<in>set xs. \<forall>j. x \<notin> set (alltask (g_tq (glob v)) j)"
    using parts_arrive [OF _ o n _ ps(1,2) v(1,2) refl] v(3) by fastforce
  have table: "\<not> same_task (filename b) i n (node (g_tq (glob ?w)) y)" "y \<notin> set xs"
    if "y \<in> set (alltask (g_tq (glob ?w)) j)" "i \<in> {1..n}" for y j i
  proof -
    show "y \<notin> set xs" using that(1) xs(5,7) by auto
    then have "task (node (g_tq (glob ?w)) y) = task (node (g_tq (glob v)) y)" using xs(6) by blast
    moreover have "\<not> same_task (filename b) i n (node (g_tq (glob v)) y)"
      using v(4) that xs(5) unfolding hashed_def by auto
    ultimately show "\<not> same_task (filename b) i n (node (g_tq (glob ?w)) y)" using same_task_status by blast
  qed
  have files: "files (g_fs (glob ?w)) (part_path outfile i n) = Some (c i)" if i: "i \<in> {1..n}" for i
  proof -
    have "i \<in> part_no ` set ps" using i ps(3) by simp
    then show ?thesis using xs(4) by blast
  qed
  have "hashed (g_tq (glob ?w)) (same_task (filename b) i n) \<longleftrightarrow> i \<notin> set (map part_no ps)" if "i \<in> {1..n}" for i
    using table(1) that ps(3) unfolding hashed_def by blast
  moreover have "list_all2 (\<lambda>i x. fin_part b n outfile i (task (node (g_tq (glob ?w)) x))) (map part_no ps) xs"
    using xs(3) by (simp add: list_all2_map1)
  ultimately have col: "collecting b n outfile c (map part_no ps) xs h"
    unfolding collecting_def h(1,2) using xs(1,2) ps(2,3) files table n1
    by (intro conjI ballI allI impI) (auto, force+)
  have "length xs = length ps" using list_all2_lengthD [OF xs(3)] by simp
  also have "\<dots> = card {1..n}" using distinct_card [OF ps(2)] ps(3) by simp
  finally have "length xs \<le> 128" using m(4) by simp
  moreover have "map part_no ps \<noteq> []" using ps(3) n1 by auto
  moreover have "h' = check_fin_loop e sc 128 h" by (simp add: h' check_fin_task_def)
  ultimately show ?thesis using collect_all [OF e o n sc h(4,5) col _ _ h(3,6)] cat by simp
qed


text \<open>Three characters in parts of two, the second of which arrives first.\<close>

definition abc_part :: "int \<Rightarrow> t_task_sub" where
  "abc_part i = example_sub\<lparr>sub_idx := i, sub_count := 2, sub_start := 2 * i - 2, sub_end := (if i = 2 then 2 else 2 * i - 1)\<rparr>"

definition abc_sender :: "(vfs_cs_peer, node_glob) world" where
  "abc_sender = fs_upd (\<lambda>fs. fs\<lparr>files := [filename example_base \<mapsto> ''abc'']\<rparr>) fresh_world"

definition abc_kernel :: "t_task_sub \<Rightarrow> kernel" where
  "abc_kernel u = example_kernel\<lparr>k_send := (\<lambda>_. replicate (length (uc_client_create_header example_base u) + 3) (Sent 1)),
     k_file := (\<lambda>_. ''abc'')\<rparr>"

definition shell_touch :: "string \<Rightarrow> fsys \<Rightarrow> fsys" where
  "shell_touch cmd fs = (if is_there fs (drop 6 cmd) then fs else fs\<lparr>files := (files fs)(drop 6 cmd \<mapsto> [])\<rparr>)"

definition abc_stream :: "t_task_sub \<Rightarrow> string" where
  "abc_stream u = wire (fst (send_rounds (length (k_send (abc_kernel u) 8)) 8
     (snd (inotify_new_task example_env example_base u abc_sender), abc_kernel u))) 8"

definition abc_arrivals :: "arrival list" where
  "abc_arrivals = [(5, abc_part 2, map (\<lambda>c. [c]) (abc_stream (abc_part 2))), (6, abc_part 1, map (\<lambda>c. [c]) (abc_stream (abc_part 1)))]"

definition abc_collector :: http_world where
  "abc_collector = (fresh_world :: http_world)\<lparr>glob := (glob (fresh_world :: http_world))
     \<lparr>g_tq := g_tq (glob (run_parts example_env abc_arrivals fresh_world)),
      g_fs := g_fs (glob (run_parts example_env abc_arrivals fresh_world))\<rparr>\<rparr>"

lemma abc_sends:
  assumes "length (slice (sub_start u) (sub_end u) ''abc'') \<le> 3"
  shows "sends example_env example_base u ''abc'' (abc_stream u)"
proof -
  have w: "files (g_fs (glob abc_sender)) (filename example_base) = Some ''abc''"
    "can_open (n_io example_env) (filename example_base)" "fd_results (glob abc_sender) = 7 # 8 # [9, 10]" "(0 :: int) \<le> 7"
    "(0 :: int) \<le> 8" "conn_malloc example_env" "0 < buff_size example_env" "buff_ok (send_buff (conns abc_sender 8))"
    "wire abc_sender 8 = []" "k_file (abc_kernel u) 7 = ''abc''"
    using buff_ok_init(1)
    by (simp_all add: abc_sender_def abc_kernel_def fresh_world_def fs_upd_def example_env_def good_io_def)
  have k: "working (k_send (abc_kernel u) 8)" by (simp add: working_def abc_kernel_def)
  have "sent_count (replicate m (Sent 1)) = m" for m by (induction m) simp_all
  then have n: "length (uc_client_create_header example_base u @ slice (sub_start u) (sub_end u) ''abc'')
      \<le> sent_count (k_send (abc_kernel u) 8)"
    using assms by (simp add: abc_kernel_def)
  show ?thesis
    unfolding sends_def
    by (rule exI [of _ abc_sender], rule exI [of _ "abc_kernel u"], rule exI [of _ 7], rule exI [of _ 8], rule exI [of _ "[9, 10]"])
      (intro conjI w k n abc_stream_def)
qed

lemma abc_slices:
  "slice (sub_start (abc_part 1)) (sub_end (abc_part 1)) ''abc'' = ''ab''"
  "slice (sub_start (abc_part 2)) (sub_end (abc_part 2)) ''abc'' = ''c''"
  by (simp_all add: abc_part_def slice_def)

lemma abc_arrivals_ok:
  "\<forall>(fd, u, ds)\<in>set abc_arrivals. sub_count u = 2 \<and>
     part_range 2 (int (length ''abc'')) 2 (sub_idx u) = (sub_start u, sub_end u) \<and>
     sendable example_base u (slice (sub_start u) (sub_end u) ''abc'') \<and> idle fd fresh_world \<and> (\<forall>d\<in>set ds. d \<noteq> []) \<and>
     sends example_env example_base u ''abc'' (concat ds)"
proof -
  have "header_fits example_base (abc_part i)" if "i \<in> {1, 2}" for i
    using that by (auto simp: header_fits_def example_base_def abc_part_def example_sub_def zero_base_def zero_sub_def)
  then have "sendable example_base (abc_part i) (slice (sub_start (abc_part i)) (sub_end (abc_part i)) ''abc'')" if "i \<in> {1, 2}" for i
    using that abc_slices by (auto simp: sendable_def abc_part_def example_base_def example_sub_def zero_base_def zero_sub_def)
  moreover have "sends example_env example_base (abc_part i) ''abc'' (abc_stream (abc_part i))" if "i \<in> {1, 2}" for i
    using that abc_slices by (intro abc_sends) auto
  moreover have "part_range 2 (int (length ''abc'')) 2 (sub_idx (abc_part i)) = (sub_start (abc_part i), sub_end (abc_part i))"
    if "i \<in> {1, 2}" for i
    using that by (auto simp: part_range_def abc_part_def)
  moreover have "idle fd fresh_world" for fd by (simp add: idle_def fresh_world_facts)
  ultimately show ?thesis by (simp add: abc_arrivals_def) (simp add: abc_part_def)
qed


end
