(* ===== verification/Resend.thy ===== *)
theory Resend
  imports UcMissing Replicate
begin

text \<open>
  A part that got lost: \<^verbatim>\<open>check_lack_task\<close> of the storage node finds the parts without a file (\<open>SmHttp\<close>), \<^verbatim>\<open>get_task_unok\<close>
  writes them into a reply (\<open>SmClient\<close>), and the upload node that gets it puts the tasks of these parts on its queue again
  (\<open>UcHttp\<close>).
\<close>

section \<open>The storage node\<close>

lemma queued_hashed:
  assumes "queued st ts s s'" "pool_clean s" "tq_inv s"
  shows "hashed s' P \<longleftrightarrow> hashed s P"
proof -
  have "node s' x = node s x" if "x \<in> set (alltask s i)" for x i
  proof -
    have "x < top s" "x \<notin> set (vfstask s TASK_HOME)"
      using that assms(2,3) by (auto simp: pool_clean_def tq_inv_def alltask_ok_def)
    then show ?thesis using assms(1) unfolding queued_def by blast
  qed
  moreover have "alltask s' = alltask s" using assms(1) by (simp add: queued_def)
  ultimately show ?thesis unfolding hashed_def by metis
qed

definition lost_part :: "t_task_base \<Rightarrow> int \<Rightarrow> int \<Rightarrow> t_vfs_taskinfo" where
  "lost_part b n i = \<lparr>base = b, sub = zero_sub\<lparr>sub_idx := i, sub_count := n\<rparr>\<rparr>"

lemma lack_entry_put:
  assumes e: "env_good e" and inv: "tq_inv s" and clean: "pool_clean s" and miss: "\<not> is_there fs (part_path lf i n)"
    and new: "\<not> hashed s (same_task (filename b) i n)" and x: "x < top s" "x \<notin> set (vfstask s TASK_HOME)" "base (task (node s x)) = b"
  shows "lack_entry e fs lf x n i s = snd (put_new e TASK_WAIT (lost_part b n i) s)"
proof -
  have lk: "\<not> lock_failed (q_lock e TASK_HOME)" "malloc_ok e" "\<not> lock_failed (a_lock e)" using e by (auto simp: env_good_def)
  obtain y s1 where get: "vfs_get_task (q_lock e TASK_HOME) True TASK_HOME s = (GET_TASK_OK, Some y, s1)"
    and y: "y \<in> set (vfstask s TASK_HOME) \<or> y = top s" and n1: "\<forall>z. z \<noteq> y \<longrightarrow> node s1 z = node s z" and a1: "alltask s1 = alltask s"
    using get_home_some [OF lk(1) inv] by blast
  have xy: "x \<noteq> y" using x(1,2) y by auto
  have ya: "y \<notin> set (alltask s i)" for i using y clean inv by (auto simp: pool_clean_def tq_inv_def alltask_ok_def)
  let ?s2 = "set_node y (\<lambda>m. m\<lparr>task := lost_part b n i\<rparr>) s1"
  have "\<not> same_task (filename b) i n (node ?s2 z)" if "z \<in> set (alltask s j)" for z j
  proof -
    have "z \<noteq> y" using ya that by auto
    then have "node ?s2 z = node s z" using n1 by (simp add: tq_ops)
    then show ?thesis using new that by (auto simp: hashed_def)
  qed
  then have "find (\<lambda>z. same_task (filename b) i n (node ?s2 z)) (alltask ?s2 (task_bucket (filename b) i n)) = None"
    by (simp add: find_None_iff tq_ops a1)
  then have "snd (set_task_from_alltask (a_lock e) (filename b) i n 1 ?s2) = ?s2"
    using lk(3) by (simp add: set_task_from_alltask_def)
  then show ?thesis
    using miss get lk(2) n1 xy x(3) by (simp add: lack_entry_def put_new_def lost_part_def Let_def)
qed

lemma lack_entries:
  assumes e: "env_good e"
  shows "tq_inv s \<Longrightarrow> pool_clean s \<Longrightarrow> x < top s \<Longrightarrow> x \<notin> set (vfstask s TASK_HOME) \<Longrightarrow> base (task (node s x)) = b \<Longrightarrow>
    \<forall>i\<in>set is. \<not> is_there fs (part_path lf i n) \<longrightarrow> \<not> hashed s (same_task (filename b) i n) \<Longrightarrow>
    queued TASK_WAIT (map (lost_part b n) (filter (\<lambda>i. \<not> is_there fs (part_path lf i n)) is)) s (fold (lack_entry e fs lf x n) is s)"
proof (induction "is" arbitrary: s)
  case Nil
  then show ?case by (simp add: queued_refl)
next
  case (Cons i "is")
  show ?case
  proof (cases "is_there fs (part_path lf i n)")
    case True
    then have "lack_entry e fs lf x n i s = s" by (simp add: lack_entry_def)
    then show ?thesis using Cons True by simp
  next
    case False
    let ?s = "snd (put_new e TASK_WAIT (lost_part b n i) s)"
    have st: "\<not> bad_status TASK_WAIT" "TASK_WAIT \<noteq> TASK_HOME" by (simp_all add: bad_status_def)
    have le: "lack_entry e fs lf x n i s = ?s" using Cons.prems False by (intro lack_entry_put [OF e]) simp_all
    note q = put_new_queued [OF Cons.prems(1,2) e st, of "lost_part b n i"]
    have q1: "queued TASK_WAIT [lost_part b n i] s ?s" and c1: "pool_clean ?s" using q by simp_all
    have i1: "tq_inv ?s" "x < top ?s" "node ?s x = node s x" "x \<notin> set (vfstask ?s TASK_HOME)"
      using q1 Cons.prems(3,4) unfolding queued_def by (blast, simp, blast, blast)
    have h1: "\<forall>i\<in>set is. \<not> is_there fs (part_path lf i n) \<longrightarrow> \<not> hashed ?s (same_task (filename b) i n)"
      using Cons.prems(6) queued_hashed [OF q1 Cons.prems(2,1)] by simp
    have "queued TASK_WAIT (map (lost_part b n) (filter (\<lambda>i. \<not> is_there fs (part_path lf i n)) is)) ?s (fold (lack_entry e fs lf x n) is ?s)"
      using Cons.IH [OF i1(1) c1 i1(2,4) _ h1] i1(3) Cons.prems(5) by simp
    from queued_trans [OF q1 this Cons.prems(1) st(2)] show ?thesis using False le by simp
  qed
qed

text \<open>The reply takes the tasks from the queue, and holds one entry for each.\<close>

definition lost_list :: "t_task_base \<Rightarrow> int \<Rightarrow> int list \<Rightarrow> string" where
  "lost_list b n is = concat (map (\<lambda>i. part_entry (filename b) i n) is)"

lemma unok_entries:
  assumes e: "env_good e"
  shows "tq_inv s \<Longrightarrow> vfstask s TASK_WAIT = xs \<Longrightarrow> map (\<lambda>x. task (node s x)) xs = map (lost_part b n) is \<Longrightarrow> length is \<le> k \<Longrightarrow>
    length buf + length (lost_list b n is) < BUFLEN \<Longrightarrow> \<forall>i\<in>set is. length (part_entry (filename b) i n) < 1024 \<Longrightarrow>
    fst (unok_loop e k (hostname b) buf s) = buf @ lost_list b n is"
proof (induction "is" arbitrary: k xs s buf)
  case Nil
  then show ?case
    by (cases k) (auto simp: lost_list_def vfs_get_task_def bad_status_def split: if_splits)
next
  case (Cons i "is")
  obtain x ys where xs: "xs = x # ys" using Cons.prems(3) by (cases xs) auto
  obtain k' where k: "k = Suc k'" using Cons.prems(4) by (cases k) auto
  have lk: "\<not> lock_failed (q_lock e TASK_WAIT)" "\<not> lock_failed (q_lock e TASK_HOME)" using e by (auto simp: env_good_def)
  obtain s1 where get: "vfs_get_task (q_lock e TASK_WAIT) (malloc_ok e) TASK_WAIT s = (GET_TASK_OK, Some x, s1)"
    and s1: "vfstask s1 = (\<lambda>j. removeAll x (vfstask s j))" "\<forall>y. task (node s1 y) = task (node s y)"
    using Cons.prems(2) lk(1) by (simp add: xs vfs_get_task_def bad_status_def tq_ops)
  have inv1: "tq_inv s1" using tq_inv_get [OF Cons.prems(1)] get by (metis snd_conv)
  have d1: "detached s1 x" using get_detached [OF Cons.prems(1) get] by simp
  let ?s2 = "snd (vfs_set_task (q_lock e TASK_HOME) x TASK_HOME s1)"
  have "distinct xs" using queues_okD(1) [OF tq_invD(1) [OF Cons.prems(1)], of TASK_WAIT] Cons.prems(2) by simp
  then have q2: "vfstask ?s2 TASK_WAIT = ys"
    using lk(2) s1(1) Cons.prems(2) by (simp add: xs vfs_set_task_def tq_ops bad_status_def)
  have t2: "task (node ?s2 y) = task (node s y)" for y
    using s1(2) lk(2) by (simp add: vfs_set_task_def tq_ops bad_status_def)
  have x: "task (node s1 x) = lost_part b n i" "map (\<lambda>y. task (node ?s2 y)) ys = map (lost_part b n) is"
    using Cons.prems(3) s1(2) by (simp_all add: xs t2)
  have l: "length (part_entry (filename b) i n) + length buf < BUFLEN" "length (part_entry (filename b) i n) < 1024"
    "length (buf @ part_entry (filename b) i n) + length (lost_list b n is) < BUFLEN"
    using Cons.prems(5,6) by (simp_all add: lost_list_def)
  have inv2: "tq_inv ?s2" by (rule tq_inv_set [OF inv1 d1])
  have "fst (unok_loop e k' (hostname b) (buf @ part_entry (filename b) i n) ?s2) = (buf @ part_entry (filename b) i n) @ lost_list b n is"
    using Cons.prems(4,6) k by (intro Cons.IH [OF inv2 q2 x(2) _ l(3)]) simp_all
  then show ?case using get x(1) l(1,2)
    by (simp add: k Let_def lost_part_def snprint_id lost_list_def)
qed

lemma lost_reply:
  assumes e: "env_good e" and o: "outfile = get_localdir (datadir e) (hostname b) (filename b)" "length outfile < 230"
    and sc: "touches sc (marker outfile)" "\<not> is_there (g_fs (glob w)) (marker outfile)"
    and t: "base (task (node (g_tq (glob w)) x)) = b" "sub_count (sub (task (node (g_tq (glob w)) x))) = n" "n < 2 ^ 31"
    and s: "tq_inv (g_tq (glob w))" "pool_clean (g_tq (glob w))" "x < top (g_tq (glob w))" "x \<notin> set (vfstask (g_tq (glob w)) TASK_HOME)"
      "vfstask (g_tq (glob w)) TASK_WAIT = []" "vfstask (g_tq (glob w)) TASK_WAIT_TMP = []"
    and lost: "lost = filter (\<lambda>i. \<not> is_there (g_fs (glob w)) (part_path outfile i n)) [1..n]"
      "\<forall>i\<in>set lost. \<not> hashed (g_tq (glob w)) (same_task (filename b) i n)" "length lost < cs_max_task_run_once (cfg e)"
      "length (lost_list b n lost) < 255"
  shows "fst (get_task_unok e (hostname b) (g_tq (glob (check_lack_task e sc x w)))) = sm_client_create_header (lost_list b n lost)"
proof -
  let ?s = "g_tq (glob w)" and ?fs = "g_fs (glob w)"
  let ?fs' = "?fs\<lparr>files := (files ?fs)(marker outfile \<mapsto> [])\<rparr>"
  let ?s1 = "fold (lack_entry e ?fs' outfile x n) [1..n] ?s"
  have m: "snprint 256 (outfile @ ''_checkfile_nodup'') = marker outfile"
    "snprint 256 (''touch '' @ marker outfile) = ''touch '' @ marker outfile"
    unfolding marker_def by (rule snprint_id, use o(2) in simp)+
  have "sc (''touch '' @ marker outfile) ?fs = ?fs'" using sc by (simp add: touches_def)
  then have w1: "g_tq (glob (check_lack_task e sc x w)) = ?s1"
    using sc(2) by (simp add: check_lack_task_def Let_def t m m(2) [simplified] o(1) [symmetric] tq_upd_def fs_upd_def)
  have there: "is_there ?fs' (part_path outfile i n) = is_there ?fs (part_path outfile i n)" if "i \<in> {1..n}" for i
    using marker_not_part [OF o(2) that t(3)] by (simp add: is_there_def)
  then have f: "filter (\<lambda>i. \<not> is_there ?fs' (part_path outfile i n)) [1..n] = lost" unfolding lost(1) by (intro filter_cong) simp_all
  have "\<forall>i\<in>set [1..n]. \<not> is_there ?fs' (part_path outfile i n) \<longrightarrow> \<not> hashed ?s (same_task (filename b) i n)"
    using lost(2) unfolding f [symmetric] by simp
  from lack_entries [OF e s(1-4) t(1) this] have q: "queued TASK_WAIT (map (lost_part b n) lost) ?s ?s1" unfolding f .
  then obtain xs where xs: "vfstask ?s1 TASK_WAIT = xs" "map (\<lambda>x. task (node ?s1 x)) xs = map (lost_part b n) lost"
    using s(5) unfolding queued_def by auto
  have inv: "tq_inv ?s1" "vfstask ?s1 TASK_WAIT_TMP = []" using q s(6) by (simp_all add: queued_def)
  have "length (part_entry (filename b) i n) < 1024" if "i \<in> set lost" for i
  proof -
    have "length (part_entry (filename b) i n) \<le> length (lost_list b n lost)"
      using that unfolding lost_list_def by (induction lost) auto
    then show ?thesis using lost(4) by simp
  qed
  then have "fst (unok_loop (env.truncate e) (cs_max_task_run_once (cfg e) - 1) (hostname b) [] ?s1) = [] @ lost_list b n lost"
    using lost(3,4) e by (intro unok_entries [OF _ inv(1) xs]) (auto simp: env_good_def env.defs BUFLEN_def)
  then show ?thesis using inv(2) by (simp add: w1 get_task_unok_def wait_tmp_to_wait_def split_beta)
qed

section \<open>The upload node\<close>

text \<open>What a task says about the part it stands for.\<close>

definition part_of :: "t_vfs_taskinfo \<Rightarrow> string \<times> int \<times> int \<times> int \<times> int" where
  "part_of t = (filename (base t), sub_idx (sub t), sub_count (sub t), sub_start (sub t), sub_end (sub t))"

lemma lack_tasks:
  assumes e: "env_good e" and f: "length fname < 256" "0 < m" "m = splic_min_size (cfg e)" "int (length c) div m < 2 ^ 31 - 1"
      "n = splic_count m (int (length c))"
  shows "tq_inv (g_tq (glob w)) \<Longrightarrow> pool_clean (g_tq (glob w)) \<Longrightarrow> files (g_fs (glob w)) fname = Some c \<Longrightarrow> set is \<subseteq> {1..n} \<Longrightarrow>
    \<exists>ts s. fold (\<lambda>i. process_lack e fname i n) is w = tq_upd (\<lambda>_. s) w \<and> queued TASK_WAIT_SYNC ts (g_tq (glob w)) s \<and>
      map part_of ts = map (\<lambda>i. case part_range m (int (length c)) n i of (a, z) \<Rightarrow> (fname, i, n, a, z)) is"
proof (induction "is" arbitrary: w)
  case Nil
  then show ?case by (intro exI [of _ "[]"] exI [of _ "g_tq (glob w)"]) (simp add: queued_refl tq_upd_def)
next
  case (Cons i "is")
  obtain a z where r: "part_range m (int (length c)) n i = (a, z)" by fastforce
  have i: "1 \<le> i" "i \<le> n" using Cons.prems(4) by auto
  from lack_task_part [OF e Cons.prems(1-3) f(1), unfolded f(3) [symmetric], OF f(2,4,5) i] obtain t s1 where
    1: "process_lack e fname i n w = tq_upd (\<lambda>_. s1) w" "queued TASK_WAIT_SYNC [t] (g_tq (glob w)) s1" "pool_clean s1"
      "part_of t = (fname, i, n, a, z)" by (auto simp: part_of_def r)
  let ?w = "tq_upd (\<lambda>_. s1) w"
  have w: "tq_inv (g_tq (glob ?w))" "pool_clean (g_tq (glob ?w))" "files (g_fs (glob ?w)) fname = Some c" "g_tq (glob ?w) = s1"
    using 1(2,3) Cons.prems(3) by (simp_all add: tq_upd_def queued_def)
  from Cons.IH [OF w(1-3)] Cons.prems(4) obtain ts s2 where
    2: "fold (\<lambda>i. process_lack e fname i n) is ?w = tq_upd (\<lambda>_. s2) ?w" "queued TASK_WAIT_SYNC ts s1 s2"
      "map part_of ts = map (\<lambda>i. case part_range m (int (length c)) n i of (a, z) \<Rightarrow> (fname, i, n, a, z)) is" by (auto simp: w(4))
  have "queued TASK_WAIT_SYNC ([t] @ ts) (g_tq (glob w)) s2" by (rule queued_trans [OF 1(2) 2(2) Cons.prems(1)]) simp
  then show ?case using 1 2 by (intro exI [of _ "t # ts"] exI [of _ s2]) (simp add: r tq_upd_def)
qed

lemma uch_recv_list:
  assumes w: "recv_ok fd w" "received fd w = sm_client_create_header l" "user (conns w fd) = Some p"
    and l: "CR \<notin> set l" "NUL \<notin> set l" "length l < 255"
  shows "\<exists>w'. glob w' = glob w \<and> g_tq (glob (snd (uch_svc_recv e fd w))) = g_tq (glob (uch_do_req e l w'))"
proof -
  let ?d = "sm_client_create_header l"
  have d: "get_client_data fd w = (0, ?d)"
    using get_client_data_received [OF w(1)] w(2) by (simp add: sm_client_create_header_def)
  have nul: "cstr ?d = ?d" using l(2) by (intro cstr_id) (auto simp: sm_client_create_header_def)
  have drop: "drop 5 ?d = ''question/19973178'' @ '' HTTP/'' @ drop 28 ?d" by (simp add: sm_client_create_header_def)
  have q: "strstr (drop 5 ?d) '' HTTP/'' = Some 17"
    unfolding drop using strstr_found [of SPACE "''question/19973178''" "''HTTP/''" "drop 28 ?d"] by simp
  have "\<exists>a b. drop 5 ?d = a @ (CRLF @ CRLF) @ b"
    by (intro exI [of _ "drop 5 (''GET /question/19973178 HTTP/1.0'' @ CRLF @ ''filename: '' @ l @ CRLF @ ''type: 251'')"] exI [of _ "[]"])
      (simp add: sm_client_create_header_def)
  then obtain k where k: "strstr (drop 5 ?d) (CRLF @ CRLF) = Some k" using strstr_None by (metis not_None_eq)
  obtain buf where parse: "uc_http_parse_header (hp_header p) ?d = (0, (hp_header p)\<lparr>h_filename := l, h_type := 251\<rparr>, buf)"
    using missing_list_cut [OF l(1), of "hp_header p"] l(3) by auto
  let ?w = "set_user fd (Some (p\<lparr>hp_header := (hp_header p)\<lparr>h_filename := l, h_type := 251\<rparr>\<rparr>)) (put_back fd (buf @ drop (length buf) ?d) w)"
  have len: "\<not> length ?d < 14" "starts_with ''GET /'' ?d" by (simp_all add: sm_client_create_header_def)
  define w1 where "w1 = ?w"
  define w2 where "w2 = uch_do_req e l w1"
  let ?h = "(hp_header p)\<lparr>h_type := 251, h_filename := takeWhile (\<lambda>c. c \<noteq> CHR '':'') l\<rparr>"
  have eq: "uch_check_request e fd D (length D) w = (int k + 9, set_user fd (map_option (\<lambda>p. p\<lparr>hp_header := ?h\<rparr>) (user (conns w2 fd))) w2)"
    if D: "D = ?d" for D
    unfolding uch_check_request_def http_check_request_def
    using len [folded D] nul [folded D] q [folded D] k [folded D] parse [folded D] w(3) w1_def [folded D, symmetric]
    by (simp add: w2_def Let_def)
  have "snd (uch_svc_recv e fd w) = consume_client_data fd (k + 9) (set_user fd (map_option (\<lambda>p. p\<lparr>hp_header := ?h\<rparr>) (user (conns w2 fd))) w2)"
    unfolding uch_svc_recv_def d prod.case eq [OF refl] by (simp add: nat_add_distrib)
  then have "g_tq (glob (snd (uch_svc_recv e fd w))) = g_tq (glob (uch_do_req e l ?w))"
    by (simp add: consume_client_data_def upd_conn_def set_user_def w2_def w1_def)
  moreover have "glob ?w = glob w" by (simp add: set_user_def put_back_def upd_conn_def)
  ultimately show ?thesis by blast
qed

lemma part_entry_chars: "c \<in> set (part_entry a i n) \<Longrightarrow> c \<in> set a \<or> c = SPACE \<or> c = CHR '':'' \<or> isdigit c \<or> c = CHR ''-''"
  using dec_int_chars by (auto simp: part_entry_def)

lemma lost_list_plain:
  "CR \<notin> set (filename b) \<Longrightarrow> NUL \<notin> set (filename b) \<Longrightarrow> CR \<notin> set (lost_list b n is) \<and> NUL \<notin> set (lost_list b n is)"
  unfolding lost_list_def using part_entry_chars [of _ "filename b" _ n] by (fastforce simp: isdigit_def)

section \<open>The dialogue\<close>

lemma resend_parts:
  assumes e: "env_good e" and o: "outfile = get_localdir (datadir e) (hostname b) (filename b)" "length outfile < 230"
    and sc: "touches sc (marker outfile)" "\<not> is_there (g_fs (glob w)) (marker outfile)"
    and t: "base (task (node (g_tq (glob w)) x)) = b" "sub_count (sub (task (node (g_tq (glob w)) x))) = n"
    and s: "tq_inv (g_tq (glob w))" "pool_clean (g_tq (glob w))" "x < top (g_tq (glob w))" "x \<notin> set (vfstask (g_tq (glob w)) TASK_HOME)"
      "vfstask (g_tq (glob w)) TASK_WAIT = []" "vfstask (g_tq (glob w)) TASK_WAIT_TMP = []"
    and lost: "lost = filter (\<lambda>i. \<not> is_there (g_fs (glob w)) (part_path outfile i n)) [1..n]"
      "\<forall>i\<in>set lost. \<not> hashed (g_tq (glob w)) (same_task (filename b) i n)" "length lost < cs_max_task_run_once (cfg e)"
      "length (lost_list b n lost) < 255"
    and ue: "env_good ue" "0 < m" "m = splic_min_size (cfg ue)" "int (length f) div m < 2 ^ 31 - 1" "n = splic_count m (int (length f))"
    and name: "plain_name (filename b)" "CR \<notin> set (filename b)" "NUL \<notin> set (filename b)" "length (filename b) < 256"
    and u: "tq_inv (g_tq (glob u))" "pool_clean (g_tq (glob u))" "files (g_fs (glob u)) (filename b) = Some f"
      "recv_ok fd u" "user (conns u fd) \<noteq> None"
      "received fd u = fst (get_task_unok e (hostname b) (g_tq (glob (check_lack_task e sc x w))))"
  shows "\<exists>ts. queued TASK_WAIT_SYNC ts (g_tq (glob u)) (g_tq (glob (snd (uch_svc_recv ue fd u)))) \<and>
    map part_of ts = map (\<lambda>i. case part_range m (int (length f)) n i of (a, z) \<Rightarrow> (filename b, i, n, a, z)) lost"
proof -
  have lt: "int (length f) div m < 2 ^ 31" using ue(4) by simp
  have "0 \<le> int (length f) div m" using ue(2) by (simp add: pos_imp_zdiv_nonneg_iff)
  then have n: "n < 2 ^ 31" "0 \<le> n" using ue(4) by (simp_all add: ue(5) splic_count_def to_int32_id)
  note reply = lost_reply [OF e o sc t n(1) s lost]
  obtain p where p: "user (conns u fd) = Some p" using u(5) by blast
  note plain = lost_list_plain [OF name(2,3), of n lost]
  from uch_recv_list [OF u(4) u(6) [unfolded reply] p plain [THEN conjunct1] plain [THEN conjunct2] lost(4), of ue] obtain u' where
    u': "glob u' = glob u" "g_tq (glob (snd (uch_svc_recv ue fd u))) = g_tq (glob (uch_do_req ue (lost_list b n lost) u'))" by blast
  have sub: "set lost \<subseteq> {1..n}" by (auto simp: lost(1))
  let ?ks = "map (\<lambda>i. (filename b, i, n)) lost"
  have "\<forall>k\<in>set ?ks. small_part_key k" using sub n name(1) by (auto simp: small_part_key_def)
  from uch_do_req_list [OF this, of ue u'] have
    "uch_do_req ue (lost_list b n lost) u' = fold (\<lambda>i. process_lack ue (filename b) i n) lost u'"
    by (simp add: lost_list_def fold_map o_def)
  moreover from lack_tasks [OF ue(1) name(4) ue(2-5), of u' lost] u(1-3) sub obtain ts s' where
    "fold (\<lambda>i. process_lack ue (filename b) i n) lost u' = tq_upd (\<lambda>_. s') u'" "queued TASK_WAIT_SYNC ts (g_tq (glob u)) s'"
    "map part_of ts = map (\<lambda>i. case part_range m (int (length f)) n i of (a, z) \<Rightarrow> (filename b, i, n, a, z)) lost"
    unfolding u'(1) by auto
  ultimately show ?thesis by (intro exI [of _ ts]) (simp add: u'(2) tq_upd_def)
qed

text \<open>C2: Lost parts are sent again.  At the storage node part of a file has arrived, of whose other parts some have no file;
  at the upload node the file is still there.  \<^verbatim>\<open>check_lack_task\<close> at the storage node and its reply to the upload node's question,
  received by the upload node, leave on the upload node's queue exactly one task for each part that is lost, in order, with
  the range of the file that the part had; nothing else is sent again.  The list must be shorter than 255 characters and
  than \<^verbatim>\<open>cs_max_task_run_once\<close> entries, and the name must be free of the separators of the list.\<close>

theorem lost_parts_are_resent:
  assumes e: "env_good e" and o: "outfile = get_localdir (datadir e) (hostname b) (filename b)" "length outfile < 230"
    and sc: "touches sc (marker outfile)" "\<not> is_there (g_fs (glob w)) (marker outfile)"
    and t: "base (task (node (g_tq (glob w)) x)) = b" "sub_count (sub (task (node (g_tq (glob w)) x))) = n"
    and s: "tq_inv (g_tq (glob w))" "pool_clean (g_tq (glob w))" "x < top (g_tq (glob w))" "x \<notin> set (vfstask (g_tq (glob w)) TASK_HOME)"
      "vfstask (g_tq (glob w)) TASK_WAIT = []" "vfstask (g_tq (glob w)) TASK_WAIT_TMP = []"
    and lost: "lost = filter (\<lambda>i. \<not> is_there (g_fs (glob w)) (part_path outfile i n)) [1..n]"
      "\<forall>i\<in>set lost. \<not> hashed (g_tq (glob w)) (same_task (filename b) i n)" "length lost < cs_max_task_run_once (cfg e)"
      "length (lost_list b n lost) < 255"
    and ue: "env_good ue" "0 < m" "m = splic_min_size (cfg ue)" "int (length f) div m < 2 ^ 31 - 1" "n = splic_count m (int (length f))"
    and name: "plain_name (filename b)" "CR \<notin> set (filename b)" "NUL \<notin> set (filename b)" "length (filename b) < 256"
    and u: "tq_inv (g_tq (glob u))" "pool_clean (g_tq (glob u))" "files (g_fs (glob u)) (filename b) = Some f"
      "recv_ok fd u" "user (conns u fd) \<noteq> None"
      "received fd u = fst (get_task_unok e (hostname b) (g_tq (glob (check_lack_task e sc x w))))"
  shows "\<exists>ts. queued TASK_WAIT_SYNC ts (g_tq (glob u)) (g_tq (glob (snd (uch_svc_recv ue fd u)))) \<and>
    map part_of ts = map (\<lambda>i. case part_range m (int (length f)) n i of (a, z) \<Rightarrow> (filename b, i, n, a, z)) lost"
  by (rule resend_parts [OF assms])

text \<open>A file of three characters in two parts, the second of which is lost.\<close>

definition half_tasks :: task_state where
  "half_tasks = snd (put_new example_env TASK_FIN (lost_part example_base 2 1) (init_queues task_globals))"

definition half_world :: http_world where
  "half_world = tq_upd (\<lambda>_. half_tasks) (fs_upd (\<lambda>_. \<lparr>files = [''/diska/uc1/movie.flv_1_2'' \<mapsto> ''ab''], dirs = {}\<rparr>) fresh_world)"

definition half_task :: addr where
  "half_task = hd (vfstask half_tasks TASK_FIN)"

definition half_reply :: string where
  "half_reply = fst (get_task_unok example_env ''uc1'' (g_tq (glob (check_lack_task example_env shell_touch half_task half_world))))"

definition small_splits :: node_env where
  "small_splits = example_env\<lparr>cfg := example_config\<lparr>splic_min_size := 2\<rparr>\<rparr>"

definition half_asker :: http_world where
  "half_asker = upd_conn 8 (\<lambda>c. c\<lparr>recv_buff := mybuff_setdata 64 mybuff_init half_reply,
       user := Some \<lparr>hp_header = zero_header, hp_fd = 8, hp_time = 0\<rparr>\<rparr>)
     (fs_upd (\<lambda>fs. fs\<lparr>files := [''/d/movie.flv'' \<mapsto> ''abc'']\<rparr>) fresh_world)"

theorem lost_parts_are_resent_witness:
  "\<exists>ts. queued TASK_WAIT_SYNC ts (init_queues task_globals) (g_tq (glob (snd (uch_svc_recv small_splits 8 half_asker)))) \<and>
     map part_of ts = [(''/d/movie.flv'', 2, 2, 2, 2)]"
proof -
  have e: "env_good example_env" by (simp add: env_good_def example_env_def)
  have s0: "tq_inv (init_queues task_globals)" "pool_clean (init_queues task_globals)"
    using tq_inv_init [of task_globals] by (simp_all add: pool_clean_def init_queues_def)
  have q: "queued TASK_FIN [lost_part example_base 2 1] (init_queues task_globals) half_tasks" "pool_clean half_tasks"
    using put_new_queued [OF s0 e, of TASK_FIN "lost_part example_base 2 1"] by (simp_all add: half_tasks_def bad_status_def)
  have v: "vfstask half_tasks TASK_FIN = [half_task]" "task (node half_tasks half_task) = lost_part example_base 2 1"
    using q(1) by (auto simp: queued_def half_task_def init_queues_def)
  have inv: "tq_inv half_tasks" "vfstask half_tasks TASK_WAIT = []" "vfstask half_tasks TASK_WAIT_TMP = []" "alltask half_tasks = (\<lambda>_. [])"
    using q(1) by (simp_all add: queued_def init_queues_def)
  have x: "half_task < top half_tasks" "half_task \<notin> set (vfstask half_tasks TASK_HOME)"
  proof -
    have m: "half_task \<in> set (vfstask half_tasks TASK_FIN)" by (simp add: v(1))
    note ok = queues_okD(2,3) [OF tq_invD(1) [OF inv(1)], of half_task]
    show "half_task < top half_tasks" by (rule ok(2) [OF m])
    show "half_task \<notin> set (vfstask half_tasks TASK_HOME)" using ok(1) [OF m, of TASK_HOME] by auto
  qed
  have o: "''/diska/uc1/movie.flv'' = get_localdir (datadir example_env) (hostname example_base) (filename example_base)"
    by (simp add: example_env_def example_base_def get_localdir_def basename_def after_last_def)
  have g: "g_tq (glob half_world) = half_tasks" "g_fs (glob half_world) = \<lparr>files = [''/diska/uc1/movie.flv_1_2'' \<mapsto> ''ab''], dirs = {}\<rparr>"
    by (simp_all add: half_world_def tq_upd_def fs_upd_def)
  have lost: "[2] = filter (\<lambda>i. \<not> is_there (g_fs (glob half_world)) (part_path ''/diska/uc1/movie.flv'' i 2)) [1..2]"
    unfolding g(2) by code_simp
  have list: "length (lost_list example_base 2 [2]) < 255" by code_simp
  have touch: "touches shell_touch (marker ''/diska/uc1/movie.flv'')" by (simp add: touches_def shell_touch_def)
  have mark: "\<not> is_there (g_fs (glob half_world)) (marker ''/diska/uc1/movie.flv'')" unfolding g(2) by code_simp
  have b: "base (task (node (g_tq (glob half_world)) half_task)) = example_base" "sub_count (sub (task (node (g_tq (glob half_world)) half_task))) = 2"
    by (simp_all add: g(1) v(2) lost_part_def)
  have hash: "\<forall>i\<in>set [2]. \<not> hashed (g_tq (glob half_world)) (same_task (filename example_base) i 2)" by (simp add: g(1) hashed_def inv(4))
  have ue: "env_good small_splits" "(0 :: int) < 2" "2 = splic_min_size (cfg small_splits)" "int (length ''abc'') div 2 < 2 ^ 31 - 1"
    "2 = splic_count 2 (int (length ''abc''))"
    by (simp_all add: env_good_def small_splits_def example_env_def splic_count_def to_int32_id)
  have nm: "plain_name (filename example_base)" "CR \<notin> set (filename example_base)" "NUL \<notin> set (filename example_base)" "length (filename example_base) < 256"
    by code_simp+
  have buf: "buff_ok (mybuff_setdata 64 mybuff_init half_reply)" "pending (mybuff_setdata 64 mybuff_init half_reply) = half_reply"
    using setdata_spec [OF buff_ok_init(1), of 64 half_reply] buff_ok_init(2) by simp_all
  have u: "g_tq (glob half_asker) = init_queues task_globals" "files (g_fs (glob half_asker)) (filename example_base) = Some ''abc''"
    "recv_ok 8 half_asker" "user (conns half_asker 8) \<noteq> None" "received 8 half_asker = half_reply"
    using buf by (simp_all add: half_asker_def upd_conn_def fs_upd_def fresh_world_def recv_ok_def received_def example_base_def)
  have r: "received 8 half_asker = fst (get_task_unok example_env (hostname example_base)
      (g_tq (glob (check_lack_task example_env shell_touch half_task half_world))))"
    by (simp add: u(5) half_reply_def example_base_def)
  have run: "length [2 :: int] < cs_max_task_run_once (cfg example_env)" by (simp add: example_env_def example_config_def)
  have short: "length ''/diska/uc1/movie.flv'' < 230" by simp
  have "\<exists>ts. queued TASK_WAIT_SYNC ts (g_tq (glob half_asker)) (g_tq (glob (snd (uch_svc_recv small_splits 8 half_asker)))) \<and>
      map part_of ts = map (\<lambda>i. case part_range 2 (int (length ''abc'')) 2 i of (a, z) \<Rightarrow> (filename example_base, i, 2, a, z)) [2]"
    by (rule lost_parts_are_resent [OF e o short touch mark b _ _ _ _ _ _ lost hash run list ue nm _ _ u(2-4) r])
      (simp_all add: g(1) inv(1-3) q(2) x u(1) s0)
  then show ?thesis by (simp add: u(1) part_range_def example_base_def)
qed

end
