(* ===== verification/MyConfig.thy ===== *)
theory MyConfig
  imports TextUtils Hashes
begin

text \<open>
  The configuration table, \<^verbatim>\<open>src/lib/myconfig.c\<close>.  A \<^verbatim>\<open>struct myconfig\<close> is a numbered cell of \<open>mcells\<close>;
  \<^verbatim>\<open>myhash\<close> and \<^verbatim>\<open>prelist\<close> hold the numbers in list order.  A result \<open>None\<close> stands for a write
  outside a block or an access through a bad pointer.  Allocation succeeds; texts have no NUL inside.
\<close>

record mycell =
  mc_hash :: uint32
  mc_val :: string
  mc_intval :: int
  mc_key :: string

record prehash =
  ph_list :: "nat list"
  ph_pre :: string
  ph_used :: bool

record config =
  mcells :: "nat \<Rightarrow> mycell"
  next_cell :: nat
  myhash :: "nat \<Rightarrow> nat list"
  prelist :: "prehash list"
  inited :: bool
  reload_key :: "string list"
  reload_cb_list :: "nat list"

definition VAL_MAX_LEN :: nat where "VAL_MAX_LEN = 1024"
definition MAX_RELOAD_KEY_NUM :: nat where "MAX_RELOAD_KEY_NUM = 128"

definition SEP :: "char \<Rightarrow> bool" where
  "SEP c \<longleftrightarrow> c \<in> {SPACE, CHR ''.'', CHR ''-'', CHR ''_''}"

definition bucket :: "uint32 \<Rightarrow> nat" where
  "bucket h = unat (h AND 0xff)"

text \<open>The key under which a value is stored, and the one \<^verbatim>\<open>myconfig_delete_value\<close> looks for.\<close>

definition sep_key :: "string \<Rightarrow> string" where
  "sep_key s = map (\<lambda>c. if SEP c then CHR ''_'' else c) s"

definition put_key :: "string \<Rightarrow> string" where
  "put_key s = map (\<lambda>c. to_lower (if SEP c then CHR ''_'' else c)) s"

section \<open>The table\<close>

fun find_pre :: "string \<Rightarrow> prehash list \<Rightarrow> nat option" where
  "find_pre p [] = None"
| "find_pre p (ph # phs) =
     (if \<not> ph_used ph \<or> starts_with p (ph_pre ph) then Some 0 else map_option Suc (find_pre p phs))"

definition link_pre :: "nat \<Rightarrow> string \<Rightarrow> prehash \<Rightarrow> prehash" where
  "link_pre n p ph =
     \<lparr>ph_list = n # ph_list ph, ph_pre = (if ph_used ph then ph_pre ph else p), ph_used = True\<rparr>"

definition add_cell :: "string \<Rightarrow> string \<Rightarrow> config \<Rightarrow> config" where
  "add_cell key val st =
     (let n = next_cell st; h = r5hash key
      in st\<lparr>mcells := (mcells st)(n := \<lparr>mc_hash = h, mc_val = val, mc_intval = -1, mc_key = key\<rparr>),
            next_cell := n + 1, myhash := (myhash st)(bucket h := n # myhash st (bucket h))\<rparr>)"

definition myconfig_put_value :: "string \<Rightarrow> string \<Rightarrow> string \<Rightarrow> config \<Rightarrow> (int \<times> config) option" where
  "myconfig_put_value p key0 val st =
     (if length val \<ge> VAL_MAX_LEN then None
      else let st' = add_cell (put_key (p @ key0)) val st
        in case find_pre p (prelist st) of
             None \<Rightarrow> Some (0, st')
           | Some i \<Rightarrow>
               if length p \<ge> 20 then None
               else Some (1, st'\<lparr>prelist := (prelist st)[i := link_pre (next_cell st) p (prelist st ! i)]\<rparr>))"

definition is_key :: "config \<Rightarrow> string \<Rightarrow> nat \<Rightarrow> bool" where
  "is_key st key n \<longleftrightarrow> mc_hash (mcells st n) = r5hash key \<and> mc_key (mcells st n) = key"

definition key_list :: "config \<Rightarrow> string \<Rightarrow> nat list" where
  "key_list st key = myhash st (bucket (r5hash key))"

definition myconfig_delete_value :: "string \<Rightarrow> string \<Rightarrow> config \<Rightarrow> (int \<times> config) option" where
  "myconfig_delete_value p key0 st =
     (let str = sep_key (p @ key0); gone = filter (is_key st str) (key_list st str)
      in if \<exists>n\<in>set gone. \<forall>ph\<in>set (prelist st). n \<notin> set (ph_list ph) then None
         else Some (1, st\<lparr>myhash := (myhash st)(bucket (r5hash str) := filter (\<lambda>n. \<not> is_key st str n) (key_list st str)),
           prelist := map (\<lambda>ph. ph\<lparr>ph_list := filter (\<lambda>n. n \<notin> set gone) (ph_list ph)\<rparr>) (prelist st)\<rparr>))"

definition myconfig_get_value :: "string \<Rightarrow> config \<Rightarrow> string option" where
  "myconfig_get_value key st = map_option (\<lambda>n. mc_val (mcells st n)) (find (is_key st key) (key_list st key))"

fun nth_match :: "('a \<Rightarrow> bool) \<Rightarrow> int \<Rightarrow> 'a list \<Rightarrow> 'a option" where
  "nth_match P i [] = None"
| "nth_match P i (x # xs) = (if P x then if i = 0 then Some x else nth_match P (i - 1) xs else nth_match P i xs)"

definition myconfig_get_multivalue :: "string \<Rightarrow> int \<Rightarrow> config \<Rightarrow> string option" where
  "myconfig_get_multivalue key index st =
     map_option (\<lambda>n. mc_val (mcells st n)) (nth_match (is_key st key) index (rev (key_list st key)))"

definition strcasecmp :: "string \<Rightarrow> string \<Rightarrow> bool" where
  "strcasecmp s t \<longleftrightarrow> map to_lower s = map to_lower t"

text \<open>The number a value stands for, if any.\<close>

definition val_number :: "string \<Rightarrow> int option" where
  "val_number v =
     (if next_isdigit v \<or> (case v of c # s \<Rightarrow> c = CHR ''-'' \<and> next_isdigit s | [] \<Rightarrow> False) then Some (atoi v)
      else if strcasecmp v ''On'' then Some 1
      else if strcasecmp v ''Off'' then Some 0
      else if strcasecmp v ''Yes'' then Some 1
      else if strcasecmp v ''No'' then Some 0
      else if strcasecmp v ''True'' then Some 1
      else if strcasecmp v ''False'' then Some 0
      else if strcasecmp v ''enable'' then Some 1
      else if strcasecmp v ''disable'' then Some 0
      else if strcasecmp v ''enabled'' then Some 1
      else if strcasecmp v ''disabled'' then Some 0
      else None)"

definition myconfig_get_intval :: "string \<Rightarrow> int \<Rightarrow> config \<Rightarrow> int \<times> config" where
  "myconfig_get_intval key dflt st =
     (case find (is_key st key) (key_list st key) of
        None \<Rightarrow> (dflt, st)
      | Some n \<Rightarrow>
          if mc_intval (mcells st n) = -1
          then case val_number (mc_val (mcells st n)) of
                 None \<Rightarrow> (dflt, st)
               | Some i \<Rightarrow> (i, st\<lparr>mcells := (mcells st)(n := (mcells st n)\<lparr>mc_intval := i\<rparr>)\<rparr>)
          else (mc_intval (mcells st n), st))"

text \<open>Products are those of \<^verbatim>\<open>unsigned long\<close>, and the default is converted to it.\<close>

definition myconfig_get_size :: "string \<Rightarrow> int \<Rightarrow> config \<Rightarrow> int" where
  "myconfig_get_size key dflt st =
     (case find (is_key st key) (key_list st key) of
        None \<Rightarrow> dflt mod 2 ^ 64
      | Some n \<Rightarrow>
          if \<not> next_isdigit (mc_val (mcells st n)) then dflt mod 2 ^ 64
          else let (v, pp) = strtoul (mc_val (mcells st n));
                   c = (case pp of [] \<Rightarrow> NUL | c # _ \<Rightarrow> to_lower c)
               in if c = CHR ''b'' then int v
                  else if c = CHR ''k'' then int v * 1024 mod 2 ^ 64
                  else if c = CHR ''m'' then int v * (1024 * 1024) mod 2 ^ 64
                  else if c = CHR ''g'' then int v * (1024 * 1024 * 1024) mod 2 ^ 64
                  else int v)"

definition myconfig_update_value :: "string \<Rightarrow> string \<Rightarrow> config \<Rightarrow> (int \<times> config) option" where
  "myconfig_update_value key val st =
     (case find (is_key st key) (key_list st key) of
        Some n \<Rightarrow>
          if length val \<ge> VAL_MAX_LEN then None
          else Some (1, st\<lparr>mcells := (mcells st)(n := (mcells st n)\<lparr>mc_val := val\<rparr>)\<rparr>)
      | None \<Rightarrow>
          (case strchr key CHR ''_'' of
             Some i \<Rightarrow>
               if i \<ge> 19 \<or> length key - (i + 1) \<ge> 30 then None
               else myconfig_put_value (take i key @ ''-'') (drop (i + 1) key) val st
           | None \<Rightarrow> myconfig_put_value [] key val st))"

section \<open>Reading a file\<close>

definition blank :: "char \<Rightarrow> bool" where
  "blank c \<longleftrightarrow> c \<in> {SPACE, TAB, CR}"

definition isalnum :: "char \<Rightarrow> bool" where
  "isalnum c \<longleftrightarrow> isdigit c \<or> (let n = (of_char c :: nat) in 65 \<le> n \<and> n \<le> 90 \<or> 97 \<le> n \<and> n \<le> 122)"

text \<open>The section named by a line, given what follows the bracket; \<open>None\<close> where there is no closing bracket.\<close>

definition parse_section :: "string \<Rightarrow> string option" where
  "parse_section s = (case strchr s CHR '']'' of None \<Rightarrow> None | Some i \<Rightarrow> Some (dropWhile SEP (rtrim SEP (take i s) @ ''-'')))"

definition parse_pair :: "string \<Rightarrow> string \<times> string" where
  "parse_pair s =
     (let k = takeWhile (\<lambda>c. \<not> blank c \<and> c \<noteq> CHR ''='') s;
          r = dropWhile (\<lambda>c. c = CHR ''='') (dropWhile blank (drop (length k) s))
      in (k, rtrim blank (dropWhile blank r)))"

text \<open>A value is put in when the program starts; later only those of the reloadable keys are exchanged.\<close>

definition store_pair :: "string \<Rightarrow> string \<Rightarrow> string \<Rightarrow> config \<Rightarrow> config option" where
  "store_pair section_name k v st =
     (if \<not> inited st then map_option snd (myconfig_put_value section_name k v st)
      else if k \<in> set (reload_key st)
      then case myconfig_delete_value section_name k st of
             None \<Rightarrow> None
           | Some (_, st) \<Rightarrow> map_option snd (myconfig_put_value section_name k v st)
      else Some st)"

definition load_line :: "string \<Rightarrow> string \<Rightarrow> config \<Rightarrow> (string \<times> config) option" where
  "load_line section_name line st =
     (case dropWhile blank line of
        [] \<Rightarrow> Some (section_name, st)
      | c # s \<Rightarrow>
          if c = CHR ''['' then Some (case parse_section s of None \<Rightarrow> section_name | Some n \<Rightarrow> n, st)
          else if c = CHR ''#'' \<or> c = CHR '';'' then Some (section_name, st)
          else case parse_pair (c # s) of (k, v) \<Rightarrow>
            if k \<noteq> [] \<and> isalnum (hd k) \<and> v \<noteq> []
            then map_option (Pair section_name) (store_pair section_name k v st)
            else Some (section_name, st))"

text \<open>
  The loop over the lines.  Behind a line without newline the loop goes on with \<^verbatim>\<open>p = pn = NULL\<close>, which is
  below the end of the buffer, and reads through it.
\<close>

function load_lines :: "string \<Rightarrow> string \<Rightarrow> config \<Rightarrow> config option" where
  "load_lines section_name [] st = Some st"
| "load_lines section_name (c # buf) st =
     (case strchr (c # buf) LF of
        None \<Rightarrow> None
      | Some i \<Rightarrow>
          (case load_line section_name (take i (c # buf)) st of
             None \<Rightarrow> None
           | Some (section_name, st) \<Rightarrow> load_lines section_name (drop (i + 1) (c # buf)) st))"
  by pat_completeness auto
termination by (relation "measure (\<lambda>(n, buf, st). length buf)") simp_all

text \<open>\<open>file\<close> is the content of the file, if it can be opened and read.\<close>

definition myconfig_loadfile0 :: "string option \<Rightarrow> config \<Rightarrow> (int \<times> config) option" where
  "myconfig_loadfile0 file st =
     (case file of None \<Rightarrow> Some (-1, st) | Some buf \<Rightarrow> map_option (Pair 0) (load_lines [] buf st))"

text \<open>\<open>exe\<close> is what \<^verbatim>\<open>readlink\<close> answers, \<open>readable\<close> is \<^verbatim>\<open>access\<close>.  The copy of \<^verbatim>\<open>argv[0]\<close> is never used.\<close>

definition getconfigname :: "string option \<Rightarrow> (string \<Rightarrow> bool) \<Rightarrow> string" where
  "getconfigname exe readable =
     (case exe of
        None \<Rightarrow> []
      | Some buf \<Rightarrow>
          if \<not> starts_with ''/'' buf then []
          else case strrchr buf CHR ''/'' of
                 None \<Rightarrow> []
               | Some i \<Rightarrow>
                   let dir = take i buf; name = drop (i + 1) buf;
                       here = snprint 4096 (dir @ ''/'' @ name @ ''.conf'');
                       conf = snprint 4096 (dir @ ''/../conf/'' @ name @ ''.conf'')
                   in if readable here then here else if readable conf then conf else [])"

text \<open>One argument of the command line.\<close>

definition init_arg :: "string \<Rightarrow> config \<Rightarrow> config option" where
  "init_arg arg st =
     (case dropWhile (\<lambda>c. c = CHR ''-'') arg of
        [] \<Rightarrow> Some st
      | c # s \<Rightarrow>
          if c = CHR '';'' \<or> c = CHR ''#'' \<or> c = CHR ''='' then Some st
          else case strchr (c # s) CHR ''='' of
                 None \<Rightarrow> map_option snd (myconfig_put_value [] (c # s) ''1'' st)
               | Some i \<Rightarrow>
                   let k = take i (c # s); q = drop (i + 1) (c # s)
                   in case (if starts_with ''='' q then map_option snd (myconfig_delete_value [] k st) else Some st) of
                        None \<Rightarrow> None
                      | Some st \<Rightarrow>
                          let q = dropWhile (\<lambda>c. c = CHR ''='') q
                          in if q \<noteq> [] then map_option snd (myconfig_put_value [] k q st) else Some st)"

fun init_args :: "string list \<Rightarrow> config \<Rightarrow> config option" where
  "init_args [] st = Some st"
| "init_args (a # as) st = (case init_arg a st of None \<Rightarrow> None | Some st \<Rightarrow> init_args as st)"

definition init_lists :: "config \<Rightarrow> config" where
  "init_lists st = st\<lparr>myhash := (\<lambda>_. []), prelist := map (\<lambda>ph. ph\<lparr>ph_list := []\<rparr>) (prelist st)\<rparr>"

definition myconfig_init :: "string option \<Rightarrow> string list \<Rightarrow> config \<Rightarrow> (int \<times> config) option" where
  "myconfig_init file args st =
     (case myconfig_loadfile0 file (init_lists st) of
        None \<Rightarrow> None
      | Some (r, st) \<Rightarrow>
          if r < 0 then Some (-1, st)
          else map_option (\<lambda>st. (0, st\<lparr>inited := True\<rparr>)) (init_args args st))"

text \<open>\<open>call\<close> runs a registered function.\<close>

definition myconfig_reload :: "(nat \<Rightarrow> config \<Rightarrow> config) \<Rightarrow> string option \<Rightarrow> config \<Rightarrow> config option" where
  "myconfig_reload call file st =
     (case myconfig_loadfile0 file st of None \<Rightarrow> None | Some (_, st) \<Rightarrow> Some (fold call (reload_cb_list st) st))"

definition myconfig_register_reload :: "nat \<Rightarrow> string list \<Rightarrow> config \<Rightarrow> config" where
  "myconfig_register_reload f keys st =
     (let st = st\<lparr>reload_cb_list := f # reload_cb_list st\<rparr>
      in if keys \<noteq> [] \<and> MAX_RELOAD_KEY_NUM - length (reload_key st) > length keys
         then st\<lparr>reload_key := reload_key st @ keys\<rparr> else st)"

definition reload_keys0 :: "string list" where
  "reload_keys0 = [''log_level'', ''log_rotate_size'', ''log_rotate_time'', ''epoll_batch_events'', ''recv_timeout'',
     ''send_timeout'', ''keepalive_timeout'', ''forward_timeout'', ''forward_connect_timeout'', ''download_speed'',
     ''tcp_nodelay'', ''traffic_control'', ''traffic_pending_max'', ''traffic_pending_delta'',
     ''traffic_pending_mode'', ''traffic_pending_send'']"

text \<open>The static variables when the program starts.\<close>

definition config0 :: config where
  "config0 = \<lparr>mcells = (\<lambda>_. \<lparr>mc_hash = 0, mc_val = [], mc_intval = 0, mc_key = []\<rparr>), next_cell = 0, myhash = (\<lambda>_. []),
     prelist = replicate 256 \<lparr>ph_list = [], ph_pre = [], ph_used = False\<rparr>, inited = False, reload_key = reload_keys0,
     reload_cb_list = []\<rparr>"

section \<open>Writing the file\<close>

text \<open>The title is \<^verbatim>\<open>##\<close> and a remark in GBK.\<close>

definition dump_title :: string where
  "dump_title =
    [LF, CHR 0x23, CHR 0x23, CHR 0xC5, CHR 0xE4, CHR 0xD6, CHR 0xC3, CHR 0xCE, CHR 0xC4, CHR 0xBC, CHR 0xFE,
     CHR 0xB2, CHR 0xBB, CHR 0xC7, CHR 0xF8, CHR 0xB7, CHR 0xD6, CHR 0xB4, CHR 0xF3, CHR 0xD0, CHR 0xA1, CHR 0xD0, CHR 0xB4, CHR 0x21, LF, LF]"

definition dump_cell :: "string \<Rightarrow> mycell \<Rightarrow> string option" where
  "dump_cell p mc =
     (if p = ''nopre'' then Some (TAB # mc_key mc @ '' = '' @ mc_val mc @ [LF])
      else if length p > length (mc_key mc) then None
      else Some (TAB # drop (length p) (mc_key mc) @ '' = '' @ mc_val mc @ [LF]))"

fun dump_cells :: "config \<Rightarrow> string \<Rightarrow> nat list \<Rightarrow> string option" where
  "dump_cells st p [] = Some (replicate 61 CHR ''-'' @ [LF])"
| "dump_cells st p (n # ns) =
     (case dump_cell p (mcells st n) of
        None \<Rightarrow> None
      | Some a \<Rightarrow> map_option ((@) a) (dump_cells st p ns))"

text \<open>\<open>i\<close> is \<^verbatim>\<open>hash\<close>: the heading of the first list is left out.\<close>

fun dump_lists :: "nat \<Rightarrow> config \<Rightarrow> prehash list \<Rightarrow> string option" where
  "dump_lists i st [] = Some []"
| "dump_lists i st (ph # phs) =
     (if \<not> ph_used ph then Some []
      else case dump_cells st (ph_pre ph) (ph_list ph) of
             None \<Rightarrow> None
           | Some a \<Rightarrow> map_option ((@) ((if i > 0 then ''[ '' @ butlast (ph_pre ph) @ '' ]'' @ [LF] else []) @ a))
               (dump_lists (i + 1) st phs))"

text \<open>What \<^verbatim>\<open>myconfig_dump_to_file\<close> writes; it returns -1 and writes nothing where the file cannot be opened.\<close>

definition myconfig_dump_to_file :: "config \<Rightarrow> string option" where
  "myconfig_dump_to_file st = map_option ((@) dump_title) (dump_lists 0 st (prelist st))"

end
