(* ===== verification/MyConfigProps.thy ===== *)
theory MyConfigProps
  imports MyConfig
begin

text \<open>
  The configuration table as a map from keys to lists of values, the reading of a file, and three things that go
  wrong.
\<close>

section \<open>The table as a map\<close>

definition vals :: "config \<Rightarrow> string \<Rightarrow> string list" where
  "vals st key = map (\<lambda>n. mc_val (mcells st n)) (filter (is_key st key) (rev (key_list st key)))"

definition cfg_inv :: "config \<Rightarrow> bool" where
  "cfg_inv st \<longleftrightarrow> (\<forall>b. \<forall>n\<in>set (myhash st b). n < next_cell st)"

lemma find_filter: "find P xs = (case filter P xs of [] \<Rightarrow> None | x # _ \<Rightarrow> Some x)"
  by (induction xs) auto

lemma get_value_vals: "myconfig_get_value key st = (if vals st key = [] then None else Some (last (vals st key)))"
proof -
  let ?f = "filter (is_key st key) (key_list st key)"
  have "vals st key = rev (map (\<lambda>n. mc_val (mcells st n)) ?f)" by (simp add: vals_def rev_map rev_filter)
  then show ?thesis by (cases ?f) (simp_all add: myconfig_get_value_def find_filter)
qed

lemma nth_match_filter:
  "nth_match P i xs = (if 0 \<le> i \<and> nat i < length (filter P xs) then Some (filter P xs ! nat i) else None)"
proof (induction xs arbitrary: i)
  case (Cons x xs)
  show ?case
  proof (cases "P x \<and> i \<noteq> 0")
    case True
    then show ?thesis using Cons.IH [of "i - 1"] by (auto simp: nth_Cons' nat_diff_distrib)
  qed (auto simp: Cons.IH)
qed simp

lemma get_multivalue_vals:
  "myconfig_get_multivalue key i st = (if 0 \<le> i \<and> nat i < length (vals st key) then Some (vals st key ! nat i) else None)"
  by (simp add: myconfig_get_multivalue_def nth_match_filter vals_def)

lemma add_cell_vals:
  assumes "cfg_inv st"
  shows "cfg_inv (add_cell key v st)" "vals (add_cell key v st) k = vals st k @ (if k = key then [v] else [])"
proof -
  let ?n = "next_cell st" and ?b = "bucket (r5hash key)"
  let ?st = "add_cell key v st"
  show "cfg_inv ?st" using assms by (fastforce simp: cfg_inv_def add_cell_def Let_def)
  have old: "filter (is_key ?st k) (rev (myhash st b)) = filter (is_key st k) (rev (myhash st b))" for b
    using assms by (intro filter_cong refl) (auto simp: cfg_inv_def is_key_def add_cell_def Let_def)
  have vold: "map (\<lambda>n. mc_val (mcells ?st n)) (filter (is_key st k) (rev (myhash st b))) =
      map (\<lambda>n. mc_val (mcells st n)) (filter (is_key st k) (rev (myhash st b)))" for b
    using assms by (auto simp: cfg_inv_def add_cell_def Let_def)
  have both: "map (\<lambda>n. mc_val (mcells ?st n)) (filter (is_key ?st k) (rev (key_list st k))) = vals st k"
    unfolding vals_def key_list_def old vold ..
  have kl: "key_list ?st k = (if bucket (r5hash k) = ?b then ?n # key_list st k else key_list st k)"
    by (auto simp: key_list_def add_cell_def Let_def)
  have new: "map (\<lambda>n. mc_val (mcells ?st n)) (filter (is_key ?st k) [?n]) = (if k = key then [v] else [])"
    by (auto simp: is_key_def add_cell_def Let_def)
  show "vals ?st k = vals st k @ (if k = key then [v] else [])"
  proof (cases "bucket (r5hash k) = ?b")
    case True
    then have "rev (key_list ?st k) = rev (key_list st k) @ [?n]" by (simp add: kl)
    then show ?thesis unfolding vals_def [of ?st] filter_append map_append both new by (simp only: filter_append map_append both new)
  next
    case False
    then have "k \<noteq> key" "key_list ?st k = key_list st k" by (auto simp: kl)
    then show ?thesis unfolding vals_def [of ?st] by (simp add: both)
  qed
qed

lemma vals_prelist: "vals (st\<lparr>prelist := ps\<rparr>) = vals st" "cfg_inv (st\<lparr>prelist := ps\<rparr>) = cfg_inv st"
  by (auto simp: fun_eq_iff vals_def is_key_def [abs_def] key_list_def cfg_inv_def)

lemma put_value_vals:
  assumes "myconfig_put_value p k v st = Some (r, st')" "cfg_inv st"
  shows "cfg_inv st'" "vals st' key = vals st key @ (if key = put_key (p @ k) then [v] else [])"
  using assms(1) add_cell_vals [OF assms(2)]
  by (auto simp: myconfig_put_value_def Let_def vals_prelist split: if_splits option.splits)

lemma put_value_ok:
  assumes "length p < 20" "length v < 1024"
  shows "\<exists>r st'. myconfig_put_value p k v st = Some (r, st')"
  using assms by (auto simp: myconfig_put_value_def VAL_MAX_LEN_def Let_def split: option.split)

lemma delete_value_vals:
  assumes "myconfig_delete_value p k st = Some (r, st')" "cfg_inv st"
  shows "cfg_inv st'" "vals st' key = (if key = sep_key (p @ k) then [] else vals st key)"
proof -
  let ?s = "sep_key (p @ k)"
  let ?h = "(myhash st)(bucket (r5hash ?s) := filter (\<lambda>n. \<not> is_key st ?s n) (key_list st ?s))"
  obtain ps where st': "st' = st\<lparr>myhash := ?h, prelist := ps\<rparr>"
    using assms(1) by (auto simp: myconfig_delete_value_def Let_def split: if_splits)
  show "cfg_inv st'" using assms(2) by (auto simp: st' cfg_inv_def key_list_def)
  have ik: "is_key st' = is_key st" by (simp add: fun_eq_iff is_key_def st')
  have "filter (is_key st key) (key_list st' key) = (if key = ?s then [] else filter (is_key st key) (key_list st key))"
  proof (cases "bucket (r5hash key) = bucket (r5hash ?s)")
    case True
    have "filter (is_key st key) (filter (\<lambda>n. \<not> is_key st ?s n) (key_list st ?s)) =
        filter (is_key st key) (key_list st ?s)" if "key \<noteq> ?s"
      unfolding filter_filter using that by (intro filter_cong refl) (auto simp: is_key_def)
    with True show ?thesis by (auto simp: st' key_list_def filter_empty_conv)
  next
    case False
    then show ?thesis by (auto simp: st' key_list_def)
  qed
  then show "vals st' key = (if key = ?s then [] else vals st key)"
    by (simp add: vals_def ik flip: rev_filter) (simp add: st')
qed

text \<open>
  The contract of a table of values that keeps all values of a key in the order they came, and what a client that
  puts in a list of them gets from it.
\<close>

fun put_all :: "('a \<Rightarrow> 's \<Rightarrow> 's option) \<Rightarrow> 'a list \<Rightarrow> 's \<Rightarrow> 's option" where
  "put_all put [] s = Some s"
| "put_all put (a # as) s = (case put a s of None \<Rightarrow> None | Some s \<Rightarrow> put_all put as s)"

lemma put_all_append: "put_all put (as @ bs) s = (case put_all put as s of None \<Rightarrow> None | Some s \<Rightarrow> put_all put bs s)"
  by (induction as arbitrary: s) (auto split: option.split)

locale value_table =
  fixes put :: "'a \<Rightarrow> 's \<Rightarrow> 's option"
    and key_of :: "'a \<Rightarrow> 'k"
    and val_of :: "'a \<Rightarrow> 'v"
    and contents :: "'s \<Rightarrow> 'k \<Rightarrow> 'v list"
    and ok :: "'s \<Rightarrow> bool"
    and fits :: "'a \<Rightarrow> bool"
  assumes put_ok: "ok s \<Longrightarrow> put a s = Some s' \<Longrightarrow> ok s'"
    and put_contents: "ok s \<Longrightarrow> put a s = Some s' \<Longrightarrow> contents s' k = contents s k @ (if k = key_of a then [val_of a] else [])"
    and put_defined: "fits a \<Longrightarrow> \<exists>s'. put a s = Some s'"
begin

lemma put_all_contents:
  "ok s \<Longrightarrow> put_all put as s = Some s' \<Longrightarrow>
   ok s' \<and> contents s' k = contents s k @ map val_of (filter (\<lambda>a. key_of a = k) as)"
proof (induction as arbitrary: s)
  case (Cons a as)
  then obtain t where t: "put a s = Some t" "put_all put as t = Some s'" by (auto split: option.splits)
  from Cons.IH [OF put_ok [OF Cons.prems(1) t(1)] t(2)] put_contents [OF Cons.prems(1) t(1), of k]
  show ?case by auto
qed simp

lemma put_all_defined: "\<forall>a\<in>set as. fits a \<Longrightarrow> \<exists>s'. put_all put as s = Some s'"
proof (induction as arbitrary: s)
  case (Cons a as)
  obtain t where "put a s = Some t" using put_defined [of a s] Cons.prems by auto
  with Cons show ?case by simp
qed simp

end

definition put_triple :: "string \<times> string \<times> string \<Rightarrow> config \<Rightarrow> config option" where
  "put_triple a st = (case a of (p, k, v) \<Rightarrow> map_option snd (myconfig_put_value p k v st))"

definition triple_key :: "string \<times> string \<times> string \<Rightarrow> string" where
  "triple_key a = (case a of (p, k, v) \<Rightarrow> put_key (p @ k))"

definition triple_val :: "string \<times> string \<times> string \<Rightarrow> string" where
  "triple_val a = snd (snd a)"

definition triple_fits :: "string \<times> string \<times> string \<Rightarrow> bool" where
  "triple_fits a \<longleftrightarrow> length (fst a) < 20 \<and> length (snd (snd a)) < 1024"

interpretation cfg: value_table put_triple triple_key triple_val vals cfg_inv triple_fits
proof unfold_locales
  fix s a s' k
  assume inv: "cfg_inv s" and put: "put_triple a s = Some s'"
  obtain p q v where a: "a = (p, q, v)" by (cases a)
  from put obtain r where "myconfig_put_value p q v s = Some (r, s')" by (auto simp: put_triple_def a)
  from put_value_vals [OF this inv] show "cfg_inv s'" "vals s' k = vals s k @ (if k = triple_key a then [triple_val a] else [])"
    by (simp_all add: a triple_key_def triple_val_def)
next
  fix a :: "string \<times> string \<times> string" and s :: config
  assume "triple_fits a"
  then show "\<exists>s'. put_triple a s = Some s'"
    using put_value_ok [of "fst a" "snd (snd a)" "fst (snd a)" s]
    by (cases a) (auto simp: triple_fits_def put_triple_def)
qed

section \<open>Reading a file\<close>

lemma load_line_step:
  assumes "LF \<notin> set l"
  shows "load_lines n (l @ LF # r) st =
    (case load_line n l st of None \<Rightarrow> None | Some (n', st') \<Rightarrow> load_lines n' r st')"
proof -
  obtain c b where cb: "l @ LF # r = c # b" by (cases l) auto
  have "strchr (l @ LF # r) LF = Some (length l)" using assms strchr_append [of LF l] by simp
  moreover have "take (length l) (l @ LF # r) = l" "drop (length l + 1) (l @ LF # r) = r" by simp_all
  ultimately show ?thesis unfolding cb load_lines.simps by (simp only: option.case)
qed

lemma rtrim_id: "(xs \<noteq> [] \<Longrightarrow> \<not> P (last xs)) \<Longrightarrow> rtrim P xs = xs"
  by (cases xs rule: rev_cases) (simp_all add: rtrim_def)

definition plain_key :: "string \<Rightarrow> bool" where
  "plain_key k \<longleftrightarrow> k \<noteq> [] \<and> isalnum (hd k) \<and> (\<forall>c\<in>set k. \<not> blank c \<and> c \<noteq> CHR ''='' \<and> c \<noteq> LF)"

definition plain_value :: "string \<Rightarrow> bool" where
  "plain_value v \<longleftrightarrow> v \<noteq> [] \<and> \<not> blank (hd v) \<and> \<not> blank (last v) \<and> LF \<notin> set v"

definition plain_section :: "string \<Rightarrow> bool" where
  "plain_section n \<longleftrightarrow> CHR '']'' \<notin> set n \<and> LF \<notin> set n \<and> (n = [] \<or> \<not> SEP (hd n) \<and> \<not> SEP (last n))"

definition pair_line :: "string \<times> string \<Rightarrow> string" where
  "pair_line kv = fst kv @ '' = '' @ snd kv @ [LF]"

definition section_text :: "string \<times> (string \<times> string) list \<Rightarrow> string" where
  "section_text sec = ''['' @ fst sec @ '']'' @ [LF] @ concat (map pair_line (snd sec))"

definition config_text :: "(string \<times> (string \<times> string) list) list \<Rightarrow> string" where
  "config_text secs = concat (map section_text secs)"

definition prefix_of :: "string \<Rightarrow> string" where
  "prefix_of n = (if n = [] then [] else n @ ''-'')"

definition assignments :: "(string \<times> (string \<times> string) list) list \<Rightarrow> (string \<times> string \<times> string) list" where
  "assignments secs = concat (map (\<lambda>(n, kvs). map (\<lambda>(k, v). (prefix_of n, k, v)) kvs) secs)"

lemma parse_pair_plain:
  assumes "plain_key k" "plain_value v"
  shows "parse_pair (k @ '' = '' @ v) = (k, v)"
proof -
  have k: "takeWhile (\<lambda>c. \<not> blank c \<and> c \<noteq> CHR ''='') (k @ SPACE # CHR ''='' # SPACE # v) = k"
    using assms(1) by (subst takeWhile_append2) (auto simp: plain_key_def blank_def)
  have b: "blank SPACE" "\<not> blank CHR ''=''" by (simp_all add: blank_def)
  have v: "dropWhile blank v = v" "rtrim blank v = v"
    using assms(2) by (cases v; simp add: plain_value_def) (simp add: assms(2)[unfolded plain_value_def] rtrim_id)
  show ?thesis by (simp add: parse_pair_def Let_def k b v)
qed

lemma load_line_pair:
  assumes "plain_key k" "plain_value v" "\<not> inited st"
  shows "load_line n (k @ '' = '' @ v) st = map_option (Pair n) (put_triple (n, k, v) st)"
proof -
  obtain c t where k: "k = c # t" using assms(1) by (cases k) (auto simp: plain_key_def)
  have c: "\<not> blank c" "isalnum c" using assms(1) by (auto simp: plain_key_def k)
  then have "c \<noteq> CHR ''[''" "c \<noteq> CHR ''#''" "c \<noteq> CHR '';''" by (auto simp: isalnum_def isdigit_def)
  moreover have "parse_pair (c # t @ '' = '' @ v) = (k, v)" using parse_pair_plain [OF assms(1,2)] by (simp add: k)
  ultimately show ?thesis using c assms(2,3)
    by (simp add: load_line_def k store_pair_def put_triple_def plain_value_def)
qed

lemma parse_section_plain:
  assumes "plain_section n"
  shows "parse_section (n @ '']'') = Some (prefix_of n)"
proof -
  have s: "strchr (n @ '']'') CHR '']'' = Some (length n)"
    using assms strchr_append [of "CHR '']''" n] by (simp add: plain_section_def)
  have "rtrim SEP n = n" using assms by (auto intro!: rtrim_id simp: plain_section_def)
  moreover have "dropWhile SEP (n @ ''-'') = prefix_of n"
    using assms by (cases n) (auto simp: plain_section_def prefix_of_def SEP_def)
  ultimately show ?thesis by (simp add: parse_section_def s)
qed

lemma put_triple_inited: "put_triple a st = Some st' \<Longrightarrow> inited st' = inited st"
  by (auto simp: put_triple_def myconfig_put_value_def add_cell_def Let_def split: prod.splits if_splits option.splits)

lemma load_pairs:
  "\<forall>kv\<in>set kvs. plain_key (fst kv) \<and> plain_value (snd kv) \<Longrightarrow> \<not> inited st \<Longrightarrow>
   load_lines n (concat (map pair_line kvs) @ r) st =
     (case put_all put_triple (map (\<lambda>(k, v). (n, k, v)) kvs) st of None \<Rightarrow> None | Some st \<Rightarrow> load_lines n r st)"
proof (induction kvs arbitrary: st)
  case (Cons kv kvs)
  obtain k v where kv: "kv = (k, v)" by fastforce
  have p: "plain_key k" "plain_value v" using Cons.prems(1) by (simp_all add: kv)
  then have lf: "LF \<notin> set (k @ '' = '' @ v)" by (auto simp: plain_key_def plain_value_def)
  have e: "concat (map pair_line (kv # kvs)) @ r = (k @ '' = '' @ v) @ LF # concat (map pair_line kvs) @ r"
    by (simp add: kv pair_line_def [of "(k, v)"])
  note step = load_line_step [OF lf, of n "concat (map pair_line kvs) @ r" st]
  show ?case
  proof (cases "put_triple (n, k, v) st")
    case None
    then show ?thesis unfolding e step load_line_pair [OF p Cons.prems(2)] by (simp add: kv)
  next
    case (Some st')
    have "\<not> inited st'" using put_triple_inited [OF Some] Cons.prems(2) by simp
    with Some Cons.IH [of st'] Cons.prems(1) show ?thesis
      unfolding e step load_line_pair [OF p Cons.prems(2)] by (simp add: kv)
  qed
qed simp

lemma put_all_inited: "put_all put_triple as st = Some st' \<Longrightarrow> inited st' = inited st"
  by (induction as arbitrary: st) (auto dest: put_triple_inited split: option.splits)

definition plain_config :: "(string \<times> (string \<times> string) list) list \<Rightarrow> bool" where
  "plain_config secs \<longleftrightarrow> (\<forall>sec\<in>set secs. plain_section (fst sec) \<and> (\<forall>kv\<in>set (snd sec). plain_key (fst kv) \<and> plain_value (snd kv)))"

lemma load_config_text:
  "plain_config secs \<Longrightarrow> \<not> inited st \<Longrightarrow>
   load_lines n (config_text secs) st = put_all put_triple (assignments secs) st"
proof (induction secs arbitrary: n st)
  case Nil
  then show ?case by (simp add: config_text_def assignments_def)
next
  case (Cons sec secs)
  obtain m kvs where sec: "sec = (m, kvs)" by fastforce
  have m: "plain_section m" and kvs: "\<forall>kv\<in>set kvs. plain_key (fst kv) \<and> plain_value (snd kv)" and rest: "plain_config secs"
    using Cons.prems(1) by (simp_all add: plain_config_def sec)
  let ?r = "config_text secs"
  let ?as = "map (\<lambda>(k, v). (prefix_of m, k, v)) kvs"
  have lf: "LF \<notin> set (''['' @ m @ '']'')" using m by (simp add: plain_section_def)
  have "load_line n (''['' @ m @ '']'') st = Some (prefix_of m, st)"
    using parse_section_plain [OF m] by (simp add: load_line_def blank_def)
  then have "load_lines n (config_text (sec # secs)) st = load_lines (prefix_of m) (concat (map pair_line kvs) @ ?r) st"
    using load_line_step [OF lf, of n "concat (map pair_line kvs) @ ?r" st]
    by (simp add: config_text_def section_text_def sec)
  also have "\<dots> = (case put_all put_triple ?as st of None \<Rightarrow> None | Some st \<Rightarrow> load_lines (prefix_of m) ?r st)"
    by (rule load_pairs [OF kvs Cons.prems(2)])
  also have "\<dots> = put_all put_triple (?as @ assignments secs) st"
    using Cons.IH [OF rest] Cons.prems(2) put_all_inited [of ?as st] by (auto simp: put_all_append split: option.split)
  also have "?as @ assignments secs = assignments (sec # secs)" by (simp add: assignments_def sec)
  finally show ?case .
qed

lemma config0_facts: "cfg_inv config0" "vals config0 key = []" "\<not> inited config0"
  by (simp_all add: cfg_inv_def vals_def config0_def key_list_def)

section \<open>Properties\<close>

text \<open>C30: The configuration is what the file says.  After a start with a file of plain sections and plain
  \<^verbatim>\<open>key = value\<close> lines, of sizes that fit, a key (its section, a dash and its name, folded to lower case and
  underscores) has exactly the values of its lines: \<^verbatim>\<open>myconfig_get_value\<close> returns the one of the last line and
  \<^verbatim>\<open>myconfig_get_multivalue\<close> the one of the i-th line, and other keys have none.\<close>

theorem config_file_lookup:
  assumes "plain_config secs" "\<forall>a\<in>set (assignments secs). triple_fits a"
  shows "\<exists>st. myconfig_init (Some (config_text secs)) [] config0 = Some (0, st) \<and>
    (let vs = map triple_val (filter (\<lambda>a. triple_key a = key) (assignments secs))
     in myconfig_get_value key st = (if vs = [] then None else Some (last vs)) \<and>
        myconfig_get_multivalue key i st = (if 0 \<le> i \<and> nat i < length vs then Some (vs ! nat i) else None))"
proof -
  let ?s = "init_lists config0"
  have s: "cfg_inv ?s" "vals ?s key = []" "\<not> inited ?s"
    by (simp_all add: init_lists_def cfg_inv_def vals_def config0_def key_list_def)
  obtain st where st: "put_all put_triple (assignments secs) ?s = Some st" using cfg.put_all_defined [OF assms(2)] by blast
  have "vals st key = map triple_val (filter (\<lambda>a. triple_key a = key) (assignments secs))"
    using cfg.put_all_contents [OF s(1) st, of key] s(2) by simp
  then have v: "vals (st\<lparr>inited := True\<rparr>) key = map triple_val (filter (\<lambda>a. triple_key a = key) (assignments secs))"
    by (simp add: vals_def is_key_def [abs_def] key_list_def)
  have "myconfig_init (Some (config_text secs)) [] config0 = Some (0, st\<lparr>inited := True\<rparr>)"
    using load_config_text [OF assms(1) s(3), of "[]"] st by (simp add: myconfig_init_def myconfig_loadfile0_def)
  with v show ?thesis unfolding get_value_vals get_multivalue_vals Let_def
    by (intro exI [of _ "st\<lparr>inited := True\<rparr>"]) simp
qed

definition example_secs :: "(string \<times> (string \<times> string) list) list" where
  "example_secs = [([], [(''daemon'', ''yes'')]), (''Server'', [(''port'', ''8080''), (''so'', ''a.so 1''), (''so'', ''b.so'')])]"

lemma example_secs_plain: "plain_config example_secs" "\<forall>a\<in>set (assignments example_secs). triple_fits a"
  by (simp_all add: plain_config_def example_secs_def plain_section_def plain_key_def plain_value_def blank_def SEP_def isalnum_def
      isdigit_def assignments_def prefix_of_def triple_fits_def)

theorem config_file_lookup_witness:
  "\<exists>st. myconfig_init (Some (config_text example_secs)) [] config0 = Some (0, st) \<and>
     myconfig_get_value ''server_so'' st = Some ''b.so'' \<and> myconfig_get_multivalue ''server_so'' 0 st = Some ''a.so 1''"
proof -
  have "map triple_val (filter (\<lambda>a. triple_key a = ''server_so'') (assignments example_secs)) = [''a.so 1'', ''b.so'']"
    by code_simp
  with config_file_lookup [OF example_secs_plain, of "''server_so''" 0] show ?thesis by simp
qed

text \<open>C32: A file whose last line has no newline at its end brings the reader down: behind this line it goes on
  at address zero.\<close>

theorem file_needs_newline:
  assumes "buf \<noteq> []" "last buf \<noteq> LF"
  shows "myconfig_loadfile0 (Some buf) st = None"
proof -
  have "buf \<noteq> [] \<Longrightarrow> last buf \<noteq> LF \<Longrightarrow> load_lines n buf st = None" for n
  proof (induction n buf st rule: load_lines.induct)
    case (2 n c buf st)
    show ?case
    proof (cases "strchr (c # buf) LF")
      case (Some i)
      let ?r = "drop (i + 1) (c # buf)"
      have i: "i < length (c # buf)" "(c # buf) ! i = LF" using Some unfolding strchr_Some_split by simp_all
      have "?r \<noteq> []"
      proof
        assume "?r = []"
        then have "i = length (c # buf) - 1" using i(1) by simp
        moreover have "last (c # buf) = (c # buf) ! (length (c # buf) - 1)" by (rule last_conv_nth) simp
        ultimately show False using i(2) "2.prems"(2) by metis
      qed
      moreover from this have "last ?r \<noteq> LF" using "2.prems"(2) last_drop [of "i + 1" "c # buf"] by simp
      ultimately show ?thesis using "2.IH" [OF Some] Some by (auto split: option.split)
    qed simp
  qed simp
  with assms show ?thesis by (simp add: myconfig_loadfile0_def)
qed

theorem file_needs_newline_witness: "myconfig_loadfile0 (Some ''port = 8080'') config0 = None"
  by (rule file_needs_newline) simp_all

text \<open>\<^verbatim>\<open>myconfig_update_value\<close> changes the text of a value but not the number that \<^verbatim>\<open>myconfig_get_intval\<close>
  remembered for it: a key that was read as a number once keeps that number whatever text it is given.\<close>

theorem update_keeps_number:
  assumes "myconfig_get_value key st = Some v" "val_number v = Some i" "i \<noteq> -1" "myconfig_get_intval key d st = (i, st1)"
    "myconfig_update_value key v2 st1 = Some (r, st2)"
  shows "myconfig_get_value key st2 = Some v2 \<and> fst (myconfig_get_intval key d2 st2) = i"
proof -
  obtain n where n: "find (is_key st key) (key_list st key) = Some n" and v: "v = mc_val (mcells st n)"
    using assms(1) by (auto simp: myconfig_get_value_def)
  have st1: "mc_intval (mcells st1 n) = i" "is_key st1 = is_key st" "myhash st1 = myhash st"
    using assms(2-4) n v
    by (auto simp: myconfig_get_intval_def is_key_def fun_eq_iff split: if_splits)
  have f1: "find (is_key st1 key) (key_list st1 key) = Some n" using n by (simp add: st1 key_list_def)
  have st2: "st2 = st1\<lparr>mcells := (mcells st1)(n := (mcells st1 n)\<lparr>mc_val := v2\<rparr>)\<rparr>"
    using assms(5) f1 by (auto simp: myconfig_update_value_def split: if_splits)
  have "is_key st2 = is_key st1" by (simp add: fun_eq_iff is_key_def st2)
  then have f2: "find (is_key st2 key) (key_list st2 key) = Some n" using f1 by (simp add: st2 key_list_def)
  show ?thesis using assms(3) st1(1) by (simp add: myconfig_get_value_def myconfig_get_intval_def f2) (simp add: st2)
qed

definition port_config :: config where
  "port_config = snd (the (myconfig_put_value [] ''port'' ''80'' config0))"

theorem update_keeps_number_witness:
  "\<exists>st1 st2. myconfig_get_intval ''port'' 0 port_config = (80, st1) \<and> myconfig_update_value ''port'' ''81'' st1 = Some (1, st2) \<and>
     myconfig_get_value ''port'' st2 = Some ''81'' \<and> fst (myconfig_get_intval ''port'' 0 st2) = 80"
proof -
  obtain st1 where st1: "myconfig_get_intval ''port'' 0 port_config = (80, st1)"
    and u: "map_option fst (myconfig_update_value ''port'' ''81'' st1) = Some 1"
  proof -
    have "fst (myconfig_get_intval ''port'' 0 port_config) = 80" by code_simp
    moreover have "map_option fst (myconfig_update_value ''port'' ''81'' (snd (myconfig_get_intval ''port'' 0 port_config))) = Some 1"
      by code_simp
    ultimately show thesis by (intro that [of "snd (myconfig_get_intval ''port'' 0 port_config)"]) (simp_all add: prod_eq_iff)
  qed
  then obtain st2 where st2: "myconfig_update_value ''port'' ''81'' st1 = Some (1, st2)" by auto
  have v: "myconfig_get_value ''port'' port_config = Some ''80''" by code_simp
  have "val_number ''80'' = Some 80" by code_simp
  from update_keeps_number [OF v this _ st1 st2] st1 st2 show ?thesis by auto
qed

text \<open>\<^verbatim>\<open>myconfig_delete_value\<close> removes every value of a key that has no capital letters.  A key with capitals
  is stored folded to lower case but looked for as it is, and keeps its values.\<close>

theorem delete_value_effect:
  assumes "cfg_inv st" "myconfig_delete_value p k st = Some (r, st')"
  shows "myconfig_get_value (put_key (p @ k)) st' =
    (if put_key (p @ k) = sep_key (p @ k) then None else myconfig_get_value (put_key (p @ k)) st)"
  using delete_value_vals(2) [OF assms(2,1)] by (simp add: get_value_vals)

theorem delete_value_effect_witness:
  "\<exists>r st'. myconfig_delete_value [] ''Port'' port_config = Some (r, st') \<and> myconfig_get_value ''port'' st' = Some ''80''"
proof -
  have "map_option fst (myconfig_delete_value [] ''Port'' port_config) = Some 1" by code_simp
  then obtain st' where st': "myconfig_delete_value [] ''Port'' port_config = Some (1, st')" by auto
  obtain r where "myconfig_put_value [] ''port'' ''80'' config0 = Some (r, port_config)"
    using put_value_ok [of "[]" "''80''" "''port''" config0] by (auto simp: port_config_def)
  then have inv: "cfg_inv port_config" by (rule put_value_vals) (rule config0_facts)
  have "put_key ([] @ ''Port'') = ''port''" "sep_key ([] @ ''Port'') = ''Port''" "myconfig_get_value ''port'' port_config = Some ''80''"
    by code_simp+
  with delete_value_effect [OF inv st'] st' show ?thesis by simp
qed

text \<open>The file that \<^verbatim>\<open>myconfig_dump_to_file\<close> writes is not the configuration it was made from: a program that
  starts with it finds the values of a key in the opposite order, and where the first value came from a section it
  finds none of the section's keys, whose heading is left out.\<close>

theorem dump_is_not_restored:
  "map_option (myconfig_get_value ''so'') (put_all put_triple [([], ''so'', ''a''), ([], ''so'', ''b'')] config0) = Some (Some ''b'') \<and>
   map_option (\<lambda>st. map_option (\<lambda>text. map_option (myconfig_get_value ''so'') (load_lines [] text config0)) (myconfig_dump_to_file st))
     (put_all put_triple [([], ''so'', ''a''), ([], ''so'', ''b'')] config0) = Some (Some (Some (Some ''a''))) \<and>
   map_option (\<lambda>st. map_option (\<lambda>text. map_option (myconfig_get_value ''net_port'') (load_lines [] text config0)) (myconfig_dump_to_file st))
     (put_all put_triple [(''net-'', ''port'', ''80'')] config0) = Some (Some (Some None))"
  by (intro conjI; code_simp)

end
