(* ===== verification/ParsePara.thy ===== *)
theory ParsePara
  imports TextUtils
begin

text \<open>
  Lists of name and value pairs and their text form \<^verbatim>\<open>name=value&name=value\<close>, \<^verbatim>\<open>src/network/parsepara.c\<close>.
  Arguments that are C strings have no NUL inside.  A result \<open>None\<close> stands for an access outside an array.
\<close>

definition MAX_NAME_LEN :: nat where "MAX_NAME_LEN = 200"
definition MAX_VALUE_LEN :: nat where "MAX_VALUE_LEN = 4 * 1024"

record StringPair =
  sFirst :: string
  sSecond :: string

record StringPairList =
  iLast :: nat
  pStrPairList :: "StringPair list"

abbreviation iMaxPairNum :: "StringPairList \<Rightarrow> nat" where
  "iMaxPairNum l \<equiv> length (pStrPairList l)"

section \<open>Escapes\<close>

definition ENCODE_TABLE :: string where "ENCODE_TABLE = ''=&%''"

definition shouldencode :: "char \<Rightarrow> bool" where
  "shouldencode ch \<longleftrightarrow> ch \<in> set ENCODE_TABLE"

definition sHexTable :: string where "sHexTable = ''0123456789ABCDEF''"

definition isprint :: "char \<Rightarrow> bool" where
  "isprint c \<longleftrightarrow> 32 \<le> (of_char c :: nat) \<and> (of_char c :: nat) \<le> 126"

definition escape :: "char \<Rightarrow> string" where
  "escape c = [CHR ''%'', sHexTable ! (of_char c div 16), sHexTable ! (of_char c mod 16)]"

definition encode_hexstring :: "string \<Rightarrow> string" where
  "encode_hexstring s = concat (map (\<lambda>c. if \<not> isprint c \<or> shouldencode c then escape c else [c]) s)"

definition encode_string :: "string \<Rightarrow> string" where
  "encode_string s = concat (map (\<lambda>c. if shouldencode c then escape c else [c]) s)"

definition toupper :: "char \<Rightarrow> char" where
  "toupper c = (if 97 \<le> (of_char c :: nat) \<and> (of_char c :: nat) \<le> 122 then char_of ((of_char c :: nat) - 32) else c)"

text \<open>-1 where there is no such digit.\<close>

definition get_index :: "char \<Rightarrow> int" where
  "get_index ch = (case strchr sHexTable (toupper ch) of None \<Rightarrow> -1 | Some i \<Rightarrow> int i)"

text \<open>
  The loop of \<^verbatim>\<open>decode_string\<close> on the rest of the text, with \<open>room\<close> characters left in the result.  \<open>tiny\<close>
  says that the whole text is shorter than two characters: \<^verbatim>\<open>len-2\<close> is unsigned then and huge.  The results are
  the code and what was written; the code 0 also terminates it.
\<close>

fun decode_loop :: "bool \<Rightarrow> nat \<Rightarrow> string \<Rightarrow> int \<times> string" where
  "decode_loop tiny room [] = (0, [])"
| "decode_loop tiny room (c # s) =
     (if c = CHR ''%''
      then (case s of
              a # b # t \<Rightarrow>
                if get_index a < 0 \<or> get_index b < 0 then (-2, [])
                else (case room of
                        0 \<Rightarrow> (0, [])
                      | Suc r \<Rightarrow> (case decode_loop tiny r t of (ret, d) \<Rightarrow> (ret, char_of (nat (get_index a * 16 + get_index b)) # d)))
            | _ \<Rightarrow> (if tiny then -2 else -1, []))
      else (case room of 0 \<Rightarrow> (0, []) | Suc r \<Rightarrow> (case decode_loop tiny r s of (ret, d) \<Rightarrow> (ret, c # d))))"

definition decode_string :: "string \<Rightarrow> nat \<Rightarrow> int \<times> string" where
  "decode_string s n = decode_loop (length s < 2) (n - 1) s"

text \<open>\<^verbatim>\<open>decode_hexstring\<close> has no bound.\<close>

definition decode_hexstring :: "string \<Rightarrow> int \<times> string" where
  "decode_hexstring s = decode_loop (length s < 2) (length s) s"

text \<open>\<^verbatim>\<open>decode_stringnew\<close> has no bound either, stops at an escape that is cut off, and takes any characters for digits.
  It does not terminate what it writes; its result is always 0.\<close>

fun decode_stringnew :: "string \<Rightarrow> string" where
  "decode_stringnew [] = []"
| "decode_stringnew (c # s) =
     (if c \<noteq> CHR ''%'' then c # decode_stringnew s
      else case s of
        a # b # t \<Rightarrow> char_of (nat ((get_index a * 16 + get_index b) mod 256)) # decode_stringnew t
      | _ \<Rightarrow> [])"

section \<open>Lists\<close>

definition CreateStringPairList :: "int \<Rightarrow> StringPairList option" where
  "CreateStringPairList n =
     (if n < 0 then None else Some \<lparr>iLast = 0, pStrPairList = replicate (nat n) \<lparr>sFirst = [], sSecond = []\<rparr>\<rparr>)"

definition append_pair :: "StringPair \<Rightarrow> StringPairList \<Rightarrow> StringPairList" where
  "append_pair p l = l\<lparr>pStrPairList := (pStrPairList l)[iLast l := p], iLast := iLast l + 1\<rparr>"

definition pairs :: "StringPairList \<Rightarrow> StringPair list" where
  "pairs l = take (iLast l) (pStrPairList l)"

definition ConcatPairList :: "StringPairList \<Rightarrow> StringPairList \<Rightarrow> StringPairList" where
  "ConcatPairList p1 p2 = fold (\<lambda>p l. if iLast l \<ge> iMaxPairNum l then l else append_pair p l) (pairs p2) p1"

definition ResetStringPairList :: "StringPairList \<Rightarrow> StringPairList" where
  "ResetStringPairList l = l\<lparr>iLast := 0\<rparr>"

definition TraverseList :: "(string \<Rightarrow> string \<Rightarrow> 's \<Rightarrow> 's) \<Rightarrow> StringPairList \<Rightarrow> 's \<Rightarrow> 's" where
  "TraverseList f l = fold (\<lambda>p. f (sFirst p) (sSecond p)) (pairs l)"

definition name_eq :: "string \<Rightarrow> StringPair \<Rightarrow> bool" where
  "name_eq sName p \<longleftrightarrow> map toupper sName = map toupper (sFirst p)"

text \<open>The value is not terminated where decoding fails, which the functions do not look at.\<close>

definition GetParaValue :: "StringPairList \<Rightarrow> string \<Rightarrow> nat \<Rightarrow> string option" where
  "GetParaValue l sName n = map_option (\<lambda>p. snd (decode_string (sSecond p) n)) (find (name_eq sName) (pairs l))"

definition GetBinaryPara :: "StringPairList \<Rightarrow> string \<Rightarrow> string option" where
  "GetBinaryPara l sName = map_option (\<lambda>p. snd (decode_hexstring (sSecond p))) (find (name_eq sName) (pairs l))"

text \<open>The encoded value is built in an array of \<^verbatim>\<open>MAX_VALUE_LEN*2\<close>.\<close>

definition set_encoded :: "StringPairList \<Rightarrow> string \<Rightarrow> string \<Rightarrow> (int \<times> StringPairList) option" where
  "set_encoded l sName v =
     (if iLast l \<ge> iMaxPairNum l then Some (-1, l)
      else if length v \<ge> MAX_VALUE_LEN * 2 then None
      else Some (0, append_pair \<lparr>sFirst = take (MAX_NAME_LEN - 1) sName, sSecond = take (MAX_VALUE_LEN - 1) v\<rparr> l))"

definition SetParaValue :: "StringPairList \<Rightarrow> string \<Rightarrow> string \<Rightarrow> (int \<times> StringPairList) option" where
  "SetParaValue l sName sValue = set_encoded l sName (encode_string sValue)"

definition SetBinaryPara :: "StringPairList \<Rightarrow> string \<Rightarrow> string \<Rightarrow> (int \<times> StringPairList) option" where
  "SetBinaryPara l sName sBinaryVal = set_encoded l sName (encode_hexstring sBinaryVal)"

section \<open>Text form\<close>

fun encode_pairs :: "nat \<Rightarrow> StringPair list \<Rightarrow> string" where
  "encode_pairs room [] = []"
| "encode_pairs room (p # ps) =
     (let s = sFirst p @ ''='' @ sSecond p @ ''&''
      in if length s \<ge> room then [] else s @ encode_pairs (room - length s) ps)"

definition EncodePara :: "StringPairList \<Rightarrow> nat \<Rightarrow> string" where
  "EncodePara l n = butlast (encode_pairs n (pairs l))"

definition set_first :: "nat \<Rightarrow> string \<Rightarrow> StringPair list \<Rightarrow> StringPair list option" where
  "set_first i s a = (if i < length a then Some (a[i := (a ! i)\<lparr>sFirst := s\<rparr>]) else None)"

definition set_second :: "nat \<Rightarrow> string \<Rightarrow> StringPair list \<Rightarrow> StringPair list option" where
  "set_second i s a = (if i < length a then Some (a[i := (a ! i)\<lparr>sSecond := s\<rparr>]) else None)"

text \<open>What follows the loop: the last value, and an empty pair behind it.\<close>

definition parse_last :: "StringPair list \<Rightarrow> nat \<Rightarrow> string \<Rightarrow> bool \<Rightarrow> (int \<times> StringPair list) option" where
  "parse_last a i buf flag =
     (if \<not> flag then Some (-1, a)
      else if length buf \<ge> MAX_VALUE_LEN then None
      else case set_second i buf a of
             None \<Rightarrow> None
           | Some a \<Rightarrow>
               if i + 1 < length a then Some (int i + 1, a[i + 1 := \<lparr>sFirst = [], sSecond = []\<rparr>]) else None)"

text \<open>The loop: \<open>i\<close> is the number of pairs so far, \<open>buf\<close> the characters since the last separator.\<close>

fun parse_loop ::
  "char \<Rightarrow> char \<Rightarrow> string \<Rightarrow> StringPair list \<Rightarrow> nat \<Rightarrow> string \<Rightarrow> bool \<Rightarrow> (int \<times> StringPair list) option" where
  "parse_loop ch1 ch2 [] a i buf flag = parse_last a i buf flag"
| "parse_loop ch1 ch2 (ch # s) a i buf flag =
     (if ch = ch1
      then (case set_first i (take (MAX_NAME_LEN - 1) buf) a of None \<Rightarrow> None | Some a \<Rightarrow> parse_loop ch1 ch2 s a i [] True)
      else if ch = ch2 \<or> ch = NUL
      then (case set_second i (take (MAX_VALUE_LEN - 1) buf) a of
              None \<Rightarrow> None
            | Some a \<Rightarrow>
                if \<not> flag then Some (-1, a)
                else if int i + 1 \<ge> int (length a) - 2 then parse_last a (i + 1) [] True
                else parse_loop ch1 ch2 s a (i + 1) [] False)
      else if length buf \<ge> MAX_NAME_LEN + MAX_VALUE_LEN then None
      else parse_loop ch1 ch2 s a i (buf @ [ch]) flag)"

definition parsepara :: "string \<Rightarrow> StringPair list \<Rightarrow> char \<Rightarrow> char \<Rightarrow> (int \<times> StringPair list) option" where
  "parsepara sParaStr a ch1 ch2 =
     (if sParaStr = [] then Some (0, a)
      else parse_loop (if ch1 = NUL then CHR ''='' else ch1) (if ch2 = NUL then CHR ''&'' else ch2) sParaStr a 0 [] False)"

definition DecodePara :: "string \<Rightarrow> StringPairList \<Rightarrow> (int \<times> StringPairList) option" where
  "DecodePara sRequest l =
     (case parsepara sRequest (pStrPairList l) CHR ''='' CHR ''&'' of
        None \<Rightarrow> None
      | Some (iRet, a) \<Rightarrow>
          Some (if iRet \<ge> 0 then 0 else -1, l\<lparr>pStrPairList := a, iLast := (if iRet \<ge> 0 then nat iRet else iLast l)\<rparr>))"

section \<open>Trimming and reading a file\<close>

text \<open>
  \<^verbatim>\<open>TrimLeft\<close> moves the text to the front and then looks at the place it came from once more: where as many
  blanks were dropped as characters are left, the terminator has just been put there, and the text is emptied.
\<close>

definition TrimLeft :: "string \<Rightarrow> string" where
  "TrimLeft s = (let t = dropWhile isspace s in if t \<noteq> [] \<and> length s - length t = length t then [] else t)"

text \<open>The first character stays; an empty text is read in front of its start.\<close>

definition TrimRight :: "string \<Rightarrow> string option" where
  "TrimRight s = (case s of [] \<Rightarrow> None | c # t \<Rightarrow> Some (c # rtrim isspace t))"

definition TrimString :: "string \<Rightarrow> string option" where
  "TrimString s = TrimRight (TrimLeft s)"

text \<open>\<^verbatim>\<open>fgets\<close> with room for 298 characters.\<close>

definition next_line :: "string \<Rightarrow> string" where
  "next_line buf = (case strchr buf LF of None \<Rightarrow> take 298 buf | Some i \<Rightarrow> take (min 298 (i + 1)) buf)"

lemma next_line_nonempty: "buf \<noteq> [] \<Longrightarrow> next_line buf \<noteq> []"
  by (auto simp: next_line_def split: option.split)

text \<open>Name and value of a line, or nothing where the line is passed over.\<close>

definition line_pair :: "string \<Rightarrow> StringPair option option" where
  "line_pair line =
     (if starts_with ''#'' line \<or> starts_with ''//'' line then Some None
      else case TrimString line of
             None \<Rightarrow> None
           | Some l \<Rightarrow>
               (case strchr l SPACE of
                  None \<Rightarrow> Some None
                | Some i \<Rightarrow>
                    (case (TrimString (take i l), TrimString (drop (i + 1) l)) of
                       (Some n, Some v) \<Rightarrow> Some (Some \<lparr>sFirst = take (MAX_NAME_LEN - 1) n, sSecond = take (MAX_VALUE_LEN - 1) v\<rparr>)
                     | _ \<Rightarrow> None)))"

function load_pairs :: "string \<Rightarrow> StringPair list \<Rightarrow> nat \<Rightarrow> StringPair list option" where
  "load_pairs buf a i =
     (if buf = [] then if i < length a then Some (a[i := \<lparr>sFirst = [], sSecond = []\<rparr>]) else None
      else let line = next_line buf; rest = drop (length line) buf
        in case line_pair line of
             None \<Rightarrow> None
           | Some None \<Rightarrow> load_pairs rest a i
           | Some (Some p) \<Rightarrow> if i < length a then load_pairs rest (a[i := p]) (i + 1) else None)"
  by pat_completeness auto
termination by (relation "measure (\<lambda>(buf, a, i). length buf)") (auto simp: next_line_nonempty)

declare load_pairs.simps [simp del]

text \<open>The bound on the number of pairs that is passed is never looked at: \<open>a\<close> is the whole array.\<close>

definition LoadFromFile :: "string option \<Rightarrow> StringPair list \<Rightarrow> (int \<times> StringPair list) option" where
  "LoadFromFile file a =
     (case file of None \<Rightarrow> Some (-1, a) | Some buf \<Rightarrow> map_option (Pair 0) (load_pairs buf a 0))"

end
