(* ===== verification/ParaProps.thy ===== *)
theory ParaProps
  imports ParsePara
begin

text \<open>
  What is put into a list of name and value pairs is what a receiver of its text form gets out of it.
\<close>

section \<open>Escapes\<close>

lemma index_digit:
  assumes "n < 16"
  shows "get_index (sHexTable ! n) = int n" "sHexTable ! n \<noteq> CHR ''%''"
proof -
  have "\<forall>n\<in>{0..<16}. get_index (sHexTable ! n) = int n \<and> sHexTable ! n \<noteq> CHR ''%''"
    unfolding set_upt [symmetric] by code_simp
  with assms show "get_index (sHexTable ! n) = int n" "sHexTable ! n \<noteq> CHR ''%''" by simp_all
qed

lemma decode_escape:
  "decode_loop tiny (Suc room) (escape c @ s) = (case decode_loop tiny room s of (ret, d) \<Rightarrow> (ret, c # d))"
proof -
  have "(of_char c :: nat) < 256" by (metis nat_of_char_less_256)
  then have c: "of_char c div 16 < (16 :: nat)" by linarith
  have "nat (int (of_char c div 16) * 16 + int (of_char c mod 16)) = of_char c"
    by (simp add: nat_add_distrib nat_mult_distrib)
  then show ?thesis using c by (simp add: escape_def index_digit)
qed

lemma decode_plain:
  "c \<noteq> CHR ''%'' \<Longrightarrow> decode_loop tiny (Suc room) (c # s) = (case decode_loop tiny room s of (ret, d) \<Rightarrow> (ret, c # d))"
  by simp

lemma decode_encoded:
  "\<forall>c. e c = escape c \<or> e c = [c] \<and> c \<noteq> CHR ''%'' \<Longrightarrow> length s \<le> room \<Longrightarrow>
   decode_loop tiny room (concat (map e s)) = (0, s)"
proof (induction s arbitrary: room)
  case (Cons c s)
  obtain r where r: "room = Suc r" using Cons.prems(2) by (cases room) auto
  have IH: "decode_loop tiny r (concat (map e s)) = (0, s)" using Cons r by simp
  consider "e c = escape c" | "e c = [c]" "c \<noteq> CHR ''%''" using Cons.prems(1) by blast
  then show ?case by cases (simp_all add: r IH decode_escape)
qed simp

lemma decode_encode_string: "length s < n \<Longrightarrow> decode_string (encode_string s) n = (0, s)"
  unfolding decode_string_def encode_string_def
  by (rule decode_encoded) (auto simp: shouldencode_def ENCODE_TABLE_def)

lemma length_encoded: "\<forall>c. e c \<noteq> [] \<Longrightarrow> length s \<le> length (concat (map e s))"
proof (induction s)
  case (Cons c s)
  then have "length s \<le> length (concat (map e s))" "e c \<noteq> []" by simp_all
  then show ?case by (cases "e c") simp_all
qed simp

lemma decode_encode_hexstring: "decode_hexstring (encode_hexstring s) = (0, s)"
  unfolding decode_hexstring_def encode_hexstring_def
proof (rule decode_encoded)
  show "length s \<le> length (concat (map (\<lambda>c. if \<not> isprint c \<or> shouldencode c then escape c else [c]) s))"
    by (rule length_encoded) (simp add: escape_def)
qed (auto simp: shouldencode_def ENCODE_TABLE_def)

definition separator_free :: "string \<Rightarrow> bool" where
  "separator_free s \<longleftrightarrow> CHR ''='' \<notin> set s \<and> CHR ''&'' \<notin> set s \<and> NUL \<notin> set s"

lemma digit_char: "n < 16 \<Longrightarrow> separator_free [sHexTable ! n]"
proof -
  assume "n < 16"
  moreover have "\<forall>n\<in>{0..<16}. separator_free [sHexTable ! n]"
    unfolding set_upt [symmetric] separator_free_def by code_simp
  ultimately show ?thesis by simp
qed

lemma separator_free_append: "separator_free (s @ t) \<longleftrightarrow> separator_free s \<and> separator_free t"
  by (auto simp: separator_free_def)

lemma escape_free: "separator_free (escape c)"
proof -
  have "(of_char c :: nat) < 256" by (metis nat_of_char_less_256)
  then have "of_char c div 16 < (16 :: nat)" by linarith
  then have "separator_free [sHexTable ! (of_char c div 16)]" "separator_free [sHexTable ! (of_char c mod 16)]"
    by (rule digit_char) (rule digit_char, simp)
  then show ?thesis by (simp add: escape_def separator_free_def)
qed

lemma encode_string_free: "NUL \<notin> set s \<Longrightarrow> separator_free (encode_string s)"
proof (induction s)
  case Nil
  then show ?case by (simp add: encode_string_def separator_free_def)
next
  case (Cons c s)
  then have "separator_free (encode_string s)" by simp
  moreover have "separator_free (if shouldencode c then escape c else [c])"
    using Cons.prems escape_free by (auto simp: shouldencode_def ENCODE_TABLE_def separator_free_def)
  ultimately show ?case by (simp add: encode_string_def separator_free_append)
qed

section \<open>Text form\<close>

definition pair_text :: "StringPair \<Rightarrow> string" where
  "pair_text p = sFirst p @ CHR ''='' # sSecond p"

fun join :: "StringPair list \<Rightarrow> string" where
  "join [] = []"
| "join [p] = pair_text p"
| "join (p # q # ps) = pair_text p @ CHR ''&'' # join (q # ps)"

lemma encode_pairs_join:
  "length (concat (map (\<lambda>p. pair_text p @ ''&'') ps)) < room \<Longrightarrow>
   encode_pairs room ps = concat (map (\<lambda>p. pair_text p @ ''&'') ps)"
proof (induction ps arbitrary: room)
  case (Cons p ps)
  let ?s = "sFirst p @ ''='' @ sSecond p @ ''&''"
  have "length (concat (map (\<lambda>p. pair_text p @ ''&'') ps)) < room - length ?s" "length ?s < room"
    using Cons.prems by (auto simp: pair_text_def)
  with Cons.IH show ?case by (simp add: pair_text_def)
qed simp

lemma butlast_join: "butlast (concat (map (\<lambda>p. pair_text p @ ''&'') ps)) = join ps"
  by (induction ps rule: join.induct) (simp_all add: butlast_append pair_text_def)

definition good_pair :: "StringPair \<Rightarrow> bool" where
  "good_pair p \<longleftrightarrow> separator_free (sFirst p) \<and> separator_free (sSecond p) \<and> length (sFirst p) < MAX_NAME_LEN \<and>
     length (sSecond p) < MAX_VALUE_LEN"

lemma parse_token:
  "separator_free t \<Longrightarrow> length (buf @ t) < MAX_NAME_LEN + MAX_VALUE_LEN \<Longrightarrow>
   parse_loop CHR ''='' CHR ''&'' (t @ s) a i buf flag = parse_loop CHR ''='' CHR ''&'' s a i (buf @ t) flag"
proof (induction t arbitrary: buf)
  case (Cons c t)
  have c: "c \<noteq> CHR ''=''" "c \<noteq> CHR ''&''" "c \<noteq> NUL" "separator_free t" using Cons.prems(1) by (auto simp: separator_free_def)
  from Cons.IH [OF c(4), of "buf @ [c]"] Cons.prems(2) c show ?case by simp
qed simp

lemma parse_name:
  assumes "good_pair p" "i < length a"
  shows "parse_loop CHR ''='' CHR ''&'' (pair_text p @ s) a i [] False =
    parse_loop CHR ''='' CHR ''&'' s (a[i := (a ! i)\<lparr>sFirst := sFirst p\<rparr>]) i (sSecond p) True"
proof -
  have g: "separator_free (sFirst p)" "separator_free (sSecond p)" "length (sFirst p) < 200" "length (sSecond p) < 4096"
    using assms(1) by (simp_all add: good_pair_def MAX_NAME_LEN_def MAX_VALUE_LEN_def)
  let ?a = "a[i := (a ! i)\<lparr>sFirst := sFirst p\<rparr>]"
  have "parse_loop CHR ''='' CHR ''&'' (pair_text p @ s) a i [] False =
      parse_loop CHR ''='' CHR ''&'' (CHR ''='' # sSecond p @ s) a i (sFirst p) False"
    using parse_token [OF g(1), of "[]" "CHR ''='' # sSecond p @ s" a i False] g(3)
    by (simp add: pair_text_def MAX_NAME_LEN_def MAX_VALUE_LEN_def)
  also have "\<dots> = parse_loop CHR ''='' CHR ''&'' (sSecond p @ s) ?a i [] True"
    using g(3) assms(2) by (simp add: set_first_def MAX_NAME_LEN_def)
  also have "\<dots> = parse_loop CHR ''='' CHR ''&'' s ?a i (sSecond p) True"
    using parse_token [OF g(2), of "[]" s ?a i True] g(4) by (simp add: MAX_NAME_LEN_def MAX_VALUE_LEN_def)
  finally show ?thesis .
qed

lemma fill_pair [simp]: "(x :: StringPair)\<lparr>sFirst := sFirst p, sSecond := sSecond p\<rparr> = p"
  by (cases x; cases p) simp

lemma take_snoc_update: "i < length a \<Longrightarrow> take (Suc i) (a[i := x]) = take i a @ [x]"
  by (simp add: take_Suc_conv_app_nth)

lemma parse_join:
  "ps \<noteq> [] \<Longrightarrow> \<forall>p\<in>set ps. good_pair p \<Longrightarrow> i + length ps + 2 \<le> length a \<Longrightarrow>
   \<exists>a'. parse_loop CHR ''='' CHR ''&'' (join ps) a i [] False = Some (int (i + length ps), a') \<and>
     take (i + length ps) a' = take i a @ ps \<and> length a' = length a"
proof (induction ps arbitrary: a i rule: join.induct)
  case (2 p)
  let ?a = "a[i := (a ! i)\<lparr>sFirst := sFirst p\<rparr>]"
  have i: "i < length a" "i + 1 < length a" using "2.prems"(3) by simp_all
  have g: "good_pair p" "length (sSecond p) < MAX_VALUE_LEN" using "2.prems"(2) by (simp_all add: good_pair_def)
  have "parse_loop CHR ''='' CHR ''&'' (pair_text p) a i [] False = parse_last ?a i (sSecond p) True"
    using parse_name [OF g(1) i(1), of "[]"] by simp
  also have "\<dots> = Some (int i + 1, (a[i := p])[i + 1 := \<lparr>sFirst = [], sSecond = []\<rparr>])"
    using i g(2) by (simp add: parse_last_def set_second_def)
  finally show ?case using i by (simp add: take_snoc_update)
next
  case (3 p q ps)
  let ?a = "a[i := (a ! i)\<lparr>sFirst := sFirst p\<rparr>]"
  have i: "i < length a" "\<not> int i + 1 \<ge> int (length a) - 2" using "3.prems"(3) by simp_all
  have g: "good_pair p" "length (sSecond p) < MAX_VALUE_LEN" using "3.prems"(2) by (simp_all add: good_pair_def)
  have "parse_loop CHR ''='' CHR ''&'' (join (p # q # ps)) a i [] False =
      parse_loop CHR ''='' CHR ''&'' (CHR ''&'' # join (q # ps)) ?a i (sSecond p) True"
    using parse_name [OF g(1) i(1)] by simp
  also have "\<dots> = parse_loop CHR ''='' CHR ''&'' (join (q # ps)) (a[i := p]) (i + 1) [] False"
    using i g(2) by (simp add: set_second_def)
  finally have s: "parse_loop CHR ''='' CHR ''&'' (join (p # q # ps)) a i [] False =
      parse_loop CHR ''='' CHR ''&'' (join (q # ps)) (a[i := p]) (i + 1) [] False" .
  have "i + 1 + length (q # ps) + 2 \<le> length (a[i := p])" using "3.prems"(3) by simp
  from "3.IH" [OF _ _ this] "3.prems"(2) show ?case using i(1) unfolding s by (simp add: take_snoc_update)
qed simp

section \<open>A list of values\<close>

fun set_all :: "(string \<times> string) list \<Rightarrow> StringPairList \<Rightarrow> StringPairList option" where
  "set_all [] l = Some l"
| "set_all ((k, v) # kvs) l = (case SetParaValue l k v of None \<Rightarrow> None | Some (_, l) \<Rightarrow> set_all kvs l)"

definition good_value :: "string \<times> string \<Rightarrow> bool" where
  "good_value kv \<longleftrightarrow> separator_free (fst kv) \<and> length (fst kv) < MAX_NAME_LEN \<and> NUL \<notin> set (snd kv) \<and>
     length (encode_string (snd kv)) < MAX_VALUE_LEN"

definition value_pair :: "string \<times> string \<Rightarrow> StringPair" where
  "value_pair kv = \<lparr>sFirst = fst kv, sSecond = encode_string (snd kv)\<rparr>"

lemma set_all_pairs:
  "\<forall>kv\<in>set kvs. good_value kv \<Longrightarrow> iLast l + length kvs \<le> iMaxPairNum l \<Longrightarrow>
   \<exists>l'. set_all kvs l = Some l' \<and> pairs l' = pairs l @ map value_pair kvs"
proof (induction kvs arbitrary: l)
  case (Cons kv kvs)
  obtain k v where kv: "kv = (k, v)" by fastforce
  let ?l = "append_pair (value_pair kv) l"
  have "SetParaValue l k v = Some (0, ?l)"
    using Cons.prems by (simp add: SetParaValue_def set_encoded_def good_value_def kv value_pair_def MAX_VALUE_LEN_def MAX_NAME_LEN_def)
  moreover have "pairs ?l = pairs l @ [value_pair kv]" "iLast ?l + length kvs \<le> iMaxPairNum ?l"
    using Cons.prems(2) by (simp_all add: append_pair_def pairs_def take_snoc_update)
  ultimately show ?case using Cons.IH [of ?l] Cons.prems(1) by (auto simp: kv)
qed simp

lemma find_value:
  assumes "distinct (map (map toupper \<circ> fst) kvs)" "(k, v) \<in> set kvs"
  shows "find (name_eq k) (map value_pair kvs) = Some (value_pair (k, v))"
  using assms
proof (induction kvs)
  case (Cons kv kvs)
  show ?case
  proof (cases "kv = (k, v)")
    case True
    then show ?thesis by (simp add: name_eq_def value_pair_def)
  next
    case False
    then have "(k, v) \<in> set kvs" using Cons.prems(2) by simp
    moreover have "map toupper (fst kv) \<noteq> map toupper k"
    proof
      assume e: "map toupper (fst kv) = map toupper k"
      have "(map toupper \<circ> fst) (k, v) \<in> set (map (map toupper \<circ> fst) kvs)"
        using \<open>(k, v) \<in> set kvs\<close> unfolding set_map by (rule imageI)
      then show False using Cons.prems(1) e by simp
    qed
    then have "\<not> name_eq k (value_pair kv)" unfolding name_eq_def value_pair_def StringPair.simps by (metis (no_types))
    ultimately show ?thesis using Cons by simp
  qed
qed simp

section \<open>Properties\<close>

text \<open>C31: Values travel through the text form.  Put into a list under names that differ (case apart), written with
  \<^verbatim>\<open>EncodePara\<close> into an array with room for the text, and read with \<^verbatim>\<open>DecodePara\<close> into a list with room for two
  pairs more, every value comes back from \<^verbatim>\<open>GetParaValue\<close>, whatever characters it contains.\<close>

theorem para_roundtrip:
  assumes "kvs \<noteq> []" "\<forall>kv\<in>set kvs. good_value kv" "distinct (map (map toupper \<circ> fst) kvs)"
    "iLast l0 = 0" "length kvs \<le> iMaxPairNum l0" "length kvs + 2 \<le> iMaxPairNum m0"
    "length (concat (map (\<lambda>p. pair_text p @ ''&'') (map value_pair kvs))) < room" "(k, v) \<in> set kvs" "length v < n"
  shows "\<exists>l m. set_all kvs l0 = Some l \<and> DecodePara (EncodePara l room) m0 = Some (0, m) \<and> GetParaValue m k n = Some v"
proof -
  obtain l where l: "set_all kvs l0 = Some l" "pairs l = map value_pair kvs"
    using set_all_pairs [OF assms(2), of l0] assms(4,5) by (auto simp: pairs_def)
  let ?ps = "map value_pair kvs"
  have t: "EncodePara l room = join ?ps" by (simp only: EncodePara_def l(2) encode_pairs_join [OF assms(7)] butlast_join)
  have g: "\<forall>p\<in>set ?ps. good_pair p"
    using assms(2) by (auto simp: good_value_def good_pair_def value_pair_def intro: encode_string_free)
  have "0 + length ?ps + 2 \<le> length (pStrPairList m0)" using assms(6) by simp
  from parse_join [OF _ g this] assms(1) obtain a where
    a: "parse_loop CHR ''='' CHR ''&'' (join ?ps) (pStrPairList m0) 0 [] False = Some (int (length kvs), a)" "take (length kvs) a = ?ps"
    by auto
  have "join ?ps \<noteq> []" using assms(1) by (cases kvs rule: list.exhaust; cases "tl kvs") (auto simp: pair_text_def)
  then have p: "parsepara (join ?ps) (pStrPairList m0) CHR ''='' CHR ''&'' = Some (int (length kvs), a)"
    using a(1) by (simp add: parsepara_def)
  let ?m = "m0\<lparr>pStrPairList := a, iLast := length kvs\<rparr>"
  have "DecodePara (EncodePara l room) m0 = Some (0, ?m)" by (simp add: DecodePara_def t p)
  moreover have "pairs ?m = ?ps" using a(2) by (simp add: pairs_def)
  then have "GetParaValue ?m k n = Some v"
    using find_value [OF assms(3,8)] decode_encode_string [OF assms(9)]
    by (simp add: GetParaValue_def value_pair_def)
  ultimately show ?thesis using l(1) by blast
qed

definition example_values :: "(string \<times> string) list" where
  "example_values = [(''name'', ''a=b&c''), (''rate'', ''100%'')]"

theorem para_roundtrip_witness:
  "\<exists>l m. set_all example_values (the (CreateStringPairList 2)) = Some l \<and>
     DecodePara (EncodePara l 100) (the (CreateStringPairList 4)) = Some (0, m) \<and> GetParaValue m ''rate'' 10 = Some ''100%''"
proof (rule para_roundtrip)
  show "\<forall>kv\<in>set example_values. good_value kv" by code_simp
  show "distinct (map (map toupper \<circ> fst) example_values)" by code_simp
  show "length (concat (map (\<lambda>p. pair_text p @ ''&'') (map value_pair example_values))) < 100" by code_simp
qed (simp_all add: example_values_def CreateStringPairList_def)

section \<open>What does not come back\<close>

text \<open>Read into a list of the size it was made in, a text loses its last pairs.\<close>

lemma same_size_loses:
  "map_option (\<lambda>(r, m). (r, map sFirst (pairs m), GetParaValue m ''c'' 10))
     (DecodePara ''a=1&b=2&c=3'' (the (CreateStringPairList 3))) = Some (0, [''a'', []], None)"
  by code_simp

text \<open>\<^verbatim>\<open>TrimLeft\<close> empties a text with as many blanks in front as it has characters behind them.\<close>

lemma TrimLeft_empties: "n = length t \<Longrightarrow> t \<noteq> [] \<Longrightarrow> \<not> isspace (hd t) \<Longrightarrow> TrimLeft (replicate n SPACE @ t) = []"
proof -
  assume a: "n = length t" "t \<noteq> []" "\<not> isspace (hd t)"
  have "dropWhile isspace (replicate m SPACE @ t) = t" for m
    using a(2,3) by (induction m) (auto simp: isspace_def neq_Nil_conv)
  with a(1,2) show ?thesis by (simp add: TrimLeft_def)
qed

end
