(* ===== verification/Moni.thy ===== *)
theory Moni
  imports MyConfig
begin

text \<open>
  The traffic control of \<^verbatim>\<open>src/network/moni.c\<close>: how much of the work of the event loop is put off, from the
  speed of the network interface.  Counters are 64 bit words; the output of the shell pipeline that reads
  \<^verbatim>\<open>/proc/net/dev\<close> is an argument, \<open>None\<close> where \<^verbatim>\<open>popen\<close> fails.
\<close>

definition INTVAL_SEC :: "64 word" where "INTVAL_SEC = 5"
definition max_pend_value :: int where "max_pend_value = 0xFF"
definition pass_step :: int where "pass_step = 3"
definition pass_up_value :: "64 word" where "pass_up_value = 240"
definition max_pass_up_value :: "64 word" where "max_pass_up_value = 300"
definition max_pass_up_value_2 :: "64 word" where "max_pass_up_value_2 = 400"
definition pass_down_value :: "64 word" where "pass_down_value = 160"
definition min_pass_size :: "64 word" where "min_pass_size = 1024"

record tc =
  tc_face_name :: "string option"
  recv_limit :: int
  send_limit :: int
  recv_pass_ratio :: int
  send_pass_ratio :: int

definition pass_all :: "tc \<Rightarrow> tc" where
  "pass_all t = t\<lparr>send_pass_ratio := max_pend_value, recv_pass_ratio := max_pend_value\<rparr>"

definition get_tc_recv_send :: "string option \<Rightarrow> tc \<Rightarrow> (64 word \<times> 64 word) option \<times> tc" where
  "get_tc_recv_send buf t =
     (case buf of
        None \<Rightarrow> (None, pass_all t)
      | Some buf \<Rightarrow>
          (case strchr buf SPACE of
             None \<Rightarrow> (None, pass_all t)
           | Some i \<Rightarrow> (Some (word_of_int (atol (take i buf)), word_of_int (atol (drop (i + 1) buf))), t)))"

definition at_least_5 :: "int \<Rightarrow> int" where
  "at_least_5 r = (if r < 5 then 5 else r)"

definition cal_limit :: "int \<Rightarrow> 64 word \<Rightarrow> 64 word \<Rightarrow> int \<Rightarrow> int" where
  "cal_limit result two one int_limit =
     (if two - one < min_pass_size
      then at_least_5 (if result * 2 > max_pend_value then max_pend_value else result * 2)
      else let cur_speed = 8 * (two - one) div INTVAL_SEC;
               cur_pass_ratio = word_of_int max_pend_value * cur_speed div word_of_int int_limit
        in if cur_pass_ratio \<le> pass_down_value
           then (if result + pass_step > max_pend_value then max_pend_value else result + pass_step)
           else if cur_pass_ratio \<le> pass_up_value then result
           else if cur_pass_ratio \<le> max_pass_up_value then at_least_5 (result - pass_step)
           else if cur_pass_ratio \<le> max_pass_up_value_2 then at_least_5 (result - pass_step * 2)
           else at_least_5 (result div 2))"

text \<open>\<open>first\<close> and \<open>second\<close> are the two readings, five seconds apart.\<close>

definition check_tc :: "string option \<Rightarrow> string option \<Rightarrow> tc \<Rightarrow> tc" where
  "check_tc first second t =
     (if tc_face_name t = None then t
      else case get_tc_recv_send first t of
        (None, t) \<Rightarrow> t
      | (Some (recv_bytes, send_bytes), t) \<Rightarrow>
          (case get_tc_recv_send second t of
             (None, t) \<Rightarrow> t
           | (Some (recv_bytes_2, send_bytes_2), t) \<Rightarrow>
               let t = (if send_limit t > 0
                        then t\<lparr>send_pass_ratio := cal_limit (send_pass_ratio t) send_bytes_2 send_bytes (send_limit t)\<rparr> else t)
               in if recv_limit t > 0
                  then t\<lparr>recv_pass_ratio := cal_limit (recv_pass_ratio t) recv_bytes_2 recv_bytes (recv_limit t)\<rparr> else t))"

definition init_tc :: "config \<Rightarrow> tc \<Rightarrow> config \<times> tc" where
  "init_tc st t =
     (let t = (pass_all t)\<lparr>tc_face_name := myconfig_get_value ''tc_face_name'' st\<rparr>
      in if tc_face_name t = None then (st, t)
         else let (r, st) = myconfig_get_intval ''tc_recv_limit'' (-1) st; (s, st) = myconfig_get_intval ''tc_send_limit'' (-1) st
              in (st, t\<lparr>recv_limit := r, send_limit := s\<rparr>))"

definition ratio_ok :: "int \<Rightarrow> bool" where
  "ratio_ok r \<longleftrightarrow> 5 \<le> r \<and> r \<le> max_pend_value"

definition tc_ok :: "tc \<Rightarrow> bool" where
  "tc_ok t \<longleftrightarrow> ratio_ok (recv_pass_ratio t) \<and> ratio_ok (send_pass_ratio t)"

lemma cal_limit_ok: "ratio_ok r \<Longrightarrow> ratio_ok (cal_limit r two one l)"
  unfolding cal_limit_def ratio_ok_def at_least_5_def max_pend_value_def pass_step_def Let_def by (simp; linarith)

lemma pass_all_ok: "tc_ok (pass_all t)"
  by (simp add: tc_ok_def pass_all_def ratio_ok_def max_pend_value_def)

lemma tc_ok_upd:
  "tc_ok t \<Longrightarrow> ratio_ok r \<Longrightarrow> tc_ok (t\<lparr>send_pass_ratio := r\<rparr>)" "tc_ok t \<Longrightarrow> ratio_ok r \<Longrightarrow> tc_ok (t\<lparr>recv_pass_ratio := r\<rparr>)"
  "tc_ok t \<Longrightarrow> ratio_ok (send_pass_ratio t)" "tc_ok t \<Longrightarrow> ratio_ok (recv_pass_ratio t)"
  by (simp_all add: tc_ok_def)

lemma get_tc_ok: "tc_ok t \<Longrightarrow> get_tc_recv_send b t = (r, t') \<Longrightarrow> tc_ok t'"
  by (auto simp: get_tc_recv_send_def pass_all_ok split: option.splits)

lemma check_tc_ok:
  assumes "tc_ok t"
  shows "tc_ok (check_tc a b t)"
proof -
  obtain r1 t1 where 1: "get_tc_recv_send a t = (r1, t1)" by fastforce
  obtain r2 t2 where 2: "get_tc_recv_send b t1 = (r2, t2)" by fastforce
  have ok: "tc_ok t1" "tc_ok t2" using get_tc_ok [OF assms 1] get_tc_ok [OF _ 2] by simp_all
  show ?thesis using assms ok
    by (auto simp: check_tc_def 1 2 Let_def cal_limit_ok tc_ok_upd split: option.splits)
qed

text \<open>C40: The share of work that is let through stays between 5 and 255 of 256 from the start on, whatever the
  interface reports, so traffic control never stops a connection for good.\<close>

theorem pass_ratio_bounds:
  "let t' = fold (\<lambda>(a, b). check_tc a b) readings (snd (init_tc st t)) in
     5 \<le> send_pass_ratio t' \<and> send_pass_ratio t' \<le> 255 \<and> 5 \<le> recv_pass_ratio t' \<and> recv_pass_ratio t' \<le> 255"
proof -
  have "tc_ok (snd (init_tc st t))"
    using pass_all_ok [of t] by (auto simp: init_tc_def Let_def tc_ok_def split: prod.split)
  then have "tc_ok (fold (\<lambda>(a, b). check_tc a b) readings (snd (init_tc st t)))"
    by (induction readings arbitrary: st t rule: rev_induct) (auto simp: check_tc_ok)
  then show ?thesis by (simp add: tc_ok_def ratio_ok_def max_pend_value_def Let_def)
qed

end
