(* ===== verification/FileFilter.thy ===== *)
theory FileFilter
  imports MyConfigProps
begin

text \<open>
  Which files are sent, \<^verbatim>\<open>src/network/vfs_file_filter.c\<close>: a list of suffixes from the configuration.
  Allocation succeeds.
\<close>

record t_vfs_filter =
  f_strings :: string
  s_len :: nat
  f_type :: int

text \<open>The text is cut to its array; the length, kept in a byte, is that of the whole text.\<close>

definition add_filter :: "string \<Rightarrow> int \<Rightarrow> t_vfs_filter list \<Rightarrow> t_vfs_filter list" where
  "add_filter s ty mlist = \<lparr>f_strings = snprint 64 s, s_len = length s mod 256, f_type = ty\<rparr> # mlist"

definition skip_star :: "string \<Rightarrow> string" where
  "skip_star s = (case s of c # t \<Rightarrow> if c = CHR ''*'' then t else s | [] \<Rightarrow> [])"

text \<open>
  An entry that is empty leaves the pointer where it is, in front of the terminator that was just written: the
  rest of the text is never looked at.
\<close>

function sub_init_filter :: "string \<Rightarrow> int \<Rightarrow> t_vfs_filter list \<Rightarrow> t_vfs_filter list" where
  "sub_init_filter s ty mlist =
     (case strchr s CHR ''|'' of
        None \<Rightarrow> (if skip_star s = [] then mlist else add_filter (skip_star s) ty mlist)
      | Some i \<Rightarrow>
          (if skip_star (take i s) = [] then mlist
           else sub_init_filter (drop (i + 1) s) ty (add_filter (skip_star (take i s)) ty mlist)))"
  by pat_completeness auto
termination
proof (relation "measure (\<lambda>(s, ty, mlist). length s)")
  fix s :: string and ty :: int and mlist :: "t_vfs_filter list" and i
  assume "strchr s CHR ''|'' = Some i"
  then have "i < length s" unfolding strchr_Some_split by simp
  then show "((drop (i + 1) s, ty, add_filter (skip_star (take i s)) ty mlist), s, ty, mlist) \<in> measure (\<lambda>(s, ty, mlist). length s)"
    by simp
qed simp

declare sub_init_filter.simps [simp del]

text \<open>The values of \<^verbatim>\<open>file_allow_suffix\<close>, one after the other; \<open>n\<close> bounds their number.\<close>

fun init_loop :: "nat \<Rightarrow> int \<Rightarrow> config \<Rightarrow> t_vfs_filter list \<Rightarrow> t_vfs_filter list option" where
  "init_loop 0 i st mlist = None"
| "init_loop (Suc n) i st mlist =
     (case myconfig_get_multivalue ''file_allow_suffix'' i st of
        None \<Rightarrow> Some mlist
      | Some v \<Rightarrow> init_loop n (i + 1) st (if v = [] then mlist else sub_init_filter v 0 mlist))"

definition init_file_filter :: "nat \<Rightarrow> config \<Rightarrow> t_vfs_filter list option" where
  "init_file_filter n st = init_loop n 0 st []"

fun check_file_allow :: "t_vfs_filter list \<Rightarrow> string \<Rightarrow> int" where
  "check_file_allow [] file = 1"
| "check_file_allow (f # fs) file =
     (if s_len f > length file then check_file_allow fs file
      else if f_type f = 0 \<and> drop (length file - s_len f) file = f_strings f then 0
      else check_file_allow fs file)"

definition check_file_filter :: "t_vfs_filter list \<Rightarrow> string \<Rightarrow> int" where
  "check_file_filter allow_list file = check_file_allow allow_list file"

definition check_mp4_filter :: "string \<Rightarrow> int" where
  "check_mp4_filter file = (if length file > 4 \<and> drop (length file - 4) file = ''.mp4'' then 0 else 1)"

section \<open>Suffixes\<close>

definition suffix_filter :: "string \<Rightarrow> t_vfs_filter" where
  "suffix_filter s = \<lparr>f_strings = s, s_len = length s, f_type = 0\<rparr>"

definition plain_suffix :: "string \<Rightarrow> bool" where
  "plain_suffix s \<longleftrightarrow> s \<noteq> [] \<and> CHR ''|'' \<notin> set s \<and> length s < 64 \<and> hd s \<noteq> CHR ''*''"

fun join_bar :: "string list \<Rightarrow> string" where
  "join_bar [] = []"
| "join_bar [s] = CHR ''*'' # s"
| "join_bar (s # t # ss) = CHR ''*'' # s @ CHR ''|'' # join_bar (t # ss)"

lemma add_plain: "plain_suffix s \<Longrightarrow> add_filter s 0 fs = suffix_filter s # fs"
  by (simp add: add_filter_def suffix_filter_def plain_suffix_def)

lemma sub_init_last:
  assumes "plain_suffix s"
  shows "sub_init_filter (CHR ''*'' # s) 0 fs = suffix_filter s # fs"
proof -
  have "strchr (CHR ''*'' # s) CHR ''|'' = None" "skip_star (CHR ''*'' # s) = s" "s \<noteq> []"
    using assms by (simp_all only: strchr_None) (simp_all add: plain_suffix_def skip_star_def)
  then show ?thesis by (subst sub_init_filter.simps) (simp only: option.case if_False add_plain [OF assms])
qed

lemma sub_init_more:
  assumes "plain_suffix s"
  shows "sub_init_filter (CHR ''*'' # s @ CHR ''|'' # r) 0 fs = sub_init_filter r 0 (suffix_filter s # fs)"
proof -
  have c: "strchr ((CHR ''*'' # s) @ CHR ''|'' # r) CHR ''|'' = Some (length (CHR ''*'' # s))"
    using assms by (intro strchr_append) (simp add: plain_suffix_def)
  have "skip_star (CHR ''*'' # s) = s" "s \<noteq> []" using assms by (simp_all add: skip_star_def plain_suffix_def)
  then show ?thesis using c by (subst sub_init_filter.simps) (simp add: add_plain [OF assms])
qed

lemma sub_init_join: "ss \<noteq> [] \<Longrightarrow> \<forall>s\<in>set ss. plain_suffix s \<Longrightarrow> sub_init_filter (join_bar ss) 0 fs = rev (map suffix_filter ss) @ fs"
  by (induction ss arbitrary: fs rule: join_bar.induct) (simp_all add: sub_init_last sub_init_more)

lemma check_suffixes: "check_file_allow (map suffix_filter ss) file = (if \<exists>s\<in>set ss. \<exists>r. file = r @ s then 0 else 1)"
proof (induction ss)
  case (Cons s ss)
  have "(length s \<le> length file \<and> drop (length file - length s) file = s) \<longleftrightarrow> (\<exists>r. file = r @ s)"
    by (metis append_eq_conv_conj append_take_drop_id diff_diff_cancel length_append length_drop le_add2 diff_add_inverse2)
  with Cons show ?case by (auto simp: suffix_filter_def)
qed simp

lemma sub_init_empty: "sub_init_filter [] ty mlist = mlist"
  by (subst sub_init_filter.simps) (simp add: strchr_None skip_star_def)

text \<open>The loop over the values ends, one round behind the last one.\<close>

lemma init_loop_values:
  "length (drop i (vals st ''file_allow_suffix'')) < n \<Longrightarrow>
   init_loop n (int i) st mlist = Some (fold (\<lambda>v fs. sub_init_filter v 0 fs) (drop i (vals st ''file_allow_suffix'')) mlist)"
proof (induction n arbitrary: i mlist)
  case (Suc n)
  let ?vs = "vals st ''file_allow_suffix''"
  show ?case
  proof (cases "i < length ?vs")
    case True
    then have d: "drop i ?vs = ?vs ! i # drop (Suc i) ?vs" by (rule Cons_nth_drop_Suc [symmetric])
    have "(if ?vs ! i = [] then mlist else sub_init_filter (?vs ! i) 0 mlist) = sub_init_filter (?vs ! i) 0 mlist"
      by (simp add: sub_init_empty)
    then show ?thesis using Suc.IH [of "Suc i"] Suc.prems True unfolding d
      by (simp add: get_multivalue_vals add.commute)
  qed (simp add: get_multivalue_vals)
qed simp

lemma fold_sub_init_join:
  "\<forall>ss\<in>set sss. ss \<noteq> [] \<and> (\<forall>s\<in>set ss. plain_suffix s) \<Longrightarrow>
   fold (\<lambda>v fs. sub_init_filter v 0 fs) (map join_bar sss) fs = rev (map suffix_filter (concat sss)) @ fs"
  by (induction sss arbitrary: fs) (simp_all add: sub_init_join)

text \<open>C37: Reading the filter from a configuration returns, after one round more than there are values, and with
  lists \<^verbatim>\<open>*.a|*.b|\<dots>\<close> of suffixes as values of \<^verbatim>\<open>file_allow_suffix\<close> the filter lets through exactly the
  files that end in one of the suffixes.\<close>

theorem filter_allows_suffixes:
  assumes "vals st ''file_allow_suffix'' = map join_bar sss" "\<forall>ss\<in>set sss. ss \<noteq> [] \<and> (\<forall>s\<in>set ss. plain_suffix s)"
    "length sss < n"
  shows "\<exists>fs. init_file_filter n st = Some fs \<and>
    (\<forall>name. check_file_filter fs name = (if \<exists>ss\<in>set sss. \<exists>s\<in>set ss. \<exists>r. name = r @ s then 0 else 1))"
proof -
  have "init_file_filter n st = Some (fold (\<lambda>v fs. sub_init_filter v 0 fs) (map join_bar sss) [])"
    using init_loop_values [of 0 st n "[]"] assms(1,3) by (simp add: init_file_filter_def)
  then have "init_file_filter n st = Some (map suffix_filter (rev (concat sss)))"
    by (simp add: fold_sub_init_join [OF assms(2)] rev_map)
  then show ?thesis using check_suffixes [of "rev (concat sss)"] by (simp add: check_file_filter_def)
qed

definition suffix_config :: config where
  "suffix_config = snd (the (myconfig_put_value ''file-'' ''allow_suffix'' ''*.mp4|*.flv'' config0))"

theorem filter_allows_suffixes_witness:
  "\<exists>fs. init_file_filter 2 suffix_config = Some fs \<and> check_file_filter fs ''a.flv'' = 0 \<and> check_file_filter fs ''a.jpg'' = 1"
proof -
  have v: "vals suffix_config ''file_allow_suffix'' = map join_bar [[''.mp4'', ''.flv'']]" by code_simp
  have p: "\<forall>ss\<in>set [[''.mp4'', ''.flv'']]. ss \<noteq> [] \<and> (\<forall>s\<in>set ss. plain_suffix s)" by (simp add: plain_suffix_def)
  have "\<exists>r. ''a.flv'' = r @ ''.flv''" by (intro exI [of _ "''a''"]) simp
  moreover have "\<not> (\<exists>r. ''a.jpg'' = r @ ''.mp4'')" "\<not> (\<exists>r. ''a.jpg'' = r @ ''.flv'')"
    by (auto dest: arg_cong [of _ _ last])
  ultimately show ?thesis using filter_allows_suffixes [OF v p, of 2] by auto
qed

text \<open>An empty entry hides those behind it.\<close>

lemma empty_entry_hides: "strchr s CHR ''|'' = Some i \<Longrightarrow> skip_star (take i s) = [] \<Longrightarrow> sub_init_filter s ty fs = fs"
  by (subst sub_init_filter.simps) simp

end
