(* ===== verification/VfsInit.thy ===== *)
theory VfsInit
  imports MyConfig Locks TaskTypes
begin

text \<open>
  Start up, \<^verbatim>\<open>src/network/vfs_init.c\<close>: the program's parameters, taken from the configuration, and the
  table of the addresses of the cluster.  Threads, sockets and the attributes of files are left out.
\<close>

section \<open>Parameters\<close>

record g_config = t_g_config +
  data_port :: int
  lock_timeout :: int
  task_splic_count :: int
  src_root_len :: int
  dir_uid :: int
  dir_gid :: int
  cs_preday :: int
  fcs_max_connects :: int
  cs_max_connects :: int
  fcs_max_task :: int
  reload_time :: int
  voss_interval :: int
  continue_flag :: int
  vfs_test :: int
  real_rm_time :: int
  cs_sync_dir :: int
  data_calcu_md5 :: int
  sync_dir_count :: int
  mindiskfree :: int
  domain_prefix :: string
  domain_suffix :: string
  sync_stime :: string
  sync_etime :: string

text \<open>Conversion to \<^verbatim>\<open>uint16_t\<close> and \<^verbatim>\<open>uint8_t\<close>.\<close>

definition u16 :: "int \<Rightarrow> int" where "u16 v = v mod 2 ^ 16"
definition u8 :: "int \<Rightarrow> int" where "u8 v = v mod 2 ^ 8"

text \<open>One parameter; reading it may remember a number in the table.\<close>

definition geti :: "string \<Rightarrow> int \<Rightarrow> (int \<Rightarrow> 'g \<Rightarrow> 'g) \<Rightarrow> config \<times> 'g \<Rightarrow> config \<times> 'g" where
  "geti key dflt put = (\<lambda>(st, g). case myconfig_get_intval key dflt st of (v, st) \<Rightarrow> (st, put v g))"

definition steps :: "('s \<Rightarrow> 's) list \<Rightarrow> 's \<Rightarrow> 's" where
  "steps fs s = fold (\<lambda>f. f) fs s"

definition reload_config :: "config \<times> g_config \<Rightarrow> config \<times> g_config" where
  "reload_config = steps
     [geti ''cs_preday'' 5 (\<lambda>v g. g\<lparr>cs_preday := u16 v\<rparr>),
      geti ''fcs_max_connects'' 10 (\<lambda>v g. g\<lparr>fcs_max_connects := u16 v\<rparr>),
      geti ''cs_max_connects'' 20 (\<lambda>v g. g\<lparr>cs_max_connects := u16 v\<rparr>),
      geti ''cs_max_task_run_once'' 32 (\<lambda>v g. g\<lparr>cs_max_task_run_once := nat (u16 v)\<rparr>),
      geti ''fcs_max_task'' 32 (\<lambda>v g. g\<lparr>fcs_max_task := u16 v\<rparr>),
      geti ''reload_time'' 3600 (\<lambda>v g. g\<lparr>reload_time := u16 v\<rparr>),
      geti ''voss_interval'' 300 (\<lambda>v g. g\<lparr>voss_interval := u16 v\<rparr>),
      geti ''continue_flag'' 0 (\<lambda>v g. g\<lparr>continue_flag := u8 v\<rparr>),
      geti ''vfs_test'' 0 (\<lambda>v g. g\<lparr>vfs_test := u8 v\<rparr>),
      geti ''real_rm_time'' 7200 (\<lambda>v g. g\<lparr>real_rm_time := v\<rparr>),
      geti ''task_timeout'' 86400 (\<lambda>v g. g\<lparr>task_timeout := v\<rparr>),
      geti ''cs_sync_dir'' 0 (\<lambda>v g. g\<lparr>cs_sync_dir := u8 v\<rparr>),
      geti ''data_calcu_md5'' 0 (\<lambda>v g. g\<lparr>data_calcu_md5 := u8 v\<rparr>),
      geti ''sync_dir_count'' 10 (\<lambda>v g. g\<lparr>sync_dir_count := u8 v\<rparr>)]"

definition check_storage_dir :: "config \<times> g_config \<Rightarrow> int \<times> config \<times> g_config" where
  "check_storage_dir = (\<lambda>(st, g).
     case myconfig_get_value ''vfs_src_datadir'' st of
       None \<Rightarrow> (-1, st, g)
     | Some p \<Rightarrow> (if myconfig_get_value ''vfs_dst_datadir'' st = None then -1 else 0, st, g\<lparr>src_root_len := int (length p)\<rparr>))"

text \<open>The value of a text parameter, cut to the size of its array.\<close>

definition gets :: "string \<Rightarrow> string \<Rightarrow> nat \<Rightarrow> config \<Rightarrow> string" where
  "gets key dflt n st = snprint n (case myconfig_get_value key st of None \<Rightarrow> dflt | Some v \<Rightarrow> v)"

text \<open>The default of four gigabytes is \<^verbatim>\<open>4 << 30\<close> on \<^verbatim>\<open>int\<close>, which wraps to 0.\<close>

definition disk_minfree :: "string option \<Rightarrow> int" where
  "disk_minfree mindisk =
     (let dflt = to_int32 (4 * 2 ^ 30) mod 2 ^ 64
      in case mindisk of
           None \<Rightarrow> dflt
         | Some v \<Rightarrow>
             let c = (if v = [] then NUL else last v);
                 unit_size = (if c = CHR ''M'' \<or> c = CHR ''m'' then 2 ^ 20
                              else if c = CHR ''K'' \<or> c = CHR ''k'' then 2 ^ 10 else (2 :: int) ^ 30);
                 i = atoi v
             in if i \<le> 0 then dflt else i * unit_size mod 2 ^ 64)"

text \<open>\<open>nobody\<close> is what the shell pipeline prints, \<open>None\<close> where it cannot be started.  The result has the size of the
  socket buffers as well.\<close>

definition init_global :: "string option \<Rightarrow> config \<times> g_config \<Rightarrow> int \<times> int \<times> config \<times> g_config" where
  "init_global nobody s =
     (let (st, g) = steps
        [geti ''sig_port'' 39090 (\<lambda>v g. g\<lparr>sig_port := nat (u16 v)\<rparr>),
         geti ''data_port'' 49090 (\<lambda>v g. g\<lparr>data_port := u16 v\<rparr>),
         geti ''timeout'' 300 (\<lambda>v g. g\<lparr>conn_timeout := nat (u16 v)\<rparr>),
         geti ''cktimeout'' 5 (\<lambda>v g. g\<lparr>cktimeout := nat (u16 v)\<rparr>),
         geti ''lock_timeout'' 10 (\<lambda>v g. g\<lparr>lock_timeout := u16 v\<rparr>),
         geti ''task_splic_count'' 100 (\<lambda>v g. g\<lparr>task_splic_count := v\<rparr>),
         geti ''splic_min_size'' 10240000 (\<lambda>v g. g\<lparr>splic_min_size := v\<rparr>)] s;
          (bs, st) = myconfig_get_intval ''socket_buff'' 65536 st;
          bs = (if bs < 20480 then 20480 else bs);
          (r, st, g) = check_storage_dir (st, g)
      in if r \<noteq> 0 then (-1, bs, st, g)
         else let (st, g) = geti ''vfs_retry'' 0 (\<lambda>v g. g\<lparr>cfg_retry := nat (u8 (v + 1))\<rparr>) (st, g)
           in case nobody of
                None \<Rightarrow> (-1, bs, st, g)
              | Some out \<Rightarrow>
                  let buf = snprint 32 out
                  in case strchr buf SPACE of
                       None \<Rightarrow> (-1, bs, st, g)
                     | Some i \<Rightarrow>
                         let g = g\<lparr>dir_uid := u16 (atoi buf), dir_gid := u16 (atoi (drop (i + 1) buf))\<rparr>;
                             (st, g) = reload_config (st, g)
                         in (0, bs, st, g\<lparr>domain_prefix := gets ''domain_prefix'' ''fcs'' 32 st,
                              domain_suffix := gets ''domain_suffix'' ''56.com'' 32 st,
                              mindiskfree := disk_minfree (myconfig_get_value ''disk_minfree'' st),
                              sync_stime := gets ''vfs_sync_starttime'' ''01:00:00'' 12 st,
                              sync_etime := gets ''vfs_sync_endtime'' ''09:00:00'' 12 st\<rparr>))"

section \<open>Addresses\<close>

datatype role = UNKOWN | ROLE_FCS | ROLE_CS

record t_ip_info =
  ip :: uint32
  sip :: string
  ip_role :: role

text \<open>The table \<^verbatim>\<open>cfg_iplist\<close>, and the number of spare nodes on \<^verbatim>\<open>iphome\<close>.\<close>

record ip_state =
  cfg_iplist :: "nat \<Rightarrow> t_ip_info list"
  iphome :: nat

definition ip_bucket :: "uint32 \<Rightarrow> nat" where
  "ip_bucket a = unat (a AND 0xFF)"

definition get_ip_info_by_uint :: "int \<Rightarrow> uint32 \<Rightarrow> bool \<Rightarrow> string \<Rightarrow> ip_state \<Rightarrow> int \<times> t_ip_info option" where
  "get_ip_info_by_uint lk a locked name s =
     (if locked \<and> lock_failed lk then (-2, None)
      else case find (\<lambda>i. a = ip i \<or> sip i = name) (cfg_iplist s (ip_bucket a)) of
             None \<Rightarrow> (-1, None)
           | Some i \<Rightarrow> (0, Some i))"

definition get_ip_info :: "(string \<Rightarrow> string option) \<Rightarrow> int \<Rightarrow> string \<Rightarrow> bool \<Rightarrow> ip_state \<Rightarrow> int \<times> t_ip_info option" where
  "get_ip_info resolve lk name locked s = get_ip_info_by_uint lk (fst (get_uint32_ip resolve name)) locked name s"

text \<open>Where no spare node is left one is allocated, which succeeds.\<close>

definition add_ip_info :: "(string \<Rightarrow> string option) \<Rightarrow> t_ip_info \<Rightarrow> ip_state \<Rightarrow> int \<times> ip_state" where
  "add_ip_info resolve ipinfo s =
     (if fst (get_ip_info resolve 0 (sip ipinfo) False s) = 0 then (0, s)
      else (0, s\<lparr>cfg_iplist := (cfg_iplist s)(ip_bucket (ip ipinfo) := ipinfo # cfg_iplist s (ip_bucket (ip ipinfo))),
                 iphome := iphome s - 1\<rparr>))"

definition sub_add_cluste_ip ::
  "(string \<Rightarrow> string option) \<Rightarrow> config \<Rightarrow> string \<Rightarrow> role \<Rightarrow> ip_state \<Rightarrow> int \<times> ip_state" where
  "sub_add_cluste_ip resolve st name r s =
     (case myconfig_get_value (''iplist_'' @ name) st of
        None \<Rightarrow> (-1, s)
      | Some v \<Rightarrow>
          if str2ip v = INADDR_NONE then (-1, s)
          else add_ip_info resolve \<lparr>ip = str2ip v, sip = snprint 128 v, ip_role = r\<rparr> s)"

text \<open>\<^verbatim>\<open>||\<close> gives 1 as soon as one of the two fails.\<close>

definition add_cluste_ip :: "(string \<Rightarrow> string option) \<Rightarrow> config \<Rightarrow> ip_state \<Rightarrow> int \<times> ip_state" where
  "add_cluste_ip resolve st s =
     (case sub_add_cluste_ip resolve st ''ucip'' ROLE_FCS s of
        (r, s) \<Rightarrow> if r \<noteq> 0 then (1, s)
                  else (case sub_add_cluste_ip resolve st ''smip'' ROLE_CS s of (r, s) \<Rightarrow> (if r \<noteq> 0 then 1 else 0, s)))"

text \<open>All nodes go back to \<^verbatim>\<open>iphome\<close> first.\<close>

definition reload_cfg :: "(string \<Rightarrow> string option) \<Rightarrow> int \<Rightarrow> config \<Rightarrow> ip_state \<Rightarrow> int \<times> ip_state" where
  "reload_cfg resolve lk st s =
     (if lock_failed lk then (-2, s)
      else case add_cluste_ip resolve st
             (s\<lparr>cfg_iplist := (\<lambda>_. []), iphome := iphome s + (\<Sum>b<256. length (cfg_iplist s b))\<rparr>) of
        (r, s) \<Rightarrow> (if r \<noteq> 0 then -1 else lk, s))"

definition ip_state0 :: ip_state where
  "ip_state0 = \<lparr>cfg_iplist = (\<lambda>_. []), iphome = 2048\<rparr>"

text \<open>\<open>localip\<close> holds up to 64 addresses, with 0 behind the last.\<close>

fun check_self_ip :: "uint32 list \<Rightarrow> uint32 \<Rightarrow> int" where
  "check_self_ip [] a = -1"
| "check_self_ip (l # ls) a = (if l = 0 then -1 else if l = a then 0 else check_self_ip ls a)"

fun get_self_info :: "(string \<Rightarrow> string option) \<Rightarrow> uint32 list \<Rightarrow> ip_state \<Rightarrow> int \<times> t_ip_info option" where
  "get_self_info resolve [] s = (-1, None)"
| "get_self_info resolve (l # ls) s =
     (if l = 0 then (-1, None)
      else case get_ip_info resolve 0 (ip2str l) False s of
        (r, i) \<Rightarrow> if r = 0 then (0, i) else get_self_info resolve ls s)"

text \<open>\<open>lks\<close> are the outcomes of the lock; a failed one is tried again a second later.\<close>

datatype server_stat = UNKOWN_STAT | WAIT_SYNC | SYNCING | ON_LINE | OFF_LINE

fun check_self_stat ::
  "(string \<Rightarrow> string option) \<Rightarrow> int list \<Rightarrow> string \<Rightarrow> ip_state \<Rightarrow> int \<Rightarrow> server_stat \<times> int \<Rightarrow> (server_stat \<times> int) option" where
  "check_self_stat resolve [] name s now x = None"
| "check_self_stat resolve (lk # lks) name s now (self_stat, self_offline_time) =
     (let r = fst (get_ip_info resolve lk name True s)
      in if r = -2 then check_self_stat resolve lks name s now (self_stat, self_offline_time)
         else if r = 0 then Some (if self_stat = OFF_LINE then UNKOWN_STAT else self_stat, self_offline_time)
         else if self_stat \<noteq> OFF_LINE then Some (OFF_LINE, now) else Some (self_stat, self_offline_time))"

section \<open>Names\<close>

definition ispname :: "string list" where
  "ispname = [''tel'', ''cnc'', ''edu'', ''tt'', ''yd'', ''hs'', ''mp4'']"

text \<open>The array has 255 entries of which seven are set; the eighth is a null pointer, whose length is taken.\<close>

definition get_isp_by_name :: "string \<Rightarrow> int option" where
  "get_isp_by_name name = (case find (\<lambda>i. ispname ! i = name) [0..<length ispname] of None \<Rightarrow> None | Some i \<Rightarrow> Some (int i))"

text \<open>The remainder of \<^verbatim>\<open>int\<close>, which has the sign of the dividend.\<close>

definition c_rem :: "int \<Rightarrow> int \<Rightarrow> int" where
  "c_rem a b = (if a < 0 then - ((- a) mod b) else a mod b)"

definition DIR1 :: int where "DIR1 = 30"
definition DIR2 :: int where "DIR2 = 30"

definition get_dir1_dir2 :: "string \<Rightarrow> int \<times> int \<times> int" where
  "get_dir1_dir2 pathsrc =
     (let path = snprint 256 pathsrc
      in case strrchr path CHR ''/'' of
           None \<Rightarrow> (-1, 0, 0)
         | Some i \<Rightarrow>
             (case strrchr (take i path) CHR ''/'' of
                None \<Rightarrow> (-1, 0, 0)
              | Some j \<Rightarrow>
                  let dir2 = c_rem (atoi (drop (j + 1) (take i path))) DIR2
                  in case strrchr (take j path) CHR ''/'' of
                       None \<Rightarrow> (-1, 0, dir2)
                     | Some k \<Rightarrow>
                         let dir1 = c_rem (atoi (drop (k + 1) (take j path))) DIR1
                         in (if dir1 < 0 \<or> dir2 < 0 then -1 else 0, dir1, dir2)))"

section \<open>Property\<close>

definition nodes :: "ip_state \<Rightarrow> nat" where
  "nodes s = iphome s + (\<Sum>b<256. length (cfg_iplist s b))"

lemma ip_bucket_less: "ip_bucket a < 256"
proof -
  have "a AND 0xFF \<le> 0xFF" by (rule word_and_le1)
  then show ?thesis by (simp add: ip_bucket_def word_le_nat_alt)
qed

lemma get_ip_info_dotted:
  "str2ip v \<noteq> INADDR_NONE \<Longrightarrow> get_ip_info resolve lk v False s =
     (case find (\<lambda>i. str2ip v = ip i \<or> sip i = v) (cfg_iplist s (ip_bucket (str2ip v))) of
        None \<Rightarrow> (-1, None) | Some i \<Rightarrow> (0, Some i))"
  by (simp add: get_ip_info_def get_ip_info_by_uint_def get_uint32_ip_def)

lemma nodes_add: "0 < iphome s \<Longrightarrow> nodes (s\<lparr>cfg_iplist := (cfg_iplist s)(ip_bucket a := i # cfg_iplist s (ip_bucket a)), iphome := iphome s - 1\<rparr>) = nodes s"
proof -
  assume i: "0 < iphome s"
  let ?l = "\<lambda>b. length (cfg_iplist s b)" and ?b = "ip_bucket a"
  have "(\<Sum>b<256. length (((cfg_iplist s)(?b := i # cfg_iplist s ?b)) b)) = (\<Sum>b<256. ?l b + (if b = ?b then 1 else 0))"
    by (intro sum.cong) auto
  also have "\<dots> = (\<Sum>b<256. ?l b) + 1" using ip_bucket_less [of a] by (simp add: sum.distrib)
  finally show ?thesis using i by (simp add: nodes_def)
qed

text \<open>C36: After a reload the table holds exactly the two nodes the configuration names: a lookup of the upload
  node's address finds it with the role of a source, one of the storage node's address with the role of a store, any
  other address is unknown, and no node of the table is lost.\<close>

theorem reload_cfg_table:
  assumes "myconfig_get_value ''iplist_ucip'' st = Some u" "myconfig_get_value ''iplist_smip'' st = Some m"
    "str2ip u \<noteq> INADDR_NONE" "str2ip m \<noteq> INADDR_NONE" "str2ip u \<noteq> str2ip m" "length u < 128" "length m < 128"
    "2 \<le> nodes s"
  shows "\<exists>s'. reload_cfg resolve 0 st s = (0, s') \<and> nodes s' = nodes s \<and>
    get_ip_info resolve 0 u False s' = (0, Some \<lparr>ip = str2ip u, sip = u, ip_role = ROLE_FCS\<rparr>) \<and>
    get_ip_info resolve 0 m False s' = (0, Some \<lparr>ip = str2ip m, sip = m, ip_role = ROLE_CS\<rparr>) \<and>
    (str2ip v \<notin> {INADDR_NONE, str2ip u, str2ip m} \<longrightarrow> get_ip_info resolve 0 v False s' = (-1, None))"
proof -
  define u' where "u' = \<lparr>ip = str2ip u, sip = u, ip_role = ROLE_FCS\<rparr>"
  define m' where "m' = \<lparr>ip = str2ip m, sip = m, ip_role = ROLE_CS\<rparr>"
  define s0 where "s0 = s\<lparr>cfg_iplist := (\<lambda>_. []), iphome := nodes s\<rparr>"
  define s1 where "s1 = s0\<lparr>cfg_iplist := (cfg_iplist s0)(ip_bucket (str2ip u) := u' # cfg_iplist s0 (ip_bucket (str2ip u))), iphome := iphome s0 - 1\<rparr>"
  define s2 where "s2 = s1\<lparr>cfg_iplist := (cfg_iplist s1)(ip_bucket (str2ip m) := m' # cfg_iplist s1 (ip_bucket (str2ip m))), iphome := iphome s1 - 1\<rparr>"
  have um: "u \<noteq> m" using assms(5) by auto
  have 1: "sub_add_cluste_ip resolve st ''ucip'' ROLE_FCS s0 = (0, s1)"
    using assms(1,3,6) by (simp add: sub_add_cluste_ip_def add_ip_info_def get_ip_info_dotted s1_def s0_def u'_def)
  have "fst (get_ip_info resolve 0 m False s1) \<noteq> 0"
    using assms(4,5) um by (simp add: get_ip_info_dotted s1_def s0_def u'_def)
  then have 2: "sub_add_cluste_ip resolve st ''smip'' ROLE_CS s1 = (0, s2)"
    using assms(2,4,7) by (simp add: sub_add_cluste_ip_def add_ip_info_def s2_def m'_def)
  have 0: "s\<lparr>cfg_iplist := (\<lambda>_. []), iphome := iphome s + (\<Sum>b<256. length (cfg_iplist s b))\<rparr> = s0"
    by (simp add: s0_def nodes_def)
  have "reload_cfg resolve 0 st s = (0, s2)" unfolding reload_cfg_def add_cluste_ip_def 0 1 by (simp add: 2)
  moreover have "nodes s2 = nodes s"
  proof -
    have h: "iphome s0 = nodes s" "nodes s0 = nodes s" "iphome s1 = iphome s0 - 1" by (simp_all add: nodes_def s0_def s1_def)
    have "nodes s1 = nodes s0" unfolding s1_def by (rule nodes_add) (use h assms(8) in simp)
    moreover have "nodes s2 = nodes s1" unfolding s2_def by (rule nodes_add) (use h assms(8) in simp)
    ultimately show ?thesis using h by simp
  qed
  moreover have "get_ip_info resolve 0 u False s2 = (0, Some u')" "get_ip_info resolve 0 m False s2 = (0, Some m')"
    using assms(3-5) um by (simp_all add: get_ip_info_dotted s2_def s1_def s0_def u'_def m'_def)
  moreover have "get_ip_info resolve 0 v False s2 = (-1, None)" if "str2ip v \<notin> {INADDR_NONE, str2ip u, str2ip m}"
  proof -
    have "v \<noteq> u" "v \<noteq> m" "str2ip v \<noteq> str2ip u" "str2ip v \<noteq> str2ip m" "str2ip v \<noteq> INADDR_NONE" using that by auto
    then show ?thesis by (simp add: get_ip_info_dotted s2_def s1_def s0_def u'_def m'_def)
  qed
  ultimately show ?thesis unfolding u'_def m'_def by blast
qed

definition cluster_config :: config where
  "cluster_config = snd (the (myconfig_put_value ''iplist-'' ''smip'' ''10.0.0.2''
     (snd (the (myconfig_put_value ''iplist-'' ''ucip'' ''10.0.0.1'' config0)))))"

theorem reload_cfg_table_witness:
  "\<exists>s'. reload_cfg (\<lambda>_. None) 0 cluster_config ip_state0 = (0, s') \<and>
     get_ip_info (\<lambda>_. None) 0 ''10.0.0.2'' False s' = (0, Some \<lparr>ip = str2ip ''10.0.0.2'', sip = ''10.0.0.2'', ip_role = ROLE_CS\<rparr>) \<and>
     get_ip_info (\<lambda>_. None) 0 ''10.0.0.3'' False s' = (-1, None)"
proof -
  have c: "myconfig_get_value ''iplist_ucip'' cluster_config = Some ''10.0.0.1''"
    "myconfig_get_value ''iplist_smip'' cluster_config = Some ''10.0.0.2''"
    by code_simp+
  have a: "str2ip ''10.0.0.1'' = 0x0100000A" "str2ip ''10.0.0.2'' = 0x0200000A" "str2ip ''10.0.0.3'' = 0x0300000A"
    by (simp_all add: str2ip_def strtoul_def digit_of_def next_isdigit_def isdigit_def at_dot_def INADDR_NONE_def word_le_nat_alt)
  then have n: "str2ip ''10.0.0.1'' \<noteq> INADDR_NONE" "str2ip ''10.0.0.2'' \<noteq> INADDR_NONE" "str2ip ''10.0.0.1'' \<noteq> str2ip ''10.0.0.2''"
    "str2ip ''10.0.0.3'' \<notin> {INADDR_NONE, str2ip ''10.0.0.1'', str2ip ''10.0.0.2''}"
    by (simp_all add: INADDR_NONE_def)
  have "2 \<le> nodes ip_state0" by (simp add: nodes_def ip_state0_def)
  from reload_cfg_table [OF c n(1-3) _ _ this, of "\<lambda>_. None" "''10.0.0.3''"] n(4) show ?thesis by auto
qed

text \<open>A name that is not in the list is looked for behind its end.\<close>

lemma unknown_isp: "name \<notin> set ispname \<Longrightarrow> get_isp_by_name name = None"
  by (auto simp: get_isp_by_name_def find_None_iff in_set_conv_nth split: option.split)

lemma default_minfree: "disk_minfree None = 0"
  by (simp add: disk_minfree_def to_int32_def)

end
