(* ===== verification/Maintain.thy ===== *)
theory Maintain
  imports VfsInit ParsePara Protocol Split
begin

text \<open>
  The commands of an operator, \<^verbatim>\<open>src/network/vfs_maintain.c\<close>: \<^verbatim>\<open>do_request\<close> decodes a request, carries it out on
  the configuration or the task queues, and makes the reply.  \<open>None\<close> stands for an access outside an array.
\<close>

text \<open>\<open>errno_text\<close> is what \<^verbatim>\<open>%m\<close> prints, \<open>start_text\<close> the start time as printed by \<^verbatim>\<open>get_strtime_by_t\<close>, and
  \<open>compile_text\<close> the two strings of \<^verbatim>\<open>version.c\<close>.\<close>

record maint_env = env +
  self_role :: role
  errno_text :: string
  start_text :: string
  compile_text :: string

text \<open>\<open>m_file\<close> is the content of the configuration file on disk; \<open>can_dump\<close> says whether it can be opened for
  writing.\<close>

record maint =
  m_cfg :: config
  m_g :: g_config
  m_tq :: task_state
  m_seq :: uint32
  m_file :: string
  can_dump :: bool

definition cmd_type :: "string list" where
  "cmd_type = [''M_ONLINE'', ''M_OFFLINE'', ''M_GETINFO'', ''M_SYNCDIR'', ''M_SYNCFILE'', ''M_CONFUPDA'',
     ''M_SETDIRTIME'', ''M_GETDIRTIME'', ''M_DELFILE'', ''M_EXECUTE'']"

definition validcmd :: "string list" where
  "validcmd = [''cs_preday'', ''fcs_max_connects'', ''cs_max_connects'', ''cs_max_task_run_once'', ''vfs_test'',
     ''real_rm_time'', ''task_timeout'', ''fcs_max_task'', ''cs_sync_dir'', ''data_calcu_md5'', ''continue_flag'',
     ''sync_dir_count'']"

definition isvalid :: "string \<Rightarrow> int" where
  "isvalid key = (if \<exists>v\<in>set validcmd. strcasecmp key v then 0 else 1)"

text \<open>The loop that ends a value at its first CR or LF.  It looks at all characters but the last; with an empty value
  its counter starts below zero.\<close>

definition cut_line :: "string \<Rightarrow> string option" where
  "cut_line v = (if v = [] then None
     else let h = takeWhile (\<lambda>c. c \<noteq> CR \<and> c \<noteq> LF) (butlast v) in Some (if length h < length v - 1 then h else v))"

text \<open>What every command does with the pairs of its request.\<close>

fun each_pair :: "(string \<Rightarrow> string \<Rightarrow> 's \<Rightarrow> 's option) \<Rightarrow> StringPair list \<Rightarrow> 's \<Rightarrow> 's option" where
  "each_pair f [] s = Some s"
| "each_pair f (p # ps) s =
     (if strcasecmp (sFirst p) ''vfs_cmd'' then each_pair f ps s
      else case f (sFirst p) (sSecond p) s of None \<Rightarrow> None | Some s \<Rightarrow> each_pair f ps s)"

section \<open>Configuration\<close>

definition update_key :: "string \<Rightarrow> string \<Rightarrow> config \<Rightarrow> config option" where
  "update_key key val st =
     (if isvalid key \<noteq> 0 then Some st
      else case cut_line val of
             None \<Rightarrow> None
           | Some v \<Rightarrow>
               (case myconfig_delete_value [] key st of
                  None \<Rightarrow> None
                | Some (_, st) \<Rightarrow> map_option snd (myconfig_update_value key v st)))"

definition do_confupda :: "StringPair list \<Rightarrow> maint \<Rightarrow> maint option" where
  "do_confupda ps m =
     (case each_pair update_key ps (m_cfg m) of
        None \<Rightarrow> None
      | Some st \<Rightarrow>
          (case myconfig_dump_to_file st of
             None \<Rightarrow> None
           | Some text \<Rightarrow>
               (case VfsInit.reload_config (st, m_g m) of (st, g) \<Rightarrow>
                  Some (m\<lparr>m_cfg := st, m_g := g, m_file := (if can_dump m then text else m_file m)\<rparr>))))"

definition get_cmd_position :: "string \<Rightarrow> int" where
  "get_cmd_position cmd = (case find (\<lambda>i. cmd_type ! i = cmd) [0..<length cmd_type] of None \<Rightarrow> -1 | Some i \<Rightarrow> int i)"

definition get_info :: "maint_env \<Rightarrow> maint \<Rightarrow> string" where
  "get_info e m =
     (let n = (\<lambda>st. dec_int (get_task_count st (m_tq m)))
      in ''starttime='' @ start_text e @ ''|compile_time='' @ compile_text e
         @ ''|vfs_test='' @ dec_int (vfs_test (m_g m)) @ ''|continue_flag='' @ dec_int (continue_flag (m_g m))
         @ ''|task_timeout='' @ dec_int (task_timeout (m_g m)) @ ''|task_run='' @ n TASK_RUN
         @ ''|task_wait='' @ n TASK_WAIT @ ''|task_fin='' @ n TASK_FIN @ ''|task_clean='' @ n TASK_CLEAN
         @ ''|task_wait_sync='' @ n TASK_WAIT_SYNC @ ''|task_wait_sync_ip='' @ n TASK_WAIT_SYNC_IP
         @ ''|task_wait_tmp='' @ n TASK_WAIT_TMP @ ''|'')"

section \<open>Tasks\<close>

definition role_name :: "role \<Rightarrow> string" where
  "role_name r = (case r of UNKOWN \<Rightarrow> ''unkown'' | ROLE_FCS \<Rightarrow> ''uc'' | ROLE_CS \<Rightarrow> ''sm'')"

definition have_not :: "maint_env \<Rightarrow> string \<Rightarrow> string" where
  "have_not e f = ''role ['' @ role_name (self_role e) @ ''] have not '' @ f @ [LF]"

definition get_dirtime :: "maint_env \<Rightarrow> string" where
  "get_dirtime e = (if self_role e \<noteq> ROLE_CS \<and> self_role e \<noteq> ROLE_FCS then have_not e ''get_dirtime'' else [])"

text \<open>\<^verbatim>\<open>do_voss_sync_file\<close> and \<^verbatim>\<open>do_voss_sync_dir\<close>, which do the same: false where there is no task to be had.\<close>

definition do_voss_sync :: "maint_env \<Rightarrow> string \<Rightarrow> task_state \<Rightarrow> bool \<times> task_state" where
  "do_voss_sync e file s =
     (case vfs_get_task (q_lock e TASK_HOME) (malloc_ok e) TASK_HOME s of
        (r, Some x, s) \<Rightarrow>
          let s = set_node x (\<lambda>n. n\<lparr>task := (task n)\<lparr>base := zero_base\<lparr>filename := snprint 256 file, stime := clock e\<rparr>\<rparr>\<rparr>) s
          in (True, snd (vfs_set_task (q_lock e TASK_SYNC_VOSS) x TASK_SYNC_VOSS s))
      | (r, None, s) \<Rightarrow> (False, s))"

text \<open>The texts for the reply are added as long as the array of 40960 bytes is not full.\<close>

definition add_text :: "string \<Rightarrow> string \<Rightarrow> string" where
  "add_text t out = (if length out < 40960 then out @ t else out)"

definition sync_err :: "maint_env \<Rightarrow> string \<Rightarrow> string \<Rightarrow> string" where
  "sync_err e key val = ''sync '' @ key @ '' '' @ val @ '' err '' @ errno_text e"

definition upto :: "char \<Rightarrow> string \<Rightarrow> string" where
  "upto c v = (case strchr v c of None \<Rightarrow> v | Some i \<Rightarrow> take i v)"

definition voss_sync_file :: "maint_env \<Rightarrow> StringPair list \<Rightarrow> task_state \<Rightarrow> (string \<times> task_state) option" where
  "voss_sync_file e ps s =
     (if self_role e \<noteq> ROLE_CS then Some (have_not e ''voss_sync_file'', s)
      else each_pair (\<lambda>key val (out, s).
             case cut_line val of
               None \<Rightarrow> None
             | Some v \<Rightarrow>
                 let file = upto CHR '','' v
                 in case do_voss_sync e file s of
                      (ok, s) \<Rightarrow> Some (if ok then out else add_text (sync_err e key file) out, s)) ps ([], s))"

definition voss_sync_dir :: "maint_env \<Rightarrow> StringPair list \<Rightarrow> task_state \<Rightarrow> (string \<times> task_state) option" where
  "voss_sync_dir e ps s =
     (if self_role e \<noteq> ROLE_CS then Some (have_not e ''voss_sync_dir'', s)
      else each_pair (\<lambda>key val (out, s).
             case cut_line val of
               None \<Rightarrow> None
             | Some v \<Rightarrow>
                 (case strrchr v CHR ''|'' of
                    None \<Rightarrow> Some (add_text (''sync '' @ key @ '' '' @ v @ '' errformat domain=d1,d2|yyyymmddHHMMSS'') out, s)
                  | Some i \<Rightarrow>
                      (case do_voss_sync e (take i v) s of
                         (ok, s) \<Rightarrow> Some (if ok then out else add_text (sync_err e key (take i v)) out, s)))) ps ([], s))"

text \<open>\<^verbatim>\<open>do_voss_del_file\<close> does nothing, and \<^verbatim>\<open>voss_off_on_line\<close> only looks addresses up.\<close>

definition voss_del_file :: "maint_env \<Rightarrow> StringPair list \<Rightarrow> string option" where
  "voss_del_file e ps =
     (if self_role e \<noteq> ROLE_CS then Some (have_not e ''voss_del_file'')
      else map_option (\<lambda>_. []) (each_pair (\<lambda>key val s. map_option (\<lambda>_. s) (cut_line val)) ps ()))"

definition voss_off_on_line :: "StringPair list \<Rightarrow> string option" where
  "voss_off_on_line ps = map_option (\<lambda>_. []) (each_pair (\<lambda>key val s. map_option (\<lambda>_. s) (cut_line val)) ps ())"

section \<open>Requests\<close>

definition or_text :: "string \<Rightarrow> string \<Rightarrow> string" where
  "or_text out t = (if out = [] then t else out)"

definition run_cmd :: "maint_env \<Rightarrow> int \<Rightarrow> string \<Rightarrow> StringPair list \<Rightarrow> maint \<Rightarrow> (string \<times> maint) option" where
  "run_cmd e ty data ps m =
     (if ty = 5 then map_option (Pair (data @ ''::Result=OK&Code=0&Msg=Success'')) (do_confupda ps m)
      else if ty = 2 then Some (get_info e m, m)
      else if ty = 6 then Some ([], m)
      else if ty = 7 then Some (get_dirtime e, m)
      else if ty = 4 then map_option (\<lambda>(out, s). (or_text out ''sync file OK!'', m\<lparr>m_tq := s\<rparr>)) (voss_sync_file e ps (m_tq m))
      else if ty = 3 then map_option (\<lambda>(out, s). (or_text out ''sync dir OK!'', m\<lparr>m_tq := s\<rparr>)) (voss_sync_dir e ps (m_tq m))
      else if ty = 1 then map_option (\<lambda>out. (or_text out (''offline '' @ data @ '' OK!''), m)) (voss_off_on_line ps)
      else if ty = 0 then map_option (\<lambda>out. (or_text out (''online '' @ data @ '' OK!''), m)) (voss_off_on_line ps)
      else if ty = 8 then map_option (\<lambda>out. (or_text out ''del file OK!'', m)) (voss_del_file e ps)
      else Some (data @ '':: not implement'', m))"

text \<open>The name of the command without what is behind its last letter or digit; without any the loop leaves the
  array.\<close>

definition cmd_name :: "string \<Rightarrow> string option" where
  "cmd_name v = (let t = rtrim (\<lambda>c. \<not> isalnum c) v in if t = [] then None else Some t)"

text \<open>The reply: its head and its text.  A text longer than the array is sent from behind it.\<close>

definition reply :: "string \<Rightarrow> maint \<Rightarrow> (string \<times> maint) option" where
  "reply out m =
     (if out = [] then Some ([], m)
      else if length out > 40960 then None
      else case create_voss_head 0x80000008 (int (length out)) (m_seq m) of
        (h, sq) \<Rightarrow> Some (h @ (if length out = 40960 then take 40959 out @ [NUL] else out), m\<lparr>m_seq := sq\<rparr>))"

text \<open>\<open>data\<close> is the text of the request, behind which stands a NUL.\<close>

definition do_request :: "maint_env \<Rightarrow> string \<Rightarrow> maint \<Rightarrow> (string \<times> maint) option" where
  "do_request e data m =
     (case DecodePara data \<lparr>iLast = 0, pStrPairList = replicate 20 \<lparr>sFirst = [], sSecond = []\<rparr>\<rparr> of
        None \<Rightarrow> None
      | Some (r, l) \<Rightarrow>
          if r \<noteq> 0 then Some ([], m)
          else case GetParaValue l ''vfs_cmd'' 32 of
                 None \<Rightarrow> Some ([], m)
               | Some v \<Rightarrow>
                   (case cmd_name v of
                      None \<Rightarrow> None
                    | Some cmd \<Rightarrow>
                        let ty = get_cmd_position cmd
                        in if ty = -1 then Some ([], m)
                           else case run_cmd e ty data (pairs l) m of None \<Rightarrow> None | Some (out, m) \<Rightarrow> reply out m))"

end
