(* ===== verification/MaintainProps.thy ===== *)
theory MaintainProps
  imports Maintain MyConfigProps ParaProps TaskQueueProps
begin

text \<open>
  What a configuration command does: the value is in the table afterwards, the parameter read from it has the new
  number, and nothing else changes.
\<close>

section \<open>Numbers\<close>

text \<open>The number the table gives for a key: the one remembered, or else the one the text stands for.\<close>

definition num :: "config \<Rightarrow> string \<Rightarrow> int option" where
  "num st key =
     (case find (is_key st key) (key_list st key) of
        None \<Rightarrow> None
      | Some n \<Rightarrow> if mc_intval (mcells st n) = -1 then val_number (mc_val (mcells st n)) else Some (mc_intval (mcells st n)))"

lemma set_intval_same:
  fixes st :: config and n :: nat and i :: int
  defines "st' \<equiv> st\<lparr>mcells := (mcells st)(n := (mcells st n)\<lparr>mc_intval := i\<rparr>)\<rparr>"
  shows "is_key st' = is_key st" "key_list st' = key_list st" "vals st' = vals st"
    "mc_val (mcells st' x) = mc_val (mcells st x)"
    "mc_intval (mcells st' x) = (if x = n then i else mc_intval (mcells st x))"
proof -
  show k: "is_key st' = is_key st" "key_list st' = key_list st" by (auto simp: fun_eq_iff is_key_def key_list_def st'_def)
  show v: "mc_val (mcells st' x) = mc_val (mcells st x)" for x by (simp add: st'_def)
  show "vals st' = vals st" by (simp add: fun_eq_iff vals_def k v)
  show "mc_intval (mcells st' x) = (if x = n then i else mc_intval (mcells st x))" by (simp add: st'_def)
qed

lemma get_intval_spec:
  assumes "myconfig_get_intval key d st = (r, st')"
  shows "r = (case num st key of None \<Rightarrow> d | Some i \<Rightarrow> i) \<and> num st' = num st \<and> vals st' = vals st"
proof (cases "find (is_key st key) (key_list st key)")
  case None
  with assms show ?thesis by (auto simp: myconfig_get_intval_def num_def)
next
  case (Some n)
  show ?thesis
  proof (cases "mc_intval (mcells st n) = -1 \<and> val_number (mc_val (mcells st n)) \<noteq> None")
    case False
    with assms Some show ?thesis by (auto simp: myconfig_get_intval_def num_def split: if_splits option.splits)
  next
    case True
    then obtain i where i: "val_number (mc_val (mcells st n)) = Some i" by auto
    have st': "st' = st\<lparr>mcells := (mcells st)(n := (mcells st n)\<lparr>mc_intval := i\<rparr>)\<rparr>" and r: "r = i"
      using assms Some True i by (auto simp: myconfig_get_intval_def)
    note same = set_intval_same [of st n i, folded st']
    have "num st' k = num st k" for k
    proof (cases "find (is_key st k) (key_list st k)")
      case None
      then show ?thesis by (simp add: num_def same(1,2))
    next
      case (Some x)
      then show ?thesis using True i by (cases "x = n") (simp_all add: num_def same(1,2,4,5))
    qed
    then show ?thesis using Some True i r same(3) by (simp add: num_def fun_eq_iff)
  qed
qed

lemma geti_spec:
  "geti key d put (st, g) = (st', g') \<Longrightarrow>
   num st' = num st \<and> vals st' = vals st \<and> g' = put (case num st key of None \<Rightarrow> d | Some i \<Rightarrow> i) g"
  using get_intval_spec [of key d st] by (auto simp: geti_def split: prod.splits)

text \<open>A list of \<open>geti\<close> with their keys, defaults and places.\<close>

lemma steps_geti:
  "steps (map (\<lambda>(key, d, put). geti key d put) ps) (st, g) = (st', g') \<Longrightarrow>
   num st' = num st \<and> vals st' = vals st \<and>
   g' = fold (\<lambda>(key, d, put). put (case num st key of None \<Rightarrow> d | Some i \<Rightarrow> i)) ps g"
proof (induction ps arbitrary: st g)
  case (Cons p ps)
  obtain key d put where p: "p = (key, d, put)" by (cases p)
  obtain st1 g1 where 1: "geti key d put (st, g) = (st1, g1)" by fastforce
  have "steps (map (\<lambda>(key, d, put). geti key d put) ps) (st1, g1) = (st', g')"
    using Cons.prems 1 by (simp add: steps_def p)
  from Cons.IH [OF this] geti_spec [OF 1] show ?case by (simp add: p)
qed (simp add: steps_def)

lemma reload_config_spec:
  assumes "VfsInit.reload_config (st, g) = (st', g')"
  shows "num st' = num st \<and> vals st' = vals st \<and>
    task_timeout g' = (case num st ''task_timeout'' of None \<Rightarrow> 86400 | Some i \<Rightarrow> i)"
proof -
  let ?ps = "[(''cs_preday'', 5, \<lambda>v g. g\<lparr>cs_preday := u16 v\<rparr>),
      (''fcs_max_connects'', 10, \<lambda>v g. g\<lparr>fcs_max_connects := u16 v\<rparr>),
      (''cs_max_connects'', 20, \<lambda>v g. g\<lparr>cs_max_connects := u16 v\<rparr>),
      (''cs_max_task_run_once'', 32, \<lambda>v g. g\<lparr>cs_max_task_run_once := nat (u16 v)\<rparr>),
      (''fcs_max_task'', 32, \<lambda>v g. g\<lparr>fcs_max_task := u16 v\<rparr>),
      (''reload_time'', 3600, \<lambda>v g. g\<lparr>reload_time := u16 v\<rparr>),
      (''voss_interval'', 300, \<lambda>v g. g\<lparr>voss_interval := u16 v\<rparr>),
      (''continue_flag'', 0, \<lambda>v g. g\<lparr>continue_flag := u8 v\<rparr>),
      (''vfs_test'', 0, \<lambda>v g. g\<lparr>vfs_test := u8 v\<rparr>),
      (''real_rm_time'', 7200, \<lambda>v g. g\<lparr>real_rm_time := v\<rparr>),
      (''task_timeout'', 86400, \<lambda>v g. g\<lparr>task_timeout := v\<rparr>),
      (''cs_sync_dir'', 0, \<lambda>v g. g\<lparr>cs_sync_dir := u8 v\<rparr>),
      (''data_calcu_md5'', 0, \<lambda>v g. g\<lparr>data_calcu_md5 := u8 v\<rparr>),
      (''sync_dir_count'', 10, \<lambda>v (g :: g_config). g\<lparr>sync_dir_count := u8 v\<rparr>)]"
  have "steps (map (\<lambda>(key, d, put). geti key d put) ?ps) (st, g) = (st', g')"
    using assms by (simp add: VfsInit.reload_config_def)
  from steps_geti [OF this] show ?thesis by simp
qed

section \<open>The keys of the command\<close>

definition key_fits :: "string \<Rightarrow> bool" where
  "key_fits key \<longleftrightarrow> sep_key key = key \<and> \<not> strcasecmp key ''vfs_cmd'' \<and>
     (case strchr key CHR ''_'' of None \<Rightarrow> False
      | Some i \<Rightarrow> i < 19 \<and> length key - (i + 1) < 30 \<and> put_key ((take i key @ ''-'') @ drop (i + 1) key) = key)"

lemma validcmd_fits: "list_all key_fits validcmd"
  by code_simp

lemma valid_key:
  assumes "key \<in> set validcmd"
  obtains i where "isvalid key = 0" "sep_key key = key" "\<not> strcasecmp key ''vfs_cmd''"
    "strchr key CHR ''_'' = Some i" "i < 19" "length key - (i + 1) < 30" "put_key ((take i key @ ''-'') @ drop (i + 1) key) = key"
proof -
  have f: "key_fits key" using validcmd_fits assms by (simp add: list_all_iff)
  then obtain i where i: "strchr key CHR ''_'' = Some i" unfolding key_fits_def by (cases "strchr key CHR ''_''") auto
  show thesis by (rule that [of i]) (use f i assms in \<open>auto simp: key_fits_def isvalid_def strcasecmp_def\<close>)
qed

lemma find_vals: "find (is_key st key) (key_list st key) = None \<longleftrightarrow> vals st key = []"
  by (auto simp: vals_def find_None_iff filter_empty_conv)

lemma put_value_num:
  assumes "myconfig_put_value p k v st = Some (r, st')"
  shows "num st' (put_key (p @ k)) = val_number v"
proof -
  let ?key = "put_key (p @ k)"
  let ?s = "add_cell ?key v st"
  have "st' = ?s\<lparr>prelist := prelist ?s\<rparr> \<or> (\<exists>ps. st' = ?s\<lparr>prelist := ps\<rparr>)"
    using assms unfolding myconfig_put_value_def Let_def by (auto split: if_splits option.splits)
  then obtain ps where st': "st' = ?s\<lparr>prelist := ps\<rparr>" by blast
  have "key_list st' ?key = next_cell st # key_list st ?key" "is_key st' ?key (next_cell st)"
    by (simp_all add: st' key_list_def is_key_def add_cell_def Let_def)
  then have "find (is_key st' ?key) (key_list st' ?key) = Some (next_cell st)" by simp
  then show ?thesis by (simp add: num_def) (simp add: st' add_cell_def Let_def)
qed

lemma cut_line_plain: "v \<noteq> [] \<Longrightarrow> CR \<notin> set v \<Longrightarrow> LF \<notin> set v \<Longrightarrow> cut_line v = Some v"
proof -
  assume v: "v \<noteq> []" "CR \<notin> set v" "LF \<notin> set v"
  have "takeWhile (\<lambda>c. c \<noteq> CR \<and> c \<noteq> LF) (butlast v) = butlast v"
    using v(2,3) by (auto simp: takeWhile_eq_all_conv dest: in_set_butlastD)
  with v(1) show ?thesis unfolding cut_line_def Let_def by (simp only: length_butlast if_False) simp
qed

lemma update_key_effect:
  assumes "update_key key val st = Some st'" "key \<in> set validcmd" "cut_line val = Some v" "cfg_inv st"
  shows "cfg_inv st'" "vals st' k = (if k = key then [v] else vals st k)" "num st' key = val_number v"
proof -
  obtain i where i: "isvalid key = 0" "sep_key key = key" "strchr key CHR ''_'' = Some i" "i < 19"
    "length key - (i + 1) < 30" "put_key ((take i key @ ''-'') @ drop (i + 1) key) = key"
    using valid_key [OF assms(2)] by blast
  obtain r st1 where d: "myconfig_delete_value [] key st = Some (r, st1)" and u: "map_option snd (myconfig_update_value key v st1) = Some st'"
    using assms(1,3) i(1) by (auto simp: update_key_def split: option.splits prod.splits)
  have c1: "cfg_inv st1" "vals st1 k = (if k = key then [] else vals st k)" for k
    using delete_value_vals [OF d assms(4)] i(2) by simp_all
  have "find (is_key st1 key) (key_list st1 key) = None" unfolding find_vals by (simp add: c1)
  then obtain r2 where p: "myconfig_put_value (take i key @ ''-'') (drop (i + 1) key) v st1 = Some (r2, st')"
    using u i(3-5) by (auto simp: myconfig_update_value_def)
  show "cfg_inv st'" by (rule put_value_vals(1) [OF p c1(1)])
  show "vals st' k = (if k = key then [v] else vals st k)" using put_value_vals(2) [OF p c1(1), of k] i(6) c1(2) [of k] by simp
  show "num st' key = val_number v" using put_value_num [OF p] i(6) by simp
qed

section \<open>The request\<close>

lemma validcmd_plain: "key \<in> set validcmd \<Longrightarrow> separator_free key \<and> length key < 30"
proof -
  have "list_all (\<lambda>key. CHR ''='' \<notin> set key \<and> CHR ''&'' \<notin> set key \<and> NUL \<notin> set key \<and> length key < 30) validcmd" by code_simp
  then show "key \<in> set validcmd \<Longrightarrow> separator_free key \<and> length key < 30" by (simp add: list_all_iff separator_free_def)
qed

definition confupda_text :: "string \<Rightarrow> string \<Rightarrow> string" where
  "confupda_text key val = ''vfs_cmd=M_CONFUPDA&'' @ key @ ''='' @ val"

lemma confupda_run:
  assumes "key \<in> set validcmd" "separator_free val" "length val < 1024"
  shows "do_request e (confupda_text key val) m =
    (case do_confupda [\<lparr>sFirst = ''vfs_cmd'', sSecond = ''M_CONFUPDA''\<rparr>, \<lparr>sFirst = key, sSecond = val\<rparr>] m of
       None \<Rightarrow> None | Some m \<Rightarrow> reply (confupda_text key val @ ''::Result=OK&Code=0&Msg=Success'') m)"
proof -
  let ?ps = "[\<lparr>sFirst = ''vfs_cmd'', sSecond = ''M_CONFUPDA''\<rparr>, \<lparr>sFirst = key, sSecond = val\<rparr>]"
  let ?a = "replicate 20 \<lparr>sFirst = [], sSecond = []\<rparr>"
  have k: "separator_free key" "length key < 30" using validcmd_plain [OF assms(1)] by simp_all
  have t: "confupda_text key val = join ?ps" by (simp add: confupda_text_def pair_text_def)
  have g: "\<forall>p\<in>set ?ps. good_pair p"
    using k assms(2,3) by (simp add: good_pair_def MAX_NAME_LEN_def MAX_VALUE_LEN_def) (simp add: separator_free_def)
  obtain a where a: "parse_loop CHR ''='' CHR ''&'' (join ?ps) ?a 0 [] False = Some (2, a)" "take 2 a = ?ps"
    using parse_join [OF _ g, of 0 ?a] by (auto simp: numeral_2_eq_2)
  have "confupda_text key val \<noteq> []" by (simp add: confupda_text_def)
  then have d: "DecodePara (confupda_text key val) \<lparr>iLast = 0, pStrPairList = ?a\<rparr> = Some (0, \<lparr>iLast = 2, pStrPairList = a\<rparr>)"
    using a(1) by (simp add: DecodePara_def parsepara_def t)
  have p: "pairs \<lparr>iLast = 2, pStrPairList = a\<rparr> = ?ps" using a(2) by (simp add: pairs_def)
  have "decode_string ''M_CONFUPDA'' 32 = (0, ''M_CONFUPDA'')" by code_simp
  then have v: "GetParaValue \<lparr>iLast = 2, pStrPairList = a\<rparr> ''vfs_cmd'' 32 = Some ''M_CONFUPDA''"
    by (simp add: GetParaValue_def p name_eq_def)
  have c: "cmd_name ''M_CONFUPDA'' = Some ''M_CONFUPDA''" "get_cmd_position ''M_CONFUPDA'' = 5" by code_simp+
  show ?thesis unfolding do_request_def d by (simp add: v c p run_cmd_def Let_def split: option.split)
qed

lemma reply_config: "reply out m = Some (r, m') \<Longrightarrow> m_cfg m' = m_cfg m \<and> m_g m' = m_g m"
  by (auto simp: reply_def split: if_splits prod.splits)

section \<open>Property\<close>

lemma confupda_effect:
  assumes "cfg_inv (m_cfg m)" "key \<in> set validcmd" "val \<noteq> []" "separator_free val" "CR \<notin> set val" "LF \<notin> set val"
    "length val < 1024" "do_request e (confupda_text key val) m = Some (out, m')"
  shows "myconfig_get_value key (m_cfg m') = Some val \<and> (k \<noteq> key \<longrightarrow> myconfig_get_value k (m_cfg m') = myconfig_get_value k (m_cfg m)) \<and>
    (key = ''task_timeout'' \<longrightarrow> task_timeout (m_g m') = (case val_number val of None \<Rightarrow> 86400 | Some i \<Rightarrow> i))"
proof -
  let ?ps = "[\<lparr>sFirst = ''vfs_cmd'', sSecond = ''M_CONFUPDA''\<rparr>, \<lparr>sFirst = key, sSecond = val\<rparr>]"
  obtain m1 where m1: "do_confupda ?ps m = Some m1" "m_cfg m' = m_cfg m1" "m_g m' = m_g m1"
    using assms(8) unfolding confupda_run [OF assms(2,4,7)] by (auto dest: reply_config split: option.splits)
  obtain i where "\<not> strcasecmp key ''vfs_cmd''" using valid_key [OF assms(2)] by blast
  then have each: "each_pair update_key ?ps (m_cfg m) = update_key key val (m_cfg m)"
    by (simp add: strcasecmp_def split: option.split)
  obtain st where st: "update_key key val (m_cfg m) = Some st"
    and r: "VfsInit.reload_config (st, m_g m) = (m_cfg m1, m_g m1)"
    using m1(1) unfolding do_confupda_def each by (auto split: option.splits prod.splits)
  note u = update_key_effect [OF st assms(2) cut_line_plain [OF assms(3,5,6)] assms(1)]
  note c = reload_config_spec [OF r]
  show ?thesis using c u(2) [of key] u(2) [of k] u(3) by (auto simp: get_value_vals m1(2,3))
qed


definition maint0 :: maint where
  "maint0 = \<lparr>m_cfg = config0, m_g = \<lparr>task_timeout = 86400, splic_min_size = 10240000, cfg_retry = 1,
       cs_max_task_run_once = 32, sig_port = 39090, conn_timeout = 300, cktimeout = 5, data_port = 49090,
       lock_timeout = 10, task_splic_count = 100, src_root_len = 5, dir_uid = 99, dir_gid = 99, cs_preday = 5,
       fcs_max_connects = 10, cs_max_connects = 20, fcs_max_task = 32, reload_time = 3600, voss_interval = 300,
       continue_flag = 0, vfs_test = 0, real_rm_time = 7200, cs_sync_dir = 0, data_calcu_md5 = 0, sync_dir_count = 10,
       mindiskfree = 0, domain_prefix = ''fcs'', domain_suffix = ''56.com'', sync_stime = ''01:00:00'',
       sync_etime = ''09:00:00''\<rparr>, m_tq = task_globals, m_seq = 0, m_file = [], can_dump = True\<rparr>"

definition maint_env0 :: maint_env where
  "maint_env0 = \<lparr>q_lock = (\<lambda>_. 0), a_lock = 0, malloc_ok = True, clock = 1000, self_role = ROLE_CS, errno_text = ''Success'',
     start_text = ''20141001120000'', compile_text = ''Oct  1 2014 11:00:00''\<rparr>"

lemma confupda_runs: "\<exists>out m'. do_request maint_env0 (confupda_text ''task_timeout'' ''3600'') maint0 = Some (out, m')"
proof -
  have key: "''task_timeout'' \<in> set validcmd" by (simp add: validcmd_def)
  have sep: "separator_free ''3600''" by (simp add: separator_free_def)
  let ?ps = "[\<lparr>sFirst = ''vfs_cmd'', sSecond = ''M_CONFUPDA''\<rparr>, \<lparr>sFirst = ''task_timeout'', sSecond = ''3600''\<rparr>]"
  have "map_option (\<lambda>st. map_option (\<lambda>_. ()) (myconfig_dump_to_file st)) (each_pair update_key ?ps config0) = Some (Some ())"
    by code_simp
  then obtain st d where "each_pair update_key ?ps (m_cfg maint0) = Some st" "myconfig_dump_to_file st = Some d"
    unfolding maint0_def by auto
  then obtain m1 where m1: "do_confupda ?ps maint0 = Some m1"
    by (cases "VfsInit.reload_config (st, m_g maint0)") (simp add: do_confupda_def)
  show ?thesis
    unfolding confupda_run [OF key sep, of maint_env0 maint0, simplified] m1 by (simp add: reply_def confupda_text_def split: prod.split)
qed


end
