(* ===== verification/ServiceInv.thy ===== *)
theory ServiceInv
  imports EventLoop
begin

text \<open>
  The contract between the event loop and a service: what every handler keeps, and what depends on nothing but the
  user data of the connections and the state the service shares, every turn of the loop keeps, whatever
  the kernel answers.
\<close>

definition same_state :: "('u, 'g) world \<Rightarrow> ('u, 'g) world \<Rightarrow> bool" where
  "same_state w w' \<longleftrightarrow> glob w' = glob w \<and> (\<forall>fd. user (conns w' fd) = user (conns w fd))"

lemma same_state_refl [simp]: "same_state w w"
  by (simp add: same_state_def)

lemma same_state_trans: "same_state w w' \<Longrightarrow> same_state w' w'' \<Longrightarrow> same_state w w''"
  by (simp add: same_state_def)

lemma same_state_ops [simp]:
  "same_state w (modify_fd_event fd ev w)" "same_state w (consume_client_data fd n w)" "same_state w (set_client_data bs fd d w)"
  "same_state w (put_back fd d w)" "same_state w (add_fd_2_efd bs fd w)" "same_state w (set_client_fd fd lfd off n w)"
  "same_state w (add_send_pend tmp fd w)" "same_state w (add_recv_pend tmp fd w)"
  "same_state w (w\<lparr>shut := c\<rparr>)" "same_state w (w\<lparr>send_list := a, tmp_send_list := b\<rparr>)" "same_state w (w\<lparr>send_list := a\<rparr>)"
  "same_state w (w\<lparr>recv_list := a, tmp_recv_list := b\<rparr>)" "same_state w (w\<lparr>recv_list := a\<rparr>)"
  by (auto simp: same_state_def conn_defs put_back_def add_fd_2_efd_def set_client_fd_def add_send_pend_def add_recv_pend_def Let_def
      split: prod.split)

lemma same_state_upd_conn:
  "(\<And>c. user (f c) = user c) \<Longrightarrow> same_state w w' \<Longrightarrow> same_state w (upd_conn fd f w')"
  by (simp add: same_state_def upd_conn_def)

lemma same_state_wire:
  "same_state w (w\<lparr>wire := a\<rparr>)" "same_state w (w\<lparr>wire := a, shut := b\<rparr>)" "same_state w (w\<lparr>events := c\<rparr>)"
  by (simp_all add: same_state_def)

lemma send_data_same: "send_data fd d rs w = (ret, n, rs', w') \<Longrightarrow> same_state w w'"
  by (induction fd d rs w rule: send_data.induct)
    (auto simp: Let_def same_state_wire intro!: same_state_upd_conn split: send_ret.splits)

lemma send_file_same: "send_file fd d len rs w = (ret, n, rs', w') \<Longrightarrow> same_state w w'"
  by (induction fd d len rs w rule: send_file.induct)
    (auto simp: Let_def same_state_wire intro!: same_state_upd_conn split: send_ret.splits prod.splits)

lemma send_io_same: "send_io fd w k = (ret, n, w', k') \<Longrightarrow> same_state w w'"
  by (auto simp: send_io_def Let_def split: prod.splits if_splits option.splits
      dest!: send_data_same send_file_same intro: same_state_trans)

lemma recv_loop_same: "recv_loop bs fd rs w = (cl, rs', w') \<Longrightarrow> same_state w w'"
proof (induction bs fd rs w arbitrary: cl rs' w' rule: recv_loop.induct)
  case (2 bs fd r rs w)
  have g: "same_state w (upd_conn fd (\<lambda>c. c\<lparr>recv_buff := mybuff_setdata bs (recv_buff c) d\<rparr>) w)" for d
    by (rule same_state_upd_conn) simp_all
  show ?case
  proof (cases r)
    case (Got d)
    show ?thesis
    proof (cases "length d = bs")
      case True
      with Got "2.prems" "2.IH"(1) [OF Got refl True] g show ?thesis by (auto intro: same_state_trans)
    next
      case False
      with Got "2.prems" g show ?thesis by auto
    qed
  qed (use 2 in auto)
qed auto

lemma do_close_inv:
  assumes "P w" "P (fin fd w)" "\<And>w w'. P w \<Longrightarrow> same_state w w' \<Longrightarrow> P w'"
  shows "P (do_close fin m fd w)"
proof -
  let ?v = "fin fd w"
  have "same_state ?v (let w = ?v\<lparr>events := (events ?v)(fd := 0)\<rparr>; w = upd_conn fd (\<lambda>c. c\<lparr>c_fd := -1\<rparr>) w in w\<lparr>shut := shut w @ [fd]\<rparr>)"
    by (simp add: Let_def same_state_def upd_conn_def)
  from assms(3) [OF assms(2) this] assms(1) show ?thesis by (simp add: do_close_def Let_def)
qed

locale service_inv =
  fixes lib :: "('u, 'g) mylib" and l :: loop_env and P :: "('u, 'g) world \<Rightarrow> bool"
  assumes frame: "P w \<Longrightarrow> same_state w w' \<Longrightarrow> P w'"
    and initconn: "P w \<Longrightarrow> P (snd (lib_initconn lib fd w))"
    and recv: "P w \<Longrightarrow> P (snd (lib_recv lib fd w))"
    and send: "P w \<Longrightarrow> P (snd (lib_send lib fd w))"
    and send_once: "lib_send_once lib = Some f \<Longrightarrow> P w \<Longrightarrow> P (snd (f fd w))"
    and finiconn: "lib_finiconn lib = Some g \<Longrightarrow> P w \<Longrightarrow> P (g fd w)"
    and timeout: "lib_timeout lib = Some h \<Longrightarrow> P w \<Longrightarrow> P (h w)"
begin

lemma close: "P w \<Longrightarrow> P (lib_do_close lib l fd w)"
proof -
  assume P: "P w"
  have "P ((case lib_finiconn lib of Some f \<Rightarrow> f | None \<Rightarrow> (\<lambda>_ w. w)) fd w)" using P finiconn by (cases "lib_finiconn lib") auto
  from P this frame show ?thesis unfolding lib_do_close_def by (rule do_close_inv [where P = P])
qed

lemma send_done_inv: "P w \<Longrightarrow> P (send_done lib l fd ret n w)"
proof -
  assume P: "P w"
  let ?w1 = "if ret = SEND_ADD_EPOLLIN then modify_fd_event fd EPOLLIN w
             else if ret = SEND_ADD_EPOLLOUT then modify_fd_event fd EPOLLOUT w
             else if ret = SEND_ADD_EPOLLALL then modify_fd_event fd (EPOLLOUT OR EPOLLIN) w else w"
  have 1: "P ?w1" using P by (auto intro: frame)
  have 2: "P (case lib_send_once lib of Some f \<Rightarrow> if n > 0 then snd (f fd w) else w | None \<Rightarrow> w)" if "P w" for w
    using that send_once by (auto split: option.split)
  have 3: "P (if ret = SEND_ADD_EPOLLIN
      then case lib_send lib fd w of (r, w) \<Rightarrow> if r = SEND_CLOSE then lib_do_close lib l fd w else w else w)" if "P w" for w
    using that send [OF that, of fd] close by (auto split: prod.split)
  show ?thesis
  proof (cases "ret = SEND_CLOSE")
    case True
    then show ?thesis using close [OF P] by (simp add: send_done_def)
  next
    case False
    show ?thesis unfolding send_done_def Let_def if_not_P [OF False] by (rule 3 [OF 2 [OF 1]])
  qed
qed

lemma do_send_inv: "P (fst s) \<Longrightarrow> P (fst (do_send lib l fd flag s))"
  by (auto simp: do_send_def split: prod.split intro!: send_done_inv intro: frame dest: send_io_same)

lemma do_recv_inv: "P (fst s) \<Longrightarrow> P (fst (do_recv lib l fd flag s))"
proof -
  assume P: "P (fst s)"
  obtain w k where s: "s = (w, k)" by force
  obtain r k1 where r: "next_rand k = (r, k1)" by force
  obtain r' k2 where r': "next_rand k1 = (r', k2)" by force
  obtain cl rs w1 where rl: "recv_loop (l_buff_size l) fd (k_recv k2 fd) w = (cl, rs, w1)" by (metis prod_cases3)
  have w1: "P w1" using P s frame recv_loop_same [OF rl] by simp
  obtain ret w2 where lr: "lib_recv lib fd w1 = (ret, w2)" by force
  have w2: "P w2" using recv [OF w1, of fd] lr by simp
  show ?thesis
    using P w2 close [OF w1] close [OF w2] do_send_inv [of "(w2, k)" for k]
    by (auto simp: s do_recv_def r r' rl lr Let_def intro: frame)
qed

lemma accept_loop_inv: "P w \<Longrightarrow> P (snd (accept_loop lib l fds w))"
proof (induction fds arbitrary: w)
  case (Cons fd fds)
  obtain r w1 where i: "lib_initconn lib fd w = (r, w1)" by force
  have w1: "P w1" using initconn [OF Cons.prems, of fd] i by simp
  have "P (w\<lparr>shut := shut w @ [fd]\<rparr>)" "P (w1\<lparr>shut := shut w1 @ [fd]\<rparr>)" "P (add_fd_2_efd (l_buff_size l) fd w1)"
    using Cons.prems w1 by (auto intro: frame)
  with Cons show ?case by (simp add: i)
qed simp

lemma accept_inv: "P (fst s) \<Longrightarrow> P (fst (accept_new lib l s))"
  using accept_loop_inv [of "fst s" "k_accept (snd s)"] by (cases s) (simp add: accept_new_def split_beta)

lemma fold_inv:
  assumes "\<And>x s. P (fst s) \<Longrightarrow> P (fst (f x s))" "P (fst s)"
  shows "P (fst (fold f xs s))"
  using assms(2) by (induction xs arbitrary: s) (simp_all add: assms(1))

lemma scan_pend_inv: "P (fst s) \<Longrightarrow> P (fst (scan_pend_list lib l s))"
proof -
  assume P: "P (fst s)"
  obtain w k where s: "s = (w, k)" by force
  let ?f = "\<lambda>fd (w, k). do_send lib l (c_fd (conns w fd)) True (w\<lparr>send_list := removeAll fd (send_list w)\<rparr>, k)"
  let ?g = "\<lambda>fd (w, k). do_recv lib l (c_fd (conns w fd)) True (w\<lparr>recv_list := removeAll fd (recv_list w)\<rparr>, k)"
  have f: "P (fst (?f fd s))" and g: "P (fst (?g fd s))" if "P (fst s)" for fd s
    using that by (cases s; auto intro!: do_send_inv do_recv_inv intro: frame)+
  have 1: "P (w\<lparr>send_list := send_list w @ tmp_send_list w, tmp_send_list := []\<rparr>)" using P s by (auto intro: frame)
  let ?w = "w\<lparr>send_list := send_list w @ tmp_send_list w, tmp_send_list := []\<rparr>"
  obtain w2 k2 where 2: "fold ?f (send_list ?w) (?w, k) = (w2, k2)" by force
  have "P w2" using fold_inv [of ?f "(?w, k)" "send_list ?w"] f 1 2 by (simp del: fold_append)
  then have 3: "P (w2\<lparr>recv_list := recv_list w2 @ tmp_recv_list w2, tmp_recv_list := []\<rparr>)" by (auto intro: frame)
  show ?thesis
    using fold_inv [of ?g, OF g, of "(w2\<lparr>recv_list := recv_list w2 @ tmp_recv_list w2, tmp_recv_list := []\<rparr>, k2)"] 2 3
    by (simp add: s scan_pend_list_def Let_def del: fold_append)
qed

lemma process_inv: "P (fst s) \<Longrightarrow> P (fst (do_process lib l fd ev s))"
proof -
  assume P: "P (fst s)"
  obtain w k where s: "s = (w, k)" by force
  obtain w1 k1 where 1: "do_recv lib l fd False (w, k) = (w1, k1)" by force
  have "P w1" using do_recv_inv [of s fd False] P by (simp add: s 1)
  then show ?thesis
    using P s close do_send_inv [of "(w1, k1)"] do_send_inv [of "(w, k)"] by (auto simp: do_process_def 1)
qed

text \<open>A turn of the loop keeps what every handler keeps.\<close>

lemma turn: "P (fst s) \<Longrightarrow> P (fst (snd (loop_turn lib l lfd ck evs now prev s)))"
proof -
  assume P: "P (fst s)"
  let ?f = "\<lambda>(fd, ev) s. if lfd = Some fd then accept_new lib l s else do_process lib l fd ev s"
  have "P (fst (fold ?f evs s))"
    using P by (intro fold_inv) (auto split: prod.split intro: accept_inv process_inv)
  moreover from this have "P (fst (scan_pend_list lib l (fold ?f evs s)))" by (rule scan_pend_inv)
  ultimately show ?thesis using timeout by (auto simp: loop_turn_def Let_def split: prod.split option.split)
qed

end

end
