(* ===== verification/Ownership.thy ===== *)
theory Ownership
  imports Split
begin

text \<open>
  Who owns a task.  A task is at any time on one queue, or on the hash table, or held by a handler or a connection
  that has taken it.  \<open>owned s H\<close> says that the tasks \<open>H\<close> are held: they are on no queue and not on the hash table; and
  that a task on the hash table is on no queue.  Each operation moves tasks between the three, whatever
  the outcome of its lock and of \<^verbatim>\<open>malloc\<close>: where it fails a task may be lost, but never has two owners.
\<close>

definition unhashed :: "task_state \<Rightarrow> addr \<Rightarrow> bool" where
  "unhashed s x \<longleftrightarrow> (\<forall>i. x \<notin> set (alltask s i))"

definition free_task :: "task_state \<Rightarrow> addr \<Rightarrow> bool" where
  "free_task s x \<longleftrightarrow> detached s x \<and> unhashed s x"

definition owned :: "task_state \<Rightarrow> addr set \<Rightarrow> bool" where
  "owned s H \<longleftrightarrow> tq_inv s \<and> (\<forall>x\<in>H. free_task s x) \<and> (\<forall>x i. x \<in> set (alltask s i) \<longrightarrow> detached s x)"

named_theorems owned

lemma ownedD:
  assumes "owned s H"
  shows "tq_inv s" "x \<in> H \<Longrightarrow> free_task s x" "x \<in> set (alltask s i) \<Longrightarrow> detached s x"
  using assms by (auto simp: owned_def)

lemma owned_mono: "owned s H \<Longrightarrow> H' \<subseteq> H \<Longrightarrow> owned s H'"
  by (auto simp: owned_def)

lemma owned_init: "owned (init_queues s) {}"
  by (simp add: owned_def tq_inv_init) (simp add: init_queues_def)

text \<open>A task on a queue is neither held nor hashed.\<close>

lemma queued_not_owned:
  assumes "owned s H" "x \<in> set (vfstask s i)"
  shows "x \<notin> H" "unhashed s x"
  using assms by (auto simp: owned_def free_task_def detached_def unhashed_def)

section \<open>The queues\<close>

text \<open>What \<^verbatim>\<open>vfs_get_task\<close> takes is held by nobody else.\<close>

lemma get_source:
  assumes "tq_inv s" "vfs_get_task lk m st s = (r, Some x, s')"
  shows "(x \<in> set (vfstask s st) \<or> x = top s) \<and> alltask s' = alltask s \<and> top s \<le> top s' \<and>
    (\<forall>j. vfstask s' j = removeAll x (vfstask s j))"
proof (cases "vfstask s st")
  case Nil
  have "top s \<notin> set (vfstask s j)" for j using queues_okD(3) [OF tq_invD(1) [OF assms(1)]] by blast
  with Nil assms(2) show ?thesis by (auto simp: vfs_get_task_def tq_ops split: if_splits)
next
  case (Cons y ys)
  with assms(2) show ?thesis by (auto simp: vfs_get_task_def tq_ops split: if_splits)
qed

lemma owned_get:
  assumes "owned s H" "vfs_get_task lk m st s = (r, Some x, s')"
  shows "owned s' (insert x H)" "x \<notin> H"
proof -
  note inv = ownedD(1) [OF assms(1)]
  have inv': "tq_inv s'" using tq_inv_get [OF inv] assms(2) by (metis snd_conv)
  have d: "detached s' x" using get_detached [OF inv assms(2)] by simp
  note src = get_source [OF inv assms(2)]
  have top: "unhashed s (top s) \<and> top s \<notin> H"
    using assms(1) inv by (auto simp: unhashed_def owned_def free_task_def detached_def tq_inv_def alltask_ok_def)
  then have x: "unhashed s x \<and> x \<notin> H" using src queued_not_owned [OF assms(1)] by auto
  then show "x \<notin> H" by simp
  have keep: "detached s' y" if "detached s y" for y
    using that src unfolding detached_def by (simp add: less_le_trans)
  show "owned s' (insert x H)"
    using assms(1) inv' d x keep src by (auto simp: owned_def free_task_def unhashed_def)
qed

lemma get_none: "vfs_get_task lk m st s = (r, None, s') \<Longrightarrow> s' = s"
  by (auto simp: vfs_get_task_def split: if_splits list.splits)

lemma set_frame:
  "alltask (snd (vfs_set_task lk x st s)) = alltask s" "top (snd (vfs_set_task lk x st s)) = top s"
  "y \<noteq> x \<Longrightarrow> detached (snd (vfs_set_task lk x st s)) y = detached s y"
  by (auto simp: vfs_set_task_def tq_ops detached_def)

lemma owned_set [owned]:
  assumes "owned s H" "free_task s x" "x \<notin> H"
  shows "owned (snd (vfs_set_task lk x st s)) H"
proof -
  have "tq_inv (snd (vfs_set_task lk x st s))"
    using tq_inv_set ownedD(1) [OF assms(1)] assms(2) by (simp add: free_task_def)
  moreover have "detached (snd (vfs_set_task lk x st s)) y" if "y \<in> H \<or> (\<exists>i. y \<in> set (alltask s i))" for y
  proof -
    have "y \<noteq> x" "detached s y" using that assms by (auto simp: owned_def free_task_def unhashed_def)
    then show ?thesis by (simp add: set_frame)
  qed
  ultimately show ?thesis
    using assms(1) by (auto simp: owned_def free_task_def unhashed_def set_frame(1))
qed

text \<open>Writing to a task that one holds.\<close>

lemma owned_write [owned]:
  assumes "owned s H" "free_task s x"
  shows "owned (set_node x f s) H"
proof -
  have "tq_inv (set_node x f s)"
    using assms by (intro tq_inv_write ownedD(1) [OF assms(1)]) (auto simp: free_task_def detached_def unhashed_def)
  then show ?thesis using assms(1) by (simp add: owned_def free_task_def unhashed_def tq_ops detached_def)
qed

lemma free_write [simp]: "free_task (set_node x f s) y = free_task s y"
  by (simp add: free_task_def unhashed_def detached_def tq_ops)

lemma owned_set_back:
  assumes "owned s (insert x H)" "x \<notin> H"
  shows "owned (snd (vfs_set_task lk x st (set_node x f s))) H"
proof -
  have f: "free_task s x" using assms(1) by (simp add: owned_def)
  have "owned s H" by (rule owned_mono [OF assms(1)]) blast
  then have "owned (set_node x f s) H" using f by (rule owned_write)
  then show ?thesis using f assms(2) by (intro owned_set) simp_all
qed

lemma owned_set_back0:
  "owned s (insert x H) \<Longrightarrow> x \<notin> H \<Longrightarrow> owned (snd (vfs_set_task lk x st s)) H"
  using owned_set_back [of s x H lk st "\<lambda>n. n"] by (simp add: set_node_def)

text \<open>The scans: a task goes from its queue to \<open>TASK_HOME\<close>.\<close>

lemma owned_timeout:
  assumes "owned s H" "x \<in> set (vfstask s i)"
  shows "owned (check_task_timeout lkh cur c x s) H"
proof -
  have a: "alltask (check_task_timeout lkh cur c x s) = alltask s"
    using queued_not_owned(2) [OF assms]
    by (simp add: check_task_timeout_def Let_def vfs_set_task_def tq_ops unhashed_def fun_eq_iff)
  have d: "detached (check_task_timeout lkh cur c x s) y" if "detached s y" for y
  proof -
    have "y \<noteq> x" using that assms(2) by (auto simp: detached_def)
    with that show ?thesis by (auto simp: check_task_timeout_def Let_def vfs_set_task_def tq_ops detached_def)
  qed
  show ?thesis
    using assms(1) tq_inv_check_task_timeout [OF ownedD(1) [OF assms(1)] assms(2)] d
    by (auto simp: owned_def free_task_def unhashed_def a)
qed

section \<open>The hash table\<close>

lemma owned_hash [owned]:
  assumes "owned s H" "free_task s x" "x \<notin> H"
  shows "owned (snd (add_task_to_alltask lk x s)) H"
proof -
  have "x < top s" using assms(2) by (simp add: free_task_def detached_def)
  then have "tq_inv (snd (add_task_to_alltask lk x s))" by (rule tq_inv_add_all [OF ownedD(1) [OF assms(1)]])
  then show ?thesis
    using assms by (auto simp: owned_def free_task_def unhashed_def add_task_to_alltask_def Let_def hlist_add_head_def hlist_del_def
        detached_def split: if_splits)
qed

lemma get_all_none: "get_task_from_alltask lk f i c s = (r, None, s') \<Longrightarrow> s' = s"
  by (auto simp: get_task_from_alltask_def split: if_splits option.splits)

lemma owned_unhash:
  assumes "owned s H" "get_task_from_alltask lk f i c s = (r, Some x, s')"
  shows "owned s' (insert x H)" "x \<notin> H"
proof -
  have s': "s' = hlist_del x s" and "x \<in> set (alltask s (task_bucket f i c))"
    using assms(2) find_Some_iff2 [of x] by (auto simp: get_task_from_alltask_def find_Some_iff split: if_splits option.splits)
  moreover from this(2) show "x \<notin> H" using assms(1) by (auto simp: owned_def free_task_def unhashed_def)
  moreover have "detached s x" using ownedD(3) [OF assms(1) \<open>x \<in> set (alltask s _)\<close>] .
  ultimately show "owned s' (insert x H)"
    using assms(1) tq_inv_hlist_del [of s x] by (auto simp: owned_def free_task_def unhashed_def hlist_del_def detached_def)
qed

lemma owned_expire [owned]:
  assumes "owned s H"
  shows "owned (snd (set_task_from_alltask lk f i c ex s)) H"
proof -
  have "tq_inv (snd (set_task_from_alltask lk f i c ex s))" by (rule tq_inv_set_all [OF ownedD(1) [OF assms]])
  moreover have "alltask (snd (set_task_from_alltask lk f i c ex s)) = alltask s"
    "detached (snd (set_task_from_alltask lk f i c ex s)) y = detached s y" for y
    by (auto simp: set_task_from_alltask_def tq_ops detached_def split: option.split)
  ultimately show ?thesis using assms by (simp add: owned_def free_task_def unhashed_def)
qed

section \<open>A new task on a queue\<close>

lemma owned_put_new [owned]:
  assumes "owned s H"
  shows "owned (snd (put_new e st t s)) H"
proof (cases "vfs_get_task (q_lock e TASK_HOME) (malloc_ok e) TASK_HOME s")
  case (fields r o' s')
  show ?thesis
  proof (cases o')
    case None
    with fields get_none [of "q_lock e TASK_HOME" "malloc_ok e" TASK_HOME s r s'] assms show ?thesis
      by (simp add: put_new_def)
  next
    case (Some x)
    with fields have g: "vfs_get_task (q_lock e TASK_HOME) (malloc_ok e) TASK_HOME s = (r, Some x, s')" by simp
    show ?thesis using owned_set_back [OF owned_get [OF assms g]] by (simp add: put_new_def g)
  qed
qed

end
