(* ===== verification/DataInv.thy ===== *)
theory DataInv
  imports ServiceInv UcWatch Ownership
begin

text \<open>
  The two services that move parts, \<^verbatim>\<open>sm_client\<close> and \<^verbatim>\<open>uc_client\<close>, keep the ownership of tasks: a connection
  that receives a part holds the task of the part, alone, and the lists of connections name only connections that
  have their user data.
\<close>

section \<open>The invariant\<close>

text \<open>The task that a connection holds.\<close>

definition claims :: "sm_world \<Rightarrow> int \<Rightarrow> addr option" where
  "claims w fd = recvtask (peer_of fd w)"

definition in_body :: "sm_world \<Rightarrow> int set" where
  "in_body w = {fd. sstat (peer_of fd w) = RECV_BODY_ING}"

definition held_ok :: "task_state \<Rightarrow> (int \<Rightarrow> addr option) \<Rightarrow> int set \<Rightarrow> bool" where
  "held_ok s cl body \<longleftrightarrow> owned s (ran cl) \<and> inj_on cl (dom cl) \<and> dom cl \<subseteq> body"

definition lists_ok :: "sm_world \<Rightarrow> bool" where
  "lists_ok w \<longleftrightarrow> (\<forall>fd. p_fd (peer_of fd w) = fd) \<and>
     (\<forall>fd\<in>set (activelist (glob w)). user (conns w fd) \<noteq> None) \<and>
     (\<forall>i. \<forall>fd\<in>set (online_list (glob w) i). user (conns w fd) \<noteq> None)"

definition data_inv :: "sm_world \<Rightarrow> bool" where
  "data_inv w \<longleftrightarrow> held_ok (g_tq (glob w)) (claims w) (in_body w) \<and> lists_ok w"

section \<open>Moves of a task\<close>

lemma ran_drop:
  assumes "inj_on cl (dom cl)" "cl fd = Some x"
  shows "ran cl = insert x (ran (cl(fd := None)))" "x \<notin> ran (cl(fd := None))"
proof -
  have "cl = (cl(fd := None))(fd \<mapsto> x)" using assms(2) by (simp add: fun_upd_idem)
  then show "ran cl = insert x (ran (cl(fd := None)))" by (metis fun_upd_same ran_map_upd)
  show "x \<notin> ran (cl(fd := None))" using assms by (auto simp: ran_def inj_on_def dom_def split: if_splits)
qed

lemma held_release:
  assumes "held_ok s cl body" "cl fd = Some x" "dom (cl(fd := None)) \<subseteq> body'"
  shows "held_ok (snd (vfs_set_task lk x st (set_node x f s))) (cl(fd := None)) body'"
proof -
  note r = ran_drop [of cl fd x]
  have "inj_on cl (dom cl)" using assms(1) by (simp add: held_ok_def)
  moreover from this have "inj_on (cl(fd := None)) (dom (cl(fd := None)))" by (auto simp: inj_on_def dom_def)
  ultimately show ?thesis
    using assms owned_set_back [of s x "ran (cl(fd := None))"] r by (simp add: held_ok_def)
qed

lemma held_take:
  assumes "held_ok s cl body" "cl fd = None" "vfs_get_task lk m st s = (r, Some x, s')" "insert fd (dom cl) \<subseteq> body'"
  shows "held_ok (set_node x f s') (cl(fd := Some x)) body'"
proof -
  have o1: "owned s (ran cl)" "inj_on cl (dom cl)" using assms(1) by (simp_all add: held_ok_def)
  note g = owned_get [OF o1(1) assms(3)]
  have "ran (cl(fd := Some x)) = insert x (ran cl)" using assms(2) by (rule ran_map_upd)
  moreover have "owned (set_node x f s') (insert x (ran cl))"
    using g(1) by (intro owned_write) (auto simp: owned_def)
  moreover have "inj_on (cl(fd := Some x)) (dom (cl(fd := Some x)))"
    using o1(2) g(2) by (auto simp: inj_on_def dom_def ran_def split: if_splits)
  ultimately show ?thesis using assms(4) by (simp add: held_ok_def)
qed

lemma held_ok_write:
  assumes "held_ok s cl body" "cl fd = Some x"
  shows "held_ok (set_node x f s) cl body"
proof -
  have "x \<in> ran cl" using assms(2) by (auto simp: ran_def)
  then show ?thesis using assms(1) owned_write [of s "ran cl" x f] by (auto simp: held_ok_def owned_def)
qed

lemma held_drop: "held_ok s cl body \<Longrightarrow> dom (cl(fd := None)) \<subseteq> body' \<Longrightarrow> held_ok s (cl(fd := None)) body'"
  by (auto simp: held_ok_def inj_on_def dom_def ran_def intro: owned_mono)

lemma held_owned: "held_ok s cl body \<Longrightarrow> owned s' (ran cl) \<Longrightarrow> held_ok s' cl body"
  by (simp add: held_ok_def)

lemma held_body: "held_ok s cl body \<Longrightarrow> dom cl \<subseteq> body' \<Longrightarrow> held_ok s cl body'"
  by (simp add: held_ok_def)

section \<open>What the operations on a connection change\<close>

lemma user_frame [simp]:
  "user (conns (set_client_data bs fd d w) k) = user (conns w k)" "user (conns (modify_fd_event fd ev w) k) = user (conns w k)"
  "user (conns (add_fd_2_efd bs fd w) k) = user (conns w k)" "user (conns (set_client_fd fd lfd off n w) k) = user (conns w k)"
  "user (conns (set_user fd u w) k) = (if k = fd then u else user (conns w k))"
  "glob (add_fd_2_efd bs fd w) = glob w" "glob (set_client_fd fd lfd off n w) = glob w"
  by (auto simp: conn_defs add_fd_2_efd_def set_client_fd_def Let_def split: prod.split)

lemma peer_of_cong: "user (conns w k) = user (conns w' k) \<Longrightarrow> peer_of k w = peer_of k w'"
  by (simp add: peer_of_def)

lemma peer_of_glob [simp]: "peer_of k (w\<lparr>glob := g\<rparr>) = peer_of k w"
  by (simp add: peer_of_def)

lemma peer_of_frame [simp]:
  "peer_of k (tq_upd g w) = peer_of k w" "peer_of k (fs_upd h w) = peer_of k w" "peer_of k (alist_move_tail fd w) = peer_of k w"
  "peer_of k (alist_del fd w) = peer_of k w" "peer_of k (online_add fd ip w) = peer_of k w" "peer_of k (online_del fd w) = peer_of k w"
  "peer_of k (consume_client_data fd n w) = peer_of k w" "peer_of k (put_back fd d w) = peer_of k w"
  "peer_of k (set_client_data bs fd d w) = peer_of k w" "peer_of k (modify_fd_event fd ev w) = peer_of k w"
  "peer_of k (add_fd_2_efd bs fd w) = peer_of k w" "peer_of k (set_client_fd fd lfd off n w) = peer_of k w"
  "peer_of k (upd_peer fd f w) = (if k = fd then f (peer_of fd w) else peer_of k w)"
  by (simp_all add: peer_of_def upd_peer_def)

lemma user_upd_peer [simp]:
  "user (conns (upd_peer fd f w) k) = (if k = fd then Some (f (peer_of fd w)) else user (conns w k))" "glob (upd_peer fd f w) = glob w"
  by (simp_all add: upd_peer_def)

lemma claims_frame [simp]:
  "claims (tq_upd g w) = claims w" "claims (fs_upd h w) = claims w" "claims (alist_move_tail fd w) = claims w"
  "claims (alist_del fd w) = claims w" "claims (online_add fd ip w) = claims w" "claims (online_del fd w) = claims w"
  "claims (consume_client_data fd n w) = claims w" "claims (put_back fd d w) = claims w"
  "claims (set_client_data bs fd d w) = claims w" "claims (modify_fd_event fd ev w) = claims w"
  "claims (add_fd_2_efd bs fd w) = claims w" "claims (set_client_fd fd lfd off n w) = claims w"
  "claims (upd_peer fd f w) = (claims w)(fd := recvtask (f (peer_of fd w)))"
  "claims (set_user fd u w) = (claims w)(fd := Option.bind u recvtask)"
  by (auto simp: claims_def fun_eq_iff peer_of_def new_peer_def split: option.split)

lemma in_body_frame [simp]:
  "in_body (tq_upd g w) = in_body w" "in_body (fs_upd h w) = in_body w" "in_body (alist_move_tail fd w) = in_body w"
  "in_body (alist_del fd w) = in_body w" "in_body (online_add fd ip w) = in_body w" "in_body (online_del fd w) = in_body w"
  "in_body (consume_client_data fd n w) = in_body w" "in_body (put_back fd d w) = in_body w"
  "in_body (set_client_data bs fd d w) = in_body w" "in_body (modify_fd_event fd ev w) = in_body w"
  "in_body (add_fd_2_efd bs fd w) = in_body w" "in_body (set_client_fd fd lfd off n w) = in_body w"
  "in_body (upd_peer fd f w) = (if sstat (f (peer_of fd w)) = RECV_BODY_ING then insert fd (in_body w) else in_body w - {fd})"
  by (auto simp: in_body_def)

lemma lists_frame [simp]:
  "lists_ok (tq_upd g w) = lists_ok w" "lists_ok (fs_upd h w) = lists_ok w" "lists_ok (consume_client_data fd n w) = lists_ok w"
  "lists_ok (put_back fd d w) = lists_ok w" "lists_ok (set_client_data bs fd d w) = lists_ok w"
  "lists_ok (modify_fd_event fd ev w) = lists_ok w" "lists_ok (add_fd_2_efd bs fd w) = lists_ok w"
  "lists_ok (set_client_fd fd lfd off n w) = lists_ok w"
  by (simp_all add: lists_ok_def tq_upd_def fs_upd_def)

lemma lists_upd_peer:
  "p_fd (f (peer_of fd w)) = p_fd (peer_of fd w) \<Longrightarrow> lists_ok w \<Longrightarrow> lists_ok (upd_peer fd f w)"
  by (auto simp: lists_ok_def)

lemma lists_touch: "lists_ok w \<Longrightarrow> lists_ok (touch e fd w)"
  by (auto simp: lists_ok_def touch_def alist_move_tail_def)

lemma claims_touch [simp]: "claims (touch e fd w) = claims w"
  by (auto simp: touch_def claims_def fun_eq_iff)

lemma in_body_touch [simp]: "in_body (touch e fd w) = in_body w"
  by (auto simp: touch_def in_body_def)

lemma tq_touch [simp]: "g_tq (glob (touch e fd w)) = g_tq (glob w)"
  by (simp add: touch_def)

lemma data_touch: "data_inv w \<Longrightarrow> data_inv (touch e fd w)"
  by (simp add: data_inv_def lists_touch)

lemma data_same: "data_inv w \<Longrightarrow> same_state w w' \<Longrightarrow> data_inv w'"
proof -
  assume "data_inv w" "same_state w w'"
  moreover from this(2) have "peer_of fd w' = peer_of fd w" for fd by (simp add: peer_of_def same_state_def)
  moreover from this have "claims w' = claims w" "in_body w' = in_body w" by (simp_all add: claims_def in_body_def fun_eq_iff)
  ultimately show ?thesis by (simp add: data_inv_def lists_ok_def same_state_def)
qed

section \<open>Opening and closing a connection\<close>

lemma data_initconn: "data_inv w \<Longrightarrow> data_inv (snd (svc_initconn e fd w))"
proof -
  assume inv: "data_inv w"
  let ?w = "online_add fd (peer_ip e fd) (alist_move_tail fd (set_user fd (Some (new_peer fd (clock e) (peer_ip e fd))) w))"
  have "held_ok (g_tq (glob w)) ((claims w)(fd := None)) (in_body w - {fd})"
    using inv by (intro held_drop [where body = "in_body w"]) (auto simp: data_inv_def held_ok_def)
  moreover have "in_body ?w = in_body w - {fd}" "claims ?w = (claims w)(fd := None)"
    by (auto simp: in_body_def peer_of_def new_peer_def claims_def)
  moreover have "lists_ok ?w"
    using inv by (auto simp: data_inv_def lists_ok_def peer_of_def new_peer_def alist_move_tail_def online_add_def)
  ultimately have "data_inv ?w" by (simp add: data_inv_def)
  with inv show ?thesis by (simp add: svc_initconn_def Let_def)
qed

text \<open>The end of both \<^verbatim>\<open>svc_finiconn\<close>: \<open>h\<close> is what is written to the task.\<close>

lemma data_finiconn:
  assumes "data_inv w" "user (conns w fd) = Some p"
    and "w1 = (case recvtask p of
           Some x \<Rightarrow> tq_upd (\<lambda>s. snd (vfs_set_task lk x TASK_FIN (set_node x (h x) s))) (fs_upd k (online_del fd (alist_del fd w)))
         | None \<Rightarrow> online_del fd (alist_del fd w))"
  shows "data_inv (set_user fd None w1)"
proof -
  have c: "claims w fd = recvtask p" using assms(2) by (simp add: claims_def peer_of_def)
  let ?w = "online_del fd (alist_del fd w)"
  have w0: "conns w1 = conns w" "activelist (glob w1) = activelist (glob ?w)" "online_list (glob w1) = online_list (glob ?w)"
    by (cases "recvtask p"; simp add: assms(3) tq_upd_def fs_upd_def)+
  then have w1: "claims w1 = claims w" "user (conns w1 k) = user (conns w k)" "peer_of k w1 = peer_of k w"
    "activelist (glob w1) = removeAll fd (activelist (glob w))" "online_list (glob w1) = (\<lambda>i. removeAll fd (online_list (glob w) i))"
    for k by (simp_all add: claims_def fun_eq_iff peer_of_def online_del_def alist_del_def)
  have b: "in_body (set_user fd None w1) = in_body w - {fd}"
    by (auto simp: in_body_def w1(3)) (auto simp: peer_of_def w1(2) new_peer_def split: if_splits)
  have d: "dom ((claims w)(fd := None)) \<subseteq> in_body w - {fd}" using assms(1) by (auto simp: data_inv_def held_ok_def)
  have h: "held_ok (g_tq (glob w)) (claims w) (in_body w)" using assms(1) by (simp add: data_inv_def)
  have "held_ok (g_tq (glob w1)) ((claims w)(fd := None)) (in_body w - {fd})"
  proof (cases "recvtask p")
    case None
    have "held_ok (g_tq (glob w)) ((claims w)(fd := None)) (in_body w - {fd})" by (rule held_drop [OF h d])
    with None show ?thesis by (simp add: assms(3))
  next
    case (Some x)
    with held_release [OF h _ d] c show ?thesis by (simp add: assms(3))
  qed
  moreover have "lists_ok (set_user fd None w1)"
    using assms(1) by (auto simp: data_inv_def lists_ok_def w1(2,4,5) peer_of_def new_peer_def split: option.splits if_splits)
  ultimately show ?thesis by (simp add: data_inv_def b w1(1))
qed

section \<open>Receiving\<close>

lemma held_base: "held_ok s cl body \<Longrightarrow> cl fd = Some x \<Longrightarrow> held_ok (set_base x f s) cl body"
  unfolding set_base_def by (rule held_ok_write)

lemma held_release_base:
  "held_ok s cl body \<Longrightarrow> cl fd = Some x \<Longrightarrow> dom (cl(fd := None)) \<subseteq> body' \<Longrightarrow>
   held_ok (snd (vfs_set_task lk x st (set_base x f s))) (cl(fd := None)) body'"
  unfolding set_base_def by (rule held_release)

text \<open>The connection is about to let go of its task.\<close>

definition dropping :: "int \<Rightarrow> sm_world \<Rightarrow> bool" where
  "dropping fd w \<longleftrightarrow> held_ok (g_tq (glob w)) ((claims w)(fd := None)) (in_body w) \<and> lists_ok w"

lemma dropping_drop: "dropping fd w \<Longrightarrow> data_inv (upd_peer fd (\<lambda>p. p\<lparr>recvtask := None\<rparr>) w)"
proof -
  assume "dropping fd w"
  moreover have "in_body (upd_peer fd (\<lambda>p. p\<lparr>recvtask := None\<rparr>) w) = in_body w" by (auto simp: in_body_def)
  ultimately show ?thesis by (simp add: data_inv_def dropping_def lists_upd_peer)
qed

lemma data_dropping: "data_inv w \<Longrightarrow> dropping fd w"
proof -
  assume inv: "data_inv w"
  then have h: "held_ok (g_tq (glob w)) (claims w) (in_body w)" by (simp add: data_inv_def)
  then have "dom ((claims w)(fd := None)) \<subseteq> in_body w" by (auto simp: held_ok_def)
  with held_drop [OF h] inv show ?thesis by (simp add: dropping_def data_inv_def)
qed

lemma upd_peer_same_body: "(\<And>p. sstat (f p) = sstat p) \<Longrightarrow> in_body (upd_peer fd f w) = in_body w"
  by (auto simp: in_body_def)

lemma prepare_inv:
  assumes "held_ok (g_tq (glob w)) (claims w) (insert fd (in_body w))" "lists_ok w" "claims w fd = Some x"
    and "do_prepare_recvfile e fd fsz w = (r, w')"
  shows "r = RECV_CLOSE \<and> dropping fd w' \<or> r = RECV_ADD_EPOLLIN \<and> data_inv w'"
proof (cases "sstat (peer_of fd w) = RECV_HEAD_ING")
  case False
  have "held_ok (g_tq (glob w)) ((claims w)(fd := None)) (in_body w)"
    using assms(1) by (rule held_drop) (use assms(1) in \<open>auto simp: held_ok_def\<close>)
  with False assms(2,4) show ?thesis by (auto simp: do_prepare_recvfile_def Let_def dropping_def)
next
  case True
  have x: "recvtask (peer_of fd w) = Some x" using assms(3) by (simp add: claims_def)
  let ?w1 = "tq_upd (set_base x (\<lambda>b. b\<lparr>fsize := fsz, getlen := 0\<rparr>)) w"
  let ?t = "task (node (g_tq (glob ?w1)) x)"
  obtain q b f fs where o: "open_tmp_localfile_4_write (n_io e) (datadir e) (base ?t) (sub ?t)
      (map_option fst (local_in_fd (peer_of fd w))) (g_fs (glob ?w1)) = (q, b, f, fs)" by (metis prod_cases4)
  let ?w2 = "upd_peer fd (\<lambda>p. p\<lparr>local_in_fd := map_option (\<lambda>q. (q, 0)) f\<rparr>) (fs_upd (\<lambda>_. fs) (tq_upd (set_base x (\<lambda>_. b)) ?w1))"
  have c: "claims ?w2 = claims w" by (auto simp: claims_def)
  have i: "in_body ?w2 = in_body w" by (subst upd_peer_same_body) simp_all
  have h: "held_ok (g_tq (glob ?w2)) (claims w) (insert fd (in_body w))"
    using assms(1,3) by (simp add: held_base)
  have l: "lists_ok ?w2" using assms(2) by (simp add: lists_upd_peer)
  show ?thesis
  proof (cases "q = LOCALFILE_OK")
    case True
    let ?w3 = "upd_peer fd (\<lambda>p. p\<lparr>sstat := RECV_BODY_ING\<rparr>) ?w2"
    have "(r, w') = (RECV_ADD_EPOLLIN, ?w3)" using True assms(4) x o \<open>sstat (peer_of fd w) = RECV_HEAD_ING\<close>
      by (simp add: do_prepare_recvfile_def Let_def)
    moreover have "claims ?w3 = claims w" "in_body ?w3 = insert fd (in_body w)" using c i by (auto simp: claims_def in_body_def)
    moreover have "lists_ok ?w3" by (rule lists_upd_peer [OF _ l]) simp
    moreover have "g_tq (glob ?w3) = g_tq (glob ?w2)" by simp
    ultimately have "r = RECV_ADD_EPOLLIN" "w' = ?w3" "data_inv ?w3" using h unfolding data_inv_def by (simp_all only: prod.inject)
    then show ?thesis by blast
  next
    case False
    let ?w3 = "tq_upd (\<lambda>s. snd (vfs_set_task (q_lock e TASK_FIN) x TASK_FIN (set_base x (\<lambda>b. b\<lparr>overstatus := OVER_E_OPEN_DSTFILE\<rparr>) s))) ?w2"
    have "(r, w') = (RECV_CLOSE, ?w3)" using False assms(4) x o True by (simp add: do_prepare_recvfile_def Let_def)
    moreover have "held_ok (g_tq (glob ?w3)) ((claims w)(fd := None)) (in_body w)"
      unfolding node_frame by (rule held_release_base [OF h assms(3)]) (use assms(1) in \<open>auto simp: held_ok_def\<close>)
    moreover have "claims ?w3 = claims w" "in_body ?w3 = in_body w" "lists_ok ?w3" using c i l by (simp_all only: claims_frame(1) in_body_frame(1) lists_frame(1))
    ultimately have "r = RECV_CLOSE" "w' = ?w3" "dropping fd ?w3" unfolding dropping_def by (simp_all only: prod.inject)
    then show ?thesis by blast
  qed
qed

lemma owned_wait_tmp:
  assumes "owned s H"
  shows "owned (wait_tmp_to_wait e s src dst) H"
proof -
  let ?f = "\<lambda>x s. case vfs_get_task (q_lock e src) (malloc_ok e) src s of
      (_, Some x, s) \<Rightarrow> snd (vfs_set_task (q_lock e dst) x dst s) | (_, None, s) \<Rightarrow> s"
  have "owned (fold ?f xs s) H" for xs
    using assms
  proof (induction xs arbitrary: s)
    case (Cons x xs)
    have "owned (?f x s) H"
      using Cons.prems get_none owned_set_back0 [OF owned_get [OF Cons.prems]]
      by (fastforce split: prod.split option.split)
    from Cons.IH [OF this] show ?case by simp
  qed simp
  then show ?thesis by (simp add: wait_tmp_to_wait_def)
qed

lemma owned_unok_loop:
  "owned s H \<Longrightarrow> owned (snd (unok_loop e n host buf s)) H"
proof (induction e n host buf s rule: unok_loop.induct)
  case (2 e n host buf s)
  obtain r o' s' where g: "vfs_get_task (q_lock e TASK_WAIT) (malloc_ok e) TASK_WAIT s = (r, o', s')" by (metis prod_cases3)
  show ?case
  proof (cases o')
    case None
    with g get_none [of "q_lock e TASK_WAIT" "malloc_ok e" TASK_WAIT s r s'] "2.prems" show ?thesis by simp
  next
    case (Some x)
    with g have g': "vfs_get_task (q_lock e TASK_WAIT) (malloc_ok e) TASK_WAIT s = (r, Some x, s')" by simp
    have o: "owned (snd (vfs_set_task lk x st s')) H" for lk st by (rule owned_set_back0 [OF owned_get [OF "2.prems" g']])
    show ?thesis
      using "2.IH"(1) [OF g' [symmetric] refl refl refl refl] "2.IH"(2) [OF g' [symmetric] refl refl refl refl] o by (simp add: g' Let_def)
  qed
qed simp

lemma owned_unok: "owned s H \<Longrightarrow> owned (snd (get_task_unok e host s)) H"
  by (simp add: get_task_unok_def Let_def owned_unok_loop owned_wait_tmp split: prod.split)
    (metis owned_unok_loop owned_wait_tmp snd_conv)

lemma check_req_inv:
  assumes inv: "data_inv w" and u: "sstat (peer_of fd w) \<noteq> RECV_BODY_ING" and c: "check_req e fd w = (r, w')"
  shows "r = RECV_CLOSE \<and> dropping fd w' \<or> r \<noteq> RECV_CLOSE \<and> data_inv w'"
proof -
  obtain q data where d: "get_client_data fd w = (q, data)" by force
  show ?thesis
  proof (cases "q = 0 \<and> strstr (cstr data) (CRLF @ CRLF) \<noteq> None")
    case False
    then show ?thesis using c inv by (auto simp: check_req_def d split: if_splits)
  next
    case True
    then obtain k where k: "q = 0" "strstr (cstr data) (CRLF @ CRLF) = Some k" by auto
    let ?w1 = "upd_peer fd (\<lambda>p. p\<lparr>sstat := RECV_HEAD_ING\<rparr>) w"
    obtain pr h buf where p: "sm_client_parse_header (header (peer_of fd ?w1)) (cstr data) = (pr, h, buf)" by (metis prod_cases3)
    define w2 where "w2 = put_back fd (buf @ drop (length buf) data) (upd_peer fd (\<lambda>p. p\<lparr>header := h\<rparr>) ?w1)"
    have none: "claims w fd = None"
      using inv u by (auto simp: data_inv_def held_ok_def in_body_def)
    have c2: "claims w2 = claims w" "in_body w2 = in_body w" "g_tq (glob w2) = g_tq (glob w)" "lists_ok w2"
      using u inv by (auto simp: w2_def claims_def in_body_def data_inv_def intro!: lists_upd_peer)
    have inv2: "data_inv w2" using inv c2 by (simp add: data_inv_def)
    note c' = c [unfolded check_req_def d prod.case k option.case Let_def p, folded w2_def, simplified k simp_thms if_False]
    have own: "owned (g_tq (glob w2)) (ran (claims w))" using inv c2 by (simp add: data_inv_def held_ok_def)
    show ?thesis
    proof (cases "pr \<noteq> 0 \<and> h_type h \<noteq> 250 \<or> h_type h = 250")
      case True
      obtain tb s where g: "get_task_unok e (h_hostname h) (g_tq (glob w2)) = (tb, s)" by force
      have "owned s (ran (claims w2))" using owned_unok [OF own, of e "h_hostname h"] g c2(1) by simp
      then have "data_inv (tq_upd (\<lambda>_. s) w2)" using inv2 by (simp add: data_inv_def held_ok_def)
      then have "data_inv (set_client_data (buff_size e) fd tb (tq_upd (\<lambda>_. s) w2))"
        by (rule data_same) simp
      then show ?thesis
        using c' True g data_dropping [OF inv2] by (auto split: if_splits)
    next
      case False
      then have f: "pr = 0" "h_type h \<noteq> 250" by auto
      obtain q o' s where g: "vfs_get_task (q_lock e TASK_HOME) (malloc_ok e) TASK_HOME (g_tq (glob w2)) = (q, o', s)" by (metis prod_cases3)
      show ?thesis
      proof (cases o')
        case None
        then have "s = g_tq (glob w2)" using g get_none by blast
        then have "data_inv (tq_upd (\<lambda>_. s) w2)" using inv2 by (simp add: data_inv_def)
        then show ?thesis using c' False g None by auto
      next
        case (Some x)
        obtain b u where bu: "convert_httpheader_2_task h (zero_base\<lparr>usrcip := p_ip (peer_of fd w2)\<rparr>) zero_sub = (b, u)" by force
        define w3 where "w3 = upd_peer fd (\<lambda>p. p\<lparr>recvtask := Some x\<rparr>) (tq_upd (\<lambda>_. set_node x (\<lambda>n. n\<lparr>task := \<lparr>base = b, sub = u\<rparr>\<rparr>) s) w2)"
        have c3: "claims w3 = (claims w)(fd := Some x)" "in_body w3 = in_body w" "lists_ok w3"
          "g_tq (glob w3) = set_node x (\<lambda>n. n\<lparr>task := \<lparr>base = b, sub = u\<rparr>\<rparr>) s"
          using c2 by (auto simp: w3_def claims_def in_body_def fun_eq_iff intro!: lists_upd_peer)
        have "held_ok (g_tq (glob w)) (claims w) (in_body w)" using inv by (simp add: data_inv_def)
        then have h: "held_ok (g_tq (glob w3)) (claims w3) (insert fd (in_body w3))"
          unfolding c3 using none g Some by (intro held_take) (auto simp: c2 held_ok_def)
        obtain r3 w4 where r: "do_prepare_recvfile e fd (h_end h - h_start h + 1) w3 = (r3, w4)" by force
        have "w' = consume_client_data fd (k + 4) w4" "r = r3"
          using c' g Some f by (simp_all add: bu r [unfolded w3_def])
        moreover have "dropping fd w4 \<Longrightarrow> dropping fd (consume_client_data fd (k + 4) w4)" by (simp add: dropping_def)
        moreover have "data_inv w4 \<Longrightarrow> data_inv (consume_client_data fd (k + 4) w4)" by (erule data_same) simp
        ultimately show ?thesis using prepare_inv [OF h c3(3) _ r] c3(1) by auto
      qed
    qed
  qed
qed

lemma data_recv_body:
  assumes inv: "data_inv w"
  shows "data_inv (snd (recv_body e fd w))"
proof (cases "recvtask (peer_of fd w)")
  case None
  with inv show ?thesis by (simp add: recv_body_def)
next
  case (Some x)
  let ?p = "peer_of fd w"
  let ?b = "base (task (node (g_tq (glob w)) x))"
  obtain r data where d: "get_client_data fd w = (r, data)" by force
  define dl where "dl = (let rl = to_int32 (fsize ?b - getlen ?b) in if rl < 0 then length data else min (length data) (nat rl))"
  have dl: "(if to_int32 (fsize ?b - getlen ?b) < 0 then length data else min (length data) (nat (to_int32 (fsize ?b - getlen ?b)))) = dl"
    by (simp add: dl_def)
  define n where "n = (case local_in_fd ?p of Some f \<Rightarrow> write_res (n_io e) (snd f) dl | None \<Rightarrow> -1)"
  show ?thesis
  proof (cases "r \<noteq> 0 \<or> n < 0")
    case True
    with inv show ?thesis
      by (cases "local_in_fd ?p") (auto simp: recv_body_def Let_def d Some dl n_def)
  next
    case False
    then obtain f where f: "local_in_fd ?p = Some f" by (cases "local_in_fd ?p") (auto simp: n_def)
    have n: "write_res (n_io e) (snd f) dl = n" by (simp add: n_def f)
    define w1 where "w1 = tq_upd (set_base x (\<lambda>b. b\<lparr>getlen := getlen b + n\<rparr>)) (consume_client_data fd (nat n)
      (upd_peer fd (\<lambda>p. p\<lparr>local_in_fd := Some (fst f, snd f + nat n)\<rparr>) (fs_upd (fwrite f (take (nat n) data)) w)))"
    have cl: "claims w fd = Some x" using Some by (simp add: claims_def)
    have h0: "held_ok (g_tq (glob w)) (claims w) (in_body w)" "lists_ok w" using inv by (simp_all add: data_inv_def)
    have c1: "claims w1 = claims w" "in_body w1 = in_body w" "lists_ok w1" "g_tq (glob w1) = set_base x (\<lambda>b. b\<lparr>getlen := getlen b + n\<rparr>) (g_tq (glob w))"
      using h0 by (auto simp: w1_def claims_def in_body_def intro!: lists_upd_peer)
    have h1: "held_ok (g_tq (glob w1)) (claims w) (in_body w)" unfolding c1(4) by (rule held_base [OF h0(1) cl])
    then have inv1: "data_inv w1" using c1 by (simp add: data_inv_def)
    have sub: "dom ((claims w)(fd := None)) \<subseteq> in_body w" using h0(1) by (auto simp: held_ok_def)
    have fin: "data_inv (tq_upd (\<lambda>s. snd (vfs_set_task lk x TASK_FIN (set_base x g s))) (upd_peer fd h w1))"
      "data_inv (upd_peer fd h (tq_upd (\<lambda>s. snd (vfs_set_task lk x TASK_FIN (set_base x g s))) w1))"
      if "\<And>p. recvtask (h p) = None" "\<And>p. sstat (h p) = sstat p" "\<And>p. p_fd (h p) = p_fd p" for lk g h
    proof -
      have b: "in_body (upd_peer fd h v) = in_body v" for v using that(2) by (rule upd_peer_same_body)
      have k: "held_ok (snd (vfs_set_task lk x TASK_FIN (set_base x g (g_tq (glob w1))))) ((claims w)(fd := None)) (in_body w)"
        by (rule held_release_base [OF h1 cl sub])
      show "data_inv (tq_upd (\<lambda>s. snd (vfs_set_task lk x TASK_FIN (set_base x g s))) (upd_peer fd h w1))"
        using k c1(3) that unfolding data_inv_def by (auto simp: b c1(1,2) intro!: lists_upd_peer simp del: in_body_frame(13))
      show "data_inv (upd_peer fd h (tq_upd (\<lambda>s. snd (vfs_set_task lk x TASK_FIN (set_base x g s))) w1))"
        using k c1(3) that unfolding data_inv_def by (auto simp: b c1(1,2) intro!: lists_upd_peer simp del: in_body_frame(13))
    qed
    have "snd (recv_body e fd w) \<in> {w1,
        tq_upd (\<lambda>s. snd (vfs_set_task (q_lock e TASK_FIN) x TASK_FIN (set_base x (\<lambda>b. b\<lparr>overstatus := OVER_E_MD5\<rparr>) s)))
          (upd_peer fd (\<lambda>p. p\<lparr>recvtask := None\<rparr>) w1),
        upd_peer fd (\<lambda>p. p\<lparr>local_in_fd := None, recvtask := None\<rparr>)
          (tq_upd (\<lambda>s. snd (vfs_set_task (q_lock e TASK_FIN) x TASK_FIN (set_base x (\<lambda>b. b\<lparr>overstatus := OVER_OK\<rparr>) s))) w1)}"
      using False by (simp add: recv_body_def Let_def d Some f dl n w1_def)
    then show ?thesis using inv1 fin by auto
  qed
qed

section \<open>The handlers\<close>

lemma data_svc_recv: "data_inv w \<Longrightarrow> data_inv (snd (svc_recv e fd w))"
proof -
  assume "data_inv w"
  then have inv: "data_inv (touch e fd w)" by (rule data_touch)
  show ?thesis
  proof (cases "sstat (peer_of fd (touch e fd w)) = RECV_BODY_ING")
    case True
    then show ?thesis using data_recv_body [OF inv] by (simp add: svc_recv_def)
  next
    case False
    obtain r w' where c: "check_req e fd (touch e fd w) = (r, w')" by force
    show ?thesis
      using check_req_inv [OF inv False c] False
      by (auto simp: svc_recv_def c dropping_drop data_recv_body data_touch)
  qed
qed

lemma data_uc_svc_recv: "data_inv w \<Longrightarrow> data_inv (snd (uc_svc_recv e fd w))"
proof -
  assume "data_inv w"
  then have inv: "data_inv (touch e fd w)" by (rule data_touch)
  obtain r w' where c: "uc_check_req e fd (touch e fd w) = (r, w')" by force
  have "data_inv w'" using c inv by (auto simp: uc_check_req_def split: prod.splits option.splits if_splits elim: data_same)
  with dropping_drop [OF data_dropping] data_recv_body [OF inv] show ?thesis by (simp add: uc_svc_recv_def Let_def c)
qed

lemma data_svc_finiconn: "data_inv w \<Longrightarrow> data_inv (svc_finiconn e fd w)"
proof (cases "user (conns w fd)")
  case (Some p)
  assume "data_inv w"
  note fin = data_finiconn [OF this Some refl, of "q_lock e TASK_FIN"
      "\<lambda>_ n. n\<lparr>task := (task n)\<lparr>base := (base (task n))\<lparr>overstatus := OVER_PEERERR\<rparr>\<rparr>\<rparr>" "\<lambda>fs. fs"]
  have "fs_upd (\<lambda>fs. fs) v = v" for v :: sm_world by (simp add: fs_upd_def)
  with fin show ?thesis by (cases "recvtask p") (simp_all add: svc_finiconn_def Some Let_def)
qed (simp add: svc_finiconn_def)

lemma data_uc_svc_finiconn: "data_inv w \<Longrightarrow> data_inv (uc_svc_finiconn e fd w)"
proof (cases "user (conns w fd)")
  case (Some p)
  assume inv: "data_inv w"
  show ?thesis
  proof (cases "recvtask p")
    case None
    with data_finiconn [OF inv Some refl] show ?thesis by (simp add: uc_svc_finiconn_def Some Let_def)
  next
    case (Some x)
    with data_finiconn [OF inv \<open>user (conns w fd) = Some p\<close> refl] \<open>user (conns w fd) = Some p\<close> show ?thesis
      by (simp add: uc_svc_finiconn_def Let_def set_base_def)
  qed
qed (simp add: uc_svc_finiconn_def)

lemma data_do_close: "data_inv w \<Longrightarrow> data_inv (fin fd w) \<Longrightarrow> data_inv (do_close fin m fd w)"
  by (rule do_close_inv) (auto elim: data_same)

lemma data_close_idle: "data_inv w \<Longrightarrow> data_inv (close_idle e to fds w)"
  by (induction e to fds w rule: close_idle.induct) (simp_all add: data_do_close data_svc_finiconn)

lemma data_uc_close_idle: "data_inv w \<Longrightarrow> data_inv (uc_close_idle e to fds w)"
  by (induction e to fds w rule: uc_close_idle.induct) (simp_all add: data_do_close data_uc_svc_finiconn)

lemma data_tq: "data_inv w \<Longrightarrow> (\<And>H. owned (g_tq (glob w)) H \<Longrightarrow> owned (g (g_tq (glob w))) H) \<Longrightarrow> data_inv (tq_upd g w)"
  by (simp add: data_inv_def held_ok_def)

lemma data_fs: "data_inv w \<Longrightarrow> data_inv (fs_upd h w)"
  by (simp add: data_inv_def)

lemma data_upd_peer:
  "data_inv w \<Longrightarrow> (\<And>p. recvtask (f p) = recvtask p) \<Longrightarrow> (\<And>p. sstat (f p) = sstat p) \<Longrightarrow> (\<And>p. p_fd (f p) = p_fd p) \<Longrightarrow>
   data_inv (upd_peer fd f w)"
proof -
  assume inv: "data_inv w" and f: "\<And>p. recvtask (f p) = recvtask p" "\<And>p. sstat (f p) = sstat p" "\<And>p. p_fd (f p) = p_fd p"
  have "claims (upd_peer fd f w) = claims w" using f(1) by (simp add: claims_def fun_eq_iff)
  then show ?thesis using inv f upd_peer_same_body [of f fd w] by (simp add: data_inv_def lists_upd_peer)
qed

section \<open>Cutting and sending\<close>

lemma owned_split_loop: "owned s H \<Longrightarrow> owned (snd (split_loop e b n idx start s)) H"
proof (induction e b n idx start s rule: split_loop.induct)
  case (1 e b n idx start s)
  show ?case
  proof (cases "n < idx")
    case False
    let ?last = "if idx = n then fsize b - 1 else start + splic_min_size (cfg e) - 1"
    obtain r s' where i: "uc_insert_sub_task e b idx n start ?last s = (r, s')" by force
    have "owned s' H" using owned_put_new [OF "1.prems"] i unfolding uc_insert_sub_task_def by (metis snd_conv)
    with "1.IH" [OF False refl i [symmetric] refl] i False show ?thesis
      by (simp add: split_loop.simps [of e b n idx start s] Let_def)
  qed (simp add: split_loop.simps [of e b n idx start s] "1.prems")
qed

lemma data_split_in: "data_inv w \<Longrightarrow> data_inv (split_in e b w)"
proof -
  assume inv: "data_inv w"
  obtain r s fs where t: "split_task e b (g_tq (glob w)) (g_fs (glob w)) = (r, s, fs)" by (metis prod_cases3)
  have "owned s H" if "owned (g_tq (glob w)) H" for H
    using t that owned_split_loop [OF that]
    by (auto simp: split_task_def Let_def split: if_splits prod.splits) (metis snd_conv)
  then have "data_inv (tq_upd (\<lambda>_. s) (fs_upd (\<lambda>_. fs) w))" using inv by (intro data_tq data_fs) simp_all
  then show ?thesis by (simp add: split_in_def t)
qed

text \<open>Opening a connection takes no task; a reused one may lose its own.\<close>

definition no_more :: "sm_world \<Rightarrow> sm_world \<Rightarrow> bool" where
  "no_more w w' \<longleftrightarrow> (data_inv w \<longrightarrow> data_inv w') \<and> g_tq (glob w') = g_tq (glob w) \<and> ran (claims w') \<subseteq> ran (claims w)"

lemma no_more_refl: "no_more w w"
  by (simp add: no_more_def)

lemma no_more_trans: "no_more w w' \<Longrightarrow> no_more w' w'' \<Longrightarrow> no_more w w''"
  by (auto simp: no_more_def)

lemma same_no_more: "same_state w w' \<Longrightarrow> no_more w w'"
proof -
  assume s: "same_state w w'"
  then have "peer_of fd w' = peer_of fd w" for fd by (simp add: peer_of_def same_state_def)
  then have "claims w' = claims w" by (simp add: claims_def fun_eq_iff)
  with s data_same [OF _ s] show ?thesis by (auto simp: no_more_def same_state_def)
qed

lemma next_fd_no_more: "next_fd w = (fd, w') \<Longrightarrow> no_more w w'"
proof -
  let ?v = "\<lambda>fds. w\<lparr>glob := (glob w)\<lparr>fd_results := fds\<rparr>\<rparr>"
  have "claims (?v fds) = claims w" for fds by (simp add: claims_def fun_eq_iff)
  then have "no_more w (?v fds)" for fds by (simp add: no_more_def data_inv_def lists_ok_def in_body_def)
  then show "next_fd w = (fd, w') \<Longrightarrow> no_more w w'"
    using no_more_refl by (auto simp: next_fd_def split: list.splits)
qed

lemma initconn_no_more: "no_more w (snd (svc_initconn e fd w))"
proof -
  have "g_tq (glob (snd (svc_initconn e fd w))) = g_tq (glob w)" by (simp add: svc_initconn_def Let_def)
  moreover have "claims (snd (svc_initconn e fd w)) = claims w \<or> claims (snd (svc_initconn e fd w)) = (claims w)(fd := None)"
    by (auto simp: svc_initconn_def Let_def new_peer_def)
  moreover have "ran ((claims w)(fd := None)) \<subseteq> ran (claims w)" by (auto simp: ran_def split: if_splits)
  ultimately show ?thesis using data_initconn [of w e fd] by (auto simp: no_more_def)
qed

lemma new_task_no_more: "no_more w (snd (inotify_new_task e b u w))"
proof -
  obtain lfd w1 where 1: "open_read e (filename b) w = (lfd, w1)" by force
  have i1: "no_more w w1" using 1 next_fd_no_more no_more_refl by (auto simp: open_read_def split: if_splits)
  obtain fd w2 where 2: "next_fd w1 = (fd, w2)" by force
  have i2: "no_more w w2" using no_more_trans [OF i1 next_fd_no_more [OF 2]] .
  obtain r w3 where 3: "svc_initconn e fd w2 = (r, w3)" by force
  have i3: "no_more w w3" using no_more_trans [OF i2 initconn_no_more [of w2 e fd]] 3 by simp
  have "same_state v (snd (uc_active_send e fd d u lfd v))" for d and v :: sm_world
    unfolding uc_active_send_def Let_def snd_conv by (metis same_state_ops(1,3,6) same_state_trans)
  from same_no_more [OF this]
  have "no_more w (snd (uc_active_send e fd d u lfd (add_fd_2_efd (buff_size e) fd w3)))" "no_more w (w3\<lparr>shut := c\<rparr>)" for d c
    using i3 same_no_more [OF same_state_ops(5)] same_no_more [OF same_state_ops(9)] by (blast intro: no_more_trans)+
  then show ?thesis
    using i1 i2 by (auto simp: inotify_new_task_def uc_active_connect_def Let_def 1 2 3)
qed

lemma data_check_task_loop: "data_inv w \<Longrightarrow> data_inv (check_task_loop e n w)"
proof (induction e n w rule: check_task_loop.induct)
  case (2 e n w)
  obtain r o' s where g: "vfs_get_task (q_lock e TASK_WAIT_SYNC) (malloc_ok e) TASK_WAIT_SYNC (g_tq (glob w)) = (r, o', s)"
    by (metis prod_cases3)
  show ?case
  proof (cases o')
    case None
    with g get_none have "s = g_tq (glob w)" by blast
    then have "data_inv (tq_upd (\<lambda>_. s) w)" using "2.prems" by (simp add: data_inv_def)
    with g None show ?thesis by simp
  next
    case (Some x)
    note g' = g [unfolded Some]
    let ?w1 = "tq_upd (\<lambda>_. s) w" and ?t = "task (node s x)"
    obtain q w2 where t: "inotify_new_task e (base ?t) (sub ?t) ?w1 = (q, w2)" by force
    have own: "owned (g_tq (glob w)) (ran (claims w))" using "2.prems" by (simp add: data_inv_def held_ok_def)
    note o = owned_get [OF own g']
    have "data_inv ?w1" using "2.prems" owned_mono [OF o(1) subset_insertI] by (simp add: data_inv_def held_ok_def)
    then have w2: "data_inv w2" "g_tq (glob w2) = s" "ran (claims w2) \<subseteq> ran (claims w)"
      using new_task_no_more [of ?w1 e "base ?t" "sub ?t"] by (simp_all add: no_more_def t)
    then have "owned s (insert x (ran (claims w2)))" "x \<notin> ran (claims w2)"
      using o by (auto intro: owned_mono)
    then have "owned (snd (vfs_set_task lk x st s)) (ran (claims w2))" for lk st by (rule owned_set_back0)
    then have "data_inv (tq_upd (\<lambda>s. snd (vfs_set_task lk x st s)) w2)" for lk st
      using w2 by (simp add: data_inv_def held_ok_def)
    then show ?thesis using "2.IH" [OF g' [symmetric] refl refl refl refl t [symmetric] refl] by (simp add: g' Let_def t)
  qed
qed simp

lemma data_check_task: "data_inv w \<Longrightarrow> data_inv (check_task e w)"
  unfolding check_task_def by (intro data_check_task_loop data_tq owned_wait_tmp)

lemma data_inotify: "data_inv w \<Longrightarrow> data_inv (snd (inotify_event_handler e readdir ev ws w))"
  by (simp add: inotify_event_handler_def Let_def data_split_in split: prod.split)

lemma data_sync:
  "data_inv w \<Longrightarrow> data_inv (do_sync_dir k e readdir dir w)"
  "data_inv w \<Longrightarrow> data_inv (sync_entries k e readdir dir t0 names w)"
  by (induction k e readdir dir w and k e readdir dir t0 names w rule: do_sync_dir_sync_entries.induct)
    (auto simp: Let_def data_split_in split: option.split prod.split)

section \<open>The services\<close>

lemma data_send_once: "data_inv w \<Longrightarrow> data_inv (snd (svc_send_once e fd w))"
  unfolding svc_send_once_def snd_conv by (rule data_upd_peer) simp_all

definition sm_client_lib :: "node_env \<Rightarrow> bool \<Rightarrow> int \<Rightarrow> (vfs_cs_peer, node_glob) mylib" where
  "sm_client_lib e is_cs to = \<lparr>lib_initconn = svc_initconn e, lib_recv = svc_recv e, lib_send = svc_send e,
     lib_send_once = Some (svc_send_once e), lib_finiconn = Some (svc_finiconn e), lib_timeout = Some (svc_timeout e is_cs to)\<rparr>"

definition uc_client_lib :: "node_env \<Rightarrow> bool \<Rightarrow> (vfs_cs_peer, node_glob) mylib" where
  "uc_client_lib e is_cs = \<lparr>lib_initconn = svc_initconn e, lib_recv = uc_svc_recv e, lib_send = uc_svc_send e,
     lib_send_once = Some (svc_send_once e), lib_finiconn = Some (uc_svc_finiconn e), lib_timeout = Some (uc_svc_timeout e is_cs)\<rparr>"

interpretation sm_client: service_inv "sm_client_lib e is_cs to" l data_inv for e is_cs to l
  by unfold_locales
    (auto simp: sm_client_lib_def svc_send_def data_send_once svc_timeout_def data_touch data_initconn data_svc_recv
      data_svc_finiconn data_close_idle intro: data_same)

interpretation uc_client: service_inv "uc_client_lib e is_cs" l data_inv for e is_cs l
  by unfold_locales
    (auto simp: uc_client_lib_def uc_svc_send_def data_send_once uc_svc_timeout_def data_touch data_initconn data_uc_svc_recv
      data_uc_svc_finiconn data_uc_close_idle data_check_task intro: data_same)

end
