(* ===== verification/HttpInv.thy ===== *)
theory HttpInv
  imports ServiceInv SmHttp UcHttp Ownership
begin

text \<open>
  The other two services, \<^verbatim>\<open>sm_http\<close> and \<^verbatim>\<open>uc_http\<close>, keep the ownership of tasks.  Between two calls they hold no
  task; \<open>H\<close> are the tasks that others hold meanwhile.
\<close>

definition http_inv :: "addr set \<Rightarrow> http_world \<Rightarrow> bool" where
  "http_inv H w \<longleftrightarrow> owned (g_tq (glob w)) H \<and> (\<forall>fd\<in>set (activelist (glob w)). user (conns w fd) \<noteq> None)"

lemma http_same: "http_inv H w \<Longrightarrow> same_state w w' \<Longrightarrow> http_inv H w'"
  by (simp add: http_inv_def same_state_def)

lemma http_fs [simp]: "http_inv H (fs_upd f w) = http_inv H w"
  by (simp add: http_inv_def fs_upd_def)

lemma http_tq: "http_inv H w \<Longrightarrow> owned (f (g_tq (glob w))) K \<Longrightarrow> http_inv K (tq_upd f w)"
  by (simp add: http_inv_def tq_upd_def)

lemma http_owned: "http_inv H w \<Longrightarrow> owned (g_tq (glob w)) H"
  by (simp add: http_inv_def)

lemma http_mono: "http_inv H w \<Longrightarrow> K \<subseteq> H \<Longrightarrow> http_inv K w"
  by (auto simp: http_inv_def intro: owned_mono)

section \<open>Connections\<close>

lemma user_set_user [simp]: "user (conns (set_user fd u w) k) = (if k = fd then u else user (conns w k))"
  by (simp add: conn_defs)

lemma http_initconn: "http_inv H w \<Longrightarrow> http_inv H (snd (http_svc_initconn e fd w))"
  by (auto simp: http_inv_def http_svc_initconn_def alist_move_tail_def)

lemma http_finiconn: "http_inv H w \<Longrightarrow> http_inv H (http_svc_finiconn fd w)"
  by (auto simp: http_inv_def http_svc_finiconn_def alist_del_def split: option.split)

lemma http_send: "http_inv H w \<Longrightarrow> http_inv H (snd (http_svc_send e fd w))"
  by (auto simp: http_inv_def http_svc_send_def)

lemma http_set_user: "http_inv H w \<Longrightarrow> user (conns w fd) \<noteq> None \<Longrightarrow> http_inv H (set_user fd (map_option f (user (conns w fd))) w)"
  by (auto simp: http_inv_def)

lemma http_next_fd: "next_fd w = (fd, w') \<Longrightarrow> http_inv H w \<Longrightarrow> http_inv H w'"
  by (auto simp: next_fd_def http_inv_def split: list.splits)

lemma http_connect_send: "http_inv H w \<Longrightarrow> http_inv H (connect_and_send e d w)"
proof -
  assume inv: "http_inv H w"
  obtain fd w1 where 1: "next_fd w = (fd, w1)" by force
  obtain r w2 where 2: "http_svc_initconn e fd w1 = (r, w2)" by force
  have i1: "http_inv H w1" by (rule http_next_fd [OF 1 inv])
  have i2: "http_inv H w2" using http_initconn [OF i1, of e fd] 2 by simp
  have "http_inv H (w2\<lparr>shut := c\<rparr>)" for c by (rule http_same [OF i2]) simp
  moreover have "http_inv H (snd (http_active_send e fd d (add_fd_2_efd (buff_size e) fd w2)))"
    unfolding http_active_send_def snd_conv
    by (rule http_same [OF i2]) (metis same_state_ops(1,3,5) same_state_trans)
  ultimately show ?thesis
    using i1 by (auto simp: connect_and_send_def http_active_connect_def 1 2 Let_def)
qed

lemma http_close_idle_inv: "http_inv H w \<Longrightarrow> http_inv H (http_close_idle e w)"
proof -
  let ?f = "\<lambda>fd w. case user (conns w fd) of
             None \<Rightarrow> w
           | Some p \<Rightarrow> if clock e - hp_time p > int (conn_timeout (cfg e))
                       then do_close http_svc_finiconn (max_fds e) (hp_fd p) w else w"
  have "http_inv H (do_close http_svc_finiconn m fd w)" if "http_inv H w" for m fd w
    using do_close_inv [of "http_inv H" w http_svc_finiconn fd m] that http_finiconn [OF that] http_same by blast
  then have "http_inv H (?f fd w)" if "http_inv H w" for fd w using that by (simp split: option.split)
  then have "http_inv H w \<Longrightarrow> http_inv H (fold ?f fds w)" for fds by (induction fds arbitrary: w) simp_all
  then show "http_inv H w \<Longrightarrow> http_inv H (http_close_idle e w)" by (simp add: http_close_idle_def)
qed

text \<open>\<^verbatim>\<open>check_request\<close> over a \<^verbatim>\<open>do_req\<close> that keeps the invariant.\<close>

lemma http_check_request_inv:
  assumes "\<And>h w. http_inv H w \<Longrightarrow> http_inv H (snd (do_req h w))" "http_inv H w"
  shows "http_inv H (snd (http_check_request parse do_req fd d len w))"
proof -
  have u: "http_inv H (set_user fd (map_option f (user (conns w fd))) w)" if "http_inv H w" for f w
    using that by (auto simp: http_inv_def)
  have s: "http_inv H (set_user fd (Some p) v)" if "http_inv H v" for p v
    using that by (auto simp: http_inv_def)
  have b: "http_inv H (put_back fd x w)" for x using assms(2) by (rule http_same) simp
  show ?thesis
    using assms(2) u s b assms(1)
    by (simp add: http_check_request_def Let_def split: option.split prod.split)
      (metis snd_conv)
qed

section \<open>Making tasks\<close>

lemma owned_sm_split: "owned s H \<Longrightarrow> owned (snd (sm_split_loop e h n idx start s)) H"
proof (induction e h n idx start s rule: sm_split_loop.induct)
  case (1 e h n idx start s)
  show ?case
  proof (cases "n < idx")
    case False
    let ?last = "if idx = n then to_int64 (h_datalen h - 1) else start + splic_min_size (cfg e) - 1"
    obtain r s' where i: "sm_insert_sub_task e h idx n start ?last s = (r, s')" by force
    have "owned s' H" using owned_put_new [OF "1.prems"] i unfolding sm_insert_sub_task_def by (metis snd_conv)
    with "1.IH" [OF False refl i [symmetric] refl] i False show ?thesis
      by (simp add: sm_split_loop.simps [of e h n idx start s] Let_def)
  qed (simp add: sm_split_loop.simps [of e h n idx start s] "1.prems")
qed

lemma http_do_req: "http_inv H w \<Longrightarrow> http_inv H (snd (sm_do_req e h w))"
proof -
  assume inv: "http_inv H w"
  obtain r s where q: "sm_split_loop e h (splic_count (splic_min_size (cfg e)) (h_datalen h)) 1 0 (g_tq (glob w)) = (r, s)" by force
  have "owned s H" using owned_sm_split [OF http_owned [OF inv], of e h "splic_count (splic_min_size (cfg e)) (h_datalen h)" 1 0] q by simp
  with inv have "http_inv H (tq_upd (\<lambda>_. s) w)" by (simp add: http_inv_def tq_upd_def)
  with inv show ?thesis by (simp add: sm_do_req_def q http_connect_send)
qed

lemma http_sm_recv: "http_inv H w \<Longrightarrow> http_inv H (snd (sm_http_svc_recv e fd w))"
proof -
  assume inv: "http_inv H w"
  obtain r d where d: "get_client_data fd w = (r, d)" by force
  obtain q w1 where c: "sm_check_request e fd d (length d) w = (q, w1)" by force
  have i1: "http_inv H w1"
    using http_check_request_inv [of H "\<lambda>h w. (h, snd (sm_do_req e h w))" w sm_http_parse_header fd d "length d"] inv c
      http_do_req unfolding sm_check_request_def by simp
  have "http_inv H (consume_client_data fd n (handle_request e fd w1))" for n
    unfolding handle_request_def by (rule http_same [OF http_same [OF i1 same_state_ops(3)] same_state_ops(2)])
  with inv i1 show ?thesis by (simp add: sm_http_svc_recv_def d c)
qed

lemma http_process_lack: "http_inv H w \<Longrightarrow> http_inv H (process_lack e f i c w)"
  using owned_put_new [OF http_owned]
  by (auto simp: process_lack_def uch_insert_sub_task_def Let_def split: prod.split intro!: http_tq)

lemma http_uch_do_req: "http_inv H w \<Longrightarrow> http_inv H (uch_do_req e s w)"
proof (induction e s w rule: uch_do_req.induct)
  case (1 e s w)
  then show ?case
    by (subst uch_do_req.simps) (auto simp: http_process_lack split: option.split)
qed

lemma http_uch_recv: "http_inv H w \<Longrightarrow> http_inv H (snd (uch_svc_recv e fd w))"
proof -
  assume inv: "http_inv H w"
  obtain r d where d: "get_client_data fd w = (r, d)" by force
  obtain q w1 where c: "uch_check_request e fd d (length d) w = (q, w1)" by force
  have i1: "http_inv H w1"
    using http_check_request_inv [of H "\<lambda>h w. (h\<lparr>h_filename := takeWhile (\<lambda>c. c \<noteq> CHR '':'') (h_filename h)\<rparr>,
        uch_do_req e (h_filename h) w)" w uc_http_parse_header fd d "length d"] inv c
      http_uch_do_req unfolding uch_check_request_def by simp
  then have "http_inv H (consume_client_data fd n w1)" for n by (rule http_same) simp
  with inv i1 show ?thesis by (simp add: uch_svc_recv_def d c)
qed

section \<open>Merging\<close>

lemma http_set_task:
  assumes "http_inv (insert x H) w" "x \<notin> H"
  shows "http_inv H (set_task e x st w)"
  using assms owned_set_back0 [OF http_owned [OF assms(1)] assms(2)] by (simp add: set_task_def http_inv_def tq_upd_def)

lemma http_merge_parts: "http_inv H w \<Longrightarrow> http_inv H (merge_parts e f c i out w)"
proof (induction "nat (c + 1 - i)" arbitrary: i out w rule: less_induct)
  case (less i out w)
  obtain r o' s where g: "get_task_from_alltask (a_lock e) f i c (g_tq (glob w)) = (r, o', s)" by (metis prod_cases3)
  show ?case
  proof (cases "i > c \<or> o' = None")
    case True
    then show ?thesis
      using less.prems g get_all_none [of "a_lock e" f i c "g_tq (glob w)" r s]
      by (subst merge_parts.simps) (auto simp: http_inv_def tq_upd_def)
  next
    case False
    then obtain x where x: "o' = Some x" and ic: "\<not> i > c" by auto
    note g' = g [unfolded x]
    let ?w1 = "tq_upd (\<lambda>_. s) w" and ?b = "base (task (node s x))"
    note o = owned_unhash [OF http_owned [OF less.prems] g']
    have w1: "http_inv (insert x H) ?w1" using less.prems o(1) by (simp add: http_inv_def tq_upd_def)
    have w1': "http_inv H ?w1" by (rule http_mono [OF w1]) blast
    obtain err out' fs where m: "merge_copy (n_io e) 0 (the (files (g_fs (glob w)) (tmpfile ?b))) out (g_fs (glob w)) = (err, out', fs)"
      by (metis prod_cases3)
    obtain ok fs' where u: "unlink (n_io e) (tmpfile ?b) fs = (ok, fs')" by force
    have t1: "http_inv H (set_task e x TASK_HOME ?w1)" by (rule http_set_task [OF w1 o(2)])
    have t2: "http_inv H (set_task e x TASK_HOME (fs_upd (\<lambda>_. fs') ?w1))" using w1 by (intro http_set_task o(2)) simp
    have IH: "http_inv H v \<Longrightarrow> http_inv H (merge_parts e f c (i + 1) out v)" for out v using less.hyps ic by simp
    show ?thesis
      using w1' t2 ic IH [OF t1] IH [OF t2]
      by (subst merge_parts.simps) (simp add: g' Let_def m u)
  qed
qed

lemma http_merge_file: "http_inv H w \<Longrightarrow> http_inv H (snd (do_merge_file e host f c md5 w))"
  by (simp add: do_merge_file_def Let_def http_connect_send http_merge_parts split: prod.split)

section \<open>Finished tasks\<close>

lemma owned_clear: "owned s H \<Longrightarrow> owned (clear_alltask_timeout e f c s) H"
proof -
  let ?f = "\<lambda>i s. case get_task_from_alltask (a_lock e) f i c s of
             (_, None, s) \<Rightarrow> s
           | (_, Some x, s) \<Rightarrow> snd (vfs_set_task (q_lock e TASK_HOME) x TASK_HOME s)"
  have "owned (?f i s) H" if "owned s H" for i s
  proof -
    obtain r o' s' where g: "get_task_from_alltask (a_lock e) f i c s = (r, o', s')" by (metis prod_cases3)
    show ?thesis
    proof (cases o')
      case None
      with g get_all_none [of "a_lock e" f i c s r s'] that show ?thesis by simp
    next
      case (Some x)
      note g' = g [unfolded Some]
      show ?thesis using owned_set_back0 [OF owned_unhash [OF that g']] by (simp add: g')
    qed
  qed
  then have "owned s H \<Longrightarrow> owned (fold ?f is s) H" for "is" by (induction "is" arbitrary: s) simp_all
  then show "owned s H \<Longrightarrow> ?thesis" by (simp add: clear_alltask_timeout_def)
qed

lemma owned_lack_entry: "owned s H \<Longrightarrow> owned (lack_entry e fs lf x c i s) H"
proof -
  assume own: "owned s H"
  obtain r o' s' where g: "vfs_get_task (q_lock e TASK_HOME) (malloc_ok e) TASK_HOME s = (r, o', s')" by (metis prod_cases3)
  show ?thesis
  proof (cases o')
    case None
    with g get_none [of "q_lock e TASK_HOME" "malloc_ok e" TASK_HOME s r s'] own show ?thesis by (simp add: lack_entry_def)
  next
    case (Some y)
    note g' = g [unfolded Some]
    let ?b = "base (task (node s' x))"
    let ?s1 = "set_node y (\<lambda>n. n\<lparr>task := \<lparr>base = ?b, sub = zero_sub\<lparr>sub_idx := i, sub_count := c\<rparr>\<rparr>\<rparr>) s'"
    let ?s2 = "snd (set_task_from_alltask (a_lock e) (filename ?b) i c 1 ?s1)"
    note o = owned_get [OF own g']
    have "owned ?s1 (insert y H)" using o(1) by (intro owned_write) (auto simp: owned_def)
    then have "owned ?s2 (insert y H)" by (rule owned_expire)
    then have "owned (snd (vfs_set_task (q_lock e TASK_WAIT) y TASK_WAIT ?s2)) H" using o(2) by (rule owned_set_back0)
    with own show ?thesis by (simp add: lack_entry_def g' Let_def)
  qed
qed

lemma http_lack: "http_inv H w \<Longrightarrow> http_inv H (check_lack_task e sys x w)"
proof -
  have "owned s H \<Longrightarrow> owned (fold (lack_entry e fs lf x c) is s) H" for fs lf c "is" s
    by (induction "is" arbitrary: s) (simp_all add: owned_lack_entry)
  then show "http_inv H w \<Longrightarrow> ?thesis" by (simp add: check_lack_task_def Let_def http_inv_def tq_upd_def fs_upd_def)
qed

text \<open>\<open>x\<close> is the task that was taken from \<open>TASK_FIN\<close>.\<close>

lemma http_fin_task:
  assumes "http_inv (insert x H) w" "x \<notin> H"
  shows "http_inv H (fin_task e sys x w)"
proof -
  let ?t = "task (node (g_tq (glob w)) x)"
  let ?b = "base ?t"
  have x: "free_task (g_tq (glob w)) x" using assms(1) by (simp add: http_inv_def owned_def)
  have wr: "http_inv (insert x H) (tq_upd (set_node x f) w)" for f
    using assms(1) owned_write [OF http_owned [OF assms(1)] x] by (simp add: http_inv_def tq_upd_def)
  have H: "http_inv H w" by (rule http_mono [OF assms(1)]) blast
  have clr: "http_inv H (tq_upd (clear_alltask_timeout e f c) w)" for f c
    using H owned_clear [OF http_owned [OF H]] by (simp add: http_inv_def tq_upd_def)
  let ?w1 = "check_lack_task e sys x w"
  let ?w2 = "tq_upd (\<lambda>s. snd (add_task_to_alltask (a_lock e) x s)) ?w1"
  have w1: "http_inv (insert x H) ?w1" by (rule http_lack [OF assms(1)])
  have "owned (snd (add_task_to_alltask (a_lock e) x (g_tq (glob ?w1)))) H"
    using http_owned [OF w1] assms(2) by (intro owned_hash) (auto intro: owned_mono simp: owned_def)
  then have "http_inv H ?w2" using w1 by (simp add: http_inv_def tq_upd_def)
  then show ?thesis
    using http_set_task [OF wr assms(2)] clr http_merge_file by (simp add: fin_task_def Let_def)
qed

lemma http_fin_step:
  assumes inv: "http_inv H w" and IH: "\<And>m v. n = Suc m \<Longrightarrow> http_inv H v \<Longrightarrow> http_inv H (check_fin_loop e sys m v)"
  shows "http_inv H (check_fin_loop e sys n w)"
proof -
  obtain r o' s where g: "vfs_get_task (q_lock e TASK_FIN) (malloc_ok e) TASK_FIN (g_tq (glob w)) = (r, o', s)" by (metis prod_cases3)
  show ?thesis
  proof (cases o')
    case None
    with g get_none have "s = g_tq (glob w)" by blast
    with inv g None show ?thesis by (subst check_fin_loop.simps) (simp add: http_inv_def tq_upd_def)
  next
    case (Some x)
    note g' = g [unfolded Some]
    note o = owned_get [OF http_owned [OF inv] g']
    have w1: "http_inv (insert x H) (tq_upd (\<lambda>_. s) w)" using inv o(1) by (simp add: http_inv_def tq_upd_def)
    have "http_inv H (tq_upd (\<lambda>_. s) w)" by (rule http_mono [OF w1]) blast
    then show ?thesis
      using IH [OF _ http_fin_task [OF w1 o(2)]] by (subst check_fin_loop.simps) (simp add: g' Let_def split: nat.split)
  qed
qed

lemma http_fin_loop: "http_inv H w \<Longrightarrow> http_inv H (check_fin_loop e sys n w)"
  by (induction n arbitrary: w) (auto intro: http_fin_step)

lemma http_sm_timeout: "http_inv H w \<Longrightarrow> http_inv H (sm_http_svc_timeout e sys w)"
  by (simp add: sm_http_svc_timeout_def check_fin_task_def http_fin_loop http_close_idle_inv)

lemma http_uch_timeout: "http_inv H w \<Longrightarrow> http_inv H (snd (uch_svc_timeout e t w))"
  by (simp add: uch_svc_timeout_def Let_def uch_check_task_def http_connect_send http_close_idle_inv)

section \<open>The services\<close>

text \<open>\<open>last_check\<close> is the static variable of the handler, which may have any value.\<close>

definition sm_http_lib :: "node_env \<Rightarrow> (string \<Rightarrow> fsys \<Rightarrow> fsys) \<Rightarrow> (http_peer, node_glob) mylib" where
  "sm_http_lib e sys = \<lparr>lib_initconn = http_svc_initconn e, lib_recv = sm_http_svc_recv e, lib_send = http_svc_send e,
     lib_send_once = None, lib_finiconn = Some http_svc_finiconn, lib_timeout = Some (sm_http_svc_timeout e sys)\<rparr>"

definition uc_http_lib :: "node_env \<Rightarrow> int \<Rightarrow> (http_peer, node_glob) mylib" where
  "uc_http_lib e last_check = \<lparr>lib_initconn = http_svc_initconn e, lib_recv = uch_svc_recv e, lib_send = http_svc_send e,
     lib_send_once = None, lib_finiconn = Some http_svc_finiconn, lib_timeout = Some (\<lambda>w. snd (uch_svc_timeout e last_check w))\<rparr>"

interpretation sm_http: service_inv "sm_http_lib e sys" l "http_inv H" for e sys l H
  by unfold_locales
    (auto simp: sm_http_lib_def http_initconn http_sm_recv http_send http_finiconn http_sm_timeout intro: http_same)

interpretation uc_http: service_inv "uc_http_lib e last_check" l "http_inv H" for e last_check l H
  by unfold_locales
    (auto simp: uc_http_lib_def http_initconn http_uch_recv http_send http_finiconn http_uch_timeout intro: http_same)

end
