(* ===== verification/Voss.thy ===== *)
theory Voss
  imports Node TextUtils MyConfig Protocol
begin

text \<open>
  The VOSS server, \<^verbatim>\<open>src/network/voss\<close>: it takes in the reports of the nodes and sends them the operator's
  commands.  What a node submits is appended to a working file of its connection, which is published under two
  other directories when it is old enough; heartbeats and the answers to commands become lines of a status file,
  which is published in turn; commands are read from files in an input directory.

  Open files are paths, since all writing appends.  \<open>None\<close> as the result of a handler stands for a loop without
  end or an access outside an array.
\<close>

section \<open>State\<close>

datatype voss_sock_stat =
    LOGOUT | CONNECTED | LOGIN | HB_SEND | HB_RSP | IDLE | RECV_LAST | SEND_LAST | PREPARE_SYNCFILE | SYNCFILEING
  | SYNCFILE_POST | SYNCFILE_OK | PREPARE_SENDFILE | SENDFILEING | SENDFILE_OK

record vfs_voss_peer =
  v_ip :: string
  con_ip :: uint32
  v_fd :: int
  in_path :: "string option"
  v_hbtime :: int
  v_recvlen :: int
  v_datalen :: int
  opentime :: int
  v_outfile :: string
  v_stat :: voss_sock_stat
  v_server_stat :: nat
  v_role :: nat

text \<open>\<open>stat_path\<close>, \<open>stat_open\<close> and \<open>stat_last\<close> are the fields of \<^verbatim>\<open>c_stat\<close>.  The table \<^verbatim>\<open>cfg_list\<close> is left out: nothing
  puts a connection into it.\<close>

record voss_glob =
  v_fs :: fsys
  v_active :: "int list"
  v_online :: "int \<Rightarrow> int list"
  stat_open :: bool
  stat_path :: string
  stat_last :: int
  v_seq :: uint32

type_synonym voss_world = "(vfs_voss_peer, voss_glob) world"

text \<open>\<open>v_daytext\<close> is what \<^verbatim>\<open>get_strtime\<close> prints at a time, \<open>v_indir\<close> the names that \<^verbatim>\<open>readdir\<close> lists, \<open>None\<close> where the directory
  cannot be opened.\<close>

record voss_env =
  v_io :: io
  can_rename :: "string \<Rightarrow> bool"
  can_link :: "string \<Rightarrow> bool"
  v_clock :: int
  v_daytext :: "int \<Rightarrow> string"
  v_path :: string
  voss_wait :: int
  v_timeout :: int
  voss_stat_interval :: int
  v_buff :: nat
  v_peer_ip :: "int \<Rightarrow> uint32"
  v_malloc :: bool
  v_maxfds :: int
  v_resolve :: "string \<Rightarrow> string option"
  v_indir :: "string list option"

definition v_day :: "voss_env \<Rightarrow> string" where
  "v_day e = v_daytext e (v_clock e)"

definition zero_peer :: vfs_voss_peer where
  "zero_peer = \<lparr>v_ip = [], con_ip = 0, v_fd = 0, in_path = None, v_hbtime = 0, v_recvlen = 0, v_datalen = 0, opentime = 0,
     v_outfile = [], v_stat = LOGOUT, v_server_stat = 0, v_role = 0\<rparr>"

definition voss_peer :: "int \<Rightarrow> voss_world \<Rightarrow> vfs_voss_peer" where
  "voss_peer fd w = (case user (conns w fd) of Some p \<Rightarrow> p | None \<Rightarrow> zero_peer)"

definition upd_voss_peer :: "int \<Rightarrow> (vfs_voss_peer \<Rightarrow> vfs_voss_peer) \<Rightarrow> voss_world \<Rightarrow> voss_world" where
  "upd_voss_peer fd f w = set_user fd (Some (f (voss_peer fd w))) w"

definition upd_glob :: "(voss_glob \<Rightarrow> voss_glob) \<Rightarrow> voss_world \<Rightarrow> voss_world" where
  "upd_glob f w = w\<lparr>glob := f (glob w)\<rparr>"

definition path_dirs :: "string list" where
  "path_dirs = [''indir'', ''outdir'', ''workdir'', ''bkdir'', ''tmpdir'', ''syncdir'']"

definition in_dir :: "voss_env \<Rightarrow> nat \<Rightarrow> string \<Rightarrow> string" where
  "in_dir e d name = snprint 256 (v_path e @ ''/'' @ path_dirs ! d @ ''/'' @ name)"

section \<open>System calls\<close>

text \<open>\<^verbatim>\<open>open\<close> with \<^verbatim>\<open>O_CREAT|O_APPEND\<close>, \<^verbatim>\<open>write\<close> on the descriptor, \<^verbatim>\<open>rename\<close> and \<^verbatim>\<open>link\<close>.  The program writes to no file
  that has two names, so a link is a copy.\<close>

definition open_append :: "io \<Rightarrow> string \<Rightarrow> fsys \<Rightarrow> bool \<times> fsys" where
  "open_append io p fs =
     (if can_open io p
      then (True, fs\<lparr>files := (files fs)(p := Some (case files fs p of None \<Rightarrow> [] | Some c \<Rightarrow> c))\<rparr>) else (False, fs))"

definition append_file :: "io \<Rightarrow> string \<Rightarrow> string \<Rightarrow> fsys \<Rightarrow> int \<times> fsys" where
  "append_file io p d fs =
     (let c = (case files fs p of None \<Rightarrow> [] | Some c \<Rightarrow> c); n = write_res io (length c) (length d)
      in (n, if n \<le> 0 \<or> files fs p = None then fs else fs\<lparr>files := (files fs)(p \<mapsto> c @ take (nat n) d)\<rparr>))"

definition rename_file :: "voss_env \<Rightarrow> string \<Rightarrow> string \<Rightarrow> fsys \<Rightarrow> bool \<times> fsys" where
  "rename_file e p q fs =
     (case files fs p of
        None \<Rightarrow> (False, fs)
      | Some c \<Rightarrow> if can_rename e p then (True, fs\<lparr>files := (files fs)(p := None, q := Some c)\<rparr>) else (False, fs))"

definition link_file :: "voss_env \<Rightarrow> string \<Rightarrow> string \<Rightarrow> fsys \<Rightarrow> fsys" where
  "link_file e p q fs =
     (case files fs p of
        None \<Rightarrow> fs
      | Some c \<Rightarrow> if can_link e p \<and> \<not> is_there fs q then fs\<lparr>files := (files fs)(q \<mapsto> c)\<rparr> else fs)"

definition voss_fs_upd :: "(fsys \<Rightarrow> fsys) \<Rightarrow> voss_world \<Rightarrow> voss_world" where
  "voss_fs_upd f = upd_glob (\<lambda>g. g\<lparr>v_fs := f (v_fs g)\<rparr>)"

section \<open>The status file\<close>

definition check_stat_file :: "voss_env \<Rightarrow> voss_world \<Rightarrow> int \<times> voss_world" where
  "check_stat_file e w =
     (if stat_open (glob w) \<and> v_clock e - stat_last (glob w) < voss_stat_interval e then (0, w)
      else
        let w = (if stat_open (glob w)
                 then upd_glob (\<lambda>g. g\<lparr>stat_open := False\<rparr>)
                        (voss_fs_upd (\<lambda>fs. snd (rename_file e (stat_path (glob w)) (in_dir e 1 (basename (stat_path (glob w)))) fs)) w)
                 else w);
            p = in_dir e 2 (''voss_stat_'' @ v_day e);
            (ok, fs) = open_append (v_io e) p (v_fs (glob w));
            w = upd_glob (\<lambda>g. g\<lparr>stat_path := p, v_fs := fs\<rparr>) w
        in if ok then (0, upd_glob (\<lambda>g. g\<lparr>stat_open := True, stat_last := v_clock e\<rparr>) w) else (-1, w))"

definition voss_svc_init :: "voss_env \<Rightarrow> voss_world \<Rightarrow> int \<times> voss_world" where
  "voss_svc_init e w =
     check_stat_file e (upd_glob (\<lambda>g. g\<lparr>v_active := [], v_online := (\<lambda>_. []), stat_open := False, stat_path := [], stat_last := 0\<rparr>) w)"

text \<open>The results of these calls of \<^verbatim>\<open>write\<close> are not looked at.\<close>

definition stat_write :: "voss_env \<Rightarrow> string \<Rightarrow> voss_world \<Rightarrow> voss_world" where
  "stat_write e d w = voss_fs_upd (\<lambda>fs. snd (append_file (v_io e) (stat_path (glob w)) d fs)) w"

section \<open>Connections\<close>

definition voss_svc_initconn :: "voss_env \<Rightarrow> int \<Rightarrow> voss_world \<Rightarrow> int \<times> voss_world" where
  "voss_svc_initconn e fd w =
     (let ip = v_peer_ip e fd
      in if user (conns w fd) = None \<and> \<not> v_malloc e then (RET_CLOSE_MALLOC, w)
         else (0, upd_glob (\<lambda>g. g\<lparr>v_active := v_active g @ [fd],
                     v_online := (v_online g)(online_bucket ip := fd # v_online g (online_bucket ip))\<rparr>)
                (set_user fd (Some (zero_peer\<lparr>v_hbtime := v_clock e, v_stat := CONNECTED, v_fd := fd, con_ip := ip, v_ip := ip2str ip\<rparr>)) w)))"

definition voss_touch :: "voss_env \<Rightarrow> int \<Rightarrow> voss_world \<Rightarrow> voss_world" where
  "voss_touch e fd w =
     upd_glob (\<lambda>g. g\<lparr>v_active := removeAll fd (v_active g) @ [fd]\<rparr>) (upd_voss_peer fd (\<lambda>p. p\<lparr>v_hbtime := v_clock e\<rparr>) w)"

text \<open>\<^verbatim>\<open>init_cfg_connect\<close> returns in its first line.\<close>

definition init_cfg_connect :: "string \<Rightarrow> vfs_voss_peer \<Rightarrow> int" where
  "init_cfg_connect name p = 0"

text \<open>\<^verbatim>\<open>check_close_local\<close> publishes the working file of a connection when it is old enough.\<close>

definition check_close_local :: "voss_env \<Rightarrow> int \<Rightarrow> voss_world \<Rightarrow> int \<times> voss_world" where
  "check_close_local e fd w =
     (let p = voss_peer fd w
      in (RECV_ADD_EPOLLOUT,
          if in_path p \<noteq> None \<and> v_clock e - opentime p \<ge> voss_wait e
          then voss_fs_upd (\<lambda>fs. snd (rename_file e (v_outfile p) (in_dir e 1 (basename (v_outfile p)))
                                   (link_file e (v_outfile p) (in_dir e 5 (basename (v_outfile p))) fs)))
                 (upd_voss_peer fd (\<lambda>p. p\<lparr>in_path := None\<rparr>) w)
          else w))"

definition sub_recv :: "voss_env \<Rightarrow> int \<Rightarrow> voss_world \<Rightarrow> int \<times> voss_world" where
  "sub_recv e fd w =
     (let w = voss_touch e fd w; p = voss_peer fd w
      in if v_stat p \<noteq> PREPARE_SYNCFILE \<and> v_stat p \<noteq> SYNCFILEING then (RECV_ADD_EPOLLIN, w)
         else case get_client_data fd w of (r, data) \<Rightarrow>
           if r \<noteq> 0 then (RECV_ADD_EPOLLIN, w)
           else
             let remainlen = to_int32 (v_datalen p - v_recvlen p);
                 d = (if remainlen < 0 then data else take (nat remainlen) data);
                 (n, fs) = (case in_path p of None \<Rightarrow> (-1, v_fs (glob w)) | Some f \<Rightarrow> append_file (v_io e) f d (v_fs (glob w)))
             in if n < 0 then (RECV_CLOSE, w)
                else
                  let w = consume_client_data fd (nat n) (voss_fs_upd (\<lambda>_. fs) w);
                      rl = to_int32 (v_recvlen p + n);
                      w = upd_voss_peer fd (\<lambda>p. p\<lparr>v_recvlen := rl\<rparr>) w
                  in if rl \<ge> v_datalen p
                     then check_close_local e fd (upd_voss_peer fd (\<lambda>p. p\<lparr>v_stat := IDLE\<rparr>) w)
                     else (RECV_ADD_EPOLLIN, w))"

definition iprole :: "string list" where
  "iprole = [''unkown'', ''uc'', ''sm'', ''tracker'', ''voss_master'', ''self_ip'']"

definition process_data_req :: "voss_env \<Rightarrow> int \<Rightarrow> t_head_info \<Rightarrow> voss_world \<Rightarrow> int \<times> voss_world" where
  "process_data_req e fd h w =
     (let p = voss_peer fd w;
          name = in_dir e 2 (iprole ! v_role p @ ''_voss_'' @ v_ip p @ ''_'' @ v_day e @ ''.master'');
          (ok, w) = (if in_path p \<noteq> None then (True, w)
                     else let (ok, fs) = open_append (v_io e) name (v_fs (glob w));
                              w = voss_fs_upd (\<lambda>_. fs) (upd_voss_peer fd (\<lambda>p. p\<lparr>v_outfile := name\<rparr>) w)
                          in (ok, if ok then upd_voss_peer fd (\<lambda>p. p\<lparr>in_path := Some name, opentime := v_clock e\<rparr>) w else w))
      in if \<not> ok then (RECV_CLOSE, w)
         else sub_recv e fd (consume_client_data fd HEADSIZE
                (upd_voss_peer fd (\<lambda>p. p\<lparr>v_stat := SYNCFILEING, v_datalen := to_int32 (uint (totallen h - 12)), v_recvlen := 0\<rparr>) w)))"

section \<open>Requests\<close>

definition REQ_AUTH :: uint32 where "REQ_AUTH = 0x00000001"
definition REQ_SUBMIT :: uint32 where "REQ_SUBMIT = 0x00000002"
definition REQ_HEARTBEAT :: uint32 where "REQ_HEARTBEAT = 0x00000005"
definition REQ_VFS_CMD :: uint32 where "REQ_VFS_CMD = 0x00000008"
definition RSP_VFS_CMD :: uint32 where "RSP_VFS_CMD = 0x80000008"
definition REQ_STOPVFS :: uint32 where "REQ_STOPVFS = 0x00000009"

definition s_server_stat :: "string list" where
  "s_server_stat = [''UNKOWN_STAT'', ''WAIT_SYNC'', ''SYNCING'', ''ON_LINE'', ''OFFLINE'']"

text \<open>What \<^verbatim>\<open>check_req\<close> does with a complete message that is not a submission; \<open>len\<close> is the length of its body, a word
  that is below zero for a message shorter than its head.\<close>

definition voss_note :: "voss_env \<Rightarrow> int \<Rightarrow> t_head_info \<Rightarrow> string \<Rightarrow> voss_world \<Rightarrow> (int \<times> voss_world) option" where
  "voss_note e fd h data w =
     (let p = voss_peer fd w; len = unat (totallen h - 12)
      in if vcmdid h = REQ_AUTH
         then if len > 128 then None
              else Some (if init_cfg_connect (cstr (take len (drop 12 data))) p \<noteq> 0 then (RECV_CLOSE, w)
                         else (0, consume_client_data fd (unat (totallen h)) w))
         else if \<not> stat_open (glob w) then Some (0, consume_client_data fd (unat (totallen h)) w)
         else
           let w = stat_write e ''|'' (stat_write e (v_ip p) (stat_write e ''|'' (stat_write e (v_day e) w)));
               k = (if length data > 12 then of_char (data ! 12) else 0)
           in if vcmdid h = REQ_HEARTBEAT
              then Some (0, consume_client_data fd (unat (totallen h))
                     (stat_write e [LF] (stat_write e (s_server_stat ! (k mod 5)) (upd_voss_peer fd (\<lambda>p. p\<lparr>v_server_stat := k\<rparr>) w))))
              else if totallen h < 12 then None
              else Some (0, consume_client_data fd (unat (totallen h)) (stat_write e [LF] (stat_write e (take len (drop 12 data)) w))))"

definition voss_check_req :: "voss_env \<Rightarrow> int \<Rightarrow> voss_world \<Rightarrow> (int \<times> voss_world) option" where
  "voss_check_req e fd w =
     (case get_client_data fd w of (r, data) \<Rightarrow>
        if r \<noteq> 0 then Some (-1, w)
        else case parse_msg data of
          (_, None) \<Rightarrow> Some (-1, w)
        | (_, Some h) \<Rightarrow>
            if vcmdid h = REQ_HEARTBEAT \<or> vcmdid h = RSP_VFS_CMD \<or> vcmdid h = REQ_AUTH
            then if length data < unat (totallen h) then Some (-1, w) else voss_note e fd h data w
            else if vcmdid h = REQ_SUBMIT then Some (process_data_req e fd h w)
            else Some (RECV_CLOSE, w))"

text \<open>The loop of \<^verbatim>\<open>svc_recv\<close>.\<close>

partial_function (option) voss_recv_loop :: "voss_env \<Rightarrow> int \<Rightarrow> voss_world \<Rightarrow> (int \<times> voss_world) option" where
  "voss_recv_loop e fd w =
     (case voss_check_req e fd w of
        None \<Rightarrow> None
      | Some (r, w) \<Rightarrow>
          if r = -1 then Some (RECV_ADD_EPOLLIN, w)
          else if r = RECV_CLOSE then Some (RECV_CLOSE, w)
          else if r = RECV_ADD_EPOLLIN then Some (RECV_ADD_EPOLLIN, w)
          else voss_recv_loop e fd w)"

definition voss_svc_recv :: "voss_env \<Rightarrow> int \<Rightarrow> voss_world \<Rightarrow> (int \<times> voss_world) option" where
  "voss_svc_recv e fd w =
     (let w = voss_touch e fd w; p = voss_peer fd w
      in if v_stat p = PREPARE_SYNCFILE \<or> v_stat p = SYNCFILEING
         then case sub_recv e fd w of (r, w) \<Rightarrow>
                if r = RECV_ADD_EPOLLIN \<or> r = RECV_CLOSE then Some (r, w) else voss_recv_loop e fd w
         else voss_recv_loop e fd w)"

definition voss_svc_send :: "int \<Rightarrow> voss_world \<Rightarrow> int \<times> voss_world" where
  "voss_svc_send fd w = (SEND_ADD_EPOLLIN, w)"

definition voss_svc_finiconn :: "voss_env \<Rightarrow> int \<Rightarrow> voss_world \<Rightarrow> voss_world" where
  "voss_svc_finiconn e fd w =
     (if user (conns w fd) = None then w
      else let w = snd (check_close_local e fd (upd_voss_peer fd (\<lambda>p. p\<lparr>opentime := 0\<rparr>) w))
           in set_user fd (Some zero_peer)
                (upd_glob (\<lambda>g. g\<lparr>v_active := removeAll fd (v_active g), v_online := (\<lambda>i. removeAll fd (v_online g i))\<rparr>) w))"

section \<open>Commands\<close>

definition find_ip_stat :: "uint32 \<Rightarrow> voss_world \<Rightarrow> int option" where
  "find_ip_stat ip w = find (\<lambda>fd. con_ip (voss_peer fd w) = ip) (v_online (glob w) (online_bucket ip))"

text \<open>A message is cut at its last newline.\<close>

definition cut_msg :: "string \<Rightarrow> string" where
  "cut_msg msg = (case strrchr msg LF of None \<Rightarrow> msg | Some i \<Rightarrow> take i msg)"

definition strncasecmp :: "string \<Rightarrow> string \<Rightarrow> nat \<Rightarrow> bool" where
  "strncasecmp a b n \<longleftrightarrow> strcasecmp (take n a) (take n b)"

definition do_peer_msg :: "voss_env \<Rightarrow> string \<Rightarrow> int \<Rightarrow> voss_world \<Rightarrow> voss_world" where
  "do_peer_msg e msg fd w =
     (let m = cut_msg msg; k = v_fd (voss_peer fd w)
      in if strncasecmp m ''vfs_cmd=stopvfs'' 15
         then let (h, sq) = create_voss_head REQ_STOPVFS 0 (v_seq (glob w))
              in modify_fd_event k EPOLLOUT (set_client_data (v_buff e) k h (upd_glob (\<lambda>g. g\<lparr>v_seq := sq\<rparr>) w))
         else let (h, sq) = create_voss_head REQ_VFS_CMD (int (length m)) (v_seq (glob w))
              in modify_fd_event k EPOLLOUT (set_client_data (v_buff e) k m (set_client_data (v_buff e) k h (upd_glob (\<lambda>g. g\<lparr>v_seq := sq\<rparr>) w))))"

definition do_ip_msg :: "voss_env \<Rightarrow> string \<Rightarrow> string \<Rightarrow> voss_world \<Rightarrow> voss_world" where
  "do_ip_msg e msg name w =
     (let ip = fst (get_uint32_ip (v_resolve e) name)
      in if ip = INADDR_NONE then w
         else case find_ip_stat ip w of None \<Rightarrow> w | Some fd \<Rightarrow> do_peer_msg e msg fd w)"

definition do_group_msg :: "voss_env \<Rightarrow> string \<Rightarrow> nat \<Rightarrow> voss_world \<Rightarrow> voss_world" where
  "do_group_msg e msg grp w =
     fold (\<lambda>fd w. if grp = 0 \<or> grp = v_role (voss_peer fd w) then do_peer_msg e msg fd w else w) (v_active (glob w)) w"

text \<open>The list of addresses, each up to the next comma.\<close>

function ip_list_msg :: "voss_env \<Rightarrow> string \<Rightarrow> string \<Rightarrow> voss_world \<Rightarrow> voss_world" where
  "ip_list_msg e msg s w =
     (case strchr s CHR '','' of
        None \<Rightarrow> do_ip_msg e msg s w
      | Some i \<Rightarrow> ip_list_msg e msg (drop (i + 1) s) (do_ip_msg e msg (take i s) w))"
  by pat_completeness auto
termination
proof (relation "measure (\<lambda>(e, msg, s, w). length s)")
  fix e :: voss_env and msg s :: string and w :: voss_world and i
  assume "strchr s CHR '','' = Some i"
  then have "i < length s" by (simp add: strchr_Some_split)
  then show "((e, msg, drop (i + 1) s, do_ip_msg e msg (take i s) w), e, msg, s, w) \<in> measure (\<lambda>(e, msg, s, w). length s)"
    by simp
qed simp

declare ip_list_msg.simps [simp del]

definition do_sub_msg :: "voss_env \<Rightarrow> string \<Rightarrow> voss_world \<Rightarrow> voss_world" where
  "do_sub_msg e buf w =
     (if \<not> strncasecmp buf ''iplist='' 7 then w
      else case strchr buf CHR ''&'' of
             None \<Rightarrow> w
           | Some i \<Rightarrow>
               let s = drop 7 (take i buf); msg = drop (i + 1) buf
               in if strncasecmp s ''allip'' 5 then do_group_msg e msg 0 w
                  else if strncasecmp s ''allcs'' 5 then do_group_msg e msg 2 w
                  else if strncasecmp s ''alltracker'' 10 then do_group_msg e msg 3 w
                  else if strncasecmp s ''allfcs'' 6 then do_group_msg e msg 1 w
                  else ip_list_msg e msg s w)"

text \<open>\<^verbatim>\<open>fgets\<close> with the size of its buffer.\<close>

function fgets_lines :: "nat \<Rightarrow> string \<Rightarrow> string list" where
  "fgets_lines n s =
     (if s = [] then []
      else let k = (case strchr s LF of None \<Rightarrow> n + 1 | Some i \<Rightarrow> min (n + 1) (i + 1))
           in take k s # fgets_lines n (drop k s))"
  by pat_completeness auto
termination by (relation "measure (\<lambda>(n, s). length s)") (auto split: option.split)

declare fgets_lines.simps [simp del]

definition indir_file :: "voss_env \<Rightarrow> string \<Rightarrow> voss_world \<Rightarrow> voss_world" where
  "indir_file e name w =
     (if starts_with ''.'' name then w
      else let file = snprint 256 (snprint 256 (v_path e @ ''/indir'') @ ''/'' @ name)
        in case files (v_fs (glob w)) file of
             None \<Rightarrow> w
           | Some c \<Rightarrow>
               if \<not> can_open (v_io e) file then w
               else voss_fs_upd (\<lambda>fs. let (ok, fs) = rename_file e file (in_dir e 3 name) fs
                                       in if ok then fs else snd (unlink (v_io e) file fs))
                      (fold (\<lambda>line w. do_sub_msg e (cstr line) w) (fgets_lines 20478 c) w))"

definition check_indir :: "voss_env \<Rightarrow> voss_world \<Rightarrow> voss_world" where
  "check_indir e w = (case v_indir e of None \<Rightarrow> w | Some names \<Rightarrow> fold (indir_file e) names w)"

section \<open>The timer\<close>

definition voss_idle :: "voss_env \<Rightarrow> int \<Rightarrow> voss_world \<Rightarrow> voss_world" where
  "voss_idle e fd w =
     (let p = voss_peer fd w;
          w = (if v_fd p > 0 \<and> v_stat p \<noteq> PREPARE_SYNCFILE \<and> v_stat p \<noteq> SYNCFILEING then snd (check_close_local e (v_fd p) w) else w)
      in if v_clock e - v_hbtime p > v_timeout e * 10 then do_close (voss_svc_finiconn e) (v_maxfds e) (v_fd p) w else w)"

definition voss_svc_timeout :: "voss_env \<Rightarrow> voss_world \<Rightarrow> voss_world" where
  "voss_svc_timeout e w = check_indir e (snd (check_stat_file e (fold (voss_idle e) (v_active (glob w)) w)))"

end
