(* ===== verification/Agent.thy ===== *)
theory Agent
  imports Maintain Voss TaskQueueProps
begin

text \<open>
  The agent of a node, \<^verbatim>\<open>src/network/vfs_agent.c\<close>: it collects the records of the tasks that are done with and
  appends them to a file of the day, and answers the operator's commands.  In \<^verbatim>\<open>do_run\<close> everything behind a
  \<^verbatim>\<open>return\<close> in its middle is never reached: the connection to a VOSS server.  Of that part the messages
  (\<^verbatim>\<open>do_login\<close>, \<^verbatim>\<open>do_hb\<close>) and the handling of requests (\<^verbatim>\<open>check_req\<close>, \<^verbatim>\<open>set_from_voss\<close>) are modelled here, and
  the rest is in \<open>AgentSend\<close>.
\<close>

section \<open>State\<close>

text \<open>\<open>ag_day\<close> is what \<^verbatim>\<open>get_strtime\<close> prints; \<open>self_stat\<close> is the byte of the node's state.\<close>

record agent_env = maint_env +
  ag_io :: io
  ag_buff :: nat
  ag_day :: string
  self_stat :: char
  self_ip :: string

record agent =
  ag_maint :: maint
  databuff :: mybuff
  ag_send :: mybuff
  ag_recv :: mybuff
  ag_fs :: fsys
  ag_stop :: bool

section \<open>Collecting records\<close>

definition over_code :: "over_status \<Rightarrow> nat" where
  "over_code s = (case s of OVER_UNKNOWN \<Rightarrow> 0 | OVER_OK \<Rightarrow> 1 | OVER_E_MD5 \<Rightarrow> 2 | OVER_PEERERR \<Rightarrow> 3 | TASK_EXIST \<Rightarrow> 4
     | OVER_PEERCLOSE \<Rightarrow> 5 | OVER_UNLINK \<Rightarrow> 6 | OVER_TIMEOUT \<Rightarrow> 7 | OVER_MALLOC \<Rightarrow> 8 | OVER_SRC_DOMAIN_ERR \<Rightarrow> 9
     | OVER_SRC_IP_OFFLINE \<Rightarrow> 10 | OVER_E_OPEN_SRCFILE \<Rightarrow> 11 | OVER_E_OPEN_DSTFILE \<Rightarrow> 12 | OVER_E_IP \<Rightarrow> 13
     | OVER_E_TYPE \<Rightarrow> 14 | OVER_SEND_LEN \<Rightarrow> 15 | OVER_TOO_MANY_TRY \<Rightarrow> 16 | OVER_DISK_ERR \<Rightarrow> 17)"

text \<open>The line of a task; it fits into its buffer of 1024 bytes, since a file name has at most 255.\<close>

definition task_line :: "t_task_base \<Rightarrow> string" where
  "task_line b = filename b @ '':'' @ srcip b @ '':'' @ dec_int (fsize b) @ '':'' @ dec_int (getlen b) @ '':''
     @ dec_int (int (over_code (overstatus b))) @ [LF]"

definition upd_tq :: "(task_state \<Rightarrow> task_state) \<Rightarrow> agent \<Rightarrow> agent" where
  "upd_tq f a = a\<lparr>ag_maint := (ag_maint a)\<lparr>m_tq := f (m_tq (ag_maint a))\<rparr>\<rparr>"

text \<open>What becomes of the task: unlike \<^verbatim>\<open>check_task_timeout\<close>, this does not take it off the hash table.\<close>

definition clean_task :: "int \<Rightarrow> addr \<Rightarrow> task_state \<Rightarrow> task_state" where
  "clean_task lkh x s =
     (let s = llist_del x s;
          s = atomic_add (-1) (status (node s x)) s;
          s = set_node x (\<lambda>t. t\<lparr>task := zero_task\<rparr>) s
      in snd (vfs_set_task lkh x TASK_HOME s))"

definition get_data_from_task :: "agent_env \<Rightarrow> addr \<Rightarrow> agent \<Rightarrow> agent" where
  "get_data_from_task e x a =
     (let line = task_line (base (task (node (m_tq (ag_maint a)) x)))
      in upd_tq (clean_task (q_lock e TASK_HOME) x) (a\<lparr>databuff := mybuff_setdata (ag_buff e) (databuff a) line\<rparr>))"

text \<open>\<^verbatim>\<open>scan_some_status_task\<close> on \<open>TASK_CLEAN\<close>, whose callback changes the buffer too.\<close>

definition scan_clean :: "agent_env \<Rightarrow> agent \<Rightarrow> agent" where
  "scan_clean e a =
     (if lock_failed (q_lock e TASK_CLEAN) then a
      else fold (get_data_from_task e) (vfstask (m_tq (ag_maint a)) TASK_CLEAN) a)"

definition do_scan :: "agent_env \<Rightarrow> bool \<Rightarrow> agent \<Rightarrow> bool \<times> agent" where
  "do_scan e typ a =
     (let a = scan_clean e a
      in case mybuff_getdata (databuff a) of (r, data) \<Rightarrow>
           if r \<noteq> 0 then (False, a)
           else
             let a = (if typ
                      then let (h, sq) = create_voss_head REQ_SUBMIT (int (length data)) (m_seq (ag_maint a))
                           in a\<lparr>ag_maint := (ag_maint a)\<lparr>m_seq := sq\<rparr>, ag_send := mybuff_setdata (ag_buff e) (ag_send a) h\<rparr>
                      else a)
             in (True, a\<lparr>ag_send := mybuff_setdata (ag_buff e) (ag_send a) data, databuff := mybuff_skipdata (databuff a) (length data)\<rparr>))"

text \<open>The result of \<^verbatim>\<open>write\<close> is kept unsigned: an error is a very large number.\<close>

definition dump_to_file :: "agent_env \<Rightarrow> string \<Rightarrow> agent \<Rightarrow> agent" where
  "dump_to_file e tmpdir a =
     (let name = snprint 256 (tmpdir @ ''/voss_'' @ take 10 (ag_day e) @ ''.data'');
          (ok, fs) = open_append (ag_io e) name (ag_fs a)
      in if \<not> ok then a
         else case mybuff_getdata (ag_send a) of (r, data) \<Rightarrow>
           if r \<noteq> 0 then a\<lparr>ag_fs := fs\<rparr>
           else
             let (n, fs) = append_file (ag_io e) name data fs;
                 n = nat (if n < 0 then n + 2 ^ 64 else n)
             in a\<lparr>ag_fs := fs, ag_send := (if n > 0 then mybuff_skipdata (ag_send a) n else ag_send a)\<rparr>)"

definition do_run :: "agent_env \<Rightarrow> agent \<Rightarrow> agent" where
  "do_run e a =
     (let a = a\<lparr>ag_send := fst (mybuff_reinit (ag_buff e) (ag_send a)), ag_recv := fst (mybuff_reinit (ag_buff e) (ag_recv a))\<rparr>;
          tmpdir = (case myconfig_get_value ''voss_tmpdir'' (m_cfg (ag_maint a)) of None \<Rightarrow> ''../path/tmpdir'' | Some v \<Rightarrow> v);
          (outdata, a) = do_scan e False a
      in if outdata then dump_to_file e tmpdir a else a)"

section \<open>The connection to the server\<close>

definition add_send :: "agent_env \<Rightarrow> string \<Rightarrow> agent \<Rightarrow> agent" where
  "add_send e d a = a\<lparr>ag_send := mybuff_setdata (ag_buff e) (ag_send a) d\<rparr>"

definition do_login :: "agent_env \<Rightarrow> agent \<Rightarrow> agent" where
  "do_login e a =
     (let (out, sq) = create_msg REQ_AUTH (self_ip e) (m_seq (ag_maint a))
      in add_send e out (a\<lparr>ag_maint := (ag_maint a)\<lparr>m_seq := sq\<rparr>\<rparr>))"

definition do_hb :: "agent_env \<Rightarrow> agent \<Rightarrow> agent" where
  "do_hb e a =
     (let (h, sq) = create_voss_head REQ_HEARTBEAT 1 (m_seq (ag_maint a))
      in add_send e (h @ [self_stat e]) (a\<lparr>ag_maint := (ag_maint a)\<lparr>m_seq := sq\<rparr>\<rparr>))"

text \<open>\<^verbatim>\<open>do_update\<close>, \<^verbatim>\<open>do_sync_file\<close> and \<^verbatim>\<open>do_sync_dir\<close> do nothing.  \<open>None\<close> also stands for a command whose head
  gives less than its own length: \<^verbatim>\<open>do_request\<close> gets a negative length, for which it is not modelled.\<close>

definition set_from_voss :: "agent_env \<Rightarrow> t_head_info \<Rightarrow> string \<Rightarrow> agent \<Rightarrow> (int \<times> agent) option" where
  "set_from_voss e h data a =
     (if vcmdid h = REQ_VFS_CMD \<and> totallen h < 12 then None
      else if vcmdid h = REQ_VFS_CMD
      then map_option (\<lambda>(out, m). (0, (if out = [] then a else add_send e out a)\<lparr>ag_maint := m\<rparr>))
             (do_request (maint_env.truncate e) (take (unat (totallen h - 12)) (drop 12 data)) (ag_maint a))
      else Some (0, a))"

text \<open>The second result is the flag that something waits to be sent.\<close>

definition agent_check_req :: "agent_env \<Rightarrow> agent \<Rightarrow> (int \<times> bool \<times> agent) option" where
  "agent_check_req e a =
     (case mybuff_getdata (ag_recv a) of (r, data) \<Rightarrow>
        if r \<noteq> 0 then Some (-1, False, a)
        else case parse_msg data of
          (_, None) \<Rightarrow> Some (-1, False, a)
        | (_, Some h) \<Rightarrow>
            if length data < unat (totallen h) then Some (-1, False, a)
            else if vcmdid h = REQ_STOPVFS then Some (-1, False, a\<lparr>ag_stop := True\<rparr>)
            else map_option (\<lambda>(r, a). (r, True, a\<lparr>ag_recv := mybuff_skipdata (ag_recv a) (unat (totallen h))\<rparr>))
                   (set_from_voss e h data a))"

end
