(* ===== verification/VossProps.thy ===== *)
theory VossProps
  imports Voss
begin

text \<open>
  What the VOSS server does with a stream of messages that arrives in pieces, how it publishes what it has stored,
  and how a command reaches the nodes it names.
\<close>

section \<open>Frame rules\<close>

lemma voss_peer_frame [simp]:
  "voss_peer fd (upd_glob f w) = voss_peer fd w" "voss_peer fd (voss_fs_upd h w) = voss_peer fd w"
  "voss_peer fd (consume_client_data k n w) = voss_peer fd w" "voss_peer fd (arrive bs k d w) = voss_peer fd w"
  "voss_peer fd (upd_voss_peer fd g w) = g (voss_peer fd w)" "voss_peer fd (set_user fd (Some p) w) = p"
  "voss_peer fd (stat_write e d w) = voss_peer fd w"
  by (simp_all add: voss_peer_def upd_voss_peer_def upd_glob_def voss_fs_upd_def stat_write_def)

lemma voss_glob_frame [simp]:
  "glob (upd_glob f w) = f (glob w)" "glob (upd_voss_peer fd g w) = glob w"
  "v_fs (glob (voss_fs_upd h w)) = h (v_fs (glob w))" "stat_path (glob (voss_fs_upd h w)) = stat_path (glob w)"
  "stat_open (glob (voss_fs_upd h w)) = stat_open (glob w)" "stat_path (glob (stat_write e d w)) = stat_path (glob w)"
  "stat_open (glob (stat_write e d w)) = stat_open (glob w)"
  by (simp_all add: upd_glob_def upd_voss_peer_def voss_fs_upd_def stat_write_def)

lemma voss_recv_frame [simp]:
  "recv_ok fd (upd_glob f w) = recv_ok fd w" "received fd (upd_glob f w) = received fd w"
  "recv_ok fd (upd_voss_peer fd g w) = recv_ok fd w" "received fd (upd_voss_peer fd g w) = received fd w"
  "recv_ok fd (voss_fs_upd h w) = recv_ok fd w" "received fd (voss_fs_upd h w) = received fd w"
  "recv_ok fd (stat_write e d w) = recv_ok fd w" "received fd (stat_write e d w) = received fd w"
  by (simp_all add: upd_glob_def upd_voss_peer_def voss_fs_upd_def stat_write_def)

lemma voss_touch_frame [simp]:
  "voss_peer fd (voss_touch e fd w) = (voss_peer fd w)\<lparr>v_hbtime := v_clock e\<rparr>"
  "recv_ok fd (voss_touch e fd w) = recv_ok fd w" "received fd (voss_touch e fd w) = received fd w"
  "v_fs (glob (voss_touch e fd w)) = v_fs (glob w)" "stat_path (glob (voss_touch e fd w)) = stat_path (glob w)"
  by (simp_all add: voss_touch_def)

lemma append_file_other: "p \<noteq> q \<Longrightarrow> files (snd (append_file i p d fs)) q = files fs q"
  by (simp add: append_file_def Let_def)

lemma stat_write_other: "p \<noteq> stat_path (glob w) \<Longrightarrow> files (v_fs (glob (stat_write e d w))) p = files (v_fs (glob w)) p"
  by (simp add: stat_write_def append_file_other)

section \<open>The stream of messages\<close>

definition msg_bytes :: "t_head_info \<times> string \<Rightarrow> string" where
  "msg_bytes m = voss_head_bytes (fst m) @ snd m"

definition stream :: "(t_head_info \<times> string) list \<Rightarrow> string" where
  "stream ms = concat (map msg_bytes ms)"

definition submitted :: "(t_head_info \<times> string) list \<Rightarrow> string" where
  "submitted ms = concat (map snd (filter (\<lambda>m. vcmdid (fst m) = REQ_SUBMIT) ms))"

definition vmsg_ok :: "t_head_info \<times> string \<Rightarrow> bool" where
  "vmsg_ok m \<longleftrightarrow> totallen (fst m) = 12 + word_of_nat (length (snd m)) \<and> length (snd m) < 2 ^ 31 - 12 \<and>
     (vcmdid (fst m) \<in> {REQ_SUBMIT, REQ_HEARTBEAT, RSP_VFS_CMD} \<or> vcmdid (fst m) = REQ_AUTH \<and> length (snd m) \<le> 128)"

lemma msg_len:
  assumes "vmsg_ok (h, b)"
  shows "unat (totallen h) = 12 + length b" "unat (totallen h - 12) = length b" "to_int32 (uint (totallen h - 12)) = int (length b)"
    "\<not> totallen h < 12"
proof -
  have l: "length b < 2 ^ 31 - 12" and t: "totallen h = 12 + word_of_nat (length b)" using assms by (simp_all add: vmsg_ok_def)
  have u: "unat (word_of_nat (length b) :: uint32) = length b" using l by (simp add: unat_of_nat take_bit_nat_eq_self)
  show "unat (totallen h) = 12 + length b" unfolding t using l u by (simp add: unat_word_ariths)
  then show "\<not> totallen h < 12" by (simp add: word_less_nat_alt)
  have s: "totallen h - 12 = word_of_nat (length b)" by (simp add: t)
  show "unat (totallen h - 12) = length b" unfolding s by (rule u)
  then show "to_int32 (uint (totallen h - 12)) = int (length b)"
    using l by (simp add: uint_nat to_int32_id)
qed

lemma stream_simps [simp]:
  "stream [] = []" "stream (m # ms) = voss_head_bytes (fst m) @ snd m @ stream ms" "submitted [] = []"
  "submitted (m # ms) = (if vcmdid (fst m) = REQ_SUBMIT then snd m @ submitted ms else submitted ms)"
  by (simp_all add: stream_def submitted_def msg_bytes_def)

section \<open>The connection\<close>

definition work_name :: "voss_env \<Rightarrow> vfs_voss_peer \<Rightarrow> int \<Rightarrow> string" where
  "work_name e p t = in_dir e 2 (iprole ! v_role p @ ''_voss_'' @ v_ip p @ ''_'' @ v_daytext e t @ ''.master'')"

text \<open>\<open>T\<close> are the times at which the connection is served.  It has stored \<open>c\<close>.\<close>

definition vstore :: "voss_env \<Rightarrow> int set \<Rightarrow> vfs_voss_peer \<Rightarrow> string \<Rightarrow> fsys \<Rightarrow> string \<Rightarrow> bool" where
  "vstore e T p c fs sp \<longleftrightarrow>
     (\<forall>t\<in>T. sp \<noteq> work_name e p t) \<and>
     (case in_path p of
        None \<Rightarrow> c = [] \<and> (\<forall>t\<in>T. files fs (work_name e p t) = None)
      | Some f \<Rightarrow> files fs f = Some c \<and> opentime p \<in> T \<and> f = work_name e p (opentime p) \<and> v_outfile p = f)"

definition vinv :: "voss_env \<Rightarrow> int set \<Rightarrow> int \<Rightarrow> string \<Rightarrow> voss_world \<Rightarrow> bool" where
  "vinv e T fd c w \<longleftrightarrow> recv_ok fd w \<and> vstore e T (voss_peer fd w) c (v_fs (glob w)) (stat_path (glob w))"

lemma work_name_frame [simp]:
  "work_name e (p\<lparr>v_hbtime := x\<rparr>) t = work_name e p t" "work_name e (p\<lparr>v_recvlen := i\<rparr>) t = work_name e p t"
  "work_name e (p\<lparr>v_datalen := i\<rparr>) t = work_name e p t" "work_name e (p\<lparr>v_stat := st\<rparr>) t = work_name e p t"
  "work_name e (p\<lparr>v_server_stat := k\<rparr>) t = work_name e p t" "work_name e (p\<lparr>in_path := q\<rparr>) t = work_name e p t"
  "work_name e (p\<lparr>opentime := x\<rparr>) t = work_name e p t" "work_name e (p\<lparr>v_outfile := f\<rparr>) t = work_name e p t"
  "work_name (e\<lparr>v_clock := x\<rparr>) p t = work_name e p t"
  by (simp_all add: work_name_def in_dir_def)

lemma vstore_frame [simp]:
  "vstore e T (p\<lparr>v_hbtime := x\<rparr>) c fs sp = vstore e T p c fs sp" "vstore e T (p\<lparr>v_recvlen := i\<rparr>) c fs sp = vstore e T p c fs sp"
  "vstore e T (p\<lparr>v_datalen := i\<rparr>) c fs sp = vstore e T p c fs sp" "vstore e T (p\<lparr>v_stat := st\<rparr>) c fs sp = vstore e T p c fs sp"
  "vstore e T (p\<lparr>v_server_stat := k\<rparr>) c fs sp = vstore e T p c fs sp" "vstore (e\<lparr>v_clock := x\<rparr>) T p c fs sp = vstore e T p c fs sp"
  by (simp_all add: vstore_def split: option.split)

definition syncing :: "int \<Rightarrow> voss_world \<Rightarrow> bool" where
  "syncing fd w \<longleftrightarrow> v_stat (voss_peer fd w) = PREPARE_SYNCFILE \<or> v_stat (voss_peer fd w) = SYNCFILEING"

text \<open>Between two messages, and within the body of a submission.  \<open>tot\<close> is what will have been stored in the end,
  \<open>R\<close> are the bytes still to come.\<close>

definition vhead :: "voss_env \<Rightarrow> int set \<Rightarrow> int \<Rightarrow> string \<Rightarrow> (t_head_info \<times> string) list \<Rightarrow> string \<Rightarrow> voss_world \<Rightarrow> bool" where
  "vhead e T fd tot ms R w \<longleftrightarrow>
     (\<exists>c. vinv e T fd c w \<and> tot = c @ submitted ms) \<and> \<not> syncing fd w \<and> list_all vmsg_ok ms \<and> received fd w @ R = stream ms"

definition vbody :: "voss_env \<Rightarrow> int set \<Rightarrow> int \<Rightarrow> string \<Rightarrow> string \<Rightarrow> voss_world \<Rightarrow> bool" where
  "vbody e T fd tot R w \<longleftrightarrow>
     (\<exists>c b ms. vinv e T fd c w \<and> tot = c @ b @ submitted ms \<and> list_all vmsg_ok ms \<and> received fd w @ R = b @ stream ms \<and>
        v_datalen (voss_peer fd w) - v_recvlen (voss_peer fd w) = int (length b)) \<and>
     syncing fd w \<and> in_path (voss_peer fd w) \<noteq> None \<and> 0 \<le> v_recvlen (voss_peer fd w) \<and> v_datalen (voss_peer fd w) < 2 ^ 31"

text \<open>The handler has done all it can: it waits for the rest of a message.\<close>

definition settled :: "voss_env \<Rightarrow> int set \<Rightarrow> int \<Rightarrow> string \<Rightarrow> string \<Rightarrow> voss_world \<Rightarrow> bool" where
  "settled e T fd tot R w \<longleftrightarrow>
     (\<exists>ms. vhead e T fd tot ms R w \<and> (ms = [] \<or> length (received fd w) < length (msg_bytes (hd ms)))) \<or>
     vbody e T fd tot R w \<and> received fd w = []"

definition voss_env_ok :: "voss_env \<Rightarrow> int set \<Rightarrow> bool" where
  "voss_env_ok e T \<longleftrightarrow> v_clock e \<in> T \<and> (\<forall>s\<in>T. \<forall>t\<in>T. t - s < voss_wait e) \<and> (\<forall>p. can_open (v_io e) p) \<and>
     (\<forall>off n. write_res (v_io e) off n = int n) \<and> 0 < v_buff e"

lemma vinv_touch [simp]: "vinv e T fd c (voss_touch e' fd w) = vinv e T fd c w"
  by (simp add: vinv_def)

lemma syncing_touch [simp]: "syncing fd (voss_touch e' fd w) = syncing fd w"
  by (simp add: syncing_def)

lemma vinv_recv_ok: "vinv e T fd c w \<Longrightarrow> recv_ok fd w"
  by (simp add: vinv_def)

lemma vinv_consume: "vinv e T fd c w \<Longrightarrow> vinv e T fd c (consume_client_data fd n w)"
  by (simp add: vinv_def consume_received)

lemma vstore_append:
  assumes "\<forall>off n. write_res i off n = int n" "vstore e T p c fs sp" "in_path p = Some f"
  shows "\<exists>fs'. append_file i f d fs = (int (length d), fs') \<and> vstore e T p (c @ d) fs' sp"
  using assms by (cases "d = []") (auto simp: append_file_def vstore_def Let_def)

lemma not_stale:
  assumes "voss_env_ok e T" "vstore e T p c fs sp" "in_path p \<noteq> None"
  shows "v_clock e - opentime p < voss_wait e"
  using assms by (auto simp: voss_env_ok_def vstore_def)

section \<open>Receiving a submission\<close>

lemma sub_recv_body:
  assumes env: "voss_env_ok e T" and body: "vbody e T fd tot R w"
  shows "\<exists>r w'. sub_recv e fd w = (r, w') \<and>
    (r = RECV_ADD_EPOLLIN \<and> settled e T fd tot R w' \<or>
     r = RECV_ADD_EPOLLOUT \<and> (\<exists>ms. vhead e T fd tot ms R w') \<and> length (received fd w') \<le> length (received fd w))"
proof -
  let ?w = "voss_touch e fd w"
  let ?p = "voss_peer fd w" and ?d = "received fd w"
  obtain c b ms where inv: "vinv e T fd c w" and tot: "tot = c @ b @ submitted ms" and ok: "list_all vmsg_ok ms"
    and str: "?d @ R = b @ stream ms" and len: "v_datalen ?p - v_recvlen ?p = int (length b)"
    using body by (auto simp: vbody_def)
  have sy: "syncing fd w" and f0: "in_path ?p \<noteq> None" and bnd: "0 \<le> v_recvlen ?p" "v_datalen ?p < 2 ^ 31"
    using body by (auto simp: vbody_def)
  obtain f where f: "in_path ?p = Some f" using f0 by auto
  have rok: "recv_ok fd ?w" using vinv_recv_ok [OF inv] by simp
  have st: "(v_stat (voss_peer fd ?w) \<noteq> PREPARE_SYNCFILE \<and> v_stat (voss_peer fd ?w) \<noteq> SYNCFILEING) = False"
    using sy by (auto simp: syncing_def)
  show ?thesis
  proof (cases "?d = []")
    case True
    then have "sub_recv e fd w = (RECV_ADD_EPOLLIN, ?w)"
      using get_client_data_received [OF rok] unfolding sub_recv_def Let_def st by simp
    moreover have "vbody e T fd tot R ?w" using body by (simp add: vbody_def)
    ultimately show ?thesis using True by (auto simp: settled_def)
  next
    case False
    have get: "get_client_data fd ?w = (0, ?d)" using get_client_data_received [OF rok] False by simp
    have rem: "to_int32 (v_datalen ?p - v_recvlen ?p) = int (length b)"
      unfolding len by (rule to_int32_id) (use len bnd in linarith)+
    define d where "d = take (length b) ?d"
    have wr: "\<forall>off n. write_res (v_io e) off n = int n" using env by (simp add: voss_env_ok_def)
    obtain fs' where fs: "append_file (v_io e) f d (v_fs (glob w)) = (int (length d), fs')"
      and store: "vstore e T ?p (c @ d) fs' (stat_path (glob w))"
      using vstore_append [OF wr _ f] inv unfolding vinv_def by blast
    define rl where "rl = v_recvlen ?p + int (length d)"
    have dle: "length d \<le> length b" by (simp add: d_def)
    have rl: "to_int32 (v_recvlen ?p + int (length d)) = rl"
      unfolding rl_def by (rule to_int32_id) (use len bnd dle in linarith)+
    let ?w1 = "upd_voss_peer fd (\<lambda>p. p\<lparr>v_recvlen := rl\<rparr>) (consume_client_data fd (length d) (voss_fs_upd (\<lambda>_. fs') ?w))"
    have inv1: "vinv e T fd (c @ d) ?w1"
      using vinv_recv_ok [OF inv] store by (simp add: vinv_def consume_received)
    have rec1: "received fd ?w1 = drop (length d) ?d" using consume_received(2) [of fd "voss_fs_upd (\<lambda>_. fs') ?w"] rok by simp
    have step: "sub_recv e fd w =
      (if rl \<ge> v_datalen ?p then check_close_local e fd (upd_voss_peer fd (\<lambda>p. p\<lparr>v_stat := IDLE\<rparr>) ?w1)
       else (RECV_ADD_EPOLLIN, ?w1))"
      unfolding sub_recv_def Let_def st if_False get prod.case
      by (simp add: rem f fs rl flip: d_def)
    show ?thesis
    proof (cases "length b \<le> length ?d")
      case True
      then have d: "d = b" using arg_cong [OF str, of "take (length b)"] by (simp add: d_def)
      then have fin: "rl \<ge> v_datalen ?p" using len by (simp add: rl_def)
      let ?w2 = "upd_voss_peer fd (\<lambda>p. p\<lparr>v_stat := IDLE\<rparr>) ?w1"
      have inv2: "vinv e T fd (c @ b) ?w2" using inv1 d by (simp add: vinv_def)
      have "v_clock e - opentime (voss_peer fd ?w2) < voss_wait e"
        using not_stale [OF env, of ?p "c @ d"] store f by simp
      then have "sub_recv e fd w = (RECV_ADD_EPOLLOUT, ?w2)" using step fin by (simp add: check_close_local_def Let_def)
      moreover have "received fd ?w2 @ R = stream ms"
        using rec1 d True arg_cong [OF str, of "drop (length b)"] by simp
      then have "vhead e T fd tot ms R ?w2" using inv2 tot ok by (auto simp: vhead_def syncing_def)
      moreover have "length (received fd ?w2) \<le> length ?d" using rec1 by simp
      ultimately show ?thesis by blast
    next
      case False
      then have d: "d = ?d" by (simp add: d_def)
      then have "rl < v_datalen ?p" using len False by (simp add: rl_def)
      then have s: "sub_recv e fd w = (RECV_ADD_EPOLLIN, ?w1)" using step by simp
      obtain b' where b': "b = ?d @ b'" using short_prefix [OF str] False by auto
      then have "R = b' @ stream ms" using str by simp
      moreover have "v_datalen (voss_peer fd ?w1) - v_recvlen (voss_peer fd ?w1) = int (length b')"
        using len d arg_cong [OF b', of length] by (simp add: rl_def)
      moreover have "tot = (c @ d) @ b' @ submitted ms" using tot b' d by simp
      moreover have "received fd ?w1 = []" using rec1 d by simp
      moreover have "0 \<le> v_recvlen (voss_peer fd ?w1)" using bnd(1) by (simp add: rl_def)
      moreover have "v_datalen (voss_peer fd ?w1) < 2 ^ 31" "in_path (voss_peer fd ?w1) \<noteq> None" using bnd(2) f by simp_all
      moreover have "syncing fd ?w1" using sy by (simp add: syncing_def)
      ultimately have "vbody e T fd tot R ?w1" using inv1 ok unfolding vbody_def
        by (metis append_Nil)
      then show ?thesis using s \<open>received fd ?w1 = []\<close> by (auto simp: settled_def)
    qed
  qed
qed

section \<open>One message\<close>

lemma process_submit:
  assumes env: "voss_env_ok e T" and head: "vhead e T fd tot ((h, b) # ms) R w" and cmd: "vcmdid h = REQ_SUBMIT"
    and len: "12 \<le> length (received fd w)"
  shows "\<exists>r w'. process_data_req e fd h w = (r, w') \<and>
    (r = RECV_ADD_EPOLLIN \<and> settled e T fd tot R w' \<or>
     r = RECV_ADD_EPOLLOUT \<and> (\<exists>ms. vhead e T fd tot ms R w') \<and> length (received fd w') < length (received fd w))"
proof -
  let ?p = "voss_peer fd w"
  let ?name = "work_name e ?p (v_clock e)"
  obtain c where inv: "vinv e T fd c w" and tot: "tot = c @ b @ submitted ms" using head cmd by (auto simp: vhead_def)
  have ok: "vmsg_ok (h, b)" "list_all vmsg_ok ms" and str: "received fd w @ R = voss_head_bytes h @ b @ stream ms"
    using head by (auto simp: vhead_def)
  obtain d where d: "received fd w = voss_head_bytes h @ d" "d @ R = b @ stream ms"
    using long_prefix [OF str] len by auto
  have opn: "can_open (v_io e) ?name" and clk: "v_clock e \<in> T" using env by (simp_all add: voss_env_ok_def)
  define w1 where "w1 = (if in_path ?p \<noteq> None then w
     else upd_voss_peer fd (\<lambda>p. p\<lparr>in_path := Some ?name, opentime := v_clock e\<rparr>)
            (voss_fs_upd (\<lambda>_. snd (open_append (v_io e) ?name (v_fs (glob w)))) (upd_voss_peer fd (\<lambda>p. p\<lparr>v_outfile := ?name\<rparr>) w)))"
  let ?v = "upd_voss_peer fd (\<lambda>p. p\<lparr>v_stat := SYNCFILEING, v_datalen := to_int32 (uint (totallen h - 12)), v_recvlen := 0\<rparr>) w1"
  let ?w2 = "consume_client_data fd 12 ?v"
  have inv1: "vinv e T fd c w1" "in_path (voss_peer fd w1) \<noteq> None" "received fd w1 = received fd w"
    using inv opn clk by (auto simp: w1_def vinv_def vstore_def open_append_def split: option.splits)
  have "process_data_req e fd h w = sub_recv e fd ?w2"
    using opn by (simp add: process_data_req_def w1_def work_name_def v_day_def Let_def open_append_def)
  moreover have "vbody e T fd tot R ?w2"
  proof -
    have "received fd ?w2 = d" using consume_received(2) [of fd ?v 12] vinv_recv_ok [OF inv1(1)] inv1(3) d(1) by simp
    moreover have "vinv e T fd c ?w2" using inv1(1) by (simp add: vinv_def consume_received)
    moreover have "length b < 2 ^ 31 - 12" using ok(1) by (simp add: vmsg_ok_def)
    ultimately show ?thesis using tot ok(2) d(2) inv1(2) msg_len(3) [OF ok(1)] by (auto simp: vbody_def syncing_def)
  qed
  moreover have "length (received fd ?w2) < length (received fd w)"
    using consume_received(2) [of fd ?v 12] vinv_recv_ok [OF inv1(1)] inv1(3) len by simp
  ultimately show ?thesis using sub_recv_body [OF env, of fd tot R ?w2] by fastforce
qed

lemma vinv_stat_write: "vinv e T fd c w \<Longrightarrow> vinv e T fd c (stat_write e' d w)"
  by (auto simp: vinv_def vstore_def stat_write_other split: option.splits)

lemma vinv_server_stat: "vinv e T fd c w \<Longrightarrow> vinv e T fd c (upd_voss_peer fd (\<lambda>p. p\<lparr>v_server_stat := k\<rparr>) w)"
  by (simp add: vinv_def)

lemma syncing_frame [simp]:
  "syncing fd (stat_write e d w) = syncing fd w" "syncing fd (consume_client_data k n w) = syncing fd w"
  "syncing fd (upd_voss_peer fd (\<lambda>p. p\<lparr>v_server_stat := j\<rparr>) w) = syncing fd w"
  by (simp_all add: syncing_def)

lemma voss_note_spec:
  assumes head: "vhead e T fd tot ((h, b) # ms) R w" and cmd: "vcmdid h \<noteq> REQ_SUBMIT"
    and len: "12 + length b \<le> length (received fd w)"
  shows "\<exists>w'. voss_note e fd h (received fd w) w = Some (0, w') \<and> vhead e T fd tot ms R w' \<and>
    length (received fd w') < length (received fd w)"
proof -
  have ok: "vmsg_ok (h, b)" "list_all vmsg_ok ms" and str: "received fd w @ R = (voss_head_bytes h @ b) @ stream ms"
    and ns: "\<not> syncing fd w"
    using head by (auto simp: vhead_def)
  obtain c where inv: "vinv e T fd c w" "tot = c @ submitted ms" using head cmd by (auto simp: vhead_def)
  obtain d where d: "received fd w = (voss_head_bytes h @ b) @ d" "d @ R = stream ms"
    using long_prefix [OF str] len by auto
  have after: "vhead e T fd tot ms R (consume_client_data fd (12 + length b) v) \<and>
      length (received fd (consume_client_data fd (12 + length b) v)) < length (received fd w)"
    if v: "vinv e T fd c v" "received fd v = received fd w" "\<not> syncing fd v" for v
  proof -
    have "received fd (consume_client_data fd (12 + length b) v) = d"
      using consume_received(2) [of fd v "12 + length b"] vinv_recv_ok [OF v(1)] v(2) d(1) by simp
    then show ?thesis using vinv_consume [OF v(1)] inv(2) v(3) ok(2) d by (auto simp: vhead_def)
  qed
  note after [simplified, intro]
  show ?thesis
  proof (cases "vcmdid h = REQ_AUTH")
    case True
    then have "length b \<le> 128" using ok(1) by (auto simp: vmsg_ok_def REQ_AUTH_def REQ_SUBMIT_def REQ_HEARTBEAT_def RSP_VFS_CMD_def)
    then show ?thesis using after [OF inv(1) refl ns] True msg_len [OF ok(1)]
      by (simp add: voss_note_def init_cfg_connect_def Let_def)
  next
    case False
    note w = vinv_stat_write vinv_server_stat inv(1) ns
    show ?thesis
      using False after msg_len [OF ok(1)] by (auto simp: voss_note_def Let_def w)
  qed
qed

section \<open>The loop\<close>

lemma check_req_spec:
  assumes env: "voss_env_ok e T" and head: "vhead e T fd tot ms R w"
  shows "\<exists>r w'. voss_check_req e fd w = Some (r, w') \<and>
    (r = -1 \<and> w' = w \<and> settled e T fd tot R w \<or> r = RECV_ADD_EPOLLIN \<and> settled e T fd tot R w' \<or>
     (r = 0 \<or> r = RECV_ADD_EPOLLOUT) \<and> (\<exists>ms. vhead e T fd tot ms R w') \<and> length (received fd w') < length (received fd w))"
proof -
  have rok: "recv_ok fd w" using head vinv_recv_ok by (auto simp: vhead_def)
  show ?thesis
  proof (cases "ms = [] \<or> length (received fd w) < 12")
    case True
    then have "settled e T fd tot R w"
    proof
      assume "ms = []"
      with head show ?thesis by (auto simp: settled_def)
    next
      assume "length (received fd w) < 12"
      then have "ms = [] \<or> length (received fd w) < length (msg_bytes (hd ms))" by (simp add: msg_bytes_def)
      with head show ?thesis by (auto simp: settled_def)
    qed
    moreover have "received fd w = []" if "ms = []" using head that by (simp add: vhead_def)
    then have "voss_check_req e fd w = Some (-1, w)"
      using True get_client_data_received [OF rok] by (auto simp: voss_check_req_def parse_msg_def)
    ultimately show ?thesis by blast
  next
    case False
    then obtain h b ms' where ms: "ms = (h, b) # ms'" and l12: "12 \<le> length (received fd w)" by (cases ms) auto
    note head1 = head [unfolded ms]
    have ok: "vmsg_ok (h, b)" and str: "received fd w @ R = voss_head_bytes h @ (b @ stream ms')"
      using head1 by (auto simp: vhead_def)
    obtain d where d: "received fd w = voss_head_bytes h @ d" using long_prefix [OF str] l12 by auto
    have ne: "received fd w \<noteq> []" using l12 by auto
    have get: "get_client_data fd w = (0, received fd w)" "parse_msg (received fd w) = (0, Some h)"
      using get_client_data_received [OF rok] ne parse_voss_head by (simp_all add: d)
    have cmds: "REQ_SUBMIT \<notin> {REQ_HEARTBEAT, RSP_VFS_CMD, REQ_AUTH}"
      by (simp add: REQ_AUTH_def REQ_SUBMIT_def REQ_HEARTBEAT_def RSP_VFS_CMD_def)
    show ?thesis
    proof (cases "vcmdid h = REQ_SUBMIT")
      case True
      then have "voss_check_req e fd w = Some (process_data_req e fd h w)" using cmds by (simp add: voss_check_req_def get)
      with process_submit [OF env head1 True l12] show ?thesis by fastforce
    next
      case False
      then have c: "vcmdid h = REQ_HEARTBEAT \<or> vcmdid h = RSP_VFS_CMD \<or> vcmdid h = REQ_AUTH"
        using ok by (auto simp: vmsg_ok_def)
      show ?thesis
      proof (cases "length (received fd w) < 12 + length b")
        case True
        then have "settled e T fd tot R w" using head ms by (auto simp: settled_def msg_bytes_def)
        moreover have "voss_check_req e fd w = Some (-1, w)" using True c msg_len(1) [OF ok] by (simp add: voss_check_req_def get)
        ultimately show ?thesis by blast
      next
        case complete: False
        then have "voss_check_req e fd w = voss_note e fd h (received fd w) w"
          using c msg_len(1) [OF ok] by (simp add: voss_check_req_def get)
        with voss_note_spec [OF head1 False] complete show ?thesis by fastforce
      qed
    qed
  qed
qed

lemma loop_spec:
  assumes env: "voss_env_ok e T" and head: "vhead e T fd tot ms R w"
  shows "\<exists>w'. voss_recv_loop e fd w = Some (RECV_ADD_EPOLLIN, w') \<and> settled e T fd tot R w'"
  using head
proof (induction "length (received fd w)" arbitrary: w ms rule: less_induct)
  case less
  obtain r w' where r: "voss_check_req e fd w = Some (r, w')"
    and c: "r = -1 \<and> w' = w \<and> settled e T fd tot R w \<or> r = RECV_ADD_EPOLLIN \<and> settled e T fd tot R w' \<or>
     (r = 0 \<or> r = RECV_ADD_EPOLLOUT) \<and> (\<exists>ms. vhead e T fd tot ms R w') \<and> length (received fd w') < length (received fd w)"
    using check_req_spec [OF env less.prems] by blast
  from c show ?case
  proof (elim disjE)
    assume "(r = 0 \<or> r = RECV_ADD_EPOLLOUT) \<and> (\<exists>ms. vhead e T fd tot ms R w') \<and> length (received fd w') < length (received fd w)"
    moreover from this have "voss_recv_loop e fd w = voss_recv_loop e fd w'"
      by (subst voss_recv_loop.simps) (auto simp: r)
    ultimately show ?thesis using less.hyps [of w'] by auto
  qed (subst voss_recv_loop.simps, simp add: r)+
qed

lemma svc_recv_spec:
  assumes env: "voss_env_ok e T" and st: "settled e T fd tot (d @ R) w"
  shows "\<exists>w'. voss_svc_recv e fd (arrive (v_buff e) fd d w) = Some (RECV_ADD_EPOLLIN, w') \<and> settled e T fd tot R w'"
proof -
  have bs: "0 < v_buff e" using env by (simp add: voss_env_ok_def)
  let ?a = "arrive (v_buff e) fd d w"
  let ?w = "voss_touch e fd ?a"
  have rok: "recv_ok fd w" using st vinv_recv_ok by (fastforce simp: settled_def vhead_def vbody_def)
  have rec: "received fd ?w = received fd w @ d" "recv_ok fd ?w" using arrive_received [OF rok bs] by simp_all
  have inv: "vinv e T fd c ?w" if "vinv e T fd c w" for c
    using that rec(2) by (simp add: vinv_def)
  have sy: "syncing fd ?w = syncing fd w" by (simp add: syncing_def)
  from st consider (head) ms where "vhead e T fd tot ms (d @ R) w" | (body) "vbody e T fd tot (d @ R) w"
    by (auto simp: settled_def)
  then show ?thesis
  proof cases
    case head
    then have "vhead e T fd tot ms R ?w" using inv rec(1) sy by (auto simp: vhead_def)
    moreover from this have "voss_svc_recv e fd ?a = voss_recv_loop e fd ?w"
      by (auto simp: voss_svc_recv_def Let_def vhead_def syncing_def)
    ultimately show ?thesis using loop_spec [OF env] by simp
  next
    case body
    then have b: "vbody e T fd tot R ?w" using inv rec(1) sy by (auto simp: vbody_def)
    then have s: "voss_svc_recv e fd ?a = (case sub_recv e fd ?w of (r, w) \<Rightarrow>
        if r = RECV_ADD_EPOLLIN \<or> r = RECV_CLOSE then Some (r, w) else voss_recv_loop e fd w)"
      by (auto simp: voss_svc_recv_def Let_def vbody_def syncing_def)
    from sub_recv_body [OF env b] show ?thesis using loop_spec [OF env] by (auto simp: s)
  qed
qed

section \<open>Any number of pieces\<close>

text \<open>Each piece comes at a time of its own.\<close>

fun voss_run :: "voss_env \<Rightarrow> int \<Rightarrow> (int \<times> string) list \<Rightarrow> voss_world \<Rightarrow> (int \<times> voss_world) option" where
  "voss_run e fd [] w = Some (RECV_ADD_EPOLLIN, w)"
| "voss_run e fd ((t, d) # ds) w =
     (case voss_svc_recv (e\<lparr>v_clock := t\<rparr>) fd (arrive (v_buff e) fd d w) of
        None \<Rightarrow> None
      | Some (r, w) \<Rightarrow> if r = RECV_CLOSE then Some (r, w) else voss_run e fd ds w)"

lemma settled_clock: "settled (e\<lparr>v_clock := t\<rparr>) T fd tot R w = settled e T fd tot R w"
  by (simp add: settled_def vhead_def vbody_def vinv_def)

lemma voss_run_spec:
  assumes "\<forall>t\<in>T. voss_env_ok (e\<lparr>v_clock := t\<rparr>) T" "\<forall>x\<in>set ds. fst x \<in> T" "settled e T fd tot (concat (map snd ds) @ R) w"
  shows "\<exists>w'. voss_run e fd ds w = Some (RECV_ADD_EPOLLIN, w') \<and> settled e T fd tot R w'"
  using assms(2,3)
proof (induction ds arbitrary: w)
  case (Cons x ds)
  obtain t d where x: "x = (t, d)" by (cases x)
  have "voss_env_ok (e\<lparr>v_clock := t\<rparr>) T" using assms(1) Cons.prems(1) x by auto
  moreover have "settled (e\<lparr>v_clock := t\<rparr>) T fd tot (d @ concat (map snd ds) @ R) w"
    using Cons.prems(2) by (simp add: x settled_clock)
  ultimately obtain w' where w': "voss_svc_recv (e\<lparr>v_clock := t\<rparr>) fd (arrive (v_buff e) fd d w) = Some (RECV_ADD_EPOLLIN, w')"
    "settled e T fd tot (concat (map snd ds) @ R) w'"
    using svc_recv_spec [of "e\<lparr>v_clock := t\<rparr>" T fd tot d] by (auto simp: settled_clock)
  then show ?case using Cons.IH [OF _ w'(2)] Cons.prems(1) by (simp add: x)
qed simp

lemma settled_end:
  assumes "settled e T fd tot [] w"
  shows "vinv e T fd tot w" "received fd w = []"
proof -
  have m: "msg_bytes m \<noteq> []" for m using length_voss_head [of "fst m"] by (auto simp: msg_bytes_def simp del: length_voss_head)
  have "vinv e T fd tot w \<and> received fd w = []"
  proof (cases "\<exists>ms. vhead e T fd tot ms [] w \<and> (ms = [] \<or> length (received fd w) < length (msg_bytes (hd ms)))")
    case True
    then obtain ms where h: "vhead e T fd tot ms [] w" and c: "ms = [] \<or> length (received fd w) < length (msg_bytes (hd ms))" by blast
    have "ms = []"
    proof (rule ccontr)
      assume "ms \<noteq> []"
      then have "length (msg_bytes (hd ms)) \<le> length (stream ms)" by (cases ms) (simp_all add: msg_bytes_def)
      with c h \<open>ms \<noteq> []\<close> show False by (simp add: vhead_def)
    qed
    with h show ?thesis by (auto simp: vhead_def)
  next
    case False
    then have b: "vbody e T fd tot [] w" "received fd w = []" using assms by (auto simp: settled_def)
    have "stream ms = [] \<Longrightarrow> ms = []" for ms using m by (cases ms) (auto simp: stream_def)
    with b show ?thesis by (fastforce simp: vbody_def)
  qed
  then show "vinv e T fd tot w" "received fd w = []" by simp_all
qed

section \<open>Publishing\<close>

lemma in_dir_differ:
  assumes "length (v_path e) < 250" "path_dirs ! i = a # r" "path_dirs ! j = b # q" "a \<noteq> b"
  shows "in_dir e i x \<noteq> in_dir e j y"
proof
  assume "in_dir e i x = in_dir e j y"
  then have "in_dir e i x ! Suc (length (v_path e)) = in_dir e j y ! Suc (length (v_path e))" by simp
  then show False using assms by (simp add: in_dir_def snprint_def nth_append)
qed

lemma dirs_differ:
  assumes "length (v_path e) < 250"
  shows "in_dir e 1 x \<noteq> in_dir e 2 y" "in_dir e 5 x \<noteq> in_dir e 2 y" "in_dir e 5 x \<noteq> in_dir e 1 y"
  using in_dir_differ [OF assms, of 1 "CHR ''o''" "''utdir''" 2 "CHR ''w''" "''orkdir''"]
    in_dir_differ [OF assms, of 5 "CHR ''s''" "''yncdir''" 2 "CHR ''w''" "''orkdir''"]
    in_dir_differ [OF assms, of 5 "CHR ''s''" "''yncdir''" 1 "CHR ''o''" "''utdir''"]
  by (simp_all add: path_dirs_def)

lemma check_close_publishes:
  assumes "in_path (voss_peer fd w) = Some f" "v_outfile (voss_peer fd w) = f" "f = in_dir e 2 x"
    "files (v_fs (glob w)) f = Some c" "voss_wait e \<le> v_clock e - opentime (voss_peer fd w)"
    "\<forall>p. can_rename e p" "\<forall>p. can_link e p" "length (v_path e) < 250"
    "\<not> is_there (v_fs (glob w)) (in_dir e 5 (basename f))"
  shows "let fs = v_fs (glob (snd (check_close_local e fd w))) in
    files fs (in_dir e 1 (basename f)) = Some c \<and> files fs (in_dir e 5 (basename f)) = Some c \<and> files fs f = None"
proof -
  note d = dirs_differ [OF assms(8), of "basename f"]
  have n: "f \<noteq> in_dir e 1 (basename f)" "f \<noteq> in_dir e 5 (basename f)" "in_dir e 5 (basename f) \<noteq> in_dir e 1 (basename f)"
    using d unfolding assms(3) by metis+
  show ?thesis using assms(1,2,4-7,9) n by (simp add: check_close_local_def Let_def rename_file_def link_file_def)
qed

section \<open>Property\<close>

definition report_ok :: "uint32 \<times> string \<Rightarrow> bool" where
  "report_ok m \<longleftrightarrow> length (snd m) < 2 ^ 31 - 12 \<and>
     (fst m \<in> {REQ_SUBMIT, REQ_HEARTBEAT, RSP_VFS_CMD} \<or> fst m = REQ_AUTH \<and> length (snd m) \<le> 128)"

definition submissions :: "(uint32 \<times> string) list \<Rightarrow> string" where
  "submissions cs = concat (map snd (filter (\<lambda>m. fst m = REQ_SUBMIT) cs))"

lemma create_msgs_stream:
  "\<exists>ms. concat (fst (create_msgs cs sq)) = stream ms \<and> (list_all report_ok cs \<longrightarrow> list_all vmsg_ok ms) \<and> submitted ms = submissions cs"
proof (induction cs arbitrary: sq)
  case Nil
  show ?case by (intro exI [of _ "[]"]) (simp add: submissions_def)
next
  case (Cons m cs)
  obtain c b where m: "m = (c, b)" by (cases m)
  let ?h = "\<lparr>totallen = 12 + word_of_nat (length b), vcmdid = c, seq = sq\<rparr>"
  from Cons obtain ms where ms: "concat (fst (create_msgs cs (sq + 1))) = stream ms"
    "list_all report_ok cs \<longrightarrow> list_all vmsg_ok ms" "submitted ms = submissions cs" by blast
  have "create_msg c b sq = (voss_head_bytes ?h @ b, sq + 1)" by (simp add: create_msg_def getseq_def Let_def)
  then have "concat (fst (create_msgs (m # cs) sq)) = stream ((?h, b) # ms)"
    using ms(1) by (cases "create_msgs cs (sq + 1)") (simp add: m)
  moreover have "submitted ((?h, b) # ms) = submissions (m # cs)" using ms(3) by (simp add: m submissions_def)
  moreover have "list_all report_ok (m # cs) \<longrightarrow> list_all vmsg_ok ((?h, b) # ms)"
    using ms(2) by (simp add: m report_ok_def vmsg_ok_def)
  ultimately show ?case by blast
qed

text \<open>The connection is new, the server can write and rename, and its times \<open>T\<close> lie within one interval.\<close>

definition voss_good :: "voss_env \<Rightarrow> int set \<Rightarrow> int \<Rightarrow> voss_world \<Rightarrow> bool" where
  "voss_good e T fd w \<longleftrightarrow>
     (\<forall>s\<in>T. \<forall>t\<in>T. t - s < voss_wait e) \<and> (\<forall>p. can_open (v_io e) p) \<and> (\<forall>off n. write_res (v_io e) off n = int n) \<and>
     (\<forall>p. can_rename e p) \<and> (\<forall>p. can_link e p) \<and> 0 < v_buff e \<and> length (v_path e) < 250 \<and>
     recv_ok fd w \<and> received fd w = [] \<and> v_stat (voss_peer fd w) = CONNECTED \<and> in_path (voss_peer fd w) = None \<and>
     (\<forall>t\<in>T. stat_path (glob w) \<noteq> work_name e (voss_peer fd w) t \<and> files (v_fs (glob w)) (work_name e (voss_peer fd w) t) = None)"

text \<open>C8: What a node submits is published unharmed.  However the bytes of its messages (logins, heartbeats,
  answers and submissions, as \<^verbatim>\<open>create_msg\<close> builds them) are cut into pieces, the server keeps the connection open and
  takes in all of them; and when the interval is over, the file in the directory for output, and the one in the
  directory for other centres, hold exactly the bodies of the submissions, in order, and the working file is gone.\<close>

theorem submissions_published:
  assumes "voss_good e T fd w" "list_all report_ok cs" "\<forall>x\<in>set ds. fst x \<in> T"
    "concat (map snd ds) = concat (fst (create_msgs cs sq))" "submissions cs \<noteq> []" "\<forall>t\<in>T. voss_wait e \<le> now - t"
  shows "\<exists>w' f. voss_run e fd ds w = Some (RECV_ADD_EPOLLIN, w') \<and> received fd w' = [] \<and>
    in_path (voss_peer fd w') = Some f \<and>
    (\<not> is_there (v_fs (glob w')) (in_dir e 5 (basename f)) \<longrightarrow>
     (let fs = v_fs (glob (snd (check_close_local (e\<lparr>v_clock := now\<rparr>) fd w'))) in
      files fs (in_dir e 1 (basename f)) = Some (submissions cs) \<and> files fs (in_dir e 5 (basename f)) = Some (submissions cs) \<and>
      files fs f = None))"
proof -
  obtain ms where ms: "concat (fst (create_msgs cs sq)) = stream ms" "list_all vmsg_ok ms" "submitted ms = submissions cs"
    using create_msgs_stream [of cs sq] assms(2) by blast
  have env: "\<forall>t\<in>T. voss_env_ok (e\<lparr>v_clock := t\<rparr>) T" using assms(1) by (auto simp: voss_good_def voss_env_ok_def)
  have "vhead e T fd (submitted ms) ms (stream ms) w"
    using assms(1) ms(2) by (auto simp: voss_good_def vhead_def vinv_def vstore_def syncing_def)
  moreover have "received fd w = []" using assms(1) by (simp add: voss_good_def)
  ultimately have "settled e T fd (submitted ms) (concat (map snd ds) @ []) w"
    using assms(4) ms(1) by (auto simp: settled_def msg_bytes_def)
  from voss_run_spec [OF env assms(3) this] obtain w' where
    w': "voss_run e fd ds w = Some (RECV_ADD_EPOLLIN, w')" "settled e T fd (submitted ms) [] w'" by blast
  note fin = settled_end [OF w'(2)]
  obtain f where f: "in_path (voss_peer fd w') = Some f"
    using fin(1) assms(5) ms(3) by (auto simp: vinv_def vstore_def split: option.splits)
  have st: "files (v_fs (glob w')) f = Some (submissions cs)" "opentime (voss_peer fd w') \<in> T"
    "f = work_name e (voss_peer fd w') (opentime (voss_peer fd w'))" "v_outfile (voss_peer fd w') = f"
    using fin(1) f ms(3) by (auto simp: vinv_def vstore_def)
  let ?e = "e\<lparr>v_clock := now\<rparr>"
  have i: "in_dir ?e k x = in_dir e k x" for k x by (simp add: in_dir_def)
  have g: "\<forall>p. can_rename ?e p" "\<forall>p. can_link ?e p" "length (v_path ?e) < 250" using assms(1) by (simp_all add: voss_good_def)
  have late: "voss_wait ?e \<le> v_clock ?e - opentime (voss_peer fd w')" using assms(6) st(2) by simp
  have "f = in_dir ?e 2 (iprole ! v_role (voss_peer fd w') @ ''_voss_'' @ v_ip (voss_peer fd w') @ ''_'' @
      v_daytext e (opentime (voss_peer fd w')) @ ''.master'')" using st(3) by (simp add: work_name_def i)
  from check_close_publishes [OF f st(4) this st(1) late g] show ?thesis
    using w'(1) fin(2) f by (auto simp: i)
qed

definition voss_env0 :: voss_env where
  "voss_env0 = \<lparr>v_io = \<lparr>can_open = (\<lambda>_. True), can_mkdir = (\<lambda>_. True), can_unlink = (\<lambda>_. True), can_read = (\<lambda>_. True),
       write_res = (\<lambda>_ n. int n)\<rparr>, can_rename = (\<lambda>_. True), can_link = (\<lambda>_. True), v_clock = 1000,
     v_daytext = (\<lambda>t. ''20141001''), v_path = ''/home'', voss_wait = 300, v_timeout = 300, voss_stat_interval = 120,
     v_buff = 64, v_peer_ip = (\<lambda>_. 0x0200000A), v_malloc = True, v_maxfds = 1024, v_resolve = (\<lambda>_. None), v_indir = None\<rparr>"

definition voss_world0 :: voss_world where
  "voss_world0 = \<lparr>conns = (\<lambda>_. \<lparr>c_fd = -1, send_buff = mybuff_init, recv_buff = mybuff_init, send_len = 0, user = None\<rparr>),
     glob = \<lparr>v_fs = \<lparr>files = Map.empty, dirs = {}\<rparr>, v_active = [], v_online = (\<lambda>_. []), stat_open = False, stat_path = [],
       stat_last = 0, v_seq = 1\<rparr>,
     send_list = [], recv_list = [], tmp_send_list = [], tmp_recv_list = [], events = (\<lambda>_. 0), wire = (\<lambda>_. []), shut = []\<rparr>"

lemma voss_new_conn:
  "voss_good voss_env0 {1000, 1001} 5 (snd (voss_svc_initconn voss_env0 5 voss_world0))"
proof -
  have "recv_ok 5 voss_world0" "received 5 voss_world0 = []"
    using buff_ok_init by (simp_all add: recv_ok_def received_def voss_world0_def)
  moreover have "[] \<noteq> in_dir voss_env0 2 x" for x by (simp add: in_dir_def snprint_def voss_env0_def)
  moreover have "stat_path (glob voss_world0) = []" "v_fs (glob voss_world0) = \<lparr>files = Map.empty, dirs = {}\<rparr>"
    by (simp_all add: voss_world0_def)
  moreover have "voss_wait voss_env0 = 300" "can_open (v_io voss_env0) p" "can_rename voss_env0 p" "can_link voss_env0 p"
    "write_res (v_io voss_env0) off n = int n" "v_buff voss_env0 = 64" "v_malloc voss_env0" "length (v_path voss_env0) = 5" for p off n
    by (simp_all add: voss_env0_def)
  ultimately show ?thesis
    by (simp add: voss_good_def voss_svc_initconn_def Let_def zero_peer_def work_name_def)
qed

theorem submissions_published_witness:
  "\<exists>w' f. voss_run voss_env0 5
      (let s = concat (fst (create_msgs [(REQ_AUTH, ''10.0.0.2''), (REQ_SUBMIT, ''ab''), (REQ_HEARTBEAT, ''x''), (REQ_SUBMIT, ''cd'')] 1))
       in [(1000, take 7 s), (1001, drop 7 s)]) (snd (voss_svc_initconn voss_env0 5 voss_world0)) = Some (RECV_ADD_EPOLLIN, w') \<and>
    in_path (voss_peer 5 w') = Some f \<and>
    (\<not> is_there (v_fs (glob w')) (in_dir voss_env0 5 (basename f)) \<longrightarrow>
     files (v_fs (glob (snd (check_close_local (voss_env0\<lparr>v_clock := 2000\<rparr>) 5 w')))) (in_dir voss_env0 1 (basename f)) = Some ''abcd'')"
proof -
  let ?cs = "[(REQ_AUTH, ''10.0.0.2''), (REQ_SUBMIT, ''ab''), (REQ_HEARTBEAT, ''x''), (REQ_SUBMIT, ''cd'')]"
  let ?s = "concat (fst (create_msgs ?cs 1))"
  have r: "list_all report_ok ?cs" by (simp add: report_ok_def)
  have s: "submissions ?cs = ''abcd''" by (simp add: submissions_def REQ_AUTH_def REQ_SUBMIT_def REQ_HEARTBEAT_def)
  have t: "\<forall>x\<in>set [(1000, take 7 ?s), (1001, drop 7 ?s)]. fst x \<in> {1000, 1001 :: int}" by simp
  have c: "concat (map snd [(1000 :: int, take 7 ?s), (1001, drop 7 ?s)]) = ?s" by (simp del: create_msgs.simps)
  have "submissions ?cs \<noteq> []" "\<forall>t\<in>{1000, 1001}. voss_wait voss_env0 \<le> 2000 - t" by (simp_all add: s voss_env0_def)
  from submissions_published [OF voss_new_conn r t c this] show ?thesis unfolding s by (auto simp: Let_def)
qed

end
