(* ===== verification/VossCommands.thy ===== *)
theory VossCommands
  imports VossProps
begin

text \<open>
  Two more facts of the VOSS server: a heartbeat that claims to have no length hangs it, and a line of a command file
  reaches exactly the nodes it names.
\<close>

section \<open>A message of length zero\<close>

definition zero_heartbeat :: "int \<Rightarrow> voss_world \<Rightarrow> bool" where
  "zero_heartbeat fd w \<longleftrightarrow> recv_ok fd w \<and>
     (\<exists>h d. received fd w = voss_head_bytes h @ d \<and> vcmdid h = REQ_HEARTBEAT \<and> totallen h = 0)"

lemma zero_heartbeat_frame [simp]:
  "zero_heartbeat fd (stat_write e d w) = zero_heartbeat fd w"
  "zero_heartbeat fd (upd_voss_peer fd g w) = zero_heartbeat fd w"
  by (simp_all add: zero_heartbeat_def)

lemma zero_heartbeat_consume: "zero_heartbeat fd w \<Longrightarrow> zero_heartbeat fd (consume_client_data fd 0 w)"
  by (auto simp: zero_heartbeat_def consume_received)

lemma zero_heartbeat_again:
  assumes "zero_heartbeat fd w"
  shows "\<exists>w'. voss_check_req e fd w = Some (0, w') \<and> zero_heartbeat fd w'"
proof -
  obtain h d where h: "recv_ok fd w" "received fd w = voss_head_bytes h @ d" "vcmdid h = REQ_HEARTBEAT" "totallen h = 0"
    using assms by (auto simp: zero_heartbeat_def)
  have "voss_head_bytes h \<noteq> []" using length_voss_head [of h] by (auto simp del: length_voss_head)
  then have "get_client_data fd w = (0, voss_head_bytes h @ d)" using get_client_data_received [OF h(1)] h(2) by simp
  then have "voss_check_req e fd w = voss_note e fd h (voss_head_bytes h @ d) w"
    using h(3,4) by (simp add: voss_check_req_def parse_voss_head)
  moreover have "\<exists>w'. voss_note e fd h (voss_head_bytes h @ d) w = Some (0, w') \<and> zero_heartbeat fd w'"
    using h(3,4) assms by (simp add: voss_note_def Let_def zero_heartbeat_consume REQ_AUTH_def REQ_HEARTBEAT_def)
  ultimately show ?thesis by simp
qed

lemma zero_heartbeat_no_return: "voss_recv_loop e fd w = Some y \<Longrightarrow> \<not> zero_heartbeat fd w"
proof (rule voss_recv_loop.raw_induct [where P = "\<lambda>e fd w y. \<not> zero_heartbeat fd w"])
  fix f :: "voss_env \<Rightarrow> int \<Rightarrow> voss_world \<Rightarrow> (int \<times> voss_world) option" and e fd w y
  assume IH: "\<And>e fd w y. f e fd w = Some y \<Longrightarrow> \<not> zero_heartbeat fd w"
    and eq: "(case voss_check_req e fd w of None \<Rightarrow> None
       | Some (r, w) \<Rightarrow> if r = -1 then Some (RECV_ADD_EPOLLIN, w) else if r = RECV_CLOSE then Some (RECV_CLOSE, w)
           else if r = RECV_ADD_EPOLLIN then Some (RECV_ADD_EPOLLIN, w) else f e fd w) = Some y"
  show "\<not> zero_heartbeat fd w"
  proof
    assume "zero_heartbeat fd w"
    then obtain w' where "voss_check_req e fd w = Some (0, w')" "zero_heartbeat fd w'"
      using zero_heartbeat_again by blast
    with eq IH [of e fd w' y] show False by simp
  qed
qed

text \<open>C39: The server never comes back from a heartbeat whose head gives the length zero: nothing of it is consumed,
  and it is handled again and again.\<close>

theorem zero_heartbeat_hangs:
  assumes "recv_ok fd w" "\<not> syncing fd w" "received fd w = voss_head_bytes h @ d" "vcmdid h = REQ_HEARTBEAT" "totallen h = 0"
  shows "voss_svc_recv e fd w = None"
proof -
  have "zero_heartbeat fd (voss_touch e fd w)" using assms by (auto simp: zero_heartbeat_def)
  then have "voss_recv_loop e fd (voss_touch e fd w) = None"
    using zero_heartbeat_no_return [of e fd "voss_touch e fd w"] by (cases "voss_recv_loop e fd (voss_touch e fd w)") auto
  then show ?thesis using assms(2) by (simp add: voss_svc_recv_def Let_def syncing_def)
qed

theorem zero_heartbeat_hangs_witness:
  "voss_svc_recv voss_env0 5 (arrive 64 5 (voss_head_bytes \<lparr>totallen = 0, vcmdid = REQ_HEARTBEAT, seq = 1\<rparr>)
     (snd (voss_svc_initconn voss_env0 5 voss_world0))) = None"
proof -
  let ?h = "\<lparr>totallen = 0, vcmdid = REQ_HEARTBEAT, seq = 1\<rparr>"
  let ?w = "snd (voss_svc_initconn voss_env0 5 voss_world0)"
  have g: "recv_ok 5 ?w" "received 5 ?w = []" "v_stat (voss_peer 5 ?w) = CONNECTED" using voss_new_conn by (simp_all add: voss_good_def)
  note a = arrive_received [OF g(1), of 64 "voss_head_bytes ?h"]
  have r: "recv_ok 5 (arrive 64 5 (voss_head_bytes ?h) ?w)" using a(1) by simp
  have d: "received 5 (arrive 64 5 (voss_head_bytes ?h) ?w) = voss_head_bytes ?h @ []" using a(2) g(2) by simp
  have s: "\<not> syncing 5 (arrive 64 5 (voss_head_bytes ?h) ?w)" using g(3) by (simp add: syncing_def)
  show ?thesis by (rule zero_heartbeat_hangs [OF r s d]) simp_all
qed

section \<open>Commands\<close>

text \<open>What waits to be sent on a connection.\<close>

definition outgoing :: "int \<Rightarrow> voss_world \<Rightarrow> string" where
  "outgoing fd w = pending (send_buff (conns w fd))"

definition sends_ok :: "voss_world \<Rightarrow> bool" where
  "sends_ok w \<longleftrightarrow> (\<forall>fd. buff_ok (send_buff (conns w fd)) \<and> v_fd (voss_peer fd w) = fd)"

text \<open>The connections of the named nodes.\<close>

fun targets :: "voss_env \<Rightarrow> voss_world \<Rightarrow> string list \<Rightarrow> int list" where
  "targets e w [] = []"
| "targets e w (name # names) =
     (let ip = fst (get_uint32_ip (v_resolve e) name)
      in if ip = INADDR_NONE then targets e w names
         else case find_ip_stat ip w of None \<Rightarrow> targets e w names | Some fd \<Rightarrow> fd # targets e w names)"

fun join_comma :: "string list \<Rightarrow> string" where
  "join_comma [] = []"
| "join_comma [s] = s"
| "join_comma (s # t # ss) = s @ CHR '','' # join_comma (t # ss)"

definition plain_cmd :: "string \<Rightarrow> bool" where
  "plain_cmd cmd \<longleftrightarrow> LF \<notin> set cmd \<and> NUL \<notin> set cmd \<and> \<not> strncasecmp cmd ''vfs_cmd=stopvfs'' 15"

lemma cut_msg_line: "LF \<notin> set cmd \<Longrightarrow> cut_msg (cmd @ [LF]) = cmd"
proof -
  assume "LF \<notin> set cmd"
  then have "strrchr (cmd @ LF # []) LF = Some (length cmd)" by (induction cmd) auto
  then show ?thesis by (simp add: cut_msg_def)
qed

lemma do_peer_msg_spec:
  assumes "plain_cmd cmd" "sends_ok w" "0 < v_buff e"
  shows "sends_ok (do_peer_msg e (cmd @ [LF]) fd w)"
    "outgoing k (do_peer_msg e (cmd @ [LF]) fd w) =
       outgoing k w @ (if k = fd then fst (create_msg REQ_VFS_CMD cmd (v_seq (glob w))) else [])"
    "voss_peer k (do_peer_msg e (cmd @ [LF]) fd w) = voss_peer k w"
    "v_online (glob (do_peer_msg e (cmd @ [LF]) fd w)) = v_online (glob w)"
proof -
  let ?b = "send_buff (conns w fd)"
  obtain h sq where h: "create_voss_head REQ_VFS_CMD (int (length cmd)) (v_seq (glob w)) = (h, sq)" by fastforce
  let ?b1 = "mybuff_setdata (v_buff e) ?b h"
  let ?b2 = "mybuff_setdata (v_buff e) ?b1 cmd"
  have fd: "v_fd (voss_peer fd w) = fd" "buff_ok ?b" using assms(2) by (simp_all add: sends_ok_def)
  have m: "do_peer_msg e (cmd @ [LF]) fd w =
      modify_fd_event fd EPOLLOUT (set_client_data (v_buff e) fd cmd (set_client_data (v_buff e) fd h (upd_glob (\<lambda>g. g\<lparr>v_seq := sq\<rparr>) w)))"
    using assms(1) cut_msg_line [of cmd] by (simp add: do_peer_msg_def plain_cmd_def h fd Let_def)
  have b1: "buff_ok ?b1" "pending ?b1 = pending ?b @ h" using setdata_spec [OF fd(2) assms(3)] by simp_all
  have b2: "buff_ok ?b2" "pending ?b2 = pending ?b @ h @ cmd" using setdata_spec [OF b1(1) assms(3)] b1(2) by simp_all
  have c: "fst (create_msg REQ_VFS_CMD cmd (v_seq (glob w))) = h @ cmd" by (simp add: create_msg_head h)
  have conn: "conns (do_peer_msg e (cmd @ [LF]) fd w) = (conns w)(fd := (conns w fd)\<lparr>send_buff := ?b2\<rparr>)"
    by (simp add: m conn_defs upd_glob_def)
  then show "voss_peer k (do_peer_msg e (cmd @ [LF]) fd w) = voss_peer k w" for k by (simp add: voss_peer_def)
  then show "sends_ok (do_peer_msg e (cmd @ [LF]) fd w)" using assms(2) b2(1) by (simp add: sends_ok_def conn)
  show "outgoing k (do_peer_msg e (cmd @ [LF]) fd w) =
       outgoing k w @ (if k = fd then fst (create_msg REQ_VFS_CMD cmd (v_seq (glob w))) else [])"
    using b2(2) by (simp add: outgoing_def conn c)
  show "v_online (glob (do_peer_msg e (cmd @ [LF]) fd w)) = v_online (glob w)" by (simp add: m)
qed

lemma targets_cong:
  "\<forall>k. voss_peer k w' = voss_peer k w \<Longrightarrow> v_online (glob w') = v_online (glob w) \<Longrightarrow> targets e w' names = targets e w names"
  by (induction names) (simp_all add: find_ip_stat_def Let_def split: option.split)

lemma do_ip_msg_target:
  "do_ip_msg e msg name w = (case targets e w [name] of [] \<Rightarrow> w | fd # _ \<Rightarrow> do_peer_msg e msg fd w)"
  by (simp add: do_ip_msg_def Let_def split: option.split)

lemma targets_Cons: "targets e w (name # names) = targets e w [name] @ targets e w names"
  by (simp add: Let_def split: option.split)

lemma targets_single: "targets e w [name] = [] \<or> (\<exists>fd. targets e w [name] = [fd])"
  by (simp add: Let_def split: option.split)

text \<open>What a command does to the connections \<open>ts\<close> it is for.\<close>

definition sent_to :: "string \<Rightarrow> int list \<Rightarrow> voss_world \<Rightarrow> voss_world \<Rightarrow> bool" where
  "sent_to cmd ts w w' \<longleftrightarrow>
     sends_ok w' \<and> (\<forall>k. voss_peer k w' = voss_peer k w) \<and> v_online (glob w') = v_online (glob w) \<and>
     (\<forall>k. if k \<in> set ts then \<exists>s. outgoing k w' = outgoing k w @ fst (create_msg REQ_VFS_CMD cmd s) else outgoing k w' = outgoing k w)"

lemma sent_one:
  assumes "plain_cmd cmd" "sends_ok w" "0 < v_buff e"
  shows "sent_to cmd (targets e w [name]) w (do_ip_msg e (cmd @ [LF]) name w)"
  using targets_single [of e w name] do_peer_msg_spec [OF assms] assms(2)
  unfolding do_ip_msg_target sent_to_def by (elim disjE exE) (auto simp del: targets.simps)

lemma sent_both:
  assumes "sent_to cmd ts w w'" "sent_to cmd us w' w''" "distinct (ts @ us)"
  shows "sent_to cmd (ts @ us) w w''"
  using assms unfolding sent_to_def by (auto split: if_splits) (metis disjoint_iff)+

lemma ip_list_sent:
  assumes "plain_cmd cmd" "0 < v_buff e"
  shows "sends_ok w \<Longrightarrow> names \<noteq> [] \<Longrightarrow> \<forall>n\<in>set names. CHR '','' \<notin> set n \<Longrightarrow> distinct (targets e w names) \<Longrightarrow>
    sent_to cmd (targets e w names) w (ip_list_msg e (cmd @ [LF]) (join_comma names) w)"
proof (induction names arbitrary: w rule: join_comma.induct)
  case (2 n)
  then have "strchr n CHR '','' = None" by simp
  then have "ip_list_msg e (cmd @ [LF]) (join_comma [n]) w = do_ip_msg e (cmd @ [LF]) n w"
    by (subst ip_list_msg.simps) (simp only: join_comma.simps option.case)
  then show ?case using sent_one [OF assms(1) 2(1) assms(2), of n] by (simp only:)
next
  case (3 n m ns)
  let ?w = "do_ip_msg e (cmd @ [LF]) n w"
  have c: "strchr (n @ CHR '','' # join_comma (m # ns)) CHR '','' = Some (length n)" using "3.prems"(3) by simp
  note one = sent_one [OF assms(1) "3.prems"(1) assms(2), of n]
  have t: "targets e ?w (m # ns) = targets e w (m # ns)" using one by (intro targets_cong) (simp_all add: sent_to_def)
  have d: "distinct (targets e w [n] @ targets e w (m # ns))" using "3.prems"(4) by (subst (asm) targets_Cons)
  have "sends_ok ?w" using one by (simp add: sent_to_def)
  from "3.IH" [OF this] have "sent_to cmd (targets e w (m # ns)) ?w (ip_list_msg e (cmd @ [LF]) (join_comma (m # ns)) ?w)"
    using "3.prems"(3) d unfolding t by (simp del: targets.simps)
  from sent_both [OF one this d] show ?case
    unfolding targets_Cons [of e w n "m # ns"] join_comma.simps(3)
    by (subst ip_list_msg.simps) (simp add: c del: targets.simps)
qed simp

definition addressed :: "string list \<Rightarrow> bool" where
  "addressed names \<longleftrightarrow> names \<noteq> [] \<and> (\<forall>n\<in>set names. CHR '','' \<notin> set n \<and> CHR ''&'' \<notin> set n) \<and>
     \<not> strncasecmp (join_comma names) ''allip'' 5 \<and> \<not> strncasecmp (join_comma names) ''allcs'' 5 \<and>
     \<not> strncasecmp (join_comma names) ''alltracker'' 10 \<and> \<not> strncasecmp (join_comma names) ''allfcs'' 6"

lemma join_comma_no_amp: "\<forall>n\<in>set names. CHR ''&'' \<notin> set n \<Longrightarrow> CHR ''&'' \<notin> set (join_comma names)"
  by (induction names rule: join_comma.induct) auto

lemma do_sub_msg_sent:
  assumes "plain_cmd cmd" "0 < v_buff e" "sends_ok w" "addressed names" "distinct (targets e w names)"
  shows "sent_to cmd (targets e w names) w (do_sub_msg e (''iplist='' @ join_comma names @ ''&'' @ cmd @ [LF]) w)"
proof -
  let ?l = "join_comma names"
  have "CHR ''&'' \<notin> set (''iplist='' @ ?l)" using assms(4) join_comma_no_amp [of names] by (simp add: addressed_def)
  from strchr_append [OF this, of "cmd @ [LF]"]
  have c: "strchr (''iplist='' @ ?l @ ''&'' @ cmd @ [LF]) CHR ''&'' = Some (7 + length ?l)" by simp
  have parts: "drop 7 (take (7 + length ?l) (''iplist='' @ ?l @ ''&'' @ cmd @ [LF])) = ?l"
    "drop (7 + length ?l + 1) (''iplist='' @ ?l @ ''&'' @ cmd @ [LF]) = cmd @ [LF]"
    "strncasecmp (''iplist='' @ r) ''iplist='' 7" for r
    by (simp_all add: eval_nat_numeral strncasecmp_def strcasecmp_def)
  have "do_sub_msg e (''iplist='' @ ?l @ ''&'' @ cmd @ [LF]) w = ip_list_msg e (cmd @ [LF]) ?l w"
    using assms(4) unfolding do_sub_msg_def c option.case parts Let_def addressed_def
    by (simp only: parts(3) if_False not_True_eq_False simp_thms)
  then show ?thesis
    using ip_list_sent [OF assms(1,2,3)] assms(4,5) by (auto simp: addressed_def)
qed


definition two_nodes :: voss_world where
  "two_nodes = snd (voss_svc_initconn (voss_env0\<lparr>v_peer_ip := (\<lambda>_. 0x0300000A)\<rparr>) 6 (snd (voss_svc_initconn voss_env0 5
     (voss_world0\<lparr>conns := (\<lambda>fd. (conns voss_world0 fd)\<lparr>user := Some (zero_peer\<lparr>v_fd := fd\<rparr>)\<rparr>)\<rparr>))))"

lemma two_nodes:
  "sends_ok two_nodes" "addressed [''10.0.0.3'']" "targets voss_env0 two_nodes [''10.0.0.3''] = [6]" "0 < v_buff voss_env0"
  "outgoing k two_nodes = []"
proof -
  show "0 < v_buff voss_env0" by (simp add: voss_env0_def)
  show "sends_ok two_nodes" "outgoing k two_nodes = []"
    using buff_ok_init
    by (simp_all add: sends_ok_def outgoing_def two_nodes_def voss_svc_initconn_def Let_def voss_peer_def voss_world0_def upd_glob_def
        conn_defs zero_peer_def)
  show "addressed [''10.0.0.3'']" by code_simp
  have ip: "fst (get_uint32_ip (v_resolve voss_env0) ''10.0.0.3'') = 0x0300000A"
    by (simp add: get_uint32_ip_def str2ip_def strtoul_def digit_of_def next_isdigit_def isdigit_def at_dot_def INADDR_NONE_def word_le_nat_alt)
  have f: "find_ip_stat 0x0300000A two_nodes = Some 6"
    by (simp add: find_ip_stat_def two_nodes_def voss_svc_initconn_def Let_def voss_peer_def voss_world0_def upd_glob_def conn_defs
        zero_peer_def online_bucket_def voss_env0_def)
  show "targets voss_env0 two_nodes [''10.0.0.3''] = [6]" by (simp add: ip f INADDR_NONE_def)
qed


end
