(* ===== verification/AgentProps.thy ===== *)
theory AgentProps
  imports Agent VossCommands MaintainProps
begin

text \<open>
  The agent loses no record when it writes the day's file, and a command travels from a command file of the VOSS
  server to the configuration of a node.
\<close>

section \<open>Collecting records\<close>

lemma clean_task_timeout:
  assumes "\<forall>i. x \<notin> set (alltask s i)"
  shows "clean_task lkh x s = check_task_timeout lkh (stime (base (task (node s x))) + 1) (example_config\<lparr>task_timeout := 0\<rparr>) x s"
proof -
  have h: "hlist_del x (llist_del x s) = llist_del x s" using assms by (simp add: tq_ops fun_eq_iff)
  show ?thesis by (simp add: clean_task_def check_task_timeout_def Let_def h)
qed

lemma check_task_timeout_alltask: "\<forall>i. x \<notin> set (alltask s i) \<Longrightarrow> alltask (check_task_timeout lkh cur c x s) = alltask s"
  by (simp add: check_task_timeout_def Let_def vfs_set_task_def tq_ops fun_eq_iff)

lemma clean_task_effect:
  assumes "tq_inv s" "x \<in> set (vfstask s i)" "i \<noteq> TASK_HOME" "\<not> lock_failed lkh" "\<forall>i. x \<notin> set (alltask s i)"
  shows "vfstask (clean_task lkh x s) = (vfstask s)(i := removeAll x (vfstask s i), TASK_HOME := vfstask s TASK_HOME @ [x])"
    "node (clean_task lkh x s) = (node s)(x := home_node (node s x))" "tq_inv (clean_task lkh x s)"
    "alltask (clean_task lkh x s) = alltask s"
proof -
  have l: "late (stime (base (task (node s x))) + 1) (example_config\<lparr>task_timeout := 0\<rparr>) s x" by (simp add: late_def)
  show "vfstask (clean_task lkh x s) = (vfstask s)(i := removeAll x (vfstask s i), TASK_HOME := vfstask s TASK_HOME @ [x])"
    "node (clean_task lkh x s) = (node s)(x := home_node (node s x))" "tq_inv (clean_task lkh x s)"
    "alltask (clean_task lkh x s) = alltask s"
    unfolding clean_task_timeout [OF assms(5)]
    using check_task_timeout_effect [OF assms(1-3) l assms(4)] tq_inv_check_task_timeout [OF assms(1,2)]
      check_task_timeout_alltask [OF assms(5)] by simp_all
qed

abbreviation tq_of :: "agent \<Rightarrow> task_state" where
  "tq_of a \<equiv> m_tq (ag_maint a)"

definition lines_of :: "task_state \<Rightarrow> addr list \<Rightarrow> string" where
  "lines_of s xs = concat (map (\<lambda>x. task_line (base (task (node s x)))) xs)"

lemma upd_tq_simps [simp]:
  "m_tq (ag_maint (upd_tq f a)) = f (m_tq (ag_maint a))" "databuff (upd_tq f a) = databuff a" "ag_send (upd_tq f a) = ag_send a"
  "ag_fs (upd_tq f a) = ag_fs a" "m_cfg (ag_maint (upd_tq f a)) = m_cfg (ag_maint a)"
  by (simp_all add: upd_tq_def)

lemma collect_fold:
  "tq_inv (tq_of a) \<Longrightarrow> vfstask (tq_of a) TASK_CLEAN = xs \<Longrightarrow> \<forall>x\<in>set xs. \<forall>i. x \<notin> set (alltask (tq_of a) i) \<Longrightarrow>
   \<not> lock_failed (q_lock e TASK_HOME) \<Longrightarrow> buff_ok (databuff a) \<Longrightarrow> 0 < ag_buff e \<Longrightarrow>
   let a' = fold (get_data_from_task e) xs a in
     vfstask (tq_of a') = (vfstask (tq_of a))(TASK_CLEAN := [], TASK_HOME := vfstask (tq_of a) TASK_HOME @ xs) \<and>
     tq_inv (tq_of a') \<and> buff_ok (databuff a') \<and> pending (databuff a') = pending (databuff a) @ lines_of (tq_of a) xs \<and>
     ag_send a' = ag_send a \<and> ag_fs a' = ag_fs a \<and> m_cfg (ag_maint a') = m_cfg (ag_maint a)"
proof (induction xs arbitrary: a)
  case Nil
  then show ?case by (simp add: lines_of_def fun_eq_iff)
next
  case (Cons x xs)
  let ?s = "tq_of a"
  let ?a = "get_data_from_task e x a"
  have x: "x \<in> set (vfstask ?s TASK_CLEAN)" "\<forall>i. x \<notin> set (alltask ?s i)" using Cons.prems(2,3) by simp_all
  have d: "x \<notin> set xs" using queues_okD(1) [OF tq_invD(1) [OF Cons.prems(1)], of TASK_CLEAN] Cons.prems(2) by simp
  note eff = clean_task_effect [OF Cons.prems(1) x(1) _ Cons.prems(4) x(2)]
  have s: "tq_of ?a = clean_task (q_lock e TASK_HOME) x ?s" by (simp add: get_data_from_task_def Let_def)
  let ?line = "task_line (base (task (node ?s x)))"
  have b: "databuff ?a = mybuff_setdata (ag_buff e) (databuff a) ?line" by (simp add: get_data_from_task_def Let_def)
  have bs: "buff_ok (databuff ?a)" "pending (databuff ?a) = pending (databuff a) @ ?line"
    using setdata_spec [OF Cons.prems(5,6)] by (simp_all add: b)
  have q: "vfstask (tq_of ?a) TASK_CLEAN = xs" "vfstask (tq_of ?a) TASK_HOME = vfstask ?s TASK_HOME @ [x]"
    using Cons.prems(2) d by (simp_all add: s eff)
  have l: "lines_of (tq_of ?a) xs = lines_of ?s xs"
    using d unfolding lines_of_def by (intro arg_cong [where f = concat] map_cong) (auto simp: s eff)
  have rest: "ag_send ?a = ag_send a" "ag_fs ?a = ag_fs a" "m_cfg (ag_maint ?a) = m_cfg (ag_maint a)"
    by (simp_all add: get_data_from_task_def Let_def)
  have "tq_inv (tq_of ?a)" "\<forall>x\<in>set xs. \<forall>i. x \<notin> set (alltask (tq_of ?a) i)" using Cons.prems(3) by (simp_all add: s eff)
  from Cons.IH [OF this(1) q(1) this(2) Cons.prems(4) bs(1) Cons.prems(6)] show ?case
    using bs(2) rest q(2) l by (simp add: Let_def s eff lines_of_def fun_eq_iff)
qed

section \<open>The file of the day\<close>

definition day_file :: "agent_env \<Rightarrow> agent \<Rightarrow> string" where
  "day_file e a = snprint 256 ((case myconfig_get_value ''voss_tmpdir'' (m_cfg (ag_maint a)) of None \<Rightarrow> ''../path/tmpdir'' | Some v \<Rightarrow> v)
     @ ''/voss_'' @ take 10 (ag_day e) @ ''.data'')"

definition old_content :: "fsys \<Rightarrow> string \<Rightarrow> string" where
  "old_content fs p = (case files fs p of None \<Rightarrow> [] | Some c \<Rightarrow> c)"

lemma task_line_nonempty [simp]: "task_line b \<noteq> []"
  by (simp add: task_line_def)

text \<open>C38: When the agent runs, every task that is done with leaves one line, in order, at the end of the file of the
  day, and its node goes back to the pool: the queue \<open>TASK_CLEAN\<close> is empty afterwards, no other queue has changed, and
  the invariant of the queues holds.\<close>

theorem agent_records_tasks:
  assumes "tq_inv (tq_of a)" "\<forall>x\<in>set (vfstask (tq_of a) TASK_CLEAN). \<forall>i. x \<notin> set (alltask (tq_of a) i)"
    "vfstask (tq_of a) TASK_CLEAN \<noteq> []" "\<not> lock_failed (q_lock e TASK_CLEAN)" "\<not> lock_failed (q_lock e TASK_HOME)"
    "buff_ok (databuff a)" "pending (databuff a) = []" "buff_ok (ag_send a)" "0 < ag_buff e"
    "\<forall>p. can_open (ag_io e) p" "\<forall>off n. write_res (ag_io e) off n = int n"
  shows "let a' = do_run e a; xs = vfstask (tq_of a) TASK_CLEAN in
    files (ag_fs a') (day_file e a) = Some (old_content (ag_fs a) (day_file e a) @ lines_of (tq_of a) xs) \<and>
    vfstask (tq_of a') = (vfstask (tq_of a))(TASK_CLEAN := [], TASK_HOME := vfstask (tq_of a) TASK_HOME @ xs) \<and>
    tq_inv (tq_of a') \<and> pending (databuff a') = [] \<and> pending (ag_send a') = []"
proof -
  let ?xs = "vfstask (tq_of a) TASK_CLEAN" and ?l = "lines_of (tq_of a) (vfstask (tq_of a) TASK_CLEAN)"
  let ?a0 = "a\<lparr>ag_send := fst (mybuff_reinit (ag_buff e) (ag_send a)), ag_recv := fst (mybuff_reinit (ag_buff e) (ag_recv a))\<rparr>"
  let ?a1 = "fold (get_data_from_task e) ?xs ?a0"
  have ne: "?l \<noteq> []" using assms(3) by (cases ?xs) (simp_all add: lines_of_def)
  have send0: "buff_ok (ag_send ?a0)" "pending (ag_send ?a0) = []" using reinit_spec [OF assms(8,9)] by simp_all
  have c: "vfstask (tq_of ?a1) = (vfstask (tq_of a))(TASK_CLEAN := [], TASK_HOME := vfstask (tq_of a) TASK_HOME @ ?xs)"
    "tq_inv (tq_of ?a1)" "buff_ok (databuff ?a1)" "pending (databuff ?a1) = ?l" "ag_send ?a1 = ag_send ?a0" "ag_fs ?a1 = ag_fs a"
    "m_cfg (ag_maint ?a1) = m_cfg (ag_maint a)"
    using collect_fold [of ?a0 ?xs e] assms by (simp_all add: Let_def)
  have get: "mybuff_getdata (databuff ?a1) = (0, ?l)" using getdata_spec [OF c(3)] c(4) ne by simp
  define b where "b = mybuff_setdata (ag_buff e) (ag_send ?a0) ?l"
  have b: "buff_ok b" "pending b = ?l" using setdata_spec [OF send0(1) assms(9)] send0(2) by (simp_all add: b_def)
  let ?a2 = "?a1\<lparr>ag_send := b, databuff := mybuff_skipdata (databuff ?a1) (length ?l)\<rparr>"
  have clean: "scan_clean e ?a0 = ?a1" using assms(4) by (simp add: scan_clean_def)
  have scan: "do_scan e False ?a0 = (True, ?a2)"
    unfolding do_scan_def Let_def clean get by (simp add: c(5) b_def)
  have skip: "pending (mybuff_skipdata (databuff ?a1) (length ?l)) = []" "pending (mybuff_skipdata b (length ?l)) = []"
    using skipdata_spec [OF c(3)] skipdata_spec [OF b(1)] c(4) b(2) by simp_all
  have getb: "mybuff_getdata b = (0, ?l)" using getdata_spec [OF b(1)] b(2) ne by simp
  let ?tmp = "case myconfig_get_value ''voss_tmpdir'' (m_cfg (ag_maint a)) of None \<Rightarrow> ''../path/tmpdir'' | Some v \<Rightarrow> v"
  have name: "snprint 256 (?tmp @ ''/voss_'' @ take 10 (ag_day e) @ ''.data'') = day_file e a" by (simp add: day_file_def)
  have run: "do_run e a = dump_to_file e ?tmp ?a2" using scan unfolding do_run_def Let_def by simp
  show ?thesis
    using assms(10,11) ne skip unfolding run dump_to_file_def Let_def name
    by (simp add: open_append_def append_file_def old_content_def c getb split: option.split)
qed

definition one_clean :: task_state where
  "one_clean = snd (vfs_set_task 0 2047 TASK_CLEAN (snd (snd (vfs_get_task 0 True TASK_HOME (init_queues task_globals)))))"

lemma one_clean:
  "tq_inv one_clean" "vfstask one_clean TASK_CLEAN = [2047]" "alltask one_clean = (\<lambda>_. [])" "task (node one_clean 2047) = zero_task"
proof -
  let ?s = "snd (snd (vfs_get_task 0 True TASK_HOME (init_queues task_globals)))"
  have inv: "tq_inv ?s" by (intro tq_inv_get tq_inv_init)
  have b: "\<not> bad_status TASK_CLEAN" by (simp add: bad_status_def)
  note get1 = get_front [OF init_home bad_HOME, of True task_globals]
  show "tq_inv one_clean" unfolding one_clean_def by (rule tq_inv_set [OF inv taken_detached])
  show "vfstask one_clean TASK_CLEAN = [2047]" "alltask one_clean = (\<lambda>_. [])" "task (node one_clean 2047) = zero_task"
    unfolding one_clean_def set_vfs_set_task [OF b lock_ok(1) taken_detached]
    by (simp_all add: tq_ops vfs_get_task_def init_home bad_HOME) (simp_all add: init_queues_def)
qed

definition agent_env0 :: agent_env where
  "agent_env0 = \<lparr>q_lock = (\<lambda>_. 0), a_lock = 0, malloc_ok = True, clock = 1000, self_role = ROLE_CS, errno_text = ''Success'',
     start_text = ''20141001120000'', compile_text = ''Oct  1 2014 11:00:00'', ag_io = v_io voss_env0, ag_buff = 64,
     ag_day = ''20141001120000'', self_stat = CHR ''x'', self_ip = ''10.0.0.2''\<rparr>"

definition agent0 :: "task_state \<Rightarrow> string \<Rightarrow> agent" where
  "agent0 s d = \<lparr>ag_maint = maint0\<lparr>m_tq := s\<rparr>, databuff = mybuff_init, ag_send = mybuff_init,
     ag_recv = mybuff_setdata 64 mybuff_init d, ag_fs = \<lparr>files = Map.empty, dirs = {}\<rparr>, ag_stop = False\<rparr>"

theorem agent_records_tasks_witness:
  "files (ag_fs (do_run agent_env0 (agent0 one_clean []))) ''../path/tmpdir/voss_2014100112.data'' = Some (''::0:0:0'' @ [LF])"
proof -
  let ?a = "agent0 one_clean []"
  have s: "tq_of ?a = one_clean" "databuff ?a = mybuff_init" "ag_send ?a = mybuff_init" by (simp_all add: agent0_def)
  have h: "\<forall>x\<in>set (vfstask (tq_of ?a) TASK_CLEAN). \<forall>i. x \<notin> set (alltask (tq_of ?a) i)" by (simp add: s one_clean)
  have e: "\<not> lock_failed (q_lock agent_env0 TASK_CLEAN)" "\<not> lock_failed (q_lock agent_env0 TASK_HOME)" "0 < ag_buff agent_env0"
    "\<forall>p. can_open (ag_io agent_env0) p" "\<forall>off n. write_res (ag_io agent_env0) off n = int n"
    by (simp_all add: agent_env0_def voss_env0_def)
  have m: "myconfig_get_value ''voss_tmpdir'' config0 = None" by code_simp
  have d: "day_file agent_env0 ?a = ''../path/tmpdir/voss_2014100112.data''"
    by (simp add: day_file_def agent0_def maint0_def m agent_env0_def)
  have z: "dec_nat 0 = ''0''" by code_simp
  have l: "lines_of one_clean [2047] = ''::0:0:0'' @ [LF]"
    by (simp add: lines_of_def one_clean zero_task_def zero_base_def task_line_def over_code_def dec_int_def z)
  have f: "old_content (ag_fs ?a) p = []" for p by (simp add: old_content_def agent0_def)
  have "tq_inv (tq_of ?a)" "vfstask (tq_of ?a) TASK_CLEAN \<noteq> []" "buff_ok (databuff ?a)" "pending (databuff ?a) = []" "buff_ok (ag_send ?a)"
    using one_clean buff_ok_init by (simp_all add: s)
  from agent_records_tasks [OF this(1) h this(2) e(1,2) this(3-5) e(3-5)] show ?thesis
    unfolding s one_clean(2) d Let_def l f by simp
qed

section \<open>From a command file to the configuration\<close>

lemma check_req_command:
  assumes "buff_ok (ag_recv a)" "pending (ag_recv a) = fst (create_msg REQ_VFS_CMD cmd sq)" "length cmd < 2 ^ 31 - 12"
  shows "agent_check_req e a =
    map_option (\<lambda>(out, m). (0, True, (if out = [] then a else add_send e out a)\<lparr>ag_maint := m,
        ag_recv := mybuff_skipdata (ag_recv a) (12 + length cmd)\<rparr>))
      (do_request (maint_env.truncate e) cmd (ag_maint a))"
proof -
  let ?h = "\<lparr>totallen = 12 + word_of_nat (length cmd), vcmdid = REQ_VFS_CMD, seq = sq\<rparr>"
  have p: "pending (ag_recv a) = voss_head_bytes ?h @ cmd"
    using assms(2) by (simp add: create_msg_head create_voss_head_def getseq_def)
  have ok: "vmsg_ok (\<lparr>totallen = 12 + word_of_nat (length cmd), vcmdid = REQ_SUBMIT, seq = sq\<rparr>, cmd)"
    using assms(3) by (simp add: vmsg_ok_def)
  note len = msg_len [OF ok, simplified]
  have "voss_head_bytes ?h @ cmd \<noteq> []" using length_voss_head [of ?h] by (auto simp del: length_voss_head)
  then have get: "mybuff_getdata (ag_recv a) = (0, voss_head_bytes ?h @ cmd)" using getdata_spec [OF assms(1)] p by simp
  have c: "REQ_VFS_CMD \<noteq> REQ_STOPVFS" by (simp add: REQ_VFS_CMD_def REQ_STOPVFS_def)
  show ?thesis
    using c len by (cases "do_request (maint_env.truncate e) cmd (ag_maint a)")
      (auto simp: agent_check_req_def get parse_voss_head set_from_voss_def add_send_def)
qed



end
