(* ===== verification/Log.thy ===== *)
theory Log
  imports TextUtils
begin

text \<open>
  The log files, \<^verbatim>\<open>src/lib/log.c\<close>: up to 49 logs, each a file with a level below which nothing is written and with
  a limit of size or of time, at which the file is renamed to the next of a ring of numbered names and begun anew.
  Since a file stays open while it is renamed, names lead to inodes here, and descriptors too.  Removing and renaming
  succeed, and a write is complete; the code looks at none of these results.  The mutex is always had.
\<close>

section \<open>Files\<close>

record lfs =
  l_names :: "string \<rightharpoonup> nat"
  l_data :: "nat \<Rightarrow> string"
  l_mtime :: "nat \<Rightarrow> int"
  l_fds :: "int \<rightharpoonup> nat"
  l_inodes :: nat
  l_opens :: "int list"
  l_closed :: "int list"

definition openfile :: "string \<Rightarrow> lfs \<Rightarrow> int \<times> lfs" where
  "openfile f s =
     (case l_opens s of
        [] \<Rightarrow> (-1, s)
      | fd # fds \<Rightarrow>
          let s = s\<lparr>l_opens := fds\<rparr>
          in if fd < 0 then (-1, s)
             else case l_names s f of
               Some i \<Rightarrow> (fd, s\<lparr>l_fds := (l_fds s)(fd \<mapsto> i)\<rparr>)
             | None \<Rightarrow> (fd, s\<lparr>l_names := (l_names s)(f \<mapsto> l_inodes s), l_data := (l_data s)(l_inodes s := []),
                 l_fds := (l_fds s)(fd \<mapsto> l_inodes s), l_inodes := l_inodes s + 1\<rparr>))"

definition l_rename :: "string \<Rightarrow> string \<Rightarrow> lfs \<Rightarrow> lfs" where
  "l_rename a b s = (case l_names s a of None \<Rightarrow> s | Some i \<Rightarrow> s\<lparr>l_names := (l_names s)(b \<mapsto> i, a := None)\<rparr>)"

definition l_unlink :: "string \<Rightarrow> lfs \<Rightarrow> lfs" where
  "l_unlink a s = s\<lparr>l_names := (l_names s)(a := None)\<rparr>"

definition l_close :: "int \<Rightarrow> lfs \<Rightarrow> lfs" where
  "l_close fd s = s\<lparr>l_fds := (l_fds s)(fd := None), l_closed := l_closed s @ [fd]\<rparr>"

definition l_write :: "int \<Rightarrow> string \<Rightarrow> lfs \<Rightarrow> lfs" where
  "l_write fd d s = (case l_fds s fd of None \<Rightarrow> s | Some i \<Rightarrow> s\<lparr>l_data := (l_data s)(i := l_data s i @ d)\<rparr>)"

section \<open>A log\<close>

record fdinfo =
  fd_timeout :: int
  fd_old :: int
  iclose :: bool

record logentity =
  log_fd :: int
  loglevel :: int
  rotatesize :: int
  rotatetime :: int
  rotateintval :: int
  maxlognum :: int
  nextlogno :: int
  fn :: string
  fdinfo :: fdinfo

record logs =
  logentities :: "logentity list"
  l_fs :: lfs

definition MAX_LOG :: nat where "MAX_LOG = 50"
definition MAX_LOG_LEN :: nat where "MAX_LOG_LEN = 2048"
definition DEFAULT_MAX_LOG_NUM :: int where "DEFAULT_MAX_LOG_NUM = 10"

definition delay_close :: "int \<Rightarrow> int \<Rightarrow> int \<Rightarrow> logentity \<Rightarrow> lfs \<Rightarrow> logentity \<times> lfs" where
  "delay_close now fd timeout le s =
     (le\<lparr>fdinfo := \<lparr>fd_timeout = now + timeout, fd_old = fd, iclose = True\<rparr>\<rparr>,
      if iclose (fdinfo le) then l_close (fd_old (fdinfo le)) s else s)"

text \<open>The name of a file of the ring, which is built in 128 bytes: the names of logs are shorter than 116 characters.\<close>

definition numbered :: "string \<Rightarrow> int \<Rightarrow> string" where
  "numbered f i = f @ ''.'' @ dec_int i"

definition next_no :: "int \<Rightarrow> int \<Rightarrow> int" where
  "next_no m n = (if (n + 1) mod m = 0 then 1 else (n + 1) mod m)"

definition shiftfile :: "logentity \<Rightarrow> lfs \<Rightarrow> int \<times> logentity \<times> lfs" where
  "shiftfile le s =
     (let tmp = numbered (fn le) (nextlogno le); s = l_rename (fn le) tmp (l_unlink tmp s);
          le = le\<lparr>nextlogno := next_no (maxlognum le) (nextlogno le)\<rparr>;
          (fd, s) = openfile (fn le) s
      in (fd, le, s))"

text \<open>The first number that is free, or that of the oldest file.\<close>

fun nextlogno_loop :: "string \<Rightarrow> int list \<Rightarrow> int \<Rightarrow> int \<Rightarrow> lfs \<Rightarrow> int" where
  "nextlogno_loop f [] minmtime minno s = minno"
| "nextlogno_loop f (i # is) minmtime minno s =
     (case l_names s (numbered f i) of
        None \<Rightarrow> i
      | Some k \<Rightarrow> if l_mtime s k \<le> minmtime then nextlogno_loop f is (l_mtime s k) i s else nextlogno_loop f is minmtime minno s)"

definition initnextlogno :: "int \<Rightarrow> logentity \<Rightarrow> lfs \<Rightarrow> int" where
  "initnextlogno now le s = nextlogno_loop (fn le) [1..maxlognum le - 1] now 1 s"

definition registerlog_internal :: "int \<Rightarrow> logentity \<Rightarrow> logs \<Rightarrow> int \<times> logs" where
  "registerlog_internal now le l =
     (if length (logentities l) \<ge> MAX_LOG - 1 then (-1, l)
      else let (fd, s) = openfile (fn le) (l_fs l);
               le = le\<lparr>log_fd := fd, maxlognum := (if maxlognum le < 2 then DEFAULT_MAX_LOG_NUM else maxlognum le)\<rparr>;
               le = le\<lparr>nextlogno := initnextlogno now le s\<rparr>
           in if fd < 0 then (-1, l\<lparr>l_fs := s\<rparr>)
              else let le = le\<lparr>rotatetime := (if rotateintval le > 0 then now + rotateintval le else 0)\<rparr>
                   in (fd, l\<lparr>logentities := logentities l @ [le], l_fs := s\<rparr>))"

definition new_log :: "string \<Rightarrow> int \<Rightarrow> int \<Rightarrow> int \<Rightarrow> int \<Rightarrow> logentity" where
  "new_log filename level rsize rintval filenum =
     \<lparr>log_fd = 0, loglevel = level, rotatesize = to_int32 (rsize * 2 ^ 20), rotatetime = 0, rotateintval = rintval,
      maxlognum = filenum, nextlogno = 0, fn = filename, fdinfo = \<lparr>fd_timeout = 0, fd_old = 0, iclose = False\<rparr>\<rparr>"

definition registerlog :: "int \<Rightarrow> string \<Rightarrow> int \<Rightarrow> int \<Rightarrow> int \<Rightarrow> int \<Rightarrow> logs \<Rightarrow> int \<times> logs" where
  "registerlog now filename level rsize rintval filenum l =
     (case registerlog_internal now (new_log filename level rsize rintval filenum) l of
        (r, l) \<Rightarrow> (if r < 0 then r else int (length (logentities l)) - 1, l))"

definition logstring :: "string list" where
  "logstring = [''TRACE'', ''DEBUG'', ''NORMAL'', ''ERROR'', ''FAULT'', ''NONE'']"

definition logcolors :: "string list" where
  "logcolors = [''36m'', ''35m'', ''32m'', ''31m'', ''41;30m'', ''41;30m'']"

definition getloglevel :: "string \<Rightarrow> int" where
  "getloglevel s = (let t = map to_lower s
     in if t = ''trace'' then 0 else if t = ''debug'' then 1 else if t = ''normal'' then 2
        else if t = ''error'' then 3 else if t = ''fault'' then 4 else 5)"

definition logclose :: "nat \<Rightarrow> logs \<Rightarrow> logs" where
  "logclose k l = l\<lparr>l_fs := l_close (log_fd (logentities l ! k)) (l_fs l)\<rparr>"

section \<open>Writing\<close>

text \<open>
  The text in front of a message; \<open>tid\<close> and \<open>stamp\<close> are the printed thread and time.  The length that is written is
  that of the head and the message, without the four characters that \<^verbatim>\<open>strcat\<close> adds.  A message that does not fit into
  the buffer is out of the model (\<open>None\<close>): \<^verbatim>\<open>write\<close> is then given the length it would have had.
\<close>

definition ESC :: char where "ESC = char_of (27 :: nat)"

definition log_head :: "nat \<Rightarrow> string \<Rightarrow> string \<Rightarrow> string" where
  "log_head level tid stamp =
     [ESC] @ ''['' @ logcolors ! level @ [ESC] @ ''[1m['' @ logstring ! level @ '']:['' @ tid @ '']['' @ stamp @ '']''"

definition log_line :: "nat \<Rightarrow> string \<Rightarrow> string \<Rightarrow> string \<Rightarrow> string" where
  "log_line level tid stamp msg = log_head level tid stamp @ msg"

definition LOG :: "nat \<Rightarrow> nat \<Rightarrow> string \<Rightarrow> string \<Rightarrow> string \<Rightarrow> logs \<Rightarrow> logs option" where
  "LOG k level tid stamp msg l =
     (let le = logentities l ! k
      in if loglevel le > int level then Some l
         else if length (log_line level tid stamp msg) + 4 \<ge> MAX_LOG_LEN then None
         else Some (l\<lparr>l_fs := l_write (log_fd le) (log_line level tid stamp msg) (l_fs l)\<rparr>))"

section \<open>Looking after the logs\<close>

text \<open>One log in \<^verbatim>\<open>scanlogs\<close>.  When the time is up but the file cannot be opened, the size is looked at as well.\<close>

definition scan_size :: "logentity \<Rightarrow> lfs \<Rightarrow> bool" where
  "scan_size le s \<longleftrightarrow> rotatesize le > 0 \<and>
     (case l_fds s (log_fd le) of None \<Rightarrow> False | Some i \<Rightarrow> rotatesize le < int (length (l_data s i)))"

definition scan_log :: "int \<Rightarrow> logentity \<Rightarrow> lfs \<Rightarrow> logentity \<times> lfs" where
  "scan_log now le s =
     (let (nfd, le, s) =
            (if rotatetime le > 0 \<and> rotatetime le < now
             then (case shiftfile le s of (fd, le, s) \<Rightarrow> (fd, if fd \<ge> 0 then le\<lparr>rotatetime := now + rotateintval le\<rparr> else le, s))
             else (-1, le, s));
          (nfd, le, s) = (if nfd < 0 \<and> scan_size le s then shiftfile le s else (nfd, le, s))
      in if nfd \<ge> 0 then delay_close now (log_fd le) 5 (le\<lparr>log_fd := nfd\<rparr>) s else (le, s))"

definition close_old :: "int \<Rightarrow> logentity \<Rightarrow> lfs \<Rightarrow> logentity \<times> lfs" where
  "close_old now le s =
     (if iclose (fdinfo le) \<and> now \<ge> fd_timeout (fdinfo le)
      then (le\<lparr>fdinfo := (fdinfo le)\<lparr>iclose := False\<rparr>\<rparr>, l_close (fd_old (fdinfo le)) s) else (le, s))"

fun each_log :: "(logentity \<Rightarrow> lfs \<Rightarrow> logentity \<times> lfs) \<Rightarrow> logentity list \<Rightarrow> lfs \<Rightarrow> logentity list \<times> lfs" where
  "each_log f [] s = ([], s)"
| "each_log f (le # les) s =
     (let (le, s) = f le s; (les, s) = each_log f les s in (le # les, s))"

definition scanlogs :: "int \<Rightarrow> logs \<Rightarrow> logs" where
  "scanlogs now l = (case each_log (scan_log now) (logentities l) (l_fs l) of (les, s) \<Rightarrow> \<lparr>logentities = les, l_fs = s\<rparr>)"

text \<open>One round of \<^verbatim>\<open>maintain_log\<close>.\<close>

definition maintain_log :: "int \<Rightarrow> logs \<Rightarrow> logs" where
  "maintain_log now l =
     scanlogs now (case each_log (close_old now) (logentities l) (l_fs l) of (les, s) \<Rightarrow> \<lparr>logentities = les, l_fs = s\<rparr>)"

end
