(* ===== verification/Process.thy ===== *)
theory Process
  imports Maintain Timer Moni Log Conn
begin

text \<open>
  The frame of the process, \<^verbatim>\<open>main.c\<close>, \<^verbatim>\<open>thread.c\<close>, \<^verbatim>\<open>watchdog.c\<close> and the parts of \<^verbatim>\<open>daemon.c\<close> that compute
  something: the table of threads, the watch dog that kills threads which do not move any more, the signals, the title of
  the process, the start of a node and the loop of the main thread.  Results of \<^verbatim>\<open>malloc\<close> and \<^verbatim>\<open>pthread_create\<close> are
  arguments; the descriptions of system errors and the calls that only pass something on to the system are left out.
\<close>

section \<open>Threads\<close>

datatype thread_state = THREAD_UNUSED | THREAD_STOPPED | THREAD_STANDBY | THREAD_STARTING | THREAD_RUNNING
  | THREAD_STOPPING | THREAD_EXITED | THREAD_KILLED

text \<open>\<open>'e\<close> is an entry with its argument; the main thread has none.  \<^verbatim>\<open>curid\<close> is the length of the list.\<close>

record 'e thread =
  th_name :: string
  th_entry :: "'e option"
  th_id :: nat
  th_pid :: int
  th_tid :: int
  th_rv :: int
  th_state :: thread_state

record 'e threads =
  threadlist :: "'e thread list"
  maxid :: nat

definition ENOMEM :: int where "ENOMEM = 12"

definition register_thread :: "bool \<Rightarrow> string \<Rightarrow> 'e \<Rightarrow> 'e threads \<Rightarrow> int \<times> 'e threads" where
  "register_thread ok name entry ts =
     (if length (threadlist ts) \<ge> maxid ts then (-1, ts)
      else if \<not> ok then (- ENOMEM, ts)
      else (0, ts\<lparr>threadlist := threadlist ts @ [\<lparr>th_name = take 15 name, th_entry = Some entry,
             th_id = length (threadlist ts), th_pid = 0, th_tid = 0, th_rv = -1, th_state = THREAD_STOPPING\<rparr>]\<rparr>))"

definition init_thread :: "bool \<Rightarrow> int \<Rightarrow> int \<times> 'e threads" where
  "init_thread ok pid =
     (if \<not> ok then (- ENOMEM, \<lparr>threadlist = [], maxid = 16\<rparr>)
      else (0, \<lparr>threadlist = [\<lparr>th_name = ''main'', th_entry = None, th_id = 0, th_pid = pid, th_tid = 0, th_rv = 0,
                  th_state = THREAD_RUNNING\<rparr>], maxid = 16\<rparr>))"

text \<open>\<^verbatim>\<open>thread_entry\<close> up to the call of the entry, and behind it.\<close>

definition thread_enter :: "int \<Rightarrow> 'e thread \<Rightarrow> 'e thread" where
  "thread_enter pid th = th\<lparr>th_pid := pid, th_state := THREAD_RUNNING\<rparr>"

definition thread_leave :: "int \<Rightarrow> 'e thread \<Rightarrow> 'e thread" where
  "thread_leave rv th = th\<lparr>th_rv := rv, th_state := THREAD_EXITED\<rparr>"

definition start_thread_posix :: "int option \<Rightarrow> 'e thread \<Rightarrow> 'e thread option" where
  "start_thread_posix created th = map_option (\<lambda>t. th\<lparr>th_tid := t\<rparr>) created"

text \<open>\<open>None\<close>: a thread cannot be created and the process exits.  \<open>created\<close> gives the new threads.\<close>

fun start_each :: "int option list \<Rightarrow> 'e thread list \<Rightarrow> 'e thread list option" where
  "start_each created [] = Some []"
| "start_each [] (th # ths) = None"
| "start_each (c # created) (th # ths) =
     (case start_thread_posix c (th\<lparr>th_state := THREAD_STARTING\<rparr>) of
        None \<Rightarrow> None
      | Some th \<Rightarrow> map_option ((#) th) (start_each created ths))"

definition start_threads :: "int option list \<Rightarrow> 'e threads \<Rightarrow> 'e threads option" where
  "start_threads created ts =
     map_option (\<lambda>ths. ts\<lparr>threadlist := take 1 (threadlist ts) @ ths\<rparr>) (start_each created (tl (threadlist ts)))"

text \<open>The threads that get a signal, the threads that are waited for, and the table after it.\<close>

definition stop_threads :: "'e threads \<Rightarrow> int list \<times> int list \<times> 'e threads" where
  "stop_threads ts =
     (let ths = tl (threadlist ts)
      in (map th_tid (filter (\<lambda>th. th_state th = THREAD_RUNNING) ths),
          map th_tid (filter (\<lambda>th. th_state th \<noteq> THREAD_UNUSED \<and> th_state th \<noteq> THREAD_STANDBY) ths),
          ts\<lparr>threadlist := take 1 (threadlist ts)\<rparr>))"

definition get_my_thread :: "nat \<Rightarrow> 'e threads \<Rightarrow> 'e thread" where
  "get_my_thread mythreadid ts = threadlist ts ! mythreadid"

text \<open>\<open>ns\<close> is the name the program is built with.  A library without a slash in its name makes \<^verbatim>\<open>rindex\<close> return a null
  pointer, which is read behind (\<open>None\<close>).  A title has 128 bytes.\<close>

definition thread_jumbo_title :: "string \<Rightarrow> string option \<Rightarrow> 'e threads \<Rightarrow> string option" where
  "thread_jumbo_title ns solib ts =
     map_option (\<lambda>s. ns @ '':'' @ s @ (if length (threadlist ts) > 1 then '','' @ th_name (threadlist ts ! 1) else []))
       (case solib of
          None \<Rightarrow> Some ''static''
        | Some v \<Rightarrow> map_option (\<lambda>i. drop (i + 1) v) (strrchr v CHR ''/''))"

section \<open>The title of the process\<close>

text \<open>
  The title is written over the arguments, which take \<open>arg_len\<close> bytes, and over the variables of the environment where
  these follow at once: \<open>env_start\<close> says whether they do, and the lengths of those that stand one behind another.  The
  result is what the bytes hold.
\<close>

record title_area =
  arg_len :: nat
  env_start :: "(bool \<times> nat list) option"

definition daemon_set_title :: "string \<Rightarrow> title_area \<Rightarrow> string \<times> title_area" where
  "daemon_set_title title a =
     (let tlen = length title + 1;
          a = (case env_start a of
                 Some (True, ls) \<Rightarrow> if arg_len a < tlen then \<lparr>arg_len = arg_len a + sum_list ls, env_start = None\<rparr> else a
               | _ \<Rightarrow> a);
          i = arg_len a;
          s = (if tlen \<le> i then title @ replicate (i - length title) NUL else take (i - 1) title @ [NUL])
      in (if env_start a \<noteq> None then (case strchr s SPACE of None \<Rightarrow> s | Some p \<Rightarrow> s[p := NUL]) else s, a))"

section \<open>Signals\<close>

record flags =
  stop :: bool
  restart :: bool

definition sigterm_handler :: "flags \<Rightarrow> flags" where
  "sigterm_handler f = f\<lparr>restart := False, stop := True\<rparr>"

definition sighup_handler :: "flags \<Rightarrow> flags" where
  "sighup_handler f = f\<lparr>restart := True, stop := True\<rparr>"

text \<open>\<open>link\<close> is where \<^verbatim>\<open>/proc/self/exe\<close> points to, at least ten characters.\<close>

definition get_progname :: "string option \<Rightarrow> string option \<Rightarrow> string option" where
  "get_progname link progname =
     (if progname \<noteq> None then progname
      else case link of
        None \<Rightarrow> None
      | Some p \<Rightarrow> let p = take 4095 p; n = length p
                in if n = 0 then None else Some (if drop (n - 10) p = '' (deleted)'' then take (n - 10) p else p))"

text \<open>The programs that \<^verbatim>\<open>daemon_stop\<close> tries to become.\<close>

definition daemon_stop :: "bool \<Rightarrow> flags \<Rightarrow> string option \<Rightarrow> string list" where
  "daemon_stop saved_argv f progname =
     (case progname of None \<Rightarrow> [] | Some p \<Rightarrow> if restart f \<and> saved_argv then [p, p] else [])"

datatype handler = Sigterm_handler | Sighup_handler | Reload_handler | Nop_handler | SIG_IGN | SIG_DFL

text \<open>The handlers \<^verbatim>\<open>daemon_start\<close> installs.  A program whose path is not known, or whose arguments could not be copied,
  cannot be started anew, and \<^verbatim>\<open>SIGHUP\<close> ends it.\<close>

definition daemon_start :: "string option \<Rightarrow> bool \<Rightarrow> (string \<times> handler) list" where
  "daemon_start progname saved_argv =
     [(''INT'', Sigterm_handler), (''TERM'', Sigterm_handler), (''QUIT'', Sigterm_handler),
      (''IO'', Nop_handler), (''ALRM'', Nop_handler),
      (''HUP'', if progname = None \<or> \<not> saved_argv then Sigterm_handler else Sighup_handler),
      (''USR1'', Reload_handler), (''PIPE'', SIG_IGN), (''XFSZ'', SIG_IGN), (''CHLD'', SIG_DFL)]"

text \<open>What a signal does to the flags; \<^verbatim>\<open>reload_handler\<close> calls \<^const>\<open>myconfig_reload\<close>.\<close>

definition on_signal :: "handler \<Rightarrow> flags \<Rightarrow> flags" where
  "on_signal h f = (case h of Sigterm_handler \<Rightarrow> sigterm_handler f | Sighup_handler \<Rightarrow> sighup_handler f | _ \<Rightarrow> f)"

text \<open>The connections, one for each descriptor below \<open>maxfds\<close>, all without data.\<close>

definition init_fdinfo :: "bool \<Rightarrow> config \<Rightarrow> int \<times> int \<times> config \<times> (int \<Rightarrow> 'u conn) option" where
  "init_fdinfo got st =
     (let (maxfds, st) = myconfig_get_intval ''maxfds'' 4096 st
      in if \<not> got then (- ENOMEM, maxfds, st, None)
         else (0, maxfds, st, Some (\<lambda>fd. \<lparr>c_fd = 0, send_buff = mybuff_init, recv_buff = mybuff_init, send_len = 0, user = None\<rparr>)))"

section \<open>The watch dog\<close>

record threadstat =
  ts_tid :: int
  tickcnt :: int
  badcnt :: int

record threadmap =
  mthreads :: nat
  nthreads :: nat
  stats :: "nat \<Rightarrow> threadstat"
  deadlock_count :: int

definition get_threadstat :: "nat \<Rightarrow> int \<Rightarrow> threadmap \<Rightarrow> nat option \<times> threadmap" where
  "get_threadstat thread_id tid m =
     (if thread_id \<ge> mthreads m then (None, m)
      else (Some thread_id, m\<lparr>nthreads := (if thread_id \<ge> nthreads m then thread_id + 1 else nthreads m),
              stats := (stats m)(thread_id := \<lparr>ts_tid = tid, tickcnt = 1, badcnt = 0\<rparr>)\<rparr>))"

text \<open>\<open>None\<close> is the null pointer that \<^verbatim>\<open>get_threadstat\<close> gives when there is no map.\<close>

definition thread_reached :: "nat option \<Rightarrow> threadmap \<Rightarrow> threadmap" where
  "thread_reached ts m =
     (case ts of None \<Rightarrow> m | Some i \<Rightarrow> m\<lparr>stats := (stats m)(i := (stats m i)\<lparr>tickcnt := tickcnt (stats m i) + 1\<rparr>)\<rparr>)"

definition init_threadmap :: "config \<Rightarrow> config \<times> threadmap" where
  "init_threadmap st =
     (let (d, st) = myconfig_get_intval ''deadlock_timeout'' 60 st
      in (st, \<lparr>mthreads = (16 * 1024 - 8) div 12, nthreads = 0, stats = (\<lambda>_. \<lparr>ts_tid = 0, tickcnt = 0, badcnt = 0\<rparr>),
               deadlock_count = (if d < 10 then 10 else d)\<rparr>))"

text \<open>One thread: the signals it gets, and its counters.\<close>

definition check_thread :: "int \<Rightarrow> threadstat \<Rightarrow> int list \<times> threadstat" where
  "check_thread dc t =
     (if ts_tid t = 0 then ([], t)
      else let cnt = tickcnt t; t = t\<lparr>tickcnt := tickcnt t - cnt\<rparr>
        in if cnt \<noteq> 0 then ([], t\<lparr>badcnt := 0\<rparr>)
           else if badcnt t \<ge> dc then ([ts_tid t, ts_tid t], t\<lparr>badcnt := badcnt t + 1\<rparr>)
           else ([], t\<lparr>badcnt := badcnt t + 1\<rparr>))"

definition check_threadmap :: "threadmap \<Rightarrow> int list \<times> threadmap" where
  "check_threadmap m =
     (concat (map (\<lambda>i. fst (check_thread (deadlock_count m) (stats m i))) [0..<nthreads m]),
      m\<lparr>stats := (\<lambda>i. if i < nthreads m then snd (check_thread (deadlock_count m) (stats m i)) else stats m i)\<rparr>)"

text \<open>
  \<^verbatim>\<open>start_watchdog\<close> in the child, which goes on as the program: its result, and the map when there is one.  \<open>aligned\<close> says whether
  the map can be shared, \<open>pid\<close> is the result of \<^verbatim>\<open>fork\<close>.  Then the loop of the parent, which watches: each \<^verbatim>\<open>wait\<close>
  gives a process, or -1 and whether there is none left, and the flag \<open>stop\<close> as it is then; the result is how often the
  program was told to end, and \<open>None\<close> while it runs.
\<close>

definition start_watchdog :: "bool \<Rightarrow> int \<Rightarrow> config \<Rightarrow> int \<times> config \<times> threadmap option" where
  "start_watchdog aligned pid st =
     (if \<not> aligned then (0, st, None)
      else let (st, m) = init_threadmap st; (off, st) = myconfig_get_intval ''disable_watchdog'' 0 st
        in (if off = 0 \<and> pid = -1 then -1 else 0, st, Some m))"

fun watchdog_loop :: "int \<Rightarrow> (int \<times> bool \<times> bool) list \<Rightarrow> nat \<Rightarrow> nat option" where
  "watchdog_loop pid [] terms = None"
| "watchdog_loop pid ((cpid, echild, stopped) # ws) terms =
     (if cpid = pid \<or> cpid = -1 \<and> echild then Some terms
      else watchdog_loop pid ws (if stopped then terms + 1 else terms))"

text \<open>What the watch dog becomes in the end: a program that exited is not started again.\<close>

definition watchdog_end :: "bool \<Rightarrow> bool \<Rightarrow> flags \<Rightarrow> string option \<Rightarrow> string list" where
  "watchdog_end exited saved_argv f progname = daemon_stop saved_argv (if exited then f\<lparr>restart := False\<rparr> else f) progname"

section \<open>Start\<close>

text \<open>\<^verbatim>\<open>init_glog\<close> and \<^verbatim>\<open>agent_log_init\<close>: a log with the settings of the configuration.  The result
  is the number of the log.\<close>

definition init_named_log :: "string \<Rightarrow> int \<Rightarrow> config \<times> logs \<Rightarrow> int \<times> config \<times> logs" where
  "init_named_log who now = (\<lambda>(st, l).
     let logname = (case myconfig_get_value (''log_'' @ who @ ''_logname'') st of None \<Rightarrow> ''./'' @ who @ ''_log.log'' | Some v \<Rightarrow> v);
         level = (case myconfig_get_value (''log_'' @ who @ ''_loglevel'') st of None \<Rightarrow> 2 | Some v \<Rightarrow> getloglevel v);
         (logsize, st) = myconfig_get_intval (''log_'' @ who @ ''_logsize'') 100 st;
         (logintval, st) = myconfig_get_intval (''log_'' @ who @ ''_logtime'') 3600 st;
         (lognum, st) = myconfig_get_intval (''log_'' @ who @ ''_lognum'') 10 st;
         (r, l) = registerlog now logname level logsize logintval lognum l
     in (r, st, l))"

definition init_glog :: "int \<Rightarrow> config \<times> logs \<Rightarrow> int \<times> config \<times> logs" where
  "init_glog = init_named_log ''main''"

definition agent_log_init :: "int \<Rightarrow> config \<times> logs \<Rightarrow> int \<times> config \<times> logs" where
  "agent_log_init now s = (case init_named_log ''agent'' now s of (r, s) \<Rightarrow> (if r < 0 then -1 else 0, s))"

definition parse_args :: "string list \<Rightarrow> int" where
  "parse_args argv = (if length argv > 1 \<and> map to_lower (take 2 (argv ! 1)) = ''-v'' then -1 else 0)"

definition gen_pidfile :: "int \<Rightarrow> int \<Rightarrow> string" where
  "gen_pidfile watchdog_pid main_pid = dec_int (if watchdog_pid \<noteq> 0 then watchdog_pid else main_pid) @ [LF]"

record t_thread_arg =
  ta_name :: string
  ta_port :: int
  ta_flag :: bool
  ta_maxevent :: int

datatype entry = Agent_thread | Service_thread t_thread_arg

text \<open>The two services of a role.\<close>

definition service_args :: "role \<Rightarrow> g_config \<Rightarrow> config \<Rightarrow> t_thread_arg \<times> t_thread_arg \<times> config" where
  "service_args r g st =
     (let (m, st) = myconfig_get_intval ''vfs_sig_maxevent'' 4096 st; (m1, st) = myconfig_get_intval ''vfs_data_maxevent'' 4096 st
      in (\<lparr>ta_name = ''./'' @ role_name r @ ''_client.so'', ta_port = (if r \<noteq> ROLE_FCS then int (sig_port g) else 0),
            ta_flag = r \<noteq> ROLE_FCS, ta_maxevent = m\<rparr>,
          \<lparr>ta_name = ''./'' @ role_name r @ ''_http.so'', ta_port = 0, ta_flag = False, ta_maxevent = m1\<rparr>, st))"

definition init_vfs_thread :: "bool \<Rightarrow> t_thread_arg \<Rightarrow> entry threads \<Rightarrow> int \<times> entry threads" where
  "init_vfs_thread ok arg = register_thread ok (ta_name arg) (Service_thread arg)"

definition init_vfs_agent :: "bool \<Rightarrow> entry threads \<Rightarrow> int \<times> entry threads" where
  "init_vfs_agent ok = register_thread ok ''vfs_agent'' Agent_thread"

text \<open>
  \<^verbatim>\<open>main\<close> from the call of \<^verbatim>\<open>init_log\<close> to that of \<^verbatim>\<open>start_threads\<close>: \<open>icalls\<close> are the results of the functions it calls in turn,
  \<open>self\<close> that of \<^verbatim>\<open>get_self_info\<close>.  The table of addresses knows no role but that of the two kinds of nodes, so
  the comparisons with the roles of other programs are left out.  \<open>None\<close>: the start fails.
\<close>

definition self_role_of :: "int \<times> t_ip_info option \<Rightarrow> role" where
  "self_role_of self = (if fst self \<noteq> 0 then ROLE_FCS else case snd self of None \<Rightarrow> UNKOWN | Some i \<Rightarrow> ip_role i)"

definition main_start ::
  "int list \<Rightarrow> bool list \<Rightarrow> int option list \<Rightarrow> int \<times> t_ip_info option \<Rightarrow> g_config \<Rightarrow> config \<Rightarrow> entry threads \<Rightarrow>
   (role \<times> config \<times> entry threads) option" where
  "main_start icalls oks created self g st ts =
     (if (\<exists>r\<in>set icalls. r < 0) \<or> self_role_of self = UNKOWN then None
      else let r = self_role_of self; (agent, ts) = init_vfs_agent (oks ! 0) ts
        in if agent < 0 then None
           else let (arg, arg1, st) = service_args r g st; (c, ts) = init_vfs_thread (oks ! 1) arg ts
             in if c \<noteq> 0 then None
                else let (h, ts) = init_vfs_thread (oks ! 2) arg1 ts
                  in if h \<noteq> 0 then None
                     else map_option (\<lambda>ts. (r, st, ts)) (start_threads created ts))"

section \<open>The loop of the main thread\<close>

text \<open>
  One round: delayed tasks, the watch dog, traffic control, which takes five seconds, and once an hour the tasks
  that are late.  \<open>lkd\<close>, \<open>lk\<close>, \<open>lkh\<close> are the outcomes of the locks, \<open>first\<close> and \<open>second\<close> what the network interface reports.
\<close>

record 'cb main_state =
  mn_delay :: "'cb delay_state"
  mn_map :: threadmap
  mn_tc :: tc
  mn_tq :: task_state
  mn_last :: int

definition main_round ::
  "int \<Rightarrow> (int \<Rightarrow> int) \<Rightarrow> int \<Rightarrow> int \<Rightarrow> int \<Rightarrow> string option \<Rightarrow> string option \<Rightarrow> g_config \<Rightarrow> nat option \<Rightarrow> 'cb main_state \<Rightarrow>
   ('cb \<times> string) list \<times> 'cb main_state" where
  "main_round lkd lk lkh now cur first second g thst m =
     (let (d, calls) = scan_delay_task lkd now (mn_delay m);
          m = m\<lparr>mn_delay := d, mn_map := thread_reached thst (mn_map m), mn_tc := check_tc first second (mn_tc m)\<rparr>
      in (calls, if cur - mn_last m > 3600
                 then m\<lparr>mn_last := cur, mn_tq := do_timeout_task lk lkh cur (t_g_config.truncate g) (mn_tq m)\<rparr> else m))"

text \<open>The end of \<^verbatim>\<open>main\<close>: all threads are stopped, and the result asks for a restart or not.\<close>

definition main_stop :: "flags \<Rightarrow> 'e threads \<Rightarrow> bool \<times> int list \<times> int list \<times> 'e threads" where
  "main_stop f ts = (restart f, stop_threads ts)"

end
