(* ===== verification/NodeInv.thy ===== *)
theory NodeInv
  imports DataInv HttpInv AgentProps SmReceive Process
begin

text \<open>
  A whole node: its two services, its agent and its main thread, which share the task queues and the files.  Every turn of
  the event loop of a service, every run of the agent, every round of the main thread with its search for late tasks, every command of the operator, every event of the file system is a step,
  whatever the kernel, the locks and \<^verbatim>\<open>malloc\<close> answer.  In all states that can be reached no task has two owners.
\<close>

section \<open>The agent\<close>

lemma owned_clean:
  assumes "owned s H" "x \<in> set (vfstask s i)"
  shows "owned (clean_task lkh x s) H"
  using owned_timeout [OF assms] clean_task_timeout [of x s lkh] queued_not_owned(2) [OF assms] by (simp add: unhashed_def)

lemma owned_collect:
  "owned (tq_of a) H \<Longrightarrow> distinct xs \<Longrightarrow> set xs \<subseteq> set (vfstask (tq_of a) i) \<Longrightarrow> i \<noteq> TASK_HOME \<Longrightarrow>
   owned (tq_of (fold (get_data_from_task e) xs a)) H"
proof (induction xs arbitrary: a)
  case (Cons x xs)
  let ?s = "clean_task (q_lock e TASK_HOME) x (tq_of a)"
  have t: "tq_of (get_data_from_task e x a) = ?s" by (simp add: get_data_from_task_def Let_def)
  have "owned ?s H" using Cons.prems(1,3) by (auto intro: owned_clean)
  moreover have "set xs \<subseteq> set (vfstask ?s i)"
    using Cons.prems(2-4) by (auto simp: clean_task_def Let_def vfs_set_task_def tq_ops)
  ultimately show ?case using Cons.IH [of "get_data_from_task e x a"] Cons.prems(2,4) by (simp add: t)
qed simp

lemma owned_do_run: "owned (tq_of a) H \<Longrightarrow> owned (tq_of (do_run e a)) H"
proof -
  have "owned (tq_of b) H \<Longrightarrow> owned (tq_of (scan_clean e b)) H" for b
    using owned_collect [OF _ queues_okD(1) [OF tq_invD(1)] order_refl, of b H TASK_CLEAN e] by (simp add: scan_clean_def owned_def)
  then have s: "owned (tq_of b) H \<Longrightarrow> owned (tq_of (snd (do_scan e False b))) H" for b
    by (simp add: do_scan_def Let_def split: prod.split)
  have d: "tq_of (dump_to_file e dir b) = tq_of b" for dir b
    by (simp add: dump_to_file_def Let_def split: prod.split)
  assume "owned (tq_of a) H"
  with s [of "a\<lparr>ag_send := fst (mybuff_reinit (ag_buff e) (ag_send a)), ag_recv := fst (mybuff_reinit (ag_buff e) (ag_recv a))\<rparr>"]
  show ?thesis by (simp add: do_run_def Let_def d split_beta)
qed

lemma owned_voss_sync: "owned s H \<Longrightarrow> owned (snd (do_voss_sync e fname s)) H"
proof -
  assume own: "owned s H"
  obtain r o' s' where g: "vfs_get_task (q_lock e TASK_HOME) (malloc_ok e) TASK_HOME s = (r, o', s')" by (metis prod_cases3)
  show ?thesis
  proof (cases o')
    case None
    with g get_none [of "q_lock e TASK_HOME" "malloc_ok e" TASK_HOME s r s'] own show ?thesis by (simp add: do_voss_sync_def)
  next
    case (Some x)
    note g' = g [unfolded Some]
    show ?thesis using owned_set_back [OF owned_get [OF own g']] by (simp add: do_voss_sync_def g' Let_def)
  qed
qed

lemma each_pair_inv:
  assumes "\<And>k v s s'. I s \<Longrightarrow> f k v s = Some s' \<Longrightarrow> I s'"
  shows "I s \<Longrightarrow> each_pair f ps s = Some s' \<Longrightarrow> I s'"
proof (induction ps arbitrary: s)
  case (Cons p ps)
  show ?case
  proof (cases "strcasecmp (sFirst p) ''vfs_cmd''")
    case False
    with Cons.prems(2) obtain t where t: "f (sFirst p) (sSecond p) s = Some t" "each_pair f ps t = Some s'"
      by (auto split: option.splits)
    show ?thesis by (rule Cons.IH [OF assms [OF Cons.prems(1) t(1)] t(2)])
  qed (use Cons in simp)
qed simp

lemma owned_sync_cmds:
  "owned s H \<Longrightarrow> voss_sync_file e ps s = Some (out, s') \<Longrightarrow> owned s' H"
  "owned s H \<Longrightarrow> voss_sync_dir e ps s = Some (out, s') \<Longrightarrow> owned s' H"
proof -
  assume own: "owned s H"
  have step: "owned s'' H" if "owned s H" "do_voss_sync e fname s = (ok, s'')" for s s'' fname ok
    using owned_voss_sync [OF that(1), of e fname] that(2) by simp
  show "voss_sync_file e ps s = Some (out, s') \<Longrightarrow> owned s' H"
    using own unfolding voss_sync_file_def
    by (auto split: if_splits dest!: each_pair_inv [where I = "\<lambda>(out, s). owned s H", rotated 2]
        simp: Let_def split: option.splits prod.splits intro: step)
  show "voss_sync_dir e ps s = Some (out, s') \<Longrightarrow> owned s' H"
    using own unfolding voss_sync_dir_def
    by (auto split: if_splits dest!: each_pair_inv [where I = "\<lambda>(out, s). owned s H", rotated 2]
        simp: Let_def split: option.splits prod.splits intro: step)
qed

lemma owned_request: "owned (m_tq m) H \<Longrightarrow> do_request e d m = Some (out, m') \<Longrightarrow> owned (m_tq m') H"
proof -
  assume own: "owned (m_tq m) H"
  have run: "owned (m_tq m1) H" if "run_cmd e ty data ps m = Some (o1, m1)" for ty data ps o1 m1
  proof -
    have conf: "m_tq m' = m_tq m" if "do_confupda ps m = Some m'" for m'
      using that by (auto simp: do_confupda_def split: option.splits prod.splits)
    consider "ty = 4" | "ty = 3" | "ty \<noteq> 4" "ty \<noteq> 3" by blast
    then show ?thesis
    proof cases
      case 1
      with that obtain o2 s where "voss_sync_file e ps (m_tq m) = Some (o2, s)" "m_tq m1 = s" by (auto simp: run_cmd_def)
      with owned_sync_cmds(1) [OF own] show ?thesis by blast
    next
      case 2
      with that obtain o2 s where "voss_sync_dir e ps (m_tq m) = Some (o2, s)" "m_tq m1 = s" by (auto simp: run_cmd_def)
      with owned_sync_cmds(2) [OF own] show ?thesis by blast
    next
      case 3
      with that have "m_tq m1 = m_tq m" by (auto simp: run_cmd_def conf split: if_splits)
      with own show ?thesis by simp
    qed
  qed
  have rep: "m_tq m2 = m_tq m1" if "reply o1 m1 = Some (o2, m2)" for o1 m1 o2 m2
    using that by (auto simp: reply_def split: if_splits prod.splits)
  assume "do_request e d m = Some (out, m')"
  then have "m' = m \<or> (\<exists>ty ps o1 m1. run_cmd e ty d ps m = Some (o1, m1) \<and> reply o1 m1 = Some (out, m'))"
    by (auto simp: do_request_def Let_def split: option.splits prod.splits if_splits)
  with own run rep show ?thesis by metis
qed

lemma owned_agent_check:
  "owned (tq_of a) H \<Longrightarrow> agent_check_req e a = Some (r, f, a') \<Longrightarrow> owned (tq_of a') H"
  by (auto simp: agent_check_req_def set_from_voss_def add_send_def split: prod.splits option.splits if_splits
      dest: owned_request)

section \<open>The main thread\<close>

lemma owned_timeouts:
  "owned s H \<Longrightarrow> distinct xs \<Longrightarrow> set xs \<subseteq> set (vfstask s i) \<Longrightarrow> i \<noteq> TASK_HOME \<Longrightarrow>
   owned (fold (check_task_timeout lkh cur c) xs s) H"
proof (induction xs arbitrary: s)
  case (Cons x xs)
  let ?s = "check_task_timeout lkh cur c x s"
  have "owned ?s H" using Cons.prems(1,3) by (auto intro: owned_timeout)
  moreover have "set xs \<subseteq> set (vfstask ?s i)"
    using Cons.prems(2-4) by (auto simp: check_task_timeout_def Let_def vfs_set_task_def tq_ops)
  ultimately show ?case using Cons.IH [of ?s] Cons.prems(2,4) by simp
qed simp

lemma owned_do_timeout: "owned s H \<Longrightarrow> owned (do_timeout_task lk lkh cur c s) H"
proof -
  have one: "owned s H \<Longrightarrow> i \<noteq> TASK_HOME \<Longrightarrow> owned (snd (scan_some_status_task (lk i) i (check_task_timeout lkh cur c) s)) H" for i s
    using owned_timeouts [OF _ queues_okD(1) [OF tq_invD(1)] order_refl, of s H i lkh cur c]
    by (simp add: scan_some_status_task_def owned_def)
  have "owned s H \<Longrightarrow> TASK_HOME \<notin> set xs \<Longrightarrow>
      owned (fold (\<lambda>i s. snd (scan_some_status_task (lk i) i (check_task_timeout lkh cur c) s)) xs s) H" for xs s
    by (induction xs arbitrary: s) (simp_all add: one)
  then show "owned s H \<Longrightarrow> owned (do_timeout_task lk lkh cur c s) H" by (simp add: do_timeout_task_def)
qed

lemma owned_main_round:
  "owned (mn_tq m) H \<Longrightarrow> main_round lkd lk lkh now cur first second g thst m = (calls, m') \<Longrightarrow> owned (mn_tq m') H"
  by (auto simp: main_round_def Let_def owned_do_timeout split: prod.splits if_splits)

section \<open>Nodes\<close>

record fleet_node =
  n_data :: sm_world
  n_http :: http_world
  n_agent :: agent

text \<open>After a step of one part the others see its queues and files.\<close>

definition share :: "task_state \<Rightarrow> fsys \<Rightarrow> fleet_node \<Rightarrow> fleet_node" where
  "share s fs n = n\<lparr>n_data := tq_upd (\<lambda>_. s) (fs_upd (\<lambda>_. fs) (n_data n)), n_http := tq_upd (\<lambda>_. s) (fs_upd (\<lambda>_. fs) (n_http n)),
     n_agent := upd_tq (\<lambda>_. s) ((n_agent n)\<lparr>ag_fs := fs\<rparr>)\<rparr>"

definition with_data :: "sm_world \<Rightarrow> fleet_node \<Rightarrow> fleet_node" where
  "with_data w n = share (g_tq (glob w)) (g_fs (glob w)) (n\<lparr>n_data := w\<rparr>)"

definition with_http :: "http_world \<Rightarrow> fleet_node \<Rightarrow> fleet_node" where
  "with_http w n = share (g_tq (glob w)) (g_fs (glob w)) (n\<lparr>n_http := w\<rparr>)"

definition with_agent :: "agent \<Rightarrow> fleet_node \<Rightarrow> fleet_node" where
  "with_agent a n = share (tq_of a) (ag_fs a) (n\<lparr>n_agent := a\<rparr>)"

inductive common_step :: "fleet_node \<Rightarrow> fleet_node \<Rightarrow> bool" where
  agent_run: "common_step n (with_agent (do_run e (n_agent n)) n)"
| agent_request: "agent_check_req e (n_agent n) = Some (r, f, a) \<Longrightarrow> common_step n (with_agent a n)"
| main_turn: "mn_tq (m :: unit main_state) = tq_of (n_agent n) \<Longrightarrow> main_round lkd lk lkh now cur first second g thst m = (calls, m') \<Longrightarrow>
    common_step n (with_agent (upd_tq (\<lambda>_. mn_tq m') (n_agent n)) n)"
| agent_input: "common_step n (with_agent ((n_agent n)\<lparr>ag_recv := b\<rparr>) n)"

inductive storage_step :: "fleet_node \<Rightarrow> fleet_node \<Rightarrow> bool" where
  sm_common: "common_step n n' \<Longrightarrow> storage_step n n'"
| sm_data: "loop_turn (sm_client_lib e is_cs to) l lfd ck evs now prev (n_data n, k) = (prev', w, k') \<Longrightarrow>
    storage_step n (with_data w n)"
| sm_collect: "loop_turn (sm_http_lib e sys) l lfd ck evs now prev (n_http n, k) = (prev', w, k') \<Longrightarrow>
    storage_step n (with_http w n)"

inductive upload_step :: "fleet_node \<Rightarrow> fleet_node \<Rightarrow> bool" where
  uc_common: "common_step n n' \<Longrightarrow> upload_step n n'"
| uc_data: "loop_turn (uc_client_lib e is_cs) l lfd ck evs now prev (n_data n, k) = (prev', w, k') \<Longrightarrow>
    upload_step n (with_data w n)"
| uc_ask: "loop_turn (uc_http_lib e last_check) l lfd ck evs now prev (n_http n, k) = (prev', w, k') \<Longrightarrow>
    upload_step n (with_http w n)"
| uc_event: "inotify_event_handler e readdir ev ws (n_data n) = (ws', w) \<Longrightarrow> upload_step n (with_data w n)"
| uc_walk: "upload_step n (with_data (do_sync_dir depth e readdir dir (n_data n)) n)"

definition fleet_inv :: "fleet_node \<Rightarrow> bool" where
  "fleet_inv n \<longleftrightarrow> data_inv (n_data n) \<and> http_inv (ran (claims (n_data n))) (n_http n) \<and>
     g_tq (glob (n_http n)) = g_tq (glob (n_data n)) \<and> tq_of (n_agent n) = g_tq (glob (n_data n))"

lemma fleet_share:
  assumes "fleet_inv n" "owned s (ran (claims (n_data n)))"
  shows "fleet_inv (share s fs n)"
proof -
  have "data_inv (tq_upd (\<lambda>_. s) (fs_upd (\<lambda>_. fs) (n_data n)))" using assms by (simp add: fleet_inv_def data_inv_def held_ok_def)
  moreover have "http_inv (ran (claims (n_data n))) (tq_upd (\<lambda>_. s) (fs_upd (\<lambda>_. fs) (n_http n)))"
    using assms by (simp add: fleet_inv_def http_inv_def tq_upd_def fs_upd_def)
  ultimately show ?thesis by (simp add: fleet_inv_def share_def)
qed

lemma fleet_data: "fleet_inv n \<Longrightarrow> data_inv w \<Longrightarrow> fleet_inv (with_data w n)"
proof -
  assume n: "fleet_inv n" and w: "data_inv w"
  let ?s = "g_tq (glob w)" and ?fs = "g_fs (glob w)"
  have "owned ?s (ran (claims w))" using w by (simp add: data_inv_def held_ok_def)
  then have "http_inv (ran (claims w)) (tq_upd (\<lambda>_. ?s) (fs_upd (\<lambda>_. ?fs) (n_http n)))"
    using n by (simp add: fleet_inv_def http_inv_def tq_upd_def fs_upd_def)
  moreover have "data_inv (tq_upd (\<lambda>_. ?s) (fs_upd (\<lambda>_. ?fs) w))" using w by (simp add: data_inv_def)
  ultimately show ?thesis by (simp add: with_data_def share_def fleet_inv_def)
qed

lemma fleet_http: "fleet_inv n \<Longrightarrow> http_inv (ran (claims (n_data n))) w \<Longrightarrow> fleet_inv (with_http w n)"
proof -
  assume n: "fleet_inv n" and w: "http_inv (ran (claims (n_data n))) w"
  let ?s = "g_tq (glob w)" and ?fs = "g_fs (glob w)"
  have "data_inv (tq_upd (\<lambda>_. ?s) (fs_upd (\<lambda>_. ?fs) (n_data n)))"
    using n w by (simp add: fleet_inv_def data_inv_def held_ok_def http_inv_def)
  moreover have "http_inv (ran (claims (n_data n))) (tq_upd (\<lambda>_. ?s) (fs_upd (\<lambda>_. ?fs) w))"
    using w by (simp add: http_inv_def tq_upd_def fs_upd_def)
  ultimately show ?thesis by (simp add: with_http_def share_def fleet_inv_def)
qed

lemma fleet_agent: "fleet_inv n \<Longrightarrow> owned (tq_of a) (ran (claims (n_data n))) \<Longrightarrow> fleet_inv (with_agent a n)"
  using fleet_share [of n "tq_of a" "ag_fs a"] by (simp add: with_agent_def share_def fleet_inv_def)

lemma fleet_agent_owned: "fleet_inv n \<Longrightarrow> owned (tq_of (n_agent n)) (ran (claims (n_data n)))"
  by (simp add: fleet_inv_def data_inv_def held_ok_def)

lemma common_step_inv: "common_step n n' \<Longrightarrow> fleet_inv n \<Longrightarrow> fleet_inv n'"
proof (induction rule: common_step.induct)
  case (agent_request e n r f a)
  then show ?case by (intro fleet_agent owned_agent_check [OF fleet_agent_owned])
next
  case (main_turn m n lkd lk lkh now cur first second g thst calls m')
  then show ?case using owned_main_round [of m] fleet_agent_owned [of n] by (intro fleet_agent) simp_all
qed (auto intro!: fleet_agent owned_do_run dest: fleet_agent_owned)

lemma turn_result: "loop_turn lib l lfd ck evs now prev s = (prev', w, k) \<Longrightarrow> fst (snd (loop_turn lib l lfd ck evs now prev s)) = w"
  by simp

lemma storage_step_inv: "storage_step n n' \<Longrightarrow> fleet_inv n \<Longrightarrow> fleet_inv n'"
proof (induction rule: storage_step.induct)
  case (sm_common n n')
  then show ?case by (simp add: common_step_inv)
next
  case (sm_data e is_cs to l lfd ck evs now prev n k prev' w k')
  then have "data_inv w" using sm_client.turn [of "(n_data n, k)" e is_cs to l lfd ck evs now prev] by (simp add: fleet_inv_def)
  with sm_data.prems show ?case by (rule fleet_data)
next
  case (sm_collect e sys l lfd ck evs now prev n k prev' w k')
  then have "http_inv (ran (claims (n_data n))) w"
    using sm_http.turn [of "ran (claims (n_data n))" "(n_http n, k)" e sys l lfd ck evs now prev] by (simp add: fleet_inv_def)
  with sm_collect.prems show ?case by (rule fleet_http)
qed

lemma upload_step_inv: "upload_step n n' \<Longrightarrow> fleet_inv n \<Longrightarrow> fleet_inv n'"
proof (induction rule: upload_step.induct)
  case (uc_common n n')
  then show ?case by (simp add: common_step_inv)
next
  case (uc_data e is_cs l lfd ck evs now prev n k prev' w k')
  then have "data_inv w" using uc_client.turn [of "(n_data n, k)" e is_cs l lfd ck evs now prev] by (simp add: fleet_inv_def)
  with uc_data.prems show ?case by (rule fleet_data)
next
  case (uc_ask e last_check l lfd ck evs now prev n k prev' w k')
  then have "http_inv (ran (claims (n_data n))) w"
    using uc_http.turn [of "ran (claims (n_data n))" "(n_http n, k)" e last_check l lfd ck evs now prev] by (simp add: fleet_inv_def)
  with uc_ask.prems show ?case by (rule fleet_http)
next
  case (uc_event e readdir ev ws n ws' w)
  then have "data_inv w" using data_inotify [of "n_data n" e readdir ev ws] by (simp add: fleet_inv_def)
  with uc_event.prems show ?case by (rule fleet_data)
next
  case (uc_walk n depth e readdir dir)
  then show ?case by (intro fleet_data data_sync) (simp_all add: fleet_inv_def)
qed

section \<open>All reachable states\<close>

text \<open>A node of either role.\<close>

definition fleet_step :: "fleet_node \<Rightarrow> fleet_node \<Rightarrow> bool" where
  "fleet_step n n' \<longleftrightarrow> storage_step n n' \<or> upload_step n n'"

inductive fleet_reach :: "fleet_node \<Rightarrow> fleet_node \<Rightarrow> bool" for start where
  reach_start: "fleet_reach start start"
| reach_step: "fleet_reach start n \<Longrightarrow> fleet_step n n' \<Longrightarrow> fleet_reach start n'"

text \<open>After \<^verbatim>\<open>init_task_info\<close>, before any connection.\<close>

definition fleet_start :: "fleet_node \<Rightarrow> bool" where
  "fleet_start n \<longleftrightarrow> (\<exists>s fs m. n = share (init_queues s) fs m \<and>
     (\<forall>fd. user (conns (n_data m) fd) = None) \<and> activelist (glob (n_data m)) = [] \<and> (\<forall>i. online_list (glob (n_data m)) i = []) \<and>
     activelist (glob (n_http m)) = [])"

lemma fleet_start_inv: "fleet_start n \<Longrightarrow> fleet_inv n"
proof -
  assume "fleet_start n"
  then obtain s fs m where n: "n = share (init_queues s) fs m" and m: "\<forall>fd. user (conns (n_data m) fd) = None"
    "activelist (glob (n_data m)) = []" "\<forall>i. online_list (glob (n_data m)) i = []" "activelist (glob (n_http m)) = []"
    unfolding fleet_start_def by blast
  have c: "claims (n_data m) = Map.empty" using m(1) by (auto simp: claims_def peer_of_def new_peer_def)
  have l: "lists_ok (n_data m)" using m by (simp add: lists_ok_def peer_of_def new_peer_def)
  have "data_inv (tq_upd (\<lambda>_. init_queues s) (fs_upd (\<lambda>_. fs) (n_data m)))"
    using owned_init l by (simp add: data_inv_def held_ok_def c)
  moreover have "http_inv {} (tq_upd (\<lambda>_. init_queues s) (fs_upd (\<lambda>_. fs) (n_http m)))"
    using owned_init m(4) by (simp add: http_inv_def tq_upd_def fs_upd_def)
  ultimately show ?thesis by (simp add: n fleet_inv_def share_def c)
qed

lemma fleet_reach_inv: "fleet_reach start n \<Longrightarrow> fleet_start start \<Longrightarrow> fleet_inv n"
  by (induction rule: fleet_reach.induct) (auto simp: fleet_step_def fleet_start_inv storage_step_inv upload_step_inv)


definition start_node :: fleet_node where
  "start_node = share (init_queues one_clean) \<lparr>files = Map.empty, dirs = {}\<rparr>
     \<lparr>n_data = fresh_world, n_http = fresh_world, n_agent = agent0 one_clean []\<rparr>"


end
