(* ===== verification/Acl.thy ===== *)
theory Acl
  imports TextUtils Framing
begin

text \<open>
  The checks and text routines for web requests, \<^verbatim>\<open>src/lib/acl.c\<close>: the check of a referring page, of a path, of a
  text against a pattern with the wildcards \<open>*\<close> and \<open>?\<close>, and the decoding of addresses.  Texts that the code cuts in
  place are given as the pieces.  A result \<open>None\<close> of a function that returns a number in C says that the code reads
  behind the end of a text.
\<close>

section \<open>The referring page\<close>

text \<open>\<^verbatim>\<open>strcasestr\<close>; and the copy of the characters \<open>a\<close> to \<open>p\<close> into a key of 128 bytes.\<close>

definition strcasestr :: "string \<Rightarrow> string \<Rightarrow> nat option" where
  "strcasestr s key = strstr (map to_lower s) (map to_lower key)"

definition ref_key :: "string \<Rightarrow> nat \<Rightarrow> nat \<Rightarrow> string" where
  "ref_key ref a p = take (min 127 (p + 1 - a)) (drop a ref)"

text \<open>\<^verbatim>\<open>q && (q == referer_list || q[-1] == ' ')\<close>: only the first occurrence is looked at.\<close>

definition at_word :: "string \<Rightarrow> string \<Rightarrow> bool" where
  "at_word referer_list key =
     (case strcasestr referer_list key of None \<Rightarrow> False | Some q \<Rightarrow> q = 0 \<or> referer_list ! (q - 1) = SPACE)"

definition dots :: "string \<Rightarrow> nat list" where
  "dots host = filter (\<lambda>i. host ! i = CHR ''.'') [0..<length host]"

text \<open>
  \<open>dp\<close> are the positions of the dots, without one at the end, and \<open>p\<close> that of the last character.
\<close>

definition check_domain :: "string \<Rightarrow> nat list \<Rightarrow> nat \<Rightarrow> string \<Rightarrow> int" where
  "check_domain ref dp p referer_list =
     (let n = length dp; from_dot = (\<lambda>k. ref_key ref (dp ! (n - k) + 1) p); whole = ref_key ref 0 p
      in if n < 1 then -1
         else if p - dp ! (n - 1) = 3
         then if at_word referer_list (if n \<ge> 2 then from_dot 2 else whole) then 0
              else if n \<ge> 2 \<and> at_word referer_list (if n = 2 then whole else from_dot 3) then 0
              else -1
         else if p - dp ! (n - 1) = 2
         then if strcasestr referer_list (if n \<le> 2 then whole else from_dot 3) \<noteq> None then 0
              else if n \<ge> 2 \<and> at_word referer_list (from_dot 2) then 0
              else -1
         else -1)"

definition check_referer :: "string option \<Rightarrow> string \<Rightarrow> bool \<Rightarrow> int" where
  "check_referer referer referer_list allow_null_referer =
     (case (case referer of None \<Rightarrow> None | Some r \<Rightarrow> map_option (\<lambda>k. drop (Suc k) r) (strchr r (CHR '':''))) of
        None \<Rightarrow> if allow_null_referer then 0 else -1
      | Some ref \<Rightarrow>
          let ref = dropWhile (\<lambda>c. c = CHR ''/'') ref;
              host = takeWhile (\<lambda>c. c \<noteq> CHR ''/'' \<and> c \<noteq> CHR '':'') ref;
              dp = dots host
          in if length dp \<ge> 10 then -1
             else check_domain ref (if host \<noteq> [] \<and> last host = CHR ''.'' then butlast dp else dp) (length host - 1) referer_list)"

section \<open>The path\<close>

text \<open>
  \<^verbatim>\<open>check_path\<close>: \<open>dirs\<close> counts the names and \<open>udirs\<close> the steps up.  A slash at the end makes the code step over
  the end of the text.
\<close>

function check_path_loop :: "string \<Rightarrow> uint16 \<Rightarrow> uint16 \<Rightarrow> bool option" where
  "check_path_loop str dirs udirs =
     (if str = [] \<or> \<not> (udirs = 0 \<or> udirs < dirs) then Some (udirs < dirs)
      else if hd str = CHR ''/''
      then let str = dropWhile (\<lambda>c. c = CHR ''/'') str
           in if starts_with ''../'' str then check_path_loop (drop 3 str) dirs (udirs + 1)
              else if starts_with ''./'' str then check_path_loop (drop 2 str) dirs udirs
              else if str = [] then None
              else check_path_loop (tl str) (dirs + 1) udirs
      else check_path_loop (tl str) dirs udirs)"
  by pat_completeness auto
termination
proof (relation "measure (\<lambda>(str, d, u). length str)", goal_cases)
  case (2 str d u x)
  then show ?case using length_dropWhile_le [of "\<lambda>c. c = CHR ''/''" str] by (cases str) (auto simp: less_Suc_eq_le)
next
  case (3 str d u x)
  then show ?case using length_dropWhile_le [of "\<lambda>c. c = CHR ''/''" str] by (cases str) (auto simp: less_Suc_eq_le)
next
  case (4 str d u x)
  then show ?case using length_dropWhile_le [of "\<lambda>c. c = CHR ''/''" str] by (cases str) (auto simp: less_Suc_eq_le)
qed auto

declare check_path_loop.simps [simp del]

definition check_path :: "string \<Rightarrow> bool option" where
  "check_path path = (if take 1 path \<noteq> ''/'' then Some False else check_path_loop path 0 0)"

text \<open>\<^verbatim>\<open>partnership\<close>: the character behind the suffix is looked for at a distance of the whole text.\<close>

definition partnership :: "string \<Rightarrow> string \<Rightarrow> string \<Rightarrow> string \<Rightarrow> int option" where
  "partnership currval pre suf pattern =
     (if \<not> (pre = [] \<or> take (length currval) pre = currval) then Some 0
      else case (if suf = [] then Some True
                 else case strstr currval suf of None \<Rightarrow> Some False | Some k \<Rightarrow> if k = 0 then Some True else None) of
        None \<Rightarrow> None
      | Some ok \<Rightarrow> Some (if ok \<and> (pattern = [] \<or> strstr currval pattern \<noteq> None) then 1 else 0))"

section \<open>Patterns\<close>

text \<open>\<^verbatim>\<open>splitstr\<close>: at most \<open>n\<close> pieces.\<close>

fun splitstr :: "nat \<Rightarrow> string \<Rightarrow> string \<Rightarrow> string list" where
  "splitstr 0 str pstr = []"
| "splitstr (Suc n) str pstr =
     (case strstr str pstr of
        None \<Rightarrow> [str]
      | Some k \<Rightarrow> take k str # splitstr n (drop (k + length pstr) str) pstr)"

text \<open>\<open>m_flag\<close>: 0 for the start of the pattern, 1 behind a star, 2 behind a question mark.\<close>

record matchitem =
  m_val :: string
  m_flag :: nat

definition MAX_VALS :: nat where "MAX_VALS = 1024"

definition getmatch :: "bool \<Rightarrow> string \<Rightarrow> matchitem list" where
  "getmatch malloc_ok str =
     (if \<not> malloc_ok then []
      else concat (map (\<lambda>(i, v). map (\<lambda>(m, w). \<lparr>m_val = w, m_flag = (if m > 0 then 2 else if i = 0 then 0 else 1)\<rparr>)
             (enumerate 0 (splitstr MAX_VALS v ''?''))) (enumerate 0 (splitstr MAX_VALS str ''*''))))"

text \<open>
  \<^verbatim>\<open>strmatch\<close>; \<open>star_loop\<close> is the loop over the occurrences behind a star.  It yields \<open>Inl\<close> the result of the
  function, or \<open>Inr\<close> when the text is used up: then the next item is taken and the text is where it was.
\<close>

function strmatch :: "matchitem list \<Rightarrow> string \<Rightarrow> bool option"
  and star_loop :: "string \<Rightarrow> matchitem list \<Rightarrow> string \<Rightarrow> bool option + unit" where
  "strmatch [] pmstr = Some (pmstr = [])"
| "strmatch (it # items) pmstr =
     (if m_flag it = 0
      then if m_val it = [] \<and> items = [] then Some True
           else if starts_with (m_val it) pmstr then strmatch items (drop (length (m_val it)) pmstr)
           else Some False
      else if m_flag it = 1
      then (case star_loop (m_val it) items pmstr of Inl r \<Rightarrow> r | Inr _ \<Rightarrow> strmatch items pmstr)
      else if m_flag it = 2
      then if pmstr = [] then None
           else if starts_with (m_val it) (tl pmstr) then strmatch items (drop (length (m_val it)) (tl pmstr))
           else Some False
      else strmatch items pmstr)"
| "star_loop v items str =
     (if str = [] then Inr ()
      else case strstr str v of
        None \<Rightarrow> Inl (Some False)
      | Some k \<Rightarrow>
          if v = [] \<and> items = [] then Inl (Some True)
          else case strmatch items (drop (k + length v) str) of
            None \<Rightarrow> Inl None
          | Some True \<Rightarrow> Inl (Some True)
          | Some False \<Rightarrow> star_loop v items (drop (Suc k) str))"
  by pat_completeness auto
termination
  by (relation "measures [\<lambda>x. case x of Inl (items, s) \<Rightarrow> 2 * length items | Inr (v, items, s) \<Rightarrow> 2 * length items + 1,
      \<lambda>x. case x of Inl (items, s) \<Rightarrow> length s | Inr (v, items, s) \<Rightarrow> length s]") auto

declare star_loop.simps [simp del]

section \<open>Texts\<close>

definition strtrim :: "string \<Rightarrow> string" where
  "strtrim s = rtrim (\<lambda>c. c = SPACE) (dropWhile (\<lambda>c. c = SPACE) s)"

text \<open>\<^verbatim>\<open>strpcpy\<close> returns where the zero stands.\<close>

definition strpcpy :: "string \<Rightarrow> nat \<Rightarrow> string \<Rightarrow> nat \<times> string" where
  "strpcpy buf dest src = (dest + length src, write_at buf dest (src @ [NUL]))"

text \<open>\<^verbatim>\<open>strtok_r\<close> of the library: a token, if there is one, and the rest.\<close>

definition strtok :: "string \<Rightarrow> string \<Rightarrow> string option \<times> string" where
  "strtok s delims =
     (let s = dropWhile (\<lambda>c. c \<in> set delims) s; t = takeWhile (\<lambda>c. c \<notin> set delims) s
      in if s = [] then (None, []) else (Some t, drop (Suc (length t)) s))"

text \<open>\<^verbatim>\<open>getval\<close>: the entries it writes, the last of which is \<open>None\<close> when the text is used up.\<close>

fun getval :: "nat \<Rightarrow> string \<Rightarrow> string \<Rightarrow> string option \<Rightarrow> string option list" where
  "getval 0 str pstr stop = []"
| "getval (Suc n) str pstr stop =
     (case strtok str pstr of
        (None, rest) \<Rightarrow> [None]
      | (Some t, rest) \<Rightarrow>
          if stop = Some (strtrim t) then [Some (strtrim t)] else Some (strtrim t) # getval n rest pstr stop)"

text \<open>\<^verbatim>\<open>getvalue\<close> for a length that is at most that of the name it looks for.\<close>

fun getvalue :: "string option list \<Rightarrow> string \<Rightarrow> nat \<Rightarrow> string option" where
  "getvalue [] str len = None"
| "getvalue (None # vals) str len = None"
| "getvalue (Some v # vals) str len =
     (if map to_lower (take len v) = map to_lower (take len str) then Some (drop len v) else getvalue vals str len)"

section \<open>Addresses\<close>

text \<open>\<^verbatim>\<open>decodeurlstring\<close> and \<^verbatim>\<open>decode_url\<close>.\<close>

definition decodeurlstring :: "(string \<times> string) list" where
  "decodeurlstring = [(''20'', '' ''), (''21'', ''!'')]"

function decode_url :: "string \<Rightarrow> string" where
  "decode_url [] = []"
| "decode_url (c # url) =
     (if c = CHR ''%''
      then case find (\<lambda>(code, _). starts_with code url) decodeurlstring of
             Some (code, text) \<Rightarrow> text @ decode_url (drop (length code) url)
           | None \<Rightarrow> c # decode_url url
      else c # decode_url url)"
  by pat_completeness auto
termination by (relation "measure length") auto

definition isxdigit :: "char \<Rightarrow> bool" where
  "isxdigit c \<longleftrightarrow> isdigit c \<or> (let n = (of_char (to_lower c) :: nat) in 97 \<le> n \<and> n \<le> 102)"

definition xdigit :: "char \<Rightarrow> nat" where
  "xdigit c = (if isdigit c then of_char c - 48 else of_char (to_lower c) - 97 + 10)"

text \<open>One character of the address, a percent sign with two hexadecimal digits being one: the character and the
  rest.\<close>

fun next_char :: "string \<Rightarrow> char \<times> string" where
  "next_char (c # a # b # url) =
     (if c = CHR ''%'' \<and> isxdigit a \<and> isxdigit b then (char_of (xdigit a * 16 + xdigit b), url) else (c, a # b # url))"
| "next_char (c # url) = (c, url)"
| "next_char [] = (NUL, [])"

text \<open>
  The pointer \<open>p\<close> moves in the buffer: \<open>back_to_slash\<close> is \<^verbatim>\<open>while (*--p != '/')\<close>, which the slash at the start
  ends, and \<open>slash\<close> is what happens before a slash is written.
\<close>

fun back_to_slash :: "string \<Rightarrow> nat \<Rightarrow> nat" where
  "back_to_slash buf 0 = 0"
| "back_to_slash buf (Suc p) = (if buf ! p = CHR ''/'' then p else back_to_slash buf p)"

definition slash :: "string \<Rightarrow> nat \<Rightarrow> nat" where
  "slash buf p =
     (if buf ! (p - 1) = CHR ''/'' then p - 1
      else if buf ! (p - 1) = CHR ''.''
      then if buf ! (p - 2) = CHR ''/'' then p - 2
           else if buf ! (p - 2) = CHR ''.'' \<and> buf ! (p - 3) = CHR ''/''
           then if p - 3 > 0 then back_to_slash buf (p - 3) else 0
           else p
      else p)"

function url_loop :: "nat \<Rightarrow> string \<Rightarrow> nat \<Rightarrow> string \<Rightarrow> nat \<times> string" where
  "url_loop len url p buf =
     (if p < len \<and> url \<noteq> []
      then let (ch, url) = next_char url; p = (if ch = CHR ''/'' then slash buf p else p)
           in url_loop len url (p + 1) (buf[p := ch])
      else (p, buf))"
  by pat_completeness auto
termination
proof (relation "measure (\<lambda>(len, url, p, buf). length url)", goal_cases)
  case (2 len url p buf x ch url' p')
  then show ?case by (cases url rule: next_char.cases) (auto split: if_splits)
qed simp

declare url_loop.simps [simp del]

text \<open>The end of the path: a last name of one or two dots.\<close>

definition decode_end :: "nat \<Rightarrow> string \<Rightarrow> nat" where
  "decode_end p buf =
     (if buf ! (p - 1) = CHR ''.''
      then if buf ! (p - 2) = CHR ''/'' then p - 1
           else if buf ! (p - 2) = CHR ''.'' \<and> buf ! (p - 3) = CHR ''/''
           then (if p - 3 > 0 then back_to_slash buf (p - 3) else 0) + 1
           else p
      else p)"

text \<open>\<^verbatim>\<open>decodeurl\<close> changes the caller's buffer and keeps the length of the path to itself; \<open>decoded\<close> gives both.\<close>

definition decoded :: "string \<Rightarrow> string \<Rightarrow> nat \<Rightarrow> nat \<times> string" where
  "decoded url filename len =
     (case url_loop len url 1 (filename[0 := CHR ''/'']) of (p, buf) \<Rightarrow> (decode_end p buf, buf))"

definition decodeurl :: "string \<Rightarrow> string \<Rightarrow> nat \<Rightarrow> string" where
  "decodeurl url filename len = snd (decoded url filename len)"

end
