(* ===== verification/AclProps.thy ===== *)
theory AclProps
  imports Acl
begin

text \<open>
  What \<^verbatim>\<open>decodeurl\<close> computes: the names of the decoded address are walked through from the root, and the path
  that is reached is written out.
\<close>

section \<open>The meaning of a path\<close>

lemma next_char_shorter: "url \<noteq> [] \<Longrightarrow> length (snd (next_char url)) < length url"
  by (cases url rule: next_char.cases) auto

function pct :: "string \<Rightarrow> string" where
  "pct url = (if url = [] then [] else case next_char url of (c, rest) \<Rightarrow> c # pct rest)"
  by pat_completeness auto

termination
proof (relation "measure length", goal_cases)
  case (2 url x y)
  then show ?case using next_char_shorter [of url] by (metis in_measure snd_conv)
qed simp

declare pct.simps [simp del]

fun names :: "string \<Rightarrow> string list" where
  "names [] = [[]]"
| "names (c # t) = (if c = CHR ''/'' then [] # names t else (c # hd (names t)) # tl (names t))"

definition walk :: "string \<Rightarrow> string list \<Rightarrow> string list" where
  "walk s st = (if s \<in> {[], ''.''} then st else if s = ''..'' then butlast st else st @ [s])"

definition written :: "string list \<Rightarrow> string \<Rightarrow> string" where
  "written st cur = ''/'' @ concat (map (\<lambda>s. s @ ''/'') st) @ cur"

text \<open>The directories on the way and the last name, which stays when it is a name of its own.\<close>

definition resolve :: "string \<Rightarrow> string list \<times> string" where
  "resolve t = (let st = fold walk (butlast (names t)) []; l = last (names t)
     in if l \<in> {[], ''.'', ''..''} then (walk l st, []) else (st, l))"

lemma names_not_Nil [simp]: "names t \<noteq> []"
  by (cases t) auto

lemma names_Cons: "hd (names t) # tl (names t) = names t"
  by simp

text \<open>The walk one character at a time.\<close>

definition char_step :: "char \<Rightarrow> string list \<times> string \<Rightarrow> string list \<times> string" where
  "char_step c = (\<lambda>(st, cur). if c = CHR ''/'' then (walk cur st, []) else (st, cur @ [c]))"

lemma char_steps:
  "fold char_step t (st, cur) = (let ns = (cur @ hd (names t)) # tl (names t) in (fold walk (butlast ns) st, last ns))"
proof (induction t arbitrary: st cur)
  case (Cons c t)
  obtain n ns where "names t = n # ns" by (cases "names t") auto
  then show ?case using Cons.IH by (simp add: char_step_def Let_def)
qed simp

definition path_ok :: "string list \<times> string \<Rightarrow> bool" where
  "path_ok = (\<lambda>(st, cur). (\<forall>s\<in>set st. CHR ''/'' \<notin> set s \<and> s \<notin> {[], ''.'', ''..''}) \<and> CHR ''/'' \<notin> set cur)"

lemma path_ok_step: "path_ok s \<Longrightarrow> path_ok (char_step c s)"
  by (auto simp: path_ok_def char_step_def walk_def split: prod.splits dest: in_set_butlastD)

section \<open>The pointer in the buffer\<close>

lemma back_to_slash_found:
  "take q buf = a @ CHR ''/'' # s \<Longrightarrow> q = length a + Suc (length s) \<Longrightarrow> q \<le> length buf \<Longrightarrow> CHR ''/'' \<notin> set s \<Longrightarrow>
   back_to_slash buf q = length a"
proof (induction s arbitrary: q rule: rev_induct)
  case Nil
  then have "take q buf ! length a = CHR ''/''" by simp
  then have "buf ! length a = CHR ''/''" using Nil.prems(2) by simp
  with Nil.prems(2) show ?case by simp
next
  case (snoc x s)
  then have q: "q = Suc (length a + Suc (length s))" by simp
  have "take (Suc (length a + Suc (length s))) buf = (a @ CHR ''/'' # s) @ [x]" using snoc.prems(1) q by simp
  moreover have "length a + Suc (length s) < length buf" using snoc.prems(3) q by simp
  ultimately have t: "take (length a + Suc (length s)) buf = a @ CHR ''/'' # s" "buf ! (length a + Suc (length s)) = x"
    by (simp_all add: take_Suc_conv_app_nth)
  with snoc.IH [OF t(1) refl] snoc.prems(3,4) q show ?case by auto
qed

lemma take_last:
  assumes "take p buf = xs @ [c]" "p \<le> length buf"
  shows "buf ! (p - 1) = c"
proof -
  have "p = Suc (length xs)" using arg_cong [OF assms(1), of length] assms(2) by simp
  then show ?thesis using arg_cong [OF assms(1), of "\<lambda>s. s ! length xs"] by simp
qed


lemma concat_snoc_slash: "concat (map (\<lambda>s. s @ ''/'') (st @ [l])) = concat (map (\<lambda>s. s @ ''/'') st) @ l @ ''/''"
  by simp

lemma written_dir: "written st [] = butlast (written st []) @ ''/''"
  by (cases st rule: rev_cases) (simp_all add: written_def butlast_append)

text \<open>Stepping up: from behind \<open>..\<close> to the slash in front of the name that is left.\<close>

lemma up_found:
  assumes "take p buf = written st ''..''" "p = length (written st ''..'')" "p \<le> length buf" "path_ok (st, [])"
  shows "(if p - 3 > 0 then back_to_slash buf (p - 3) else 0) = length (written (butlast st) []) - 1"
proof (cases st rule: rev_cases)
  case Nil
  with assms(2) show ?thesis by (simp add: written_def)
next
  case (snoc st' l)
  let ?a = "butlast (written st' [])"
  have w: "written st ''..'' = (?a @ CHR ''/'' # l) @ ''/..''"
    using written_dir [of st'] by (simp add: snoc written_def butlast_append split: if_splits)
  then have q: "p - 3 = length ?a + Suc (length l)" using assms(2) by simp
  have "take (p - 3) (take p buf) = ?a @ CHR ''/'' # l" unfolding assms(1) w q by simp
  then have "take (p - 3) buf = ?a @ CHR ''/'' # l" by (simp add: min_def split: if_splits)
  moreover have "CHR ''/'' \<notin> set l" using assms(4) snoc by (simp add: path_ok_def)
  moreover have "p - 3 \<le> length buf" using assms(3) by simp
  ultimately have "back_to_slash buf (p - 3) = length ?a"
    by (intro back_to_slash_found [OF _ q])
  then show ?thesis using q snoc by simp
qed

text \<open>The three tests on the characters in front of the pointer tell the last name apart.\<close>

lemma last_chars:
  assumes "take p buf = written st cur" "p = length (written st cur)" "p \<le> length buf" "CHR ''/'' \<notin> set cur"
  shows "buf ! (p - 1) = CHR ''/'' \<longleftrightarrow> cur = []"
    "buf ! (p - 1) = CHR ''.'' \<and> buf ! (p - 2) = CHR ''/'' \<longleftrightarrow> cur = ''.''"
    "buf ! (p - 1) = CHR ''.'' \<and> buf ! (p - 2) = CHR ''.'' \<and> buf ! (p - 3) = CHR ''/'' \<longleftrightarrow> cur = ''..''"
proof -
  have nth: "buf ! (p - k) = (rev cur @ rev (written st [])) ! (k - 1)" if "0 < k" "k \<le> p" for k
  proof -
    have "buf ! (p - k) = written st cur ! (p - k)" using assms(1) that by (metis diff_less less_le_trans nth_take zero_less_iff_neq_zero not_le)
    also have "\<dots> = rev (written st cur) ! (k - 1)" using that assms(2) by (simp add: rev_nth)
    also have "rev (written st cur) = rev cur @ rev (written st [])" by (simp add: written_def)
    finally show ?thesis .
  qed
  obtain w where w: "rev (written st []) = CHR ''/'' # w" using written_dir [of st] by (metis rev.simps(2) rev_rev_ident append_Nil rev_append rev_singleton_conv append_Cons)
  have "Suc (length cur) \<le> p" using assms(2) by (simp add: written_def)
  then have p: "1 \<le> p" "cur \<noteq> [] \<Longrightarrow> 2 \<le> p" "2 \<le> length cur \<Longrightarrow> 3 \<le> p"
    by (simp_all add: Suc_le_eq) (cases cur, auto)
  have sl: "c \<in> set (rev cur) \<Longrightarrow> c \<noteq> CHR ''/''" for c using assms(4) by auto
  show "buf ! (p - 1) = CHR ''/'' \<longleftrightarrow> cur = []"
    using nth [of 1] p(1) w sl by (cases "rev cur") auto
  show "buf ! (p - 1) = CHR ''.'' \<and> buf ! (p - 2) = CHR ''/'' \<longleftrightarrow> cur = ''.''"
  proof (cases "rev cur")
    case Nil
    then show ?thesis using nth [of 1] p(1) w by simp
  next
    case (Cons c cs)
    then have "2 \<le> p" using p(2) by auto
    then show ?thesis using nth [of 1] nth [of 2] w sl Cons
      by (cases cs) (auto simp: rev_swap)
  qed
  show "buf ! (p - 1) = CHR ''.'' \<and> buf ! (p - 2) = CHR ''.'' \<and> buf ! (p - 3) = CHR ''/'' \<longleftrightarrow> cur = ''..''"
  proof (cases "rev cur")
    case Nil
    then show ?thesis using nth [of 1] p(1) w by simp
  next
    case (Cons c cs)
    have 2: "2 \<le> p" using p(2) Cons by auto
    show ?thesis
    proof (cases cs)
      case Nil
      then show ?thesis using nth [of 2] 2 w Cons by (auto simp: rev_swap)
    next
      case (Cons d ds)
      have "3 \<le> p" using p(3) \<open>rev cur = c # cs\<close> Cons by (metis Suc_le_eq length_Cons length_rev numeral_2_eq_2 zero_less_Suc Suc_less_eq)
      then show ?thesis using nth [of 1] nth [of 2] nth [of 3] 2 w sl \<open>rev cur = c # cs\<close> Cons
        by (cases ds) (auto simp: rev_swap)
    qed
  qed
qed

lemma written_walk: "\<exists>r. written st cur = butlast (written (walk cur st) []) @ r"
proof (cases "cur = ''..''")
  case True
  have "\<exists>r. written st x = written (butlast st) [] @ r" for x
    by (cases st rule: rev_cases) (auto simp: written_def)
  then show ?thesis
    using True written_dir [of "butlast st"] by (metis append.assoc insert_iff list.distinct(1) list.inject singletonD walk_def)
next
  case False
  show ?thesis
  proof (cases "cur \<in> {[], ''.''}")
    case True
    have "written st cur = butlast (written st []) @ ''/'' @ cur"
      using written_dir [of st] by (simp add: written_def butlast_append)
    with True show ?thesis by (auto simp: walk_def)
  next
    case 2: False
    have "butlast (written (st @ [cur]) []) = written st cur" by (simp add: written_def butlast_append)
    with False 2 show ?thesis by (intro exI [of _ "[]"]) (simp add: walk_def)
  qed
qed

lemma slash_spec:
  assumes "take p buf = written st cur" "p = length (written st cur)" "p \<le> length buf" "path_ok (st, cur)"
  shows "slash buf p = length (written (walk cur st) []) - 1"
    "take (slash buf p) buf = butlast (written (walk cur st) [])"
proof -
  have c: "CHR ''/'' \<notin> set cur" "path_ok (st, [])" using assms(4) by (simp_all add: path_ok_def)
  note l = last_chars [OF assms(1-3) c(1)]
  show s: "slash buf p = length (written (walk cur st) []) - 1"
  proof (cases "cur \<in> {[], ''.'', ''..''}")
    case True
    then consider "cur = []" | "cur = ''.''" | "cur = ''..''" by blast
    then show ?thesis
    proof cases
      case 3
      have "slash buf p = (if p - 3 > 0 then back_to_slash buf (p - 3) else 0)"
        using l 3 unfolding slash_def by auto
      then show ?thesis using up_found [of p buf st] assms(1-3) c(2) 3 by (simp add: walk_def)
    qed (use l assms(2) in \<open>auto simp: slash_def walk_def written_def\<close>)
  next
    case False
    then have "slash buf p = p" using l unfolding slash_def by auto
    then show ?thesis using False assms(2) by (simp add: walk_def written_def)
  qed
  obtain r where r: "written st cur = butlast (written (walk cur st) []) @ r" using written_walk by blast
  then have "slash buf p \<le> p" using s assms(2) by simp
  then have "take (slash buf p) buf = take (slash buf p) (written st cur)" using assms(1) by (metis min.absorb1 take_take)
  then show "take (slash buf p) buf = butlast (written (walk cur st) [])" using r s by simp
qed

section \<open>The whole address\<close>

lemma path_ok_steps: "path_ok s \<Longrightarrow> path_ok (fold char_step t s)"
  by (induction t arbitrary: s) (simp_all add: path_ok_step)

lemma next_char_length: "url \<noteq> [] \<Longrightarrow> length (snd (next_char url)) + 1 \<le> length url"
  using next_char_shorter [of url] by simp

lemma url_loop_spec:
  assumes "len \<le> length buf0"
  shows "length buf = length buf0 \<Longrightarrow> take p buf = written st cur \<Longrightarrow> p = length (written st cur) \<Longrightarrow> path_ok (st, cur) \<Longrightarrow>
    p + length url \<le> len \<Longrightarrow> \<exists>st' cur' buf'. fold char_step (pct url) (st, cur) = (st', cur') \<and>
      url_loop len url p buf = (length (written st' cur'), buf') \<and> take (length (written st' cur')) buf' = written st' cur' \<and>
      length (written st' cur') \<le> length buf' \<and> path_ok (st', cur')"
proof (induction "length url" arbitrary: url p buf st cur rule: less_induct)
  case less
  show ?case
  proof (cases "url = []")
    case True
    then show ?thesis using less.prems assms by (simp add: url_loop.simps pct.simps)
  next
    case False
    obtain ch rest where n: "next_char url = (ch, rest)" by fastforce
    have rest: "length rest + 1 \<le> length url" using next_char_length [OF False] n by simp
    have p: "p < len" using less.prems(5) False by (cases url) auto
    then have pb: "p \<le> length buf" using assms less.prems(1) by simp
    have f: "fold char_step (pct url) (st, cur) = fold char_step (pct rest) (char_step ch (st, cur))"
      using False n by (simp add: pct.simps [of url])
    have ok: "path_ok (char_step ch (st, cur))" using less.prems(4) by (rule path_ok_step)
    define q where "q = (if ch = CHR ''/'' then slash buf p else p)"
    obtain st1 cur1 where c: "char_step ch (st, cur) = (st1, cur1)" by fastforce
    have q: "take q buf = butlast (written st1 cur1)" "q = length (written st1 cur1) - 1" "written st1 cur1 = butlast (written st1 cur1) @ [ch]"
    proof -
      consider "ch = CHR ''/''" | "ch \<noteq> CHR ''/''" by blast
      then have "take q buf = butlast (written st1 cur1) \<and> q = length (written st1 cur1) - 1 \<and>
        written st1 cur1 = butlast (written st1 cur1) @ [ch]"
      proof cases
        case 1
        then show ?thesis
          using slash_spec [OF less.prems(2,3) pb less.prems(4)] written_dir [of "walk cur st"] c
          by (auto simp: q_def char_step_def)
      next
        case 2
        then have "written st1 cur1 = written st cur @ [ch]" using c by (auto simp: char_step_def written_def)
        then show ?thesis using 2 less.prems(2,3) by (simp add: q_def)
      qed
      then show "take q buf = butlast (written st1 cur1)" "q = length (written st1 cur1) - 1"
        "written st1 cur1 = butlast (written st1 cur1) @ [ch]" by blast+
    qed
    have q1: "q + 1 = length (written st1 cur1)" using q(2) by (simp add: written_def)
    have "q \<le> p" using q_def slash_spec(2) [OF less.prems(2,3) pb less.prems(4)] q(1,2) less.prems(3) pb
    proof (cases "ch = CHR ''/''")
      case True
      obtain r where "written st cur = butlast (written (walk cur st) []) @ r" using written_walk by blast
      then show ?thesis using q(2) c True less.prems(3) by (auto simp: char_step_def)
    qed (simp add: q_def)
    then have qb: "q < length buf" "q + 1 + length rest \<le> len" using p assms less.prems(1,5) rest by simp_all
    have "take (q + 1) (buf[q := ch]) = written st1 cur1"
      using q(1,3) qb(1) by (simp add: take_Suc_conv_app_nth)
    then have "\<exists>st' cur' buf'. fold char_step (pct rest) (st1, cur1) = (st', cur') \<and>
      url_loop len rest (q + 1) (buf[q := ch]) = (length (written st' cur'), buf') \<and>
      take (length (written st' cur')) buf' = written st' cur' \<and>
      length (written st' cur') \<le> length buf' \<and> path_ok (st', cur')"
      using less.hyps [of rest "buf[q := ch]" "q + 1" st1 cur1] rest less.prems(1) q1 ok c qb(2) by simp
    moreover have "url_loop len url p buf = url_loop len rest (q + 1) (buf[q := ch])"
      using p False n by (simp add: url_loop.simps [of len url] q_def Let_def)
    ultimately show ?thesis unfolding f c by simp
  qed
qed

lemma resolve_steps:
  "resolve t = (case fold char_step t ([], []) of (st, cur) \<Rightarrow> if cur \<in> {[], ''.'', ''..''} then (walk cur st, []) else (st, cur))"
  by (simp add: char_steps resolve_def Let_def)

lemma decode_end_spec:
  assumes "take (length (written st cur)) buf = written st cur" "length (written st cur) \<le> length buf" "path_ok (st, cur)"
  shows "decode_end (length (written st cur)) buf =
    (case if cur \<in> {[], ''.'', ''..''} then (walk cur st, []) else (st, cur) of (d, l) \<Rightarrow> length (written d l))"
proof -
  have c: "CHR ''/'' \<notin> set cur" "path_ok (st, [])" using assms(3) by (simp_all add: path_ok_def)
  note l = last_chars [OF assms(1) refl assms(2) c(1)]
  consider "cur = []" | "cur = ''.''" | "cur = ''..''" | "cur \<notin> {[], ''.'', ''..''}" by blast
  then show ?thesis
  proof cases
    case 3
    have "decode_end (length (written st cur)) buf =
        (if length (written st cur) - 3 > 0 then back_to_slash buf (length (written st cur) - 3) else 0) + 1"
      using l 3 unfolding decode_end_def by auto
    also have "(if length (written st cur) - 3 > 0 then back_to_slash buf (length (written st cur) - 3) else 0) =
        length (written (butlast st) []) - 1"
      by (rule up_found) (use assms(1,2) c(2) 3 in simp_all)
    also have "length (written (butlast st) []) - 1 + 1 = length (written (butlast st) [])" by (simp add: written_def)
    finally show ?thesis using 3 by (simp add: walk_def)
  next
    case 4
    then have "decode_end (length (written st cur)) buf = length (written st cur)" using l unfolding decode_end_def by auto
    with 4 show ?thesis by simp
  qed (use l in \<open>auto simp: decode_end_def walk_def written_def\<close>)
qed

lemma take_shorter: "take p buf = a @ r \<Longrightarrow> take (length a) buf = a"
  by (metis append_eq_conv_conj append_take_drop_id append.assoc)

text \<open>C33: When the buffer is long enough, \<^verbatim>\<open>decodeurl\<close> leaves at its start, up to the length it computes, the path
  that the names of the decoded address lead to from the root: empty names and \<open>.\<close> stay, \<open>..\<close> goes up and never
  above the root, and no such name is left.\<close>

theorem decodeurl_normalises:
  assumes "length url < len" "len \<le> length filename"
  shows "case resolve (pct url) of (dirs, name) \<Rightarrow>
    fst (decoded url filename len) = length (written dirs name) \<and>
    take (length (written dirs name)) (decodeurl url filename len) = written dirs name \<and>
    set (dirs @ [name]) \<inter> {''.'', ''..''} = {} \<and> CHR ''/'' \<notin> set (concat (dirs @ [name]))"
proof -
  let ?b = "filename[0 := CHR ''/'']"
  have "0 < length filename" using assms by linarith
  then have "take 1 ?b = written [] []" by (cases filename) (simp_all add: written_def)
  then obtain st cur buf where r: "fold char_step (pct url) ([], []) = (st, cur)"
    "url_loop len url 1 ?b = (length (written st cur), buf)" "take (length (written st cur)) buf = written st cur"
    "length (written st cur) \<le> length buf" "path_ok (st, cur)"
    using url_loop_spec [of len ?b ?b 1 "[]" "[]" url] assms by (auto simp: path_ok_def written_def)
  obtain dirs name where d: "resolve (pct url) = (dirs, name)" by fastforce
  then have dn: "(dirs, name) = (if cur \<in> {[], ''.'', ''..''} then (walk cur st, []) else (st, cur))"
    by (simp add: resolve_steps r(1))
  have "path_ok (dirs, name)" "name \<notin> {''.'', ''..''}"
    using dn r(5) by (auto simp: path_ok_def walk_def dest: in_set_butlastD split: if_splits)
  moreover have "decode_end (length (written st cur)) buf = (case (dirs, name) of (d, l) \<Rightarrow> length (written d l))"
    unfolding dn by (rule decode_end_spec [OF r(3-5)])
  then have "decoded url filename len = (length (written dirs name), buf)" using r(2) by (simp add: decoded_def)
  moreover have "\<exists>t. written st cur = written dirs name @ t"
  proof (cases "cur = ''..''")
    case True
    then have "dirs = butlast st" "name = []" using dn by (simp_all add: walk_def)
    then show ?thesis by (cases st rule: rev_cases) (auto simp: written_def)
  next
    case False
    then show ?thesis using dn by (auto simp: walk_def written_def split: if_splits)
  qed
  then have "take (length (written dirs name)) buf = written dirs name" using r(3) take_shorter by metis
  ultimately show ?thesis unfolding d by (auto simp: decodeurl_def path_ok_def)
qed

theorem decodeurl_normalises_witness:
  "fst (decoded ''/a/%2e%2e//./b%20c'' (replicate 40 NUL) 30) = 4 \<and>
   take 4 (decodeurl ''/a/%2e%2e//./b%20c'' (replicate 40 NUL) 30) = ''/b c''"
proof -
  have "resolve (pct ''/a/%2e%2e//./b%20c'') = ([], ''b c'')" by code_simp
  then show ?thesis
    using decodeurl_normalises [of "''/a/%2e%2e//./b%20c''" 30 "replicate 40 NUL"]
    by (simp add: written_def numeral_eq_Suc)
qed

text \<open>But the caller gets no length and no zero behind the path: what the longer path wrote is still there.\<close>

lemma decodeurl_leaves_rest:
  "decodeurl ''/a/../b'' (replicate 12 NUL) 12 = ''/b/..'' @ replicate 7 NUL"
  by code_simp

text \<open>A path that climbs out of the root and passes \<^verbatim>\<open>check_path\<close>.\<close>

lemma check_path_leaves_root: "check_path ''/a/b/c/../../../../x'' = Some True"
  by code_simp

end
