(* ===== verification/LogProps.thy ===== *)
theory LogProps
  imports Log
begin

text \<open>The files of a log are a ring: however often it is shifted, the latest texts are there, in order, and no others.\<close>

text \<open>Messages, and rounds of them: after each round the thread that looks after the logs wakes up.\<close>

type_synonym message = "nat \<times> string \<times> string \<times> string"

fun line_of :: "message \<Rightarrow> string" where
  "line_of (level, tid, stamp, msg) = log_line level tid stamp msg"

definition log_written :: "int \<Rightarrow> message list \<Rightarrow> string" where
  "log_written lv ms = concat (map line_of (filter (\<lambda>m. lv \<le> int (fst m)) ms))"

fun log_all :: "message list \<Rightarrow> logs \<Rightarrow> logs option" where
  "log_all [] l = Some l"
| "log_all ((level, tid, stamp, msg) # ms) l =
     (case LOG 0 level tid stamp msg l of None \<Rightarrow> None | Some l \<Rightarrow> log_all ms l)"

fun log_rounds :: "(message list \<times> int) list \<Rightarrow> logs \<Rightarrow> logs option" where
  "log_rounds [] l = Some l"
| "log_rounds ((ms, now) # rs) l =
     (case log_all ms l of None \<Rightarrow> None | Some l \<Rightarrow> log_rounds rs (maintain_log now l))"

text \<open>What a log is: the texts that were put away, and the current one, put away when it is longer than \<open>r\<close>.\<close>

fun ring_spec :: "int \<Rightarrow> int \<Rightarrow> (message list \<times> int) list \<Rightarrow> string list \<times> string \<Rightarrow> string list \<times> string" where
  "ring_spec r lv [] p = p"
| "ring_spec r lv ((ms, now) # rs) (ws, cur) =
     ring_spec r lv rs
       (if r < int (length (cur @ log_written lv ms)) then (ws @ [cur @ log_written lv ms], []) else (ws, cur @ log_written lv ms))"

definition text_of :: "lfs \<Rightarrow> string \<Rightarrow> string option" where
  "text_of s p = map_option (l_data s) (l_names s p)"

definition files_apart :: "lfs \<Rightarrow> bool" where
  "files_apart s \<longleftrightarrow> (\<forall>p i. l_names s p = Some i \<longrightarrow> i < l_inodes s \<and> (\<forall>q. l_names s q = Some i \<longrightarrow> q = p))"

text \<open>A descriptor that is opened is none of the two in use.\<close>

fun fds_fresh :: "int list \<Rightarrow> bool" where
  "fds_fresh [] = True"
| "fds_fresh (a # as) \<longleftrightarrow> a \<notin> set (take 2 as) \<and> fds_fresh as"

definition fds_held :: "logentity \<Rightarrow> int list" where
  "fds_held le = (if iclose (fdinfo le) then [fd_old (fdinfo le)] else []) @ [log_fd le]"

text \<open>\<open>m\<close> is the number of files put away, \<open>r\<close> the limit of size, \<open>ws\<close> and \<open>cur\<close> the texts.\<close>

definition log_ring :: "string \<Rightarrow> nat \<Rightarrow> int \<Rightarrow> int \<Rightarrow> string list \<Rightarrow> string \<Rightarrow> logentity \<times> lfs \<Rightarrow> bool" where
  "log_ring f m r lv ws cur = (\<lambda>(le, s).
     fn le = f \<and> loglevel le = lv \<and> maxlognum le = int m + 1 \<and> rotatetime le = 0 \<and> rotatesize le = r \<and>
     nextlogno le = int (length ws mod m) + 1 \<and> files_apart s \<and>
     (\<exists>i. l_names s f = Some i \<and> l_data s i = cur \<and> l_fds s (log_fd le) = Some i) \<and>
     (\<forall>fd\<in>set (l_opens s). 0 \<le> fd) \<and> fds_fresh (fds_held le @ l_opens s) \<and>
     (\<forall>j < length ws. length ws - j \<le> m \<longrightarrow> text_of s (numbered f (int (j mod m) + 1)) = Some (ws ! j)) \<and>
     (\<forall>p. l_names s p \<noteq> None \<longrightarrow> p = f \<or> (\<exists>i < m. p = numbered f (int i + 1))))"

lemma numbered_inj: "numbered f (int i + 1) = numbered f (int j + 1) \<longleftrightarrow> i = j"
proof
  assume "numbered f (int i + 1) = numbered f (int j + 1)"
  then have "dec_nat (Suc i) = dec_nat (Suc j)" by (simp add: numbered_def dec_int_def nat_add_distrib)
  then have "read_digits 0 (dec_nat (Suc i)) = read_digits 0 (dec_nat (Suc j))" by simp
  then show "i = j" by (metis Suc_inject read_dec_nat)
qed simp

lemma numbered_other: "numbered f i \<noteq> f"
  by (simp add: numbered_def)

lemma same_slot: "j < k \<Longrightarrow> Suc k - j \<le> m \<Longrightarrow> j mod m \<noteq> k mod m" for j k m :: nat
  by (metis Suc_diff_le diff_is_0_eq' dvd_imp_le less_imp_le mod_eq_dvd_iff_nat not_less_eq_eq zero_less_diff)

lemma next_no_slot: "0 < m \<Longrightarrow> next_no (int m + 1) (int (k mod m) + 1) = int (Suc k mod m) + 1"
proof -
  assume m: "0 < m"
  have lt: "k mod m < m" using m by simp
  show ?thesis
  proof (cases "Suc (k mod m) = m")
    case True
    then have e: "int (k mod m) + 1 + 1 = int m + 1" by simp
    show ?thesis by (simp only: next_no_def mod_Suc True e mod_self simp_thms if_True)
  next
    case False
    then have "(2 + int (k mod m)) mod (int m + 1) = 2 + int (k mod m)" using lt by (intro mod_pos_pos_trivial) auto
    then show ?thesis using False by (simp add: next_no_def mod_Suc add.commute)
  qed
qed

text \<open>What a shift leaves under every name.\<close>

lemma text_of_shift:
  assumes fs: "files_apart s" and f: "l_names s (fn le) = Some i" and opens: "l_opens s = fd # fds" "0 \<le> fd"
    and sh: "shiftfile le s = (nfd, le', s')"
  shows "nfd = fd \<and> le' = le\<lparr>nextlogno := next_no (maxlognum le) (nextlogno le)\<rparr> \<and> files_apart s' \<and> l_opens s' = fds \<and>
    (\<exists>k. l_names s' (fn le) = Some k \<and> l_data s' k = [] \<and> l_fds s' = (l_fds s)(fd \<mapsto> k)) \<and>
    text_of s' (numbered (fn le) (nextlogno le)) = Some (l_data s i) \<and>
    (\<forall>p. p \<noteq> fn le \<longrightarrow> p \<noteq> numbered (fn le) (nextlogno le) \<longrightarrow> text_of s' p = text_of s p)"
proof -
  have ne: "numbered (fn le) (nextlogno le) \<noteq> fn le" by (rule numbered_other)
  have il: "l_names s p = Some j \<Longrightarrow> j < l_inodes s" for p j using fs by (auto simp: files_apart_def)
  have s': "nfd = fd" "le' = le\<lparr>nextlogno := next_no (maxlognum le) (nextlogno le)\<rparr>"
    "s' = s\<lparr>l_names := (l_names s)(numbered (fn le) (nextlogno le) \<mapsto> i, fn le \<mapsto> l_inodes s),
       l_data := (l_data s)(l_inodes s := []), l_fds := (l_fds s)(fd \<mapsto> l_inodes s), l_inodes := l_inodes s + 1, l_opens := fds\<rparr>"
    using sh f opens ne by (auto simp: shiftfile_def l_rename_def l_unlink_def openfile_def Let_def fun_upd_idem_iff fun_eq_iff)
  have ap: "files_apart s'"
    using fs f il ne by (auto simp: s'(3) files_apart_def less_Suc_eq)
  have tx: "text_of s' p = text_of s p" if "p \<noteq> fn le" "p \<noteq> numbered (fn le) (nextlogno le)" for p
    using that il by (cases "l_names s p") (auto simp: s'(3) text_of_def)
  have "text_of s' (numbered (fn le) (nextlogno le)) = Some (l_data s i)" using il [OF f] ne by (simp add: s'(3) text_of_def)
  moreover have "l_names s' (fn le) = Some (l_inodes s) \<and> l_data s' (l_inodes s) = [] \<and> l_fds s' = (l_fds s)(fd \<mapsto> l_inodes s)"
    by (simp add: s'(3))
  moreover have "l_opens s' = fds" by (simp add: s'(3))
  ultimately show ?thesis using s'(1,2) ap tx by blast
qed

lemma log_ring_step:
  assumes ring: "log_ring f m r lv ws w (le, s)" and m: "0 < m" and r: "0 < r" "r < int (length w)" and opens: "l_opens s \<noteq> []"
    and st: "scan_log now le s = (le2, s2)"
  shows "log_ring f m r lv (ws @ [w]) [] (le2, s2) \<and> l_opens s2 = tl (l_opens s)"
proof -
  let ?n = "length ws" let ?tmp = "numbered f (int (?n mod m) + 1)"
  have le: "fn le = f" "loglevel le = lv" "maxlognum le = int m + 1" "rotatetime le = 0" "rotatesize le = r" "nextlogno le = int (?n mod m) + 1"
    and ap: "files_apart s" and fr: "\<forall>fd\<in>set (l_opens s). 0 \<le> fd" "fds_fresh (fds_held le @ l_opens s)"
    and kept: "\<And>j. j < ?n \<Longrightarrow> ?n - j \<le> m \<Longrightarrow> text_of s (numbered f (int (j mod m) + 1)) = Some (ws ! j)"
    and names: "\<And>p. l_names s p \<noteq> None \<Longrightarrow> p = f \<or> (\<exists>i < m. p = numbered f (int i + 1))"
    using ring by (auto simp: log_ring_def)
  obtain i where i: "l_names s f = Some i" "l_data s i = w" "l_fds s (log_fd le) = Some i" using ring by (auto simp: log_ring_def)
  obtain fd fds where o: "l_opens s = fd # fds" using opens by (cases "l_opens s") auto
  have sz: "scan_size le s" using i r by (simp add: scan_size_def le)
  obtain nfd le' s' where sh: "shiftfile le s = (nfd, le', s')" by (metis prod_cases3)
  have fd0: "0 \<le> fd" using fr o by simp
  from text_of_shift [OF ap i(1) [folded le(1)] o fd0 sh]
  obtain k where s': "nfd = fd" "le' = le\<lparr>nextlogno := next_no (maxlognum le) (nextlogno le)\<rparr>" "files_apart s'" "l_opens s' = fds"
      "l_names s' f = Some k" "l_data s' k = []" "l_fds s' = (l_fds s)(fd \<mapsto> k)" "text_of s' ?tmp = Some w"
      "\<And>p. p \<noteq> f \<Longrightarrow> p \<noteq> ?tmp \<Longrightarrow> text_of s' p = text_of s p"
    unfolding le by (auto simp: i)
  have st': "le2 = le'\<lparr>log_fd := fd, fdinfo := \<lparr>fd_timeout = now + 5, fd_old = log_fd le, iclose = True\<rparr>\<rparr>"
    "s2 = (if iclose (fdinfo le) then l_close (fd_old (fdinfo le)) s' else s')"
    using st sz sh fd0 le s'(1,2) by (auto simp: scan_log_def delay_close_def)
  have s2: "l_names s2 = l_names s'" "l_data s2 = l_data s'" "l_inodes s2 = l_inodes s'" "l_opens s2 = fds"
    using s'(4) by (auto simp: st'(2) l_close_def)
  have held: "fds_held le2 = [log_fd le, fd]" by (simp add: st'(1) fds_held_def)
  have fr2: "fds_fresh (fds_held le2 @ fds)" using fr(2) by (cases "iclose (fdinfo le)") (simp_all add: held [unfolded fds_held_def] held o fds_held_def)
  have fdk: "l_fds s2 fd = Some k" using s'(7) fr(2) by (auto simp: st'(2) l_close_def fds_held_def o)
  have t2: "text_of s2 = text_of s'" by (simp add: text_of_def s2 fun_eq_iff)
  have k2: "text_of s2 (numbered f (int (j mod m) + 1)) = Some ((ws @ [w]) ! j)" if j: "j < Suc ?n" "Suc ?n - j \<le> m" for j
  proof (cases "j = ?n")
    case False
    then have jn: "j < ?n" "?n - j \<le> m" using j by auto
    have "numbered f (int (j mod m) + 1) \<noteq> ?tmp" using same_slot [OF jn(1) j(2)] by (simp add: numbered_inj)
    then have "text_of s2 (numbered f (int (j mod m) + 1)) = text_of s (numbered f (int (j mod m) + 1))"
      by (simp add: t2 s'(9) numbered_other)
    then show ?thesis using kept [OF jn] jn by (simp add: nth_append)
  qed (simp add: t2 s'(8))
  have n2: "p = f \<or> (\<exists>i < m. p = numbered f (int i + 1))" if p: "l_names s2 p \<noteq> None" for p
  proof (cases "p = f \<or> p = ?tmp")
    case False
    then have "text_of s' p = text_of s p" by (simp add: s'(9))
    then have "l_names s p \<noteq> None" using p unfolding text_of_def s2 by (cases "l_names s' p"; cases "l_names s p") simp_all
    then show ?thesis by (rule names)
  qed (use m in \<open>auto intro!: exI [of _ "?n mod m"]\<close>)
  have ap2: "files_apart s2" using s'(3) by (simp add: files_apart_def s2)
  have "log_ring f m r lv (ws @ [w]) [] (le2, s2)"
    unfolding log_ring_def using ap2 fr2 fdk k2 n2 fr(1) s'(5,6) next_no_slot [OF m, of ?n]
    by (simp add: st'(1) s'(2) le s2 o less_Suc_eq_le)
  then show ?thesis by (simp add: s2 o)
qed

lemma log_ring_scan:
  assumes ring: "log_ring f m r lv ws t (le, s)" and m: "0 < m" and r: "0 < r" and opens: "l_opens s \<noteq> []"
    and st: "scan_log now le s = (le2, s2)"
  shows "(if r < int (length t) then log_ring f m r lv (ws @ [t]) [] (le2, s2) else log_ring f m r lv ws t (le2, s2)) \<and>
    length (l_opens s) \<le> Suc (length (l_opens s2))"
proof (cases "r < int (length t)")
  case True
  from log_ring_step [OF ring m r this opens st] show ?thesis using True by simp
next
  case False
  then have "(le2, s2) = (le, s)" using ring st by (auto simp: log_ring_def scan_log_def scan_size_def)
  then show ?thesis using ring False by simp
qed

lemma log_ring_write:
  "log_ring f m r lv ws cur (le, s) \<Longrightarrow>
   log_ring f m r lv ws (cur @ w) (le, l_write (log_fd le) w s) \<and> l_opens (l_write (log_fd le) w s) = l_opens s"
proof -
  assume ring: "log_ring f m r lv ws cur (le, s)"
  then obtain i where i: "l_names s f = Some i" "l_data s i = cur" "l_fds s (log_fd le) = Some i" and ap: "files_apart s"
    by (auto simp: log_ring_def)
  have s': "l_write (log_fd le) w s = s\<lparr>l_data := (l_data s)(i := cur @ w)\<rparr>" using i by (simp add: l_write_def)
  have "text_of (s\<lparr>l_data := (l_data s)(i := cur @ w)\<rparr>) (numbered f n) = text_of s (numbered f n)" for n
    using i ap numbered_other [of f n] by (cases "l_names s (numbered f n)") (auto simp: text_of_def files_apart_def)
  then show ?thesis using ring i unfolding s' by (simp add: log_ring_def files_apart_def)
qed

lemma log_ring_close:
  "log_ring f m r lv ws cur (le, s) \<Longrightarrow> close_old now le s = (le2, s2) \<Longrightarrow>
   log_ring f m r lv ws cur (le2, s2) \<and> l_opens s2 = l_opens s"
proof (cases "iclose (fdinfo le) \<and> fd_timeout (fdinfo le) \<le> now")
  case True
  assume ring: "log_ring f m r lv ws cur (le, s)" and c: "close_old now le s = (le2, s2)"
  have s2: "le2 = le\<lparr>fdinfo := (fdinfo le)\<lparr>iclose := False\<rparr>\<rparr>" "s2 = l_close (fd_old (fdinfo le)) s"
    using c True by (auto simp: close_old_def)
  have "text_of s2 = text_of s" by (simp add: s2 l_close_def text_of_def fun_eq_iff)
  with ring True show ?thesis
    by (simp add: log_ring_def s2 l_close_def files_apart_def fds_held_def)
qed (simp add: close_old_def)

lemma log_ring_messages:
  "log_ring f m r lv ws cur (le, s) \<Longrightarrow> \<forall>x\<in>set ms. length (line_of x) + 4 < MAX_LOG_LEN \<Longrightarrow>
   \<exists>s2. log_all ms \<lparr>logentities = [le], l_fs = s\<rparr> = Some \<lparr>logentities = [le], l_fs = s2\<rparr> \<and>
     log_ring f m r lv ws (cur @ log_written lv ms) (le, s2) \<and> l_opens s2 = l_opens s"
proof (induction ms arbitrary: cur s)
  case (Cons x ms)
  obtain level tid stamp msg where x: "x = (level, tid, stamp, msg)" by (metis prod_cases4)
  have lv: "loglevel le = lv" using Cons.prems by (simp add: log_ring_def)
  have fits: "length (line_of x) + 4 < MAX_LOG_LEN" using Cons.prems by simp
  show ?case
  proof (cases "lv \<le> int level")
    case True
    from log_ring_write [OF Cons.prems(1), of "line_of x"]
    have w: "log_ring f m r lv ws (cur @ line_of x) (le, l_write (log_fd le) (line_of x) s)"
      "l_opens (l_write (log_fd le) (line_of x) s) = l_opens s" by auto
    from Cons.IH [OF w(1)] Cons.prems(2) show ?thesis using True lv w(2) fits by (simp add: x LOG_def log_written_def)
  next
    case False
    then show ?thesis using Cons.IH [OF Cons.prems(1)] Cons.prems(2) lv by (simp add: x LOG_def log_written_def)
  qed
qed (simp add: log_written_def)

lemma log_ring_maintain:
  assumes "log_ring f m r lv ws t (le, s)" "0 < m" "0 < r" "l_opens s \<noteq> []"
  obtains le2 s2 where "maintain_log now \<lparr>logentities = [le], l_fs = s\<rparr> = \<lparr>logentities = [le2], l_fs = s2\<rparr>"
    "if r < int (length t) then log_ring f m r lv (ws @ [t]) [] (le2, s2) else log_ring f m r lv ws t (le2, s2)"
    "length (l_opens s) \<le> Suc (length (l_opens s2))"
proof -
  obtain le1 s1 where c: "close_old now le s = (le1, s1)" by fastforce
  obtain le2 s2 where sc: "scan_log now le1 s1 = (le2, s2)" by fastforce
  from log_ring_close [OF assms(1) c] have ring: "log_ring f m r lv ws t (le1, s1)" and o: "l_opens s1 = l_opens s" by auto
  from log_ring_scan [OF ring assms(2,3) _ sc] o assms(4) that c sc show ?thesis by (simp add: maintain_log_def scanlogs_def)
qed

lemma log_ring_rounds:
  "log_ring f m r lv ws cur (le, s) \<Longrightarrow> 0 < m \<Longrightarrow> 0 < r \<Longrightarrow> length rs \<le> length (l_opens s) \<Longrightarrow>
   \<forall>(ms, now)\<in>set rs. \<forall>x\<in>set ms. length (line_of x) + 4 < MAX_LOG_LEN \<Longrightarrow>
   \<exists>le2 s2. log_rounds rs \<lparr>logentities = [le], l_fs = s\<rparr> = Some \<lparr>logentities = [le2], l_fs = s2\<rparr> \<and>
     (case ring_spec r lv rs (ws, cur) of (ws2, cur2) \<Rightarrow> log_ring f m r lv ws2 cur2 (le2, s2))"
proof (induction rs arbitrary: ws cur le s)
  case (Cons x rs)
  obtain ms now where x: "x = (ms, now)" by fastforce
  have "\<forall>x\<in>set ms. length (line_of x) + 4 < MAX_LOG_LEN" using Cons.prems(5) x by simp
  from log_ring_messages [OF Cons.prems(1) this] obtain s1 where s1:
    "log_all ms \<lparr>logentities = [le], l_fs = s\<rparr> = Some \<lparr>logentities = [le], l_fs = s1\<rparr>"
    "log_ring f m r lv ws (cur @ log_written lv ms) (le, s1)" "l_opens s1 = l_opens s" by auto
  have "l_opens s1 \<noteq> []" using Cons.prems(4) s1(3) by auto
  from log_ring_maintain [OF s1(2) Cons.prems(2,3) this] obtain le2 s2 where s2:
    "maintain_log now \<lparr>logentities = [le], l_fs = s1\<rparr> = \<lparr>logentities = [le2], l_fs = s2\<rparr>"
    "if r < int (length (cur @ log_written lv ms)) then log_ring f m r lv (ws @ [cur @ log_written lv ms]) [] (le2, s2)
     else log_ring f m r lv ws (cur @ log_written lv ms) (le2, s2)"
    "length (l_opens s1) \<le> Suc (length (l_opens s2))" .
  have n: "length rs \<le> length (l_opens s2)" using Cons.prems(4) s1(3) s2(3) by simp
  have fit: "\<forall>(ms, now)\<in>set rs. \<forall>x\<in>set ms. length (line_of x) + 4 < MAX_LOG_LEN" using Cons.prems(5) by simp
  show ?case
  proof (cases "r < int (length (cur @ log_written lv ms))")
    case True
    then have "log_ring f m r lv (ws @ [cur @ log_written lv ms]) [] (le2, s2)" using s2(2) by simp
    from Cons.IH [OF this Cons.prems(2,3) n fit] show ?thesis using True by (simp add: x s1(1) s2(1))
  next
    case False
    then have "log_ring f m r lv ws (cur @ log_written lv ms) (le2, s2)" using s2(2) by simp
    from Cons.IH [OF this Cons.prems(2,3) n fit] show ?thesis using False by (simp add: x s1(1) s2(1))
  qed
qed simp

text \<open>Nothing is lost between the texts.\<close>

lemma ring_spec_all:
  "(ws2, cur2) = ring_spec r lv rs (ws, cur) \<Longrightarrow>
   concat ws2 @ cur2 = concat ws @ cur @ concat (map (log_written lv \<circ> fst) rs)"
proof (induction rs arbitrary: ws cur)
  case (Cons x rs)
  obtain ms now where x: "x = (ms, now)" by fastforce
  show ?case using Cons.prems Cons.IH [of "ws @ [cur @ log_written lv ms]" "[]"] Cons.IH [of ws "cur @ log_written lv ms"]
    by (auto simp: x split: if_splits)
qed simp

lemma registered_ring:
  assumes reg: "registerlog_internal now le \<lparr>logentities = [], l_fs = s\<rparr> = (fd, l)" "0 \<le> fd"
    and s: "l_names s = Map.empty" "\<forall>x\<in>set (l_opens s). 0 \<le> x" "fds_fresh (l_opens s)"
    and le: "rotateintval le \<le> 0" "\<not> iclose (fdinfo le)"
    and m: "m = nat (maxlognum (logentities l ! 0) - 1)"
  obtains le2 s2 where "l = \<lparr>logentities = [le2], l_fs = s2\<rparr>"
    "log_ring (fn le) m (rotatesize le) (loglevel le) [] [] (le2, s2)" "0 < m" "l_opens s2 = tl (l_opens s)"
proof -
  obtain a as where o: "l_opens s = a # as" using reg by (cases "l_opens s") (auto simp: registerlog_internal_def openfile_def Let_def MAX_LOG_def)
  have a0: "0 \<le> a" using s o by simp
  define n where "n = (if maxlognum le < 2 then DEFAULT_MAX_LOG_NUM else maxlognum le)"
  have n2: "2 \<le> n" by (simp add: n_def DEFAULT_MAX_LOG_NUM_def)
  then have n1: "[1..n - 1] = 1 # [2..n - 1]" by (simp add: upto_rec1)
  define s2 where "s2 = s\<lparr>l_opens := as, l_names := [fn le \<mapsto> l_inodes s], l_data := (l_data s)(l_inodes s := []),
    l_fds := (l_fds s)(a \<mapsto> l_inodes s), l_inodes := l_inodes s + 1\<rparr>"
  have op: "openfile (fn le) s = (a, s2)" using a0 o s by (simp add: openfile_def s2_def)
  have no: "nextlogno_loop (fn le) [1..n - 1] now 1 s2 = 1" by (simp add: n1 s2_def numbered_other)
  have l: "l = \<lparr>logentities = [le\<lparr>log_fd := a, maxlognum := n, nextlogno := 1, rotatetime := 0\<rparr>], l_fs = s2\<rparr>"
    using reg a0 le no op by (auto simp: registerlog_internal_def MAX_LOG_def n_def [symmetric] initnextlogno_def)
  have m': "m = nat (n - 1)" using m l by simp
  have "log_ring (fn le) m (rotatesize le) (loglevel le) [] [] (le\<lparr>log_fd := a, maxlognum := n, nextlogno := 1, rotatetime := 0\<rparr>, s2)"
    using s o le n2 by (simp add: log_ring_def m' s2_def files_apart_def fds_held_def)
  then show ?thesis using that l o n2 by (simp add: m' s2_def)
qed

text \<open>C25: The log files refine a ring of texts.  A log that is registered in an empty directory, with a limit of size and
  none of time, is written to with \<^const>\<open>LOG\<close> and looked after with \<^const>\<open>maintain_log\<close>, in any rounds.  Then the
  file of the log holds the current text, the numbered files hold the latest of the texts that were put away, text
  \<open>j\<close> in the file \<open>j mod m + 1\<close> for the \<open>m\<close> latest, there are no other files, and put one after another the texts are
  exactly the lines whose level is not below that of the log.\<close>

theorem log_files_are_a_ring:
  assumes reg: "registerlog_internal now le \<lparr>logentities = [], l_fs = s\<rparr> = (fd, l)" "0 \<le> fd"
    and empty: "l_names s = Map.empty" and fds: "\<forall>x\<in>set (l_opens s). 0 \<le> x" "fds_fresh (l_opens s)" "length rs < length (l_opens s)"
    and le: "0 < rotatesize le" "rotateintval le \<le> 0" "\<not> iclose (fdinfo le)"
    and fit: "\<forall>(ms, now)\<in>set rs. \<forall>x\<in>set ms. length (line_of x) + 4 < MAX_LOG_LEN"
    and m: "m = nat (maxlognum (logentities l ! 0) - 1)" and spec: "(ws, cur) = ring_spec (rotatesize le) (loglevel le) rs ([], [])"
  shows "(\<exists>l2. log_rounds rs l = Some l2 \<and> text_of (l_fs l2) (fn le) = Some cur \<and>
      (\<forall>j < length ws. length ws - j \<le> m \<longrightarrow> text_of (l_fs l2) (numbered (fn le) (int (j mod m) + 1)) = Some (ws ! j)) \<and>
      (\<forall>p. l_names (l_fs l2) p \<noteq> None \<longrightarrow> p = fn le \<or> (\<exists>i < m. p = numbered (fn le) (int i + 1)))) \<and>
    concat ws @ cur = concat (map (log_written (loglevel le) \<circ> fst) rs)"
proof -
  obtain le1 s1 where l: "l = \<lparr>logentities = [le1], l_fs = s1\<rparr>"
      "log_ring (fn le) m (rotatesize le) (loglevel le) [] [] (le1, s1)" "0 < m" "l_opens s1 = tl (l_opens s)"
    by (rule registered_ring [OF reg empty fds(1,2) le(2,3) m])
  have "length rs \<le> length (l_opens s1)" using fds(3) l(4) by simp
  from log_ring_rounds [OF l(2,3) le(1) this fit] obtain le2 s2 where
    "log_rounds rs l = Some \<lparr>logentities = [le2], l_fs = s2\<rparr>" "log_ring (fn le) m (rotatesize le) (loglevel le) ws cur (le2, s2)"
    using l(1) spec [symmetric] by auto
  moreover from this(2) have "text_of s2 (fn le) = Some cur" by (auto simp: log_ring_def text_of_def)
  ultimately show ?thesis using ring_spec_all [OF spec] by (auto simp: log_ring_def)
qed

text \<open>A log of two numbered files, written to in four rounds; the third text has replaced the first.\<close>

definition small_log :: logentity where
  "small_log = (new_log ''a'' 2 0 0 3)\<lparr>rotatesize := 60\<rparr>"

definition small_rounds :: "(message list \<times> int) list" where
  "small_rounds = [([(2, ''7'', ''s'', replicate 40 CHR ''x''), (1, ''7'', ''s'', ''no'')], 11),
     ([(3, ''7'', ''s'', replicate 45 CHR ''y'')], 12), ([(2, ''7'', ''s'', ''i'')], 13), ([(4, ''7'', ''s'', replicate 40 CHR ''z'')], 30),
     ([(2, ''7'', ''s'', ''last'')], 31)]"

definition empty_fs :: lfs where
  "empty_fs = \<lparr>l_names = Map.empty, l_data = (\<lambda>_. []), l_mtime = (\<lambda>_. 0), l_fds = Map.empty, l_inodes = 0,
     l_opens = [3, 4, 5, 3, 4, 5], l_closed = []\<rparr>"

lemma log_files_are_a_ring_witness:
  "\<exists>l2. log_rounds small_rounds (snd (registerlog_internal 10 small_log \<lparr>logentities = [], l_fs = empty_fs\<rparr>)) = Some l2 \<and>
     text_of (l_fs l2) ''a'' = Some (log_line 2 ''7'' ''s'' ''last'') \<and>
     text_of (l_fs l2) (numbered ''a'' 1) = Some (log_line 2 ''7'' ''s'' ''i'' @ log_line 4 ''7'' ''s'' (replicate 40 CHR ''z''))"
proof -
  let ?r = "registerlog_internal 10 small_log \<lparr>logentities = [], l_fs = empty_fs\<rparr>"
  let ?p = "ring_spec (rotatesize small_log) (loglevel small_log) small_rounds ([], [])"
  have r: "registerlog_internal 10 small_log \<lparr>logentities = [], l_fs = empty_fs\<rparr> = (3, snd ?r)"
    by (subst prod_eq_iff) (simp, code_simp)
  have fs: "l_names empty_fs = Map.empty" "l_opens empty_fs = [3, 4, 5, 3, 4, 5]" by (simp_all add: empty_fs_def)
  have le: "0 < rotatesize small_log" "rotateintval small_log \<le> 0" "\<not> iclose (fdinfo small_log)" by code_simp+
  have fit: "\<forall>(ms, now)\<in>set small_rounds. \<forall>x\<in>set ms. length (line_of x) + 4 < MAX_LOG_LEN" by code_simp
  have m: "2 = nat (maxlognum (logentities (snd ?r) ! 0) - 1)" by code_simp
  have p: "(fst ?p, snd ?p) = ?p" by simp
  have fds: "\<forall>x\<in>set (l_opens empty_fs). 0 \<le> x" "fds_fresh (l_opens empty_fs)" "length small_rounds < length (l_opens empty_fs)"
    by (simp_all add: fs small_rounds_def)
  have v: "fn small_log = ''a''" "snd ?p = log_line 2 ''7'' ''s'' ''last''" "length (fst ?p) = 3"
    "fst ?p ! 2 = log_line 2 ''7'' ''s'' ''i'' @ log_line 4 ''7'' ''s'' (replicate 40 CHR ''z'')" by code_simp+
  from log_files_are_a_ring [OF r _ fs(1) fds le fit m p] obtain l2 where
    "log_rounds small_rounds (snd ?r) = Some l2" "text_of (l_fs l2) ''a'' = Some (snd ?p)"
    "\<forall>j < 3. 3 - j \<le> 2 \<longrightarrow> text_of (l_fs l2) (numbered ''a'' (int (j mod 2) + 1)) = Some (fst ?p ! j)" unfolding v(1,3) by auto
  moreover from this(3) have "text_of (l_fs l2) (numbered ''a'' (int (2 mod 2) + 1)) = Some (fst ?p ! 2)" by (elim allE [of _ 2]) simp
  ultimately show ?thesis by (simp add: v)
qed

end
