(* ===== verification/ProcessProps.thy ===== *)
theory ProcessProps
  imports Process
begin

text \<open>Whom the watch dog kills, and which threads a started node has.\<close>

section \<open>The watch dog\<close>

text \<open>Rounds of ten seconds: \<open>r i\<close> is how often thread \<open>i\<close> reaches its mark in the round, at whose end the map is checked.\<close>

definition reach_all :: "(nat \<Rightarrow> nat) \<Rightarrow> threadmap \<Rightarrow> threadmap" where
  "reach_all r m = fold (\<lambda>i. (thread_reached (Some i) ^^ r i)) [0..<nthreads m] m"

fun watch_rounds :: "(nat \<Rightarrow> nat) list \<Rightarrow> threadmap \<Rightarrow> int list list \<times> threadmap" where
  "watch_rounds [] m = ([], m)"
| "watch_rounds (r # rs) m =
     (case check_threadmap (reach_all r m) of (k, m) \<Rightarrow> case watch_rounds rs m of (ks, m) \<Rightarrow> (k # ks, m))"

lemma reached_pow:
  "(thread_reached (Some i) ^^ n) m = m\<lparr>stats := (stats m)(i := (stats m i)\<lparr>tickcnt := tickcnt (stats m i) + int n\<rparr>)\<rparr>"
proof (induction n)
  case 0
  show ?case by (cases m) (simp add: fun_eq_iff)
next
  case (Suc n)
  show ?case by (simp only: funpow.simps o_apply Suc) (simp add: thread_reached_def add_ac, intro arg_cong [of _ _ "\<lambda>s. m\<lparr>stats := s\<rparr>"] ext, simp)
qed

lemma reach_all_fold:
  "distinct xs \<Longrightarrow> fold (\<lambda>i. (thread_reached (Some i) ^^ r i)) xs m =
     m\<lparr>stats := (\<lambda>i. if i \<in> set xs then (stats m i)\<lparr>tickcnt := tickcnt (stats m i) + int (r i)\<rparr> else stats m i)\<rparr>"
  by (induction xs arbitrary: m) (auto simp: reached_pow fun_eq_iff intro!: arg_cong [of _ _ "\<lambda>s. m\<lparr>stats := s\<rparr>" for m])

lemma reach_all_eq:
  "reach_all r m =
     m\<lparr>stats := (\<lambda>i. if i < nthreads m then (stats m i)\<lparr>tickcnt := tickcnt (stats m i) + int (r i)\<rparr> else stats m i)\<rparr>"
  by (simp add: reach_all_def reach_all_fold)

text \<open>One round, for one thread.\<close>

definition watch_thread :: "int \<Rightarrow> nat \<Rightarrow> threadstat \<Rightarrow> int list \<times> threadstat" where
  "watch_thread dc n t = check_thread dc (t\<lparr>tickcnt := tickcnt t + int n\<rparr>)"

lemma watch_round:
  assumes "check_threadmap (reach_all r m) = (k, m')"
  shows "k = concat (map (\<lambda>i. fst (watch_thread (deadlock_count m) (r i) (stats m i))) [0..<nthreads m]) \<and>
    nthreads m' = nthreads m \<and> deadlock_count m' = deadlock_count m \<and>
    (\<forall>i < nthreads m. stats m' i = snd (watch_thread (deadlock_count m) (r i) (stats m i)))"
proof -
  have "map (\<lambda>i. fst (check_thread (deadlock_count m) (stats (reach_all r m) i))) [0..<nthreads m] =
      map (\<lambda>i. fst (watch_thread (deadlock_count m) (r i) (stats m i))) [0..<nthreads m]"
    by (rule map_cong) (simp_all add: reach_all_eq watch_thread_def)
  then have "k = concat (map (\<lambda>i. fst (watch_thread (deadlock_count m) (r i) (stats m i))) [0..<nthreads m])
      \<longleftrightarrow> k = concat (map (\<lambda>i. fst (check_thread (deadlock_count m) (stats (reach_all r m) i))) [0..<nthreads m])"
    by (simp only:)
  moreover have "k = concat (map (\<lambda>i. fst (check_thread (deadlock_count m) (stats (reach_all r m) i))) [0..<nthreads m])"
    using assms by (simp add: check_threadmap_def reach_all_eq)
  moreover have "nthreads m' = nthreads m \<and> deadlock_count m' = deadlock_count m \<and>
    (\<forall>i < nthreads m. stats m' i = snd (watch_thread (deadlock_count m) (r i) (stats m i)))"
    using assms by (auto simp: check_threadmap_def reach_all_eq watch_thread_def)
  ultimately show ?thesis by blast
qed

text \<open>The threads are apart: no two have one number.\<close>

definition threads_apart :: "threadmap \<Rightarrow> bool" where
  "threads_apart m \<longleftrightarrow> (\<forall>i < nthreads m. ts_tid (stats m i) \<noteq> 0 \<and> 0 \<le> tickcnt (stats m i) \<and>
     (\<forall>j < nthreads m. ts_tid (stats m i) = ts_tid (stats m j) \<longrightarrow> i = j))"

lemma watch_thread_eq:
  "ts_tid t \<noteq> 0 \<Longrightarrow> 0 \<le> tickcnt t \<Longrightarrow> watch_thread dc n t =
     (if tickcnt t = 0 \<and> n = 0
      then (if dc \<le> badcnt t then [ts_tid t, ts_tid t] else [], t\<lparr>tickcnt := 0, badcnt := badcnt t + 1\<rparr>)
      else ([], t\<lparr>tickcnt := 0, badcnt := 0\<rparr>))"
  by (cases t) (auto simp: watch_thread_def check_thread_def)

lemma watch_tid: "ts_tid (snd (watch_thread dc n t)) = ts_tid t"
  by (simp add: watch_thread_def check_thread_def Let_def)

lemma watch_round_killed:
  assumes "check_threadmap (reach_all r m) = (k, m')" "threads_apart m" "i < nthreads m"
  shows "threads_apart m' \<and> (ts_tid (stats m i) \<in> set k \<longleftrightarrow>
      tickcnt (stats m i) = 0 \<and> r i = 0 \<and> deadlock_count m \<le> badcnt (stats m i)) \<and>
    stats m' i = (stats m i)\<lparr>tickcnt := 0, badcnt := (if tickcnt (stats m i) = 0 \<and> r i = 0 then badcnt (stats m i) + 1 else 0)\<rparr>"
proof -
  note w = watch_round [OF assms(1)]
  have eq: "watch_thread (deadlock_count m) (r j) (stats m j) =
     (if tickcnt (stats m j) = 0 \<and> r j = 0
      then (if deadlock_count m \<le> badcnt (stats m j) then [ts_tid (stats m j), ts_tid (stats m j)] else [],
            (stats m j)\<lparr>tickcnt := 0, badcnt := badcnt (stats m j) + 1\<rparr>)
      else ([], (stats m j)\<lparr>tickcnt := 0, badcnt := 0\<rparr>))" if "j < nthreads m" for j
    using assms(2) that by (intro watch_thread_eq) (auto simp: threads_apart_def)
  have st: "stats m' j = (stats m j)\<lparr>tickcnt := 0, badcnt := (if tickcnt (stats m j) = 0 \<and> r j = 0 then badcnt (stats m j) + 1 else 0)\<rparr>"
    if "j < nthreads m" for j using w eq [OF that] that by simp
  have k: "set k = (\<Union>j < nthreads m. set (fst (watch_thread (deadlock_count m) (r j) (stats m j))))" using w by auto
  have "ts_tid (stats m i) \<in> set k \<longleftrightarrow> tickcnt (stats m i) = 0 \<and> r i = 0 \<and> deadlock_count m \<le> badcnt (stats m i)"
  proof
    assume "ts_tid (stats m i) \<in> set k"
    then obtain j where j: "j < nthreads m" "ts_tid (stats m i) \<in> set (fst (watch_thread (deadlock_count m) (r j) (stats m j)))"
      using k by auto
    then have "tickcnt (stats m j) = 0 \<and> r j = 0 \<and> deadlock_count m \<le> badcnt (stats m j) \<and> ts_tid (stats m i) = ts_tid (stats m j)"
      by (auto simp: eq [OF j(1)] split: if_splits)
    moreover from this have "i = j" using assms(2,3) j(1) by (auto simp: threads_apart_def)
    ultimately show "tickcnt (stats m i) = 0 \<and> r i = 0 \<and> deadlock_count m \<le> badcnt (stats m i)" by simp
  next
    assume "tickcnt (stats m i) = 0 \<and> r i = 0 \<and> deadlock_count m \<le> badcnt (stats m i)"
    then show "ts_tid (stats m i) \<in> set k" using assms(3) by (auto simp: k eq intro!: bexI [of _ i])
  qed
  moreover have "threads_apart m'"
  proof -
    have "nthreads m' = nthreads m" using w by blast
    then show ?thesis using assms(2) unfolding threads_apart_def by (simp add: st)
  qed
  ultimately show ?thesis using st [OF assms(3)] by simp
qed

text \<open>How many of the latest rounds were idle, after \<open>rs\<close>, when \<open>b\<close> were before.\<close>

fun idle :: "nat \<Rightarrow> (nat \<Rightarrow> nat) list \<Rightarrow> nat \<Rightarrow> nat" where
  "idle b [] i = b"
| "idle b (r # rs) i = idle (if r i = 0 then b + 1 else 0) rs i"

lemma idle_snoc: "idle b (rs @ [r]) i = (if r i = 0 then idle b rs i + 1 else 0)"
  by (induction rs arbitrary: b) simp_all

lemma idle_iff: "idle 0 rs i \<ge> n \<longleftrightarrow> n \<le> length rs \<and> (\<forall>j < n. (rs ! (length rs - 1 - j)) i = 0)"
proof (induction rs arbitrary: n rule: rev_induct)
  case (snoc r rs)
  show ?case
  proof (cases n)
    case (Suc n')
    have e: "(rs @ [r]) ! (length rs - j) = (if j = 0 then r else rs ! (length rs - j))" if "j \<le> length rs" for j
    proof (cases "j = 0")
      case False
      with that have "length rs - j < length rs" by arith
      then show ?thesis using False by (simp add: nth_append)
    qed simp
    have "(\<forall>j < Suc n'. ((rs @ [r]) ! (length rs - j)) i = 0) \<longleftrightarrow> r i = 0 \<and> (\<forall>j < n'. (rs ! (length rs - Suc j)) i = 0)"
      if "n' \<le> length rs"
    proof -
      have "(\<forall>j < Suc n'. ((rs @ [r]) ! (length rs - j)) i = 0) \<longleftrightarrow> (\<forall>j < Suc n'. (if j = 0 then r else rs ! (length rs - j)) i = 0)"
        using that by (intro all_cong) (simp add: e)
      also have "\<dots> \<longleftrightarrow> r i = 0 \<and> (\<forall>j < n'. (rs ! (length rs - Suc j)) i = 0)" by (auto simp: less_Suc_eq_0_disj)
      finally show ?thesis .
    qed
    then show ?thesis using snoc.IH [of n'] Suc by (auto simp: idle_snoc)
  qed simp
qed auto

lemma watch_idle:
  "threads_apart m \<Longrightarrow> i < nthreads m \<Longrightarrow> tickcnt (stats m i) = 0 \<Longrightarrow> badcnt (stats m i) = int b \<Longrightarrow>
   0 \<le> deadlock_count m \<Longrightarrow> watch_rounds rs m = (ks, m') \<Longrightarrow> k < length rs \<Longrightarrow>
   ts_tid (stats m i) \<in> set (ks ! k) \<longleftrightarrow> deadlock_count m < int (idle b (take (Suc k) rs) i)"
proof (induction rs arbitrary: m b ks k)
  case (Cons r rs)
  obtain k1 m1 where c: "check_threadmap (reach_all r m) = (k1, m1)" by fastforce
  obtain ks1 where ks: "watch_rounds rs m1 = (ks1, m')" "ks = k1 # ks1" using Cons.prems(6) c by (auto split: prod.splits)
  note w = watch_round_killed [OF c Cons.prems(1,2)]
  have dc: "deadlock_count m1 = deadlock_count m" "nthreads m1 = nthreads m" using watch_round [OF c] by auto
  have k1: "ts_tid (stats m i) \<in> set k1 \<longleftrightarrow> r i = 0 \<and> deadlock_count m \<le> int b" using w Cons.prems(3,4) by simp
  let ?b = "if r i = 0 then b + 1 else 0"
  have st: "tickcnt (stats m1 i) = 0" "badcnt (stats m1 i) = int ?b" "ts_tid (stats m1 i) = ts_tid (stats m i)"
    using w Cons.prems(3,4) by simp_all
  show ?case
  proof (cases k)
    case 0
    then show ?thesis using k1 Cons.prems(5) by (auto simp: ks(2))
  next
    case (Suc k')
    have "threads_apart m1" "i < nthreads m1" "k' < length rs" "0 \<le> deadlock_count m1" using w dc Cons.prems(2,5,7) Suc by auto
    from Cons.IH [OF this(1,2) st(1,2) this(4) ks(1) this(3)] show ?thesis by (simp add: Suc ks(2) st(3) dc)
  qed
qed simp

text \<open>C23: The watch dog kills a thread if and only if it is stuck.  A thread announces itself with \<^const>\<open>get_threadstat\<close>; then
  it is killed in round \<open>k\<close> exactly when it has not reached its mark in this round and in the \<open>deadlock_count\<close> rounds
  before it, whatever the other threads do.\<close>

theorem watchdog_kills_stuck:
  assumes "threads_apart m" "i < nthreads m" "tickcnt (stats m i) = 1" "badcnt (stats m i) = 0" "0 \<le> deadlock_count m"
    "watch_rounds rs m = (ks, m')" "k < length rs"
  shows "ts_tid (stats m i) \<in> set (ks ! k) \<longleftrightarrow>
    nat (deadlock_count m) < k \<and> (\<forall>j \<le> nat (deadlock_count m). (rs ! (k - j)) i = 0)"
proof -
  obtain r rs' where rs: "rs = r # rs'" using assms(7) by (cases rs) auto
  obtain k1 m1 where c: "check_threadmap (reach_all r m) = (k1, m1)" by fastforce
  obtain ks1 where ks: "watch_rounds rs' m1 = (ks1, m')" "ks = k1 # ks1" using assms(6) c by (auto simp: rs split: prod.splits)
  note w = watch_round_killed [OF c assms(1,2)]
  have dc: "deadlock_count m1 = deadlock_count m" "nthreads m1 = nthreads m" using watch_round [OF c] by auto
  show ?thesis
  proof (cases k)
    case 0
    then show ?thesis using w assms(3) by (simp add: ks(2))
  next
    case (Suc k')
    have "threads_apart m1" "i < nthreads m1" "tickcnt (stats m1 i) = 0" "badcnt (stats m1 i) = int 0" "0 \<le> deadlock_count m1" "k' < length rs'"
      using w dc assms(2,3,5,7) Suc by (auto simp: rs)
    from watch_idle [OF this(1-5) ks(1) this(6)] have "ts_tid (stats m i) \<in> set (ks ! k) \<longleftrightarrow> nat (deadlock_count m) + 1 \<le> idle 0 (take (Suc k') rs') i"
      using w assms(5) by (simp add: Suc ks(2) dc) linarith
    also have "\<dots> \<longleftrightarrow> nat (deadlock_count m) < k \<and> (\<forall>j \<le> nat (deadlock_count m). (take (Suc k') rs' ! (k' - j)) i = 0)"
      using \<open>k' < length rs'\<close> by (auto simp: idle_iff Suc less_Suc_eq_le)
    also have "\<dots> \<longleftrightarrow> nat (deadlock_count m) < k \<and> (\<forall>j \<le> nat (deadlock_count m). (rs ! (k - j)) i = 0)"
      by (intro conj_cong refl all_cong) (simp add: rs Suc Suc_diff_le)
    finally show ?thesis .
  qed
qed

definition one_thread :: threadmap where
  "one_thread = snd (get_threadstat 0 77 (snd (init_threadmap config0)))\<lparr>deadlock_count := 2\<rparr>"

theorem watchdog_kills_stuck_witness:
  "77 \<in> set (fst (watch_rounds [\<lambda>_. 0, \<lambda>_. 1, \<lambda>_. 0, \<lambda>_. 0, \<lambda>_. 0] one_thread) ! 4) \<and>
   77 \<notin> set (fst (watch_rounds [\<lambda>_. 0, \<lambda>_. 1, \<lambda>_. 0, \<lambda>_. 0, \<lambda>_. 0] one_thread) ! 3)"
proof -
  let ?rs = "[\<lambda>_. 0, \<lambda>_. 1, \<lambda>_. 0, \<lambda>_. 0, \<lambda>_. 0] :: (nat \<Rightarrow> nat) list"
  let ?w = "watch_rounds ?rs one_thread"
  have m: "nthreads one_thread = 1" "stats one_thread 0 = \<lparr>ts_tid = 77, tickcnt = 1, badcnt = 0\<rparr>" "deadlock_count one_thread = 2"
    by (simp_all add: one_thread_def get_threadstat_def init_threadmap_def Let_def split_beta)
  have ap: "threads_apart one_thread" by (simp add: threads_apart_def m)
  have w: "?w = (fst ?w, snd ?w)" by simp
  have "ts_tid (stats one_thread 0) \<in> set (fst ?w ! k) \<longleftrightarrow> nat 2 < k \<and> (\<forall>j \<le> nat 2. (?rs ! (k - j)) 0 = 0)" if "k < 5" for k
    using watchdog_kills_stuck [OF ap, of 0, OF _ _ _ _ w, of k] that m by simp
  from this [of 4] this [of 3] show ?thesis by (auto simp: m numeral_nat le_Suc_eq)
qed

section \<open>The start\<close>

text \<open>A node that starts runs the main thread, the agent and the two services of its role; only a storage node listens.\<close>

lemma main_start_threads:
  assumes "main_start icalls oks created self g st \<lparr>threadlist = [main], maxid = 16\<rparr> = Some (r, st', ts)"
  shows "r = self_role_of self \<and> length (threadlist ts) = 4 \<and> hd (threadlist ts) = main \<and>
    map th_entry (tl (threadlist ts)) = Some Agent_thread #
      (case service_args r g st of (a, a1, _) \<Rightarrow> [Some (Service_thread a), Some (Service_thread a1)]) \<and>
    (\<forall>th\<in>set (tl (threadlist ts)). th_state th = THREAD_STARTING)"
proof -
  have each: "start_each c ths = Some ths' \<Longrightarrow> map th_entry ths' = map th_entry ths \<and> length ths' = length ths \<and>
      (\<forall>th\<in>set ths'. th_state th = THREAD_STARTING)" for c and ths ths' :: "entry thread list"
  proof (induction c ths arbitrary: ths' rule: start_each.induct)
    case (3 c created th ths)
    then show ?case by (auto simp: start_thread_posix_def split: option.splits)
  qed simp_all
  obtain a a1 st1 where sa: "service_args r g st = (a, a1, st1)" by (metis prod_cases3)
  have r: "r = self_role_of self" using assms by (auto simp: main_start_def Let_def split: if_splits prod.splits)
  then show ?thesis using assms sa
    by (auto simp: main_start_def Let_def init_vfs_agent_def init_vfs_thread_def register_thread_def start_threads_def ENOMEM_def
        split: if_splits prod.splits dest!: each)
qed

end
