(* ===== verification/VfsStart.thy ===== *)
theory VfsStart
  imports VfsInit
begin

text \<open>
  The rest of \<^verbatim>\<open>src/network/vfs_init.c\<close>: the addresses of the host, the start of the table of addresses, and the tables of
  directories and of sources, which nothing fills.
\<close>

text \<open>\<open>ifs\<close> are the network interfaces, \<open>None\<close> where no socket can be had; where the two calls of \<^verbatim>\<open>ioctl\<close> fail there are
  none.  More than 64 addresses overwrite the first ones.\<close>

definition put_local_ip :: "uint32 \<Rightarrow> nat \<times> uint32 list \<Rightarrow> nat \<times> uint32 list" where
  "put_local_ip a = (\<lambda>(k, ls). (k + 1, ls[k mod 64 := a]))"

definition init_local_ip :: "(string \<times> uint32) list option \<Rightarrow> int \<times> uint32 list" where
  "init_local_ip ifs =
     (case ifs of
        None \<Rightarrow> (-1, replicate 64 0)
      | Some ns \<Rightarrow> (0, snd (fold (\<lambda>(n, a). if take 2 n = ''lo'' then id else put_local_ip a) ns (0, replicate 64 0))))"

record vfs_state =
  hostname :: string
  localip :: "uint32 list"
  ip_tables :: ip_state

text \<open>\<open>host\<close> is what \<^verbatim>\<open>gethostname\<close> gives; \<open>malloc_ok\<close>, \<open>rw_ok\<close>, \<open>off_ok\<close> say whether the nodes and the two locks can be had;
  \<open>lk\<close> is the outcome of the lock in \<^verbatim>\<open>reload_cfg\<close>.\<close>

definition vfs_init ::
  "(string \<Rightarrow> string option) \<Rightarrow> string option \<Rightarrow> bool \<Rightarrow> (string \<times> uint32) list option \<Rightarrow> bool \<Rightarrow> bool \<Rightarrow> int \<Rightarrow> config \<Rightarrow>
   vfs_state \<Rightarrow> int \<times> vfs_state" where
  "vfs_init resolve host malloc_ok ifs rw_ok off_ok lk st s =
     (case host of
        None \<Rightarrow> (-1, s\<lparr>hostname := []\<rparr>)
      | Some h \<Rightarrow>
          let s = s\<lparr>hostname := h\<rparr>
          in if \<not> malloc_ok then (-1, s\<lparr>ip_tables := \<lparr>cfg_iplist = (\<lambda>_. []), iphome = 0\<rparr>\<rparr>)
             else let (r, ls) = init_local_ip ifs; s = s\<lparr>ip_tables := ip_state0, localip := ls\<rparr>
               in if r \<noteq> 0 \<or> \<not> rw_ok \<or> \<not> off_ok then (-1, s)
                  else case reload_cfg resolve lk st (ip_tables s) of
                    (r, t) \<Rightarrow> (if r \<noteq> 0 then -1 else 0, s\<lparr>ip_tables := t\<rparr>))"

text \<open>The lock of the tables: \<^verbatim>\<open>EDEADLK\<close> counts as having it.\<close>

definition get_cfg_lock :: "int \<Rightarrow> int" where
  "get_cfg_lock lk = (if lock_failed lk then -1 else 0)"

definition release_cfg_lock :: "bool \<Rightarrow> int" where
  "release_cfg_lock unlocked = 0"

record t_cs_dir_info =
  cs_ip :: "uint32 list"
  cs_isp :: "nat list"
  archive_isp :: "nat list"
  real_isp :: "nat list"
  cs_index :: nat

text \<open>\<open>None\<close>: a negative number of a directory gives a place in front of the table.\<close>

definition get_cs_info :: "t_cs_dir_info list list \<Rightarrow> int \<Rightarrow> int \<Rightarrow> int \<Rightarrow> (int \<times> t_cs_dir_info option) option" where
  "get_cs_info csinfo lk dir1 dir2 =
     (if lock_failed lk then Some (-1, None)
      else let i = c_rem dir1 DIR1; j = c_rem dir2 DIR2
        in if i < 0 \<or> j < 0 then None else Some (0, Some (csinfo ! nat i ! nat j)))"

definition get_cs_info_by_path :: "t_cs_dir_info list list \<Rightarrow> int \<Rightarrow> string \<Rightarrow> (int \<times> t_cs_dir_info option) option" where
  "get_cs_info_by_path csinfo lk path =
     (case get_dir1_dir2 path of (r, dir1, dir2) \<Rightarrow> if r \<noteq> 0 then Some (-1, None) else get_cs_info csinfo lk dir1 dir2)"

text \<open>The next source with a provider, among the \<^verbatim>\<open>MAXFCS\<close> of the table.\<close>

definition MAXFCS :: nat where "MAXFCS = 1024"

definition get_next_fcs :: "nat list \<Rightarrow> int \<Rightarrow> nat \<Rightarrow> int" where
  "get_next_fcs fcslist fcs isp =
     (case find (\<lambda>i. fcslist ! nat i = isp) [fcs + 1..int MAXFCS - 1] of None \<Rightarrow> -1 | Some i \<Rightarrow> i)"

definition get_fcs_isp :: "nat list \<Rightarrow> nat \<Rightarrow> nat" where
  "get_fcs_isp fcslist fcs = fcslist ! fcs"

text \<open>A path that is accepted leads into the table, so \<^verbatim>\<open>get_cs_info_by_path\<close> never reads outside it.\<close>

lemma cs_info_by_path_in_table: "get_cs_info_by_path csinfo lk path \<noteq> None"
proof -
  obtain r d1 d2 where g: "get_dir1_dir2 path = (r, d1, d2)" by (metis prod_cases3)
  have "0 \<le> d1 \<and> 0 \<le> d2" if "r = 0"
    using g that by (auto simp: get_dir1_dir2_def Let_def split: option.splits if_splits)
  then show ?thesis by (auto simp: get_cs_info_by_path_def g get_cs_info_def Let_def c_rem_def DIR1_def DIR2_def)
qed

text \<open>The node finds itself: with at most 64 addresses, none of them zero, exactly those that do not belong to the
  loop back interface are its own.\<close>

lemma local_ips:
  assumes "length as \<le> 64"
  shows "snd (fold put_local_ip as (0, replicate 64 0)) = as @ replicate (64 - length as) 0"
proof -
  have "length as \<le> 64 \<Longrightarrow> fold put_local_ip as (0, replicate 64 0) = (length as, as @ replicate (64 - length as) 0)"
  proof (induction as rule: rev_induct)
    case (snoc a as)
    then have "replicate (64 - length as) (0 :: uint32) = 0 # replicate (64 - length (as @ [a])) 0"
      by (metis Suc_diff_le diff_Suc_Suc length_append_singleton replicate_Suc)
    with snoc show ?case by (simp add: put_local_ip_def list_update_append)
  qed simp
  then show ?thesis using assms by simp
qed

lemma check_self_ip_list: "0 \<notin> set as \<Longrightarrow> a \<noteq> 0 \<Longrightarrow> check_self_ip (as @ replicate n 0) a = (if a \<in> set as then 0 else -1)"
  by (induction as) (auto, cases n, auto)

lemma init_local_ip_own:
  assumes "length ns \<le> 64" "\<forall>(n, x)\<in>set ns. x \<noteq> 0" "a \<noteq> 0"
  shows "check_self_ip (snd (init_local_ip (Some ns))) a = (if \<exists>n. (n, a) \<in> set ns \<and> take 2 n \<noteq> ''lo'' then 0 else -1)"
proof -
  let ?as = "map snd (filter (\<lambda>(n, x). take 2 n \<noteq> ''lo'') ns)"
  have "fold (\<lambda>(n, a). if take 2 n = ''lo'' then id else put_local_ip a) ns s = fold put_local_ip ?as s" for s
    by (induction ns arbitrary: s) auto
  moreover have "length ?as \<le> 64" using assms(1) le_trans [OF length_filter_le] by simp
  moreover have "0 \<notin> set ?as" using assms(2) by auto
  ultimately show ?thesis using assms(3) by (simp add: init_local_ip_def local_ips check_self_ip_list) (auto simp: image_iff)
qed

end
