(* ===== verification/AgentSend.thy ===== *)
theory AgentSend
  imports Agent EventLoop
begin

text \<open>
  The part of \<^verbatim>\<open>src/network/vfs_agent.c\<close> behind the \<^verbatim>\<open>return\<close> in \<^verbatim>\<open>do_run\<close>: connected to a VOSS server the agent submits the
  files of earlier days, the oldest first, and then the records of its tasks, and answers the server's requests.
  The loop around \<^verbatim>\<open>select\<close> gets what \<^verbatim>\<open>select\<close>, \<^verbatim>\<open>send\<close>, \<^verbatim>\<open>recv\<close> and the clock answer as arguments.  The socket is
  connected, and the list of files can be allocated.
\<close>

section \<open>State\<close>

record fileinfo =
  fi_mtime :: nat
  fi_file :: string

text \<open>\<open>open_files\<close> are the files that are open, with their contents, \<open>new_fds\<close> the descriptors that \<^verbatim>\<open>open\<close> will give,
  \<open>sent\<close> what has gone to the server.\<close>

record sender = agent +
  tmp_files :: "fileinfo list"
  tmp_index :: int
  open_files :: "int \<rightharpoonup> string"
  new_fds :: "int list"
  sent :: string

definition MAXTMPFILE :: nat where "MAXTMPFILE = 10240"
definition SOCK_CLOSE :: int where "SOCK_CLOSE = 0x10"
definition SOCK_SEND :: int where "SOCK_SEND = 0x20"
definition SOCK_SEND_FILE :: int where "SOCK_SEND_FILE = 0x40"
definition SOCK_COMP :: int where "SOCK_COMP = 0x80"

text \<open>An operation of the agent, on the larger state.\<close>

definition on_agent :: "(agent \<Rightarrow> agent) \<Rightarrow> sender \<Rightarrow> sender" where
  "on_agent f a = agent.extend (f (agent.truncate a))
     \<lparr>tmp_files = tmp_files a, tmp_index = tmp_index a, open_files = open_files a, new_fds = new_fds a, sent = sent a\<rparr>"

section \<open>The files of earlier days\<close>

text \<open>
  \<open>entries\<close> is the directory, with size and time of the entries that \<^verbatim>\<open>stat\<close> finds, or \<open>None\<close> where it cannot be opened.
  \<^verbatim>\<open>memset\<close> gets the size of a pointer, and so clears eight bytes: the time and the name of the first entry.
  \<^verbatim>\<open>sortmtime\<close> answers 1 or 0, with which a merge sort puts the latest first and leaves equal ones alone.
\<close>

type_synonym dir_entries = "(string \<times> (int \<times> nat) option) list"

fun scan_entries :: "io \<Rightarrow> string \<Rightarrow> dir_entries \<Rightarrow> fsys \<Rightarrow> fileinfo list \<Rightarrow> fileinfo list \<times> fsys" where
  "scan_entries io tmpdir [] fs acc = (acc, fs)"
| "scan_entries io tmpdir ((name, st) # es) fs acc =
     (if take 1 name = ''.'' \<or> take 5 name \<noteq> ''voss_'' then scan_entries io tmpdir es fs acc
      else let file = snprint 256 (tmpdir @ ''/'' @ name)
        in case st of
          None \<Rightarrow> scan_entries io tmpdir es fs acc
        | Some (sz, mt) \<Rightarrow>
            if sz < 10 then scan_entries io tmpdir es (snd (unlink io file fs)) acc
            else let acc = acc @ [\<lparr>fi_mtime = mt, fi_file = file\<rparr>]
              in if length acc \<ge> MAXTMPFILE then (acc, fs) else scan_entries io tmpdir es fs acc)"

definition sort_mtime :: "fileinfo list \<Rightarrow> fileinfo list" where
  "sort_mtime = sort_key (\<lambda>f. - int (fi_mtime f))"

definition scantmpdir :: "agent_env \<Rightarrow> string \<Rightarrow> dir_entries option \<Rightarrow> sender \<Rightarrow> sender" where
  "scantmpdir e tmpdir entries a =
     (case entries of
        None \<Rightarrow> a\<lparr>tmp_index := 0, tmp_files := \<lparr>fi_mtime = 0, fi_file = []\<rparr> # tl (tmp_files a)\<rparr>
      | Some es \<Rightarrow>
          (case scan_entries (ag_io e) tmpdir es (ag_fs a) [] of
             (fs, s) \<Rightarrow> a\<lparr>tmp_files := sort_mtime fs, tmp_index := int (length fs) - 1, ag_fs := s\<rparr>))"

text \<open>\<open>outdata\<close> becomes 2 when a file waits.\<close>

definition get_most_old_file :: "agent_env \<Rightarrow> int \<times> sender \<Rightarrow> int \<times> sender" where
  "get_most_old_file e = (\<lambda>(outdata, a).
     if mybuff_getfile (ag_send a) \<noteq> None then (2, a)
     else if tmp_index a < 0 then (outdata, a)
     else let file = fi_file (tmp_files a ! nat (tmp_index a))
       in case new_fds a of
         [] \<Rightarrow> (outdata, a)
       | fd # fds \<Rightarrow>
           (case files (ag_fs a) file of
              Some c \<Rightarrow>
                if fd > 0 \<and> can_open (ag_io e) file
                then let (h, sq) = create_voss_head REQ_SUBMIT (int (length c)) (m_seq (ag_maint a));
                         (b, cl) = mybuff_setfile (mybuff_setdata (ag_buff e) (ag_send a) h) fd 0 (length c)
                     in (2, a\<lparr>ag_maint := (ag_maint a)\<lparr>m_seq := sq\<rparr>, ag_send := b, new_fds := fds, open_files := (open_files a)(fd \<mapsto> c)\<rparr>)
                else (outdata, a)
            | None \<Rightarrow> (outdata, a)))"

definition rm_last_send_file :: "agent_env \<Rightarrow> sender \<Rightarrow> sender" where
  "rm_last_send_file e a =
     (if tmp_index a < 0 then a
      else a\<lparr>ag_fs := snd (unlink (ag_io e) (fi_file (tmp_files a ! nat (tmp_index a))) (ag_fs a)), tmp_index := tmp_index a - 1\<rparr>)"

section \<open>Sending and receiving\<close>

fun ag_send_data :: "string \<Rightarrow> send_ret list \<Rightarrow> sender \<Rightarrow> int \<times> send_ret list \<times> sender" where
  "ag_send_data d [] a = (SOCK_SEND, [], a)"
| "ag_send_data d (r # rs) a =
     (case r of
        Sent m \<Rightarrow>
          let n = min m (length d)
          in (if n < length d then SOCK_SEND else SOCK_COMP, rs,
              a\<lparr>ag_send := mybuff_skipdata (ag_send a) n, sent := sent a @ take n d\<rparr>)
      | S_EINTR \<Rightarrow> ag_send_data d rs a
      | S_EAGAIN \<Rightarrow> (SOCK_SEND, rs, a)
      | _ \<Rightarrow> (SOCK_CLOSE, rs, a))"

text \<open>\<open>d\<close> are the bytes offered to \<^verbatim>\<open>sendfile64\<close>, \<open>len\<close> what is left of the file.\<close>

fun ag_send_file :: "agent_env \<Rightarrow> string \<Rightarrow> nat \<Rightarrow> send_ret list \<Rightarrow> sender \<Rightarrow> int \<times> send_ret list \<times> sender" where
  "ag_send_file e d len [] a = (SOCK_SEND_FILE, [], a)"
| "ag_send_file e d len (r # rs) a =
     (case r of
        Sent m \<Rightarrow>
          let n = min m (length d); a = a\<lparr>ag_send := fst (mybuff_skipfile (ag_send a) n), sent := sent a @ take n d\<rparr>
          in if n < len then (SOCK_SEND_FILE, rs, a) else (SOCK_COMP, rs, rm_last_send_file e a)
      | S_EINTR \<Rightarrow> ag_send_file e d len rs a
      | S_EAGAIN \<Rightarrow> (SOCK_SEND_FILE, rs, a)
      | _ \<Rightarrow> (SOCK_CLOSE, rs, a))"

definition ag_do_send :: "agent_env \<Rightarrow> send_ret list \<Rightarrow> sender \<Rightarrow> int \<times> send_ret list \<times> sender" where
  "ag_do_send e rs a =
     (let (r, d) = mybuff_getdata (ag_send a);
          (ret, rs, a) = (if r = 0 then ag_send_data d rs a else (SOCK_COMP, rs, a))
      in case mybuff_getfile (ag_send a) of
           None \<Rightarrow> (ret, rs, a)
         | Some (lfd, start, len) \<Rightarrow>
             if ret = SOCK_COMP
             then ag_send_file e (take (min len GSIZE) (drop (nat start) (the (open_files a lfd)))) len rs a
             else (ret, rs, a))"

fun ag_do_recv :: "nat \<Rightarrow> recv_ret list \<Rightarrow> sender \<Rightarrow> int \<times> recv_ret list \<times> sender" where
  "ag_do_recv bs [] a = (SOCK_COMP, [], a)"
| "ag_do_recv bs (r # rs) a =
     (case r of
        Got d \<Rightarrow>
          let a = a\<lparr>ag_recv := mybuff_setdata bs (ag_recv a) d\<rparr>
          in if length d = 2048 then ag_do_recv bs rs a else (SOCK_COMP, rs, a)
      | Peer_closed \<Rightarrow> (SOCK_CLOSE, rs, a)
      | R_EINTR \<Rightarrow> ag_do_recv bs rs a
      | R_EAGAIN \<Rightarrow> (SOCK_COMP, rs, a)
      | R_FAIL \<Rightarrow> (SOCK_CLOSE, rs, a))"

text \<open>The requests received, until one is not complete.  A message of length zero is never done with: no result.\<close>

partial_function (option) ag_check_reqs :: "agent_env \<Rightarrow> int \<Rightarrow> sender \<Rightarrow> (int \<times> sender) option" where
  "ag_check_reqs e outdata a =
     (case agent_check_req e (agent.truncate a) of
        None \<Rightarrow> None
      | Some (r, flag, b) \<Rightarrow>
          let a = on_agent (\<lambda>_. b) a; outdata = (if flag \<and> outdata < 1 then 1 else outdata)
          in if r = -1 then Some (outdata, a) else ag_check_reqs e outdata a)"

section \<open>The loop\<close>

text \<open>
  One turn: \<open>sel\<close> is the result of \<^verbatim>\<open>select\<close> with the two sets, \<open>now\<close> the time at which the turn before ended.  When nothing waits the
  set of writable sockets is not set anew, so that it says whatever it did the last time.  The second result says
  that the loop goes on.
\<close>

record turn =
  tn_now :: int
  tn_select :: int
  tn_write :: bool
  tn_read :: bool
  tn_send :: "send_ret list"
  tn_recv :: "recv_ret list"

definition or_1 :: "int \<Rightarrow> int" where
  "or_1 o' = (if o' mod 2 = 0 then o' + 1 else o')"

definition ag_prepare :: "agent_env \<Rightarrow> int \<Rightarrow> int \<Rightarrow> int \<times> int \<times> sender \<Rightarrow> int \<times> int \<times> sender" where
  "ag_prepare e heartbeat now = (\<lambda>(outdata, last_hb, a).
     let (outdata, a) = get_most_old_file e (outdata, a)
     in if outdata = 2 then (outdata, last_hb, a)
        else let (more, _) = do_scan e True (agent.truncate a); a = on_agent (\<lambda>b. snd (do_scan e True b)) a;
                 outdata = (if more then or_1 outdata else outdata)
          in if now - last_hb > heartbeat then (or_1 outdata, now, on_agent (do_hb e) a) else (outdata, last_hb, a))"

definition ag_turn :: "agent_env \<Rightarrow> int \<Rightarrow> turn \<Rightarrow> int \<times> int \<times> sender \<Rightarrow> (bool \<times> int \<times> int \<times> sender) option" where
  "ag_turn e heartbeat t s =
     (case ag_prepare e heartbeat (tn_now t) s of (outdata, last_hb, a) \<Rightarrow>
        if tn_select t = -1 then Some (False, outdata, last_hb, a)
        else if tn_select t = 0 then Some (True, outdata, last_hb, a)
        else let (ret, _, a) = (if tn_write t then ag_do_send e (tn_send t) a else (SOCK_COMP, [], a));
                 outdata = (if ret = SOCK_SEND then 1 else if ret = SOCK_SEND_FILE then 2 else 0)
          in if ret = SOCK_CLOSE then Some (False, outdata, last_hb, a)
             else if \<not> tn_read t then Some (True, outdata, last_hb, a)
             else case ag_do_recv (ag_buff e) (tn_recv t) a of (ret, _, a) \<Rightarrow>
               if ret = SOCK_CLOSE then Some (False, outdata, last_hb, a)
               else map_option (\<lambda>(outdata, a). (True, outdata, last_hb, a)) (ag_check_reqs e outdata a))"

fun ag_turns :: "agent_env \<Rightarrow> int \<Rightarrow> turn list \<Rightarrow> int \<times> int \<times> sender \<Rightarrow> (int \<times> int \<times> sender) option" where
  "ag_turns e heartbeat [] s = Some s"
| "ag_turns e heartbeat (t # ts) s =
     (if ag_stop (snd (snd s)) then Some s
      else case ag_turn e heartbeat t s of
        None \<Rightarrow> None
      | Some (go_on, s) \<Rightarrow> if go_on then ag_turns e heartbeat ts s else Some s)"

text \<open>\<^verbatim>\<open>do_run\<close> from the point where the socket is connected, at time \<open>start\<close>.\<close>

definition do_run_connected ::
  "agent_env \<Rightarrow> string \<Rightarrow> int \<Rightarrow> dir_entries option \<Rightarrow> int \<Rightarrow> turn list \<Rightarrow> sender \<Rightarrow> (int \<times> int \<times> sender) option" where
  "do_run_connected e tmpdir heartbeat entries start ts a =
     (let a = a\<lparr>ag_send := fst (mybuff_reinit (ag_buff e) (ag_send a)), ag_recv := fst (mybuff_reinit (ag_buff e) (ag_recv a))\<rparr>;
          a = scantmpdir e tmpdir entries (on_agent (do_login e) a)
      in ag_turns e heartbeat ts (1, start, a))"

text \<open>The first server of the list that can be reached; \<open>resolve\<close> gives the address of a domain, \<open>connect\<close> a socket.\<close>

fun connect_server :: "(string \<Rightarrow> string option) \<Rightarrow> (string \<Rightarrow> int option) \<Rightarrow> string list \<Rightarrow> int option" where
  "connect_server resolve connect [] = None"
| "connect_server resolve connect (s # ss) =
     (case (if str2ip s = INADDR_NONE then resolve s else Some s) of
        None \<Rightarrow> connect_server resolve connect ss
      | Some host \<Rightarrow> (case connect host of None \<Rightarrow> connect_server resolve connect ss | Some fd \<Rightarrow> Some fd))"

text \<open>\<^verbatim>\<open>do_run\<close> behind its \<^verbatim>\<open>return\<close>: without a server the records go to the file of the day.\<close>

definition do_run_rest ::
  "agent_env \<Rightarrow> (string \<Rightarrow> string option) \<Rightarrow> (string \<Rightarrow> int option) \<Rightarrow> string list \<Rightarrow> string \<Rightarrow> int \<Rightarrow> dir_entries option \<Rightarrow> int \<Rightarrow>
   turn list \<Rightarrow> sender \<Rightarrow> sender option" where
  "do_run_rest e resolve connect servers tmpdir heartbeat entries start ts a =
     (case connect_server resolve connect servers of
        None \<Rightarrow>
          let a = a\<lparr>ag_send := fst (mybuff_reinit (ag_buff e) (ag_send a)), ag_recv := fst (mybuff_reinit (ag_buff e) (ag_recv a))\<rparr>;
              (outdata, _) = do_scan e False (agent.truncate a); a = on_agent (\<lambda>b. snd (do_scan e False b)) a
          in Some (if outdata then on_agent (dump_to_file e tmpdir) a else a)
      | Some fd \<Rightarrow> map_option (\<lambda>(_, _, a). a) (do_run_connected e tmpdir heartbeat entries start ts a))"

section \<open>Nothing is lost\<close>

definition file_rest :: "sender \<Rightarrow> string" where
  "file_rest a = (case mybuff_getfile (ag_send a) of None \<Rightarrow> [] | Some (fd, start, len) \<Rightarrow> drop (nat start) (the (open_files a fd)))"

definition sender_ok :: "sender \<Rightarrow> bool" where
  "sender_ok a \<longleftrightarrow> buff_ok (ag_send a) \<and>
     (case mybuff_getfile (ag_send a) of None \<Rightarrow> True
      | Some (fd, start, len) \<Rightarrow> 0 \<le> start \<and> nat start + len = length (the (open_files a fd)))"

lemma skipdata_file: "mybuff_getfile (mybuff_skipdata b n) = mybuff_getfile b"
  by (simp add: mybuff_skipdata_def mybuff_getfile_def split: option.split)

lemma send_data_conserves:
  "sender_ok a \<Longrightarrow> d = pending (ag_send a) \<Longrightarrow> ag_send_data d rs a = (ret, rs', a') \<Longrightarrow>
   sender_ok a' \<and> file_rest a' = file_rest a \<and> sent a' @ pending (ag_send a') = sent a @ pending (ag_send a) \<and> ag_fs a' = ag_fs a \<and>
   (ret = SOCK_COMP \<longrightarrow> pending (ag_send a') = [])"
proof (induction d rs a rule: ag_send_data.induct)
  case (2 d r rs a)
  show ?case
  proof (cases r)
    case (Sent n)
    then show ?thesis using 2(2-) skipdata_spec [of "ag_send a" "min n (length d)"]
      by (auto simp: Let_def sender_ok_def file_rest_def skipdata_file SOCK_SEND_def SOCK_COMP_def min_def split: if_splits option.splits)
  qed (use 2 in \<open>simp_all add: SOCK_SEND_def SOCK_COMP_def SOCK_CLOSE_def split: if_splits\<close>)
qed (simp add: SOCK_SEND_def SOCK_COMP_def)

lemma rm_last_same:
  "ag_send (rm_last_send_file e a) = ag_send a" "open_files (rm_last_send_file e a) = open_files a" "sent (rm_last_send_file e a) = sent a"
  by (simp_all add: rm_last_send_file_def)

lemma send_file_conserves:
  "sender_ok a \<Longrightarrow> mybuff_getfile (ag_send a) = Some (fd, start, len) \<Longrightarrow> d = take (min len GSIZE) (file_rest a) \<Longrightarrow>
   ag_send_file e d len rs a = (ret, rs', a') \<Longrightarrow>
   sender_ok a' \<and> pending (ag_send a') = pending (ag_send a) \<and> sent a' @ file_rest a' = sent a @ file_rest a \<and>
   (ag_fs a' \<noteq> ag_fs a \<longrightarrow> file_rest a' = [])"
proof (induction e d len rs a rule: ag_send_file.induct)
  case (2 e d len r rs a)
  have f: "buf_fd (ag_send a) = fd" "fd \<ge> 0" "foffset (ag_send a) = start" "flen (ag_send a) = len" "0 < len"
    using 2(3) by (auto simp: mybuff_getfile_def split: if_splits)
  have rest: "file_rest a = drop (nat start) (the (open_files a fd))" "length (file_rest a) = len" "0 \<le> start"
    using 2(2,3) by (auto simp: sender_ok_def file_rest_def)
  show ?case
  proof (cases r)
    case (Sent k)
    define n where "n = min k (length d)"
    have nl: "n \<le> len" "take n d = take n (file_rest a)" using 2(4) rest(2) by (simp_all add: n_def)
    define b where "b = fst (mybuff_skipfile (ag_send a) n)"
    have b: "b = (if len \<le> n then (ag_send a)\<lparr>buf_fd := -1, foffset := 0, flen := 0\<rparr>
        else (ag_send a)\<lparr>foffset := start + int n, flen := len - n\<rparr>)" using f by (simp add: b_def mybuff_skipfile_def)
    define a2 where "a2 = a\<lparr>ag_send := b, sent := sent a @ take n (file_rest a)\<rparr>"
    have "sender_ok a2 \<and> pending b = pending (ag_send a) \<and> file_rest a2 = drop n (file_rest a)"
      using 2(2,3) f rest nl(1) by (auto simp: a2_def b sender_ok_def file_rest_def mybuff_getfile_def buff_ok_def pending_def
          nat_add_distrib add.commute split: option.splits)
    moreover have "a' = (if n < len then a2 else rm_last_send_file e a2)"
      using 2(5) Sent by (auto simp: Let_def a2_def b_def n_def nl(2) [unfolded n_def] split: if_splits)
    moreover have "sender_ok (rm_last_send_file e a2) = sender_ok a2" "file_rest (rm_last_send_file e a2) = file_rest a2"
      by (simp_all add: sender_ok_def file_rest_def rm_last_same split: option.split)
    moreover have "sent a2 = sent a @ take n (file_rest a)" "ag_send a2 = b" "ag_fs a2 = ag_fs a" by (simp_all add: a2_def)
    ultimately show ?thesis using rest(2) by (simp add: rm_last_same)
  qed (use 2 in \<open>simp_all\<close>)
qed simp

text \<open>What \<^verbatim>\<open>do_send\<close> sends, keeps in the buffer and has left of the file is together always the same, and a file is
  removed only when its last byte has been sent.\<close>

theorem agent_send_conserves:
  assumes "sender_ok a" "ag_do_send e rs a = (ret, rs', a')"
  shows "sender_ok a' \<and> sent a' @ pending (ag_send a') @ file_rest a' = sent a @ pending (ag_send a) @ file_rest a \<and>
    (ag_fs a' \<noteq> ag_fs a \<longrightarrow> pending (ag_send a') = [] \<and> file_rest a' = [])"
proof -
  have g: "mybuff_getdata (ag_send a) = (if pending (ag_send a) = [] then (-1, []) else (0, pending (ag_send a)))"
    using assms(1) by (simp add: getdata_spec sender_ok_def)
  obtain ret1 rs1 a1 where d: "(if fst (mybuff_getdata (ag_send a)) = 0 then ag_send_data (snd (mybuff_getdata (ag_send a))) rs a else (SOCK_COMP, rs, a)) =
      (ret1, rs1, a1)" by (metis prod_cases3)
  have a1: "sender_ok a1 \<and> file_rest a1 = file_rest a \<and> sent a1 @ pending (ag_send a1) = sent a @ pending (ag_send a) \<and> ag_fs a1 = ag_fs a \<and>
      (ret1 = SOCK_COMP \<longrightarrow> pending (ag_send a1) = [])"
    using d assms(1) send_data_conserves [OF assms(1) refl] by (auto simp: g split: if_splits)
  show ?thesis
  proof (cases "mybuff_getfile (ag_send a1) = None \<or> ret1 \<noteq> SOCK_COMP")
    case True
    then have "a' = a1" using assms(2) d by (auto simp: ag_do_send_def split_beta Let_def split: option.splits if_splits)
    then show ?thesis using a1 by (metis append_assoc)
  next
    case False
    then obtain fd start len where f: "mybuff_getfile (ag_send a1) = Some (fd, start, len)" "ret1 = SOCK_COMP" by auto
    then have "ag_send_file e (take (min len GSIZE) (file_rest a1)) len rs1 a1 = (ret, rs', a')"
      using assms(2) d by (simp add: ag_do_send_def split_beta Let_def file_rest_def)
    from send_file_conserves [OF _ f(1) refl this] show ?thesis using a1 f(2) by (metis append_Nil append_assoc)
  qed
qed

end
